(* ===== verification/Prelude.thy ===== *)
theory Prelude
  imports Complex_Main "HOL-Library.Word" "HOL-Library.Multiset" "HOL-Library.Sublist"
begin

text \<open>
  What every component theory of the development shares: the names of the machine types, the
  two list operations the Rust code performs by index (\<open>VecDeque::remove\<close> and "remove these
  indices in reverse order"), the drop-oldest queue, the fixed-width little and big endian
  integers of the wire formats, and the three interfaces the components implement:

    \<^item> \<open>bounded_buffer\<close> and its extension \<open>drop_oldest\<close>: an in-memory buffer with a capacity;
    \<^item> \<open>prefix_codec\<close>: a self-delimiting byte encoding;
    \<^item> \<open>guarded_machine\<close>: a state machine with an invariant.
\<close>

section \<open>Machine types\<close>

type_synonym byte = "8 word"
type_synonym u8 = "8 word"
type_synonym u32 = "32 word"
type_synonym u64 = "64 word"

text \<open>\<open>u64::saturating_add\<close> on numbers that are kept as naturals (seconds since the epoch);
  \<open>saturating_sub\<close> is the subtraction of \<open>nat\<close>.\<close>

definition u64_max :: nat where
  "u64_max = 18446744073709551615"

definition sat_add64 :: "nat \<Rightarrow> nat \<Rightarrow> nat" where
  "sat_add64 a b = min (a + b) u64_max"

lemma sat_add64_mono [intro]: "a \<le> b \<Longrightarrow> sat_add64 a c \<le> sat_add64 b c"
  by (simp add: sat_add64_def)

lemma sat_add64_ge [simp]: "a \<le> u64_max \<Longrightarrow> a \<le> sat_add64 a c"
  by (simp add: sat_add64_def)

named_theorems word_bounds \<open>bounds and no-overflow facts on machine words\<close>

lemma unat_succ_no_wrap [word_bounds]:
  fixes h t :: "'a::len word"
  assumes "h < t"
  shows "unat (h + 1) = Suc (unat h)"
proof -
  have "unat h < unat t" using assms by (simp add: word_less_nat_alt)
  moreover have "unat t < 2 ^ LENGTH('a)" by (rule unsigned_less)
  ultimately have "Suc (unat h) < 2 ^ LENGTH('a)" by linarith
  thus ?thesis by (simp add: unat_word_ariths)
qed

lemma unat_u8_le [word_bounds]: "unat (x :: u8) \<le> 255"
  using unsigned_less [of x, where 'a = nat] by simp

section \<open>Lists updated by index\<close>

text \<open>\<open>VecDeque::remove(i)\<close> drops the element at \<open>i\<close> and shifts what follows; out of range it
  changes nothing.\<close>

definition remove_nth :: "nat \<Rightarrow> 'a list \<Rightarrow> 'a list" where
  "remove_nth i xs = take i xs @ drop (Suc i) xs"

lemma remove_nth_append [simp]: "remove_nth (length pre) (pre @ x # xs) = pre @ xs"
  by (simp add: remove_nth_def)

lemma length_remove_nth: "i < length xs \<Longrightarrow> length (remove_nth i xs) = length xs - 1"
  by (simp add: remove_nth_def)

lemma mset_remove_nth: "i < length xs \<Longrightarrow> add_mset (xs ! i) (mset (remove_nth i xs)) = mset xs"
proof -
  assume i: "i < length xs"
  have "mset xs = mset (take i xs @ xs ! i # drop (Suc i) xs)"
    using i by (simp add: id_take_nth_drop [symmetric])
  thus ?thesis by (simp add: remove_nth_def)
qed

lemma set_remove_nth: "set (remove_nth i xs) \<subseteq> set xs"
  by (auto simp: remove_nth_def dest: in_set_takeD in_set_dropD)

text \<open>\<open>for idx in to_remove.into_iter().rev() { buf.remove(idx) }\<close>\<close>

definition remove_rev :: "nat list \<Rightarrow> 'a list \<Rightarrow> 'a list" where
  "remove_rev idxs xs = fold remove_nth (rev idxs) xs"

fun positions :: "('a \<Rightarrow> bool) \<Rightarrow> nat \<Rightarrow> 'a list \<Rightarrow> nat list" where
  "positions P k [] = []"
| "positions P k (x # xs) = (if P x then k # positions P (Suc k) xs else positions P (Suc k) xs)"

lemma remove_rev_positions_aux:
  "remove_rev (positions P (length pre) xs) (pre @ map f xs) = pre @ map f (filter (Not \<circ> P) xs)"
proof (induction xs arbitrary: pre)
  case Nil
  show ?case by (simp add: remove_rev_def)
next
  case (Cons x xs)
  from Cons.IH [of "pre @ [f x]"]
  show ?case by (simp add: remove_rev_def)
qed

lemma remove_rev_positions:
  "remove_rev (positions P 0 xs) (map f xs) = map f (filter (Not \<circ> P) xs)"
  using remove_rev_positions_aux [of P "[]" xs f] by simp

lemma fold_snoc_append: "fold (\<lambda>x acc. acc @ g x) xs acc = acc @ concat (map g xs)"
  by (induction xs arbitrary: acc) auto

lemma filter_idem_map:
  assumes "\<And>x. x \<in> set xs \<Longrightarrow> P x \<Longrightarrow> P (f x)"
  shows "filter P (map f (filter P xs)) = map f (filter P xs)"
  using assms by (induction xs) auto

section \<open>The drop-oldest queue\<close>

text \<open>The last \<open>n\<close> elements of a list.\<close>

definition last_n :: "nat \<Rightarrow> 'a list \<Rightarrow> 'a list" where
  "last_n n xs = drop (length xs - n) xs"

lemma length_last_n [simp]: "length (last_n n xs) = min n (length xs)"
  by (simp add: last_n_def)

lemma last_n_id [simp]: "length xs \<le> n \<Longrightarrow> last_n n xs = xs"
  by (simp add: last_n_def)

lemma set_last_n: "set (last_n n xs) \<subseteq> set xs"
  by (simp add: last_n_def set_drop_subset)

lemma set_tl_subset: "set (tl xs) \<subseteq> set xs"
  by (cases xs) auto

lemma last_n_append_last_n: "last_n n (last_n n xs @ ys) = last_n n (xs @ ys)"
  by (cases "length xs \<le> n") (simp_all add: last_n_def drop_append add.commute)

lemma last_n_suffix: "suffix (last_n n xs) xs"
  by (simp add: last_n_def suffix_drop)

lemma distinct_last_n [simp]: "distinct xs \<Longrightarrow> distinct (last_n n xs)"
  by (simp add: last_n_def)

text \<open>One \<open>push_back\<close> followed by \<open>while q.len() > cap { q.pop_front() }\<close>.\<close>

fun trim_front :: "nat \<Rightarrow> 'a list \<Rightarrow> 'a list" where
  "trim_front cap [] = []"
| "trim_front cap (x # xs) = (if length (x # xs) > cap then trim_front cap xs else x # xs)"

lemma trim_front_last_n: "trim_front cap xs = last_n cap xs"
  by (induction xs) (auto simp: last_n_def Suc_diff_le)

section \<open>Interfaces\<close>

subsection \<open>Buffers with a capacity\<close>

text \<open>A buffer that keeps only what it was given and never holds more than \<open>cap\<close> elements.\<close>

locale bounded_buffer =
  fixes push :: "'a \<Rightarrow> 's \<Rightarrow> 's"
    and contents :: "'s \<Rightarrow> 'a list"
    and cap :: nat
  assumes push_bounded: "length (contents s) \<le> cap \<Longrightarrow> length (contents (push x s)) \<le> cap"
    and push_subset: "set (contents (push x s)) \<subseteq> insert x (set (contents s))"
begin

lemma run_bounded:
  "length (contents s) \<le> cap \<Longrightarrow> length (contents (fold push xs s)) \<le> cap"
  by (induction xs arbitrary: s) (simp_all add: push_bounded)

lemma run_subset: "set (contents (fold push xs s)) \<subseteq> set xs \<union> set (contents s)"
proof (induction xs arbitrary: s)
  case (Cons x xs)
  show ?case using Cons [of "push x s"] push_subset [of x s] by auto
qed simp

end

locale drop_oldest = bounded_buffer +
  assumes push_last: "length (contents s) \<le> cap \<Longrightarrow> contents (push x s) = last_n cap (contents s @ [x])"
begin

lemma run_last:
  "length (contents s) \<le> cap \<Longrightarrow> contents (fold push xs s) = last_n cap (contents s @ xs)"
proof (induction xs arbitrary: s)
  case (Cons x xs)
  have "contents (fold push xs (push x s)) = last_n cap (contents (push x s) @ xs)"
    by (rule Cons.IH) (rule push_bounded [OF Cons.prems])
  thus ?case by (simp add: push_last [OF Cons.prems] last_n_append_last_n)
qed simp

text \<open>Whatever was pushed among the last \<open>cap\<close> elements is still there.\<close>

lemma run_keeps_recent:
  assumes "length (contents s) \<le> cap" "length ys < cap" "xs = pre @ x # ys"
  shows "x \<in> set (contents (fold push xs s))"
proof -
  let ?l = "contents s @ pre @ x # ys"
  let ?k = "length ?l - cap"
  have "?k \<le> length (contents s @ pre)" using assms by simp
  hence "last_n cap ?l = drop ?k (contents s @ pre) @ x # ys"
    by (simp add: last_n_def drop_append)
  moreover have "contents (fold push xs s) = last_n cap ?l"
    unfolding assms(3) by (rule run_last [OF assms(1)])
  ultimately show ?thesis by simp
qed

end

subsection \<open>Self-delimiting codecs\<close>

locale prefix_codec =
  fixes enc :: "'a \<Rightarrow> byte list"
    and dec :: "byte list \<Rightarrow> ('a \<times> byte list) option"
    and valid :: "'a \<Rightarrow> bool"
  assumes dec_enc: "valid x \<Longrightarrow> dec (enc x @ rest) = Some (x, rest)"
begin

lemma enc_prefix_free:
  assumes "valid x" "valid y" "enc x @ r = enc y @ s"
  shows "x = y \<and> r = s"
proof -
  have "Some (x, r) = dec (enc x @ r)" by (rule dec_enc [OF assms(1), symmetric])
  also have "\<dots> = dec (enc y @ s)" by (simp only: assms(3))
  also have "\<dots> = Some (y, s)" by (rule dec_enc [OF assms(2)])
  finally show ?thesis by simp
qed

lemma enc_inj:
  assumes "valid x" "valid y" "enc x = enc y"
  shows "x = y"
proof -
  have "enc x @ [] = enc y @ []" using assms(3) by (simp only:)
  from enc_prefix_free [OF assms(1,2) this] show ?thesis by (rule conjunct1)
qed

lemma concat_inj:
  assumes "list_all valid xs" "list_all valid ys" "length xs = length ys"
    "concat (map enc xs) @ r = concat (map enc ys) @ s"
  shows "xs = ys \<and> r = s"
  using assms(3,1,2,4)
proof (induction xs ys rule: list_induct2)
  case (Cons x xs y ys)
  have "x = y \<and> concat (map enc xs) @ r = concat (map enc ys) @ s"
    using Cons.prems by (intro enc_prefix_free) auto
  with Cons show ?case by simp
qed simp

end

subsection \<open>State machines with an invariant\<close>

locale guarded_machine =
  fixes step :: "'i \<Rightarrow> 's \<Rightarrow> 's"
    and inv :: "'s \<Rightarrow> bool"
    and ok :: "'i \<Rightarrow> bool"
  assumes step_inv: "inv s \<Longrightarrow> ok i \<Longrightarrow> inv (step i s)"
begin

lemma run_inv: "inv s \<Longrightarrow> list_all ok is \<Longrightarrow> inv (fold step is s)"
  by (induction "is" arbitrary: s) (simp_all add: step_inv)

text \<open>A measure that no step decreases is monotone along a run.\<close>

lemma run_mono:
  fixes m :: "'s \<Rightarrow> 'm::preorder"
  assumes "\<And>s i. inv s \<Longrightarrow> ok i \<Longrightarrow> m s \<le> m (step i s)" "inv s" "list_all ok is"
  shows "m s \<le> m (fold step is s)"
  using assms(2,3)
proof (induction "is" arbitrary: s)
  case (Cons i "is")
  have "m s \<le> m (step i s)" using assms(1) Cons.prems by simp
  also have "\<dots> \<le> m (fold step is (step i s))"
    using Cons.IH [of "step i s"] Cons.prems step_inv by simp
  finally show ?case by simp
qed simp

end

end
