(* ===== verification/Dtn.thy ===== *)
theory Dtn
  imports Prelude
begin

text \<open>
  The store-and-forward router, \<open>core/crates/dtn-router/src/lib.rs\<close>: messages, the router's
  state, \<open>store\<close>, \<open>encounter\<close>, \<open>tick\<close> and their helpers. Every method takes the \<open>buffers\<close>
  mutex once, so one method is one atomic transition here. The counters are \<open>u64\<close> in the
  code and only ever incremented by the number of messages handled, so they are kept as
  naturals; \<open>ttl\<close>, \<open>hop_count\<close>, \<open>priority\<close> and \<open>timestamp_ms\<close> keep their width.
\<close>

section \<open>Data\<close>

datatype message_type = MtAlert | MtMutualAid | MtVoice | MtTransaction | MtAiQuery | MtAiResponse

record dtn_message =
  dm_id :: string
  dm_sender :: string
  dm_destination :: "string option"
  dm_payload :: "byte list"
  dm_type :: message_type
  dm_ttl :: u8
  dm_hop_count :: u8
  dm_timestamp_ms :: u64
  dm_priority :: u8
  dm_delivered_to :: "string list"

record router_stats =
  total_stored :: nat
  total_forwarded :: nat
  total_expired :: nat
  total_dropped :: nat
  total_delivered :: nat

record dtn_router =
  buffers :: "string \<Rightarrow> dtn_message list option"
  max_buffer :: nat
  stats :: router_stats

definition zero_stats :: router_stats where
  "zero_stats = \<lparr>total_stored = 0, total_forwarded = 0, total_expired = 0, total_dropped = 0,
    total_delivered = 0\<rparr>"

definition dtn_new :: "nat \<Rightarrow> dtn_router" where
  "dtn_new n = \<lparr>buffers = (\<lambda>_. None), max_buffer = n, stats = zero_stats\<rparr>"

section \<open>Operations\<close>

subsection \<open>Storing\<close>

text \<open>The fold of \<open>worst_index\<close>: \<open>i\<close> is the index of the head, the option the worst so far.\<close>

fun worst_from :: "nat \<Rightarrow> (nat \<times> u8 \<times> u64) option \<Rightarrow> dtn_message list \<Rightarrow> (nat \<times> u8 \<times> u64) option" where
  "worst_from i w [] = w"
| "worst_from i w (m # ms) =
     (let is_worse = (case w of
            None \<Rightarrow> True
          | Some (_, w_prio, w_ts) \<Rightarrow>
              dm_priority m > w_prio \<or> dm_priority m = w_prio \<and> dm_timestamp_ms m < w_ts)
      in worst_from (Suc i) (if is_worse then Some (i, dm_priority m, dm_timestamp_ms m) else w) ms)"

definition worst_index :: "dtn_message list \<Rightarrow> nat option" where
  "worst_index buf = map_option fst (worst_from 0 None buf)"

text \<open>The critical section of \<open>store\<close>: (replaced, rejected, the buffer after).\<close>

definition store_in :: "nat \<Rightarrow> dtn_message \<Rightarrow> dtn_message list \<Rightarrow> bool \<times> bool \<times> dtn_message list" where
  "store_in cap msg buf =
     (let (replaced, rejected, buf1) =
        (if length buf \<ge> cap
         then (case worst_index buf of
                 Some idx \<Rightarrow>
                   (if dm_priority msg < dm_priority (buf ! idx)
                    then (True, False, remove_nth idx buf)
                    else (False, True, buf))
               | None \<Rightarrow> (False, False, buf))
         else (False, False, buf))
      in (replaced, rejected, if rejected then buf1 else buf1 @ [msg]))"

definition dtn_store :: "string \<Rightarrow> dtn_message \<Rightarrow> dtn_router \<Rightarrow> bool \<times> dtn_router" where
  "dtn_store node msg r =
     (let buf = (case buffers r node of Some b \<Rightarrow> b | None \<Rightarrow> []);
          (replaced, rejected, buf') = store_in (max_buffer r) msg buf;
          st = stats r;
          st1 = (if replaced \<or> rejected then st\<lparr>total_dropped := total_dropped st + 1\<rparr> else st);
          st2 = (if \<not> rejected then st1\<lparr>total_stored := total_stored st1 + 1\<rparr> else st1)
      in (\<not> rejected, r\<lparr>buffers := (buffers r)(node := Some buf'), stats := st2\<rparr>))"

subsection \<open>Forwarding\<close>

definition push_unique :: "string list \<Rightarrow> string \<Rightarrow> string list" where
  "push_unique l peer = (if peer \<in> set l then l else l @ [peer])"

definition mark_served :: "string \<Rightarrow> string \<Rightarrow> dtn_message \<Rightarrow> dtn_message" where
  "mark_served frm to m =
     (let l1 = push_unique (dm_delivered_to m) to;
          l2 = (if frm \<noteq> to then push_unique l1 frm else l1)
      in m\<lparr>dm_delivered_to := l2\<rparr>)"

definition should_deliver :: "string \<Rightarrow> dtn_message \<Rightarrow> bool" where
  "should_deliver to m =
     (case dm_destination m of Some d \<Rightarrow> d = to | None \<Rightarrow> to \<notin> set (dm_delivered_to m))"

text \<open>The variables of the loop of \<open>collect_forwarded\<close>; \<open>cf_buf\<close> is the part of the buffer the
  loop has passed, with the messages it changed in place.\<close>

record cf_acc =
  cf_buf :: "dtn_message list"
  cf_to_remove :: "nat list"
  cf_forwarded :: "dtn_message list"
  cf_fwd :: nat
  cf_del :: nat
  cf_exp :: nat

definition cf_init :: cf_acc where
  "cf_init = \<lparr>cf_buf = [], cf_to_remove = [], cf_forwarded = [], cf_fwd = 0, cf_del = 0, cf_exp = 0\<rparr>"

definition cf_step :: "string \<Rightarrow> string \<Rightarrow> nat \<times> dtn_message \<Rightarrow> cf_acc \<Rightarrow> cf_acc" where
  "cf_step frm to = (\<lambda>(idx, msg) acc.
     if dm_hop_count msg \<ge> dm_ttl msg
     then acc\<lparr>cf_exp := cf_exp acc + 1, cf_to_remove := cf_to_remove acc @ [idx],
              cf_buf := cf_buf acc @ [msg]\<rparr>
     else if should_deliver to msg
     then (let deliverable = mark_served frm to (msg\<lparr>dm_hop_count := dm_hop_count msg + 1\<rparr>);
               acc1 = acc\<lparr>cf_fwd := cf_fwd acc + 1, cf_del := cf_del acc + 1,
                          cf_forwarded := cf_forwarded acc @ [deliverable]\<rparr>
           in if dm_destination msg = None
              then acc1\<lparr>cf_buf := cf_buf acc @ [mark_served frm to msg]\<rparr>
              else acc1\<lparr>cf_to_remove := cf_to_remove acc @ [idx], cf_buf := cf_buf acc @ [msg]\<rparr>)
     else acc\<lparr>cf_buf := cf_buf acc @ [msg]\<rparr>)"

type_synonym dtn_buffers = "string \<Rightarrow> dtn_message list option"

definition collect_forwarded ::
    "dtn_buffers \<Rightarrow> string \<Rightarrow> string \<Rightarrow> dtn_buffers \<times> dtn_message list \<times> nat \<times> nat \<times> nat" where
  "collect_forwarded bufs frm to =
     (case bufs frm of
        None \<Rightarrow> (bufs, [], 0, 0, 0)
      | Some buf \<Rightarrow>
          (let acc = fold (cf_step frm to) (List.enumerate 0 buf) cf_init
           in (bufs(frm := Some (remove_rev (cf_to_remove acc) (cf_buf acc))),
               cf_forwarded acc, cf_fwd acc, cf_del acc, cf_exp acc)))"

definition dtn_encounter ::
    "string \<Rightarrow> string \<Rightarrow> dtn_router \<Rightarrow> (dtn_message list \<times> dtn_message list) \<times> dtn_router" where
  "dtn_encounter a b r =
     (let (bufs1, to_a, fwd_a, del_a, exp_a) = collect_forwarded (buffers r) b a;
          (bufs2, to_b, fwd_b, del_b, exp_b) = collect_forwarded bufs1 a b;
          st = stats r
      in ((to_a, to_b),
          r\<lparr>buffers := bufs2,
            stats := st\<lparr>total_forwarded := total_forwarded st + (fwd_a + fwd_b),
                         total_delivered := total_delivered st + (del_a + del_b),
                         total_expired := total_expired st + (exp_a + exp_b)\<rparr>\<rparr>))"

definition buffer_size :: "string \<Rightarrow> dtn_router \<Rightarrow> nat" where
  "buffer_size node r = (case buffers r node of Some b \<Rightarrow> length b | None \<Rightarrow> 0)"

subsection \<open>Ageing\<close>

text \<open>\<open>u8::saturating_sub(1)\<close>.\<close>

definition sat_pred :: "u8 \<Rightarrow> u8" where
  "sat_pred t = (if t = 0 then 0 else t - 1)"

definition tick_expires :: "dtn_message \<Rightarrow> bool" where
  "tick_expires m = (sat_pred (dm_ttl m) = 0)"

definition age :: "dtn_message \<Rightarrow> dtn_message" where
  "age m = m\<lparr>dm_ttl := sat_pred (dm_ttl m)\<rparr>"

definition dtn_tick :: "string \<Rightarrow> dtn_router \<Rightarrow> dtn_message list \<times> dtn_router" where
  "dtn_tick node r =
     (case buffers r node of
        None \<Rightarrow> ([], r)
      | Some buf \<Rightarrow>
          (let to_remove = positions tick_expires 0 buf;
               expired = filter tick_expires buf;
               buf1 = remove_rev to_remove buf;
               st = stats r
           in (expired,
               r\<lparr>buffers := (buffers r)(node := Some (map age buf1)),
                 stats := (if length expired > 0
                           then st\<lparr>total_expired := total_expired st + length expired\<rparr>
                           else st)\<rparr>)))"

section \<open>What the loops compute\<close>

subsection \<open>The least urgent message\<close>

definition worse :: "dtn_message \<Rightarrow> dtn_message \<Rightarrow> bool" where
  "worse a b = (dm_priority a > dm_priority b
     \<or> dm_priority a = dm_priority b \<and> dm_timestamp_ms a < dm_timestamp_ms b)"

lemma worse_trans: "worse a b \<Longrightarrow> \<not> worse c b \<Longrightarrow> worse a c"
  unfolding worse_def word_less_nat_alt word_unat_eq_iff by presburger

lemma not_worse_trans: "\<not> worse a b \<Longrightarrow> \<not> worse b c \<Longrightarrow> \<not> worse a c"
  unfolding worse_def word_less_nat_alt word_unat_eq_iff by presburger

definition first_worst :: "dtn_message list \<Rightarrow> nat \<Rightarrow> bool" where
  "first_worst buf i \<longleftrightarrow> i < length buf \<and> (\<forall>j<i. worse (buf ! i) (buf ! j))
     \<and> (\<forall>j<length buf. \<not> worse (buf ! j) (buf ! i))"

lemma first_worst_unique: "first_worst buf i \<Longrightarrow> first_worst buf j \<Longrightarrow> i = j"
  unfolding first_worst_def by (metis linorder_neqE_nat)

lemma first_worst_snoc:
  assumes "first_worst buf i"
  shows "first_worst (buf @ [m]) (if worse m (buf ! i) then length buf else i)"
proof (cases "worse m (buf ! i)")
  case True
  have "worse m (buf ! j)" if "j < length buf" for j
    using worse_trans [OF True] assms that by (auto simp: first_worst_def)
  moreover have "\<not> worse m m" and "\<And>a b. worse a b \<Longrightarrow> \<not> worse b a"
    by (auto simp: worse_def)
  ultimately show ?thesis
    using True by (auto simp: first_worst_def nth_append less_Suc_eq)
next
  case False
  thus ?thesis using assms by (auto simp: first_worst_def nth_append less_Suc_eq)
qed

lemma worst_from_first_worst:
  assumes "first_worst pre i"
  shows "\<exists>j. worst_from (length pre) (Some (i, dm_priority (pre ! i), dm_timestamp_ms (pre ! i))) buf
      = Some (j, dm_priority ((pre @ buf) ! j), dm_timestamp_ms ((pre @ buf) ! j))
    \<and> first_worst (pre @ buf) j"
  using assms
proof (induction buf arbitrary: pre i)
  case Nil
  thus ?case by auto
next
  case (Cons m buf)
  let ?k = "if worse m (pre ! i) then length pre else i"
  have k: "first_worst (pre @ [m]) ?k" by (rule first_worst_snoc [OF Cons.prems])
  have i: "i < length pre" using Cons.prems by (simp add: first_worst_def)
  have eq: "worst_from (length pre) (Some (i, dm_priority (pre ! i), dm_timestamp_ms (pre ! i))) (m # buf)
    = worst_from (length (pre @ [m]))
        (Some (?k, dm_priority ((pre @ [m]) ! ?k), dm_timestamp_ms ((pre @ [m]) ! ?k))) buf"
    using i by (cases "worse m (pre ! i)") (auto simp: worse_def nth_append)
  from Cons.IH [OF k] show ?case unfolding eq by simp
qed

lemma worst_index_Some:
  assumes "buf \<noteq> []"
  shows "\<exists>i. worst_index buf = Some i \<and> first_worst buf i"
proof -
  obtain m ms where buf: "buf = m # ms" using assms by (cases buf) auto
  have "first_worst [m] 0" by (auto simp: first_worst_def worse_def)
  from worst_from_first_worst [OF this, of ms] show ?thesis
    by (auto simp: worst_index_def buf)
qed

lemma worst_index_first_worst: "worst_index buf = Some i \<longleftrightarrow> first_worst buf i"
proof (cases "buf = []")
  case True
  thus ?thesis by (simp add: worst_index_def first_worst_def)
next
  case False
  from worst_index_Some [OF this] first_worst_unique show ?thesis by fastforce
qed

lemma worst_index_None [simp]: "worst_index buf = None \<longleftrightarrow> buf = []"
proof (cases "buf = []")
  case True
  thus ?thesis by (simp add: worst_index_def)
next
  case False
  with worst_index_Some [OF False] show ?thesis by auto
qed

lemma worst_index_Nil [simp]: "worst_index [] = None"
  by simp

lemma worst_index_less: "worst_index buf = Some i \<Longrightarrow> i < length buf"
  by (simp add: worst_index_first_worst first_worst_def)

subsection \<open>The forwarding loop\<close>

definition cf_dead :: "dtn_message \<Rightarrow> bool" where
  "cf_dead m = (dm_hop_count m \<ge> dm_ttl m)"

text \<open>What a peer \<open>to\<close> is handed for one message of \<open>frm\<close>'s buffer.\<close>

definition handover :: "string \<Rightarrow> string \<Rightarrow> dtn_message \<Rightarrow> dtn_message list" where
  "handover frm to m =
     (if \<not> cf_dead m \<and> should_deliver to m
      then [mark_served frm to (m\<lparr>dm_hop_count := dm_hop_count m + 1\<rparr>)] else [])"

text \<open>Which messages leave \<open>frm\<close>'s buffer, and how a kept one changes.\<close>

definition cf_leaves :: "string \<Rightarrow> dtn_message \<Rightarrow> bool" where
  "cf_leaves to m = (cf_dead m \<or> should_deliver to m \<and> dm_destination m \<noteq> None)"

definition cf_keep :: "string \<Rightarrow> string \<Rightarrow> dtn_message \<Rightarrow> dtn_message" where
  "cf_keep frm to m =
     (if \<not> cf_dead m \<and> should_deliver to m \<and> dm_destination m = None
      then mark_served frm to m else m)"

lemma cf_step_cases:
  "cf_step frm to (i, m) acc = acc\<lparr>
     cf_buf := cf_buf acc @ [cf_keep frm to m],
     cf_to_remove := cf_to_remove acc @ (if cf_leaves to m then [i] else []),
     cf_forwarded := cf_forwarded acc @ handover frm to m,
     cf_fwd := cf_fwd acc + length (handover frm to m),
     cf_del := cf_del acc + length (handover frm to m),
     cf_exp := cf_exp acc + (if cf_dead m then 1 else 0)\<rparr>"
  by (simp add: cf_step_def cf_keep_def cf_leaves_def handover_def cf_dead_def Let_def)

lemma cf_fold:
  "fold (cf_step frm to) (List.enumerate k buf) acc = acc\<lparr>
     cf_buf := cf_buf acc @ map (cf_keep frm to) buf,
     cf_to_remove := cf_to_remove acc @ positions (cf_leaves to) k buf,
     cf_forwarded := cf_forwarded acc @ concat (map (handover frm to) buf),
     cf_fwd := cf_fwd acc + length (concat (map (handover frm to) buf)),
     cf_del := cf_del acc + length (concat (map (handover frm to) buf)),
     cf_exp := cf_exp acc + length (filter cf_dead buf)\<rparr>"
  by (induction buf arbitrary: k acc) (simp_all add: cf_step_cases)

definition cf_rest :: "string \<Rightarrow> string \<Rightarrow> dtn_message list \<Rightarrow> dtn_message list" where
  "cf_rest frm to buf = map (cf_keep frm to) (filter (Not \<circ> cf_leaves to) buf)"

definition cf_out :: "string \<Rightarrow> string \<Rightarrow> dtn_message list \<Rightarrow> dtn_message list" where
  "cf_out frm to buf = concat (map (handover frm to) buf)"

lemma collect_forwarded_Some:
  "bufs frm = Some buf \<Longrightarrow> collect_forwarded bufs frm to =
     (bufs(frm := Some (cf_rest frm to buf)), cf_out frm to buf,
      length (cf_out frm to buf), length (cf_out frm to buf), length (filter cf_dead buf))"
  by (simp add: collect_forwarded_def cf_fold cf_init_def remove_rev_positions cf_rest_def
      cf_out_def Let_def)

lemma collect_forwarded_None [simp]:
  "bufs frm = None \<Longrightarrow> collect_forwarded bufs frm to = (bufs, [], 0, 0, 0)"
  by (simp add: collect_forwarded_def)

lemma mark_served_simps [simp]:
  "dm_id (mark_served f t m) = dm_id m"
  "dm_destination (mark_served f t m) = dm_destination m"
  "dm_payload (mark_served f t m) = dm_payload m"
  "dm_ttl (mark_served f t m) = dm_ttl m"
  "dm_hop_count (mark_served f t m) = dm_hop_count m"
  by (simp_all add: mark_served_def Let_def)

lemma set_push_unique [simp]: "set (push_unique l p) = insert p (set l)"
  by (auto simp: push_unique_def)

lemma distinct_push_unique [simp]: "distinct (push_unique l p) = distinct l"
  by (auto simp: push_unique_def)

lemma set_mark_served: "set (dm_delivered_to (mark_served f t m)) = {f, t} \<union> set (dm_delivered_to m)"
  by (auto simp: mark_served_def Let_def)

lemma distinct_mark_served [simp]:
  "distinct (dm_delivered_to (mark_served f t m)) = distinct (dm_delivered_to m)"
  by (auto simp: mark_served_def Let_def)

text \<open>Once a peer has been through, nothing of that buffer is for it any more.\<close>

lemma handover_after_keep:
  "\<not> cf_leaves to m \<Longrightarrow> handover frm to (cf_keep frm to m) = []"
  by (cases "dm_destination m")
    (auto simp: handover_def cf_keep_def cf_leaves_def cf_dead_def should_deliver_def
      set_mark_served)

lemma cf_keep_not_leaves: "\<not> cf_leaves to m \<Longrightarrow> \<not> cf_leaves to' (cf_keep frm to m) \<longleftrightarrow> \<not> cf_leaves to' m"
  by (cases "dm_destination m")
    (auto simp: cf_keep_def cf_leaves_def cf_dead_def should_deliver_def)

lemma cf_out_after_rest: "cf_out frm to (cf_rest frm to buf) = []"
  by (simp add: cf_out_def cf_rest_def handover_after_keep)

lemma filter_dead_rest: "filter cf_dead (cf_rest frm to buf) = []"
  by (auto simp: cf_rest_def cf_keep_def cf_leaves_def cf_dead_def filter_empty_conv)

lemma length_cf_rest: "length (cf_rest frm to buf) \<le> length buf"
  by (simp add: cf_rest_def)

lemma handover_cf_keep_other:
  "handover frm' to' (cf_keep frm to m) \<noteq> [] \<Longrightarrow> handover frm' to' m \<noteq> []"
  by (cases "dm_destination m")
    (auto simp: handover_def cf_keep_def cf_dead_def should_deliver_def set_mark_served split: if_splits)

subsection \<open>Storing\<close>

lemma store_in_cases:
  "store_in cap msg buf =
     (if length buf < cap \<or> buf = [] then (False, False, buf @ [msg])
      else let i = the (worst_index buf) in
        if dm_priority msg < dm_priority (buf ! i) then (True, False, remove_nth i buf @ [msg])
        else (False, True, buf))"
proof (cases "worst_index buf")
  case None
  hence "buf = []" by simp
  thus ?thesis using None by (simp add: store_in_def)
next
  case (Some i)
  hence "buf \<noteq> []" using worst_index_None [of buf] by (metis option.distinct(1))
  thus ?thesis using Some by (simp add: store_in_def Let_def)
qed

definition dtn_push :: "nat \<Rightarrow> dtn_message \<Rightarrow> dtn_message list \<Rightarrow> dtn_message list" where
  "dtn_push cap msg buf = snd (snd (store_in cap msg buf))"

lemma the_worst_index: "buf \<noteq> [] \<Longrightarrow> worst_index buf = Some (the (worst_index buf))"
  using worst_index_None [of buf] by (metis option.collapse)

interpretation dtnbuf: bounded_buffer "dtn_push cap" "\<lambda>b. b" "max 1 cap" for cap
proof
  fix buf :: "dtn_message list" and m
  assume "length buf \<le> max 1 cap"
  thus "length (dtn_push cap m buf) \<le> max 1 cap"
    using worst_index_less [OF the_worst_index, of buf]
    by (auto simp: dtn_push_def store_in_cases Let_def length_remove_nth)
next
  fix buf :: "dtn_message list" and m
  show "set (dtn_push cap m buf) \<subseteq> insert m (set buf)"
    using set_remove_nth [of "the (worst_index buf)" buf]
    by (auto simp: dtn_push_def store_in_cases Let_def)
qed

lemma dtn_store_buffers:
  "buffers (snd (dtn_store node msg r)) =
     (buffers r)(node := Some (dtn_push (max_buffer r) msg (case buffers r node of Some b \<Rightarrow> b | None \<Rightarrow> [])))"
  by (simp add: dtn_store_def dtn_push_def Let_def split: prod.split)

lemma dtn_store_max [simp]: "max_buffer (snd (dtn_store node msg r)) = max_buffer r"
  by (simp add: dtn_store_def Let_def split: prod.split)

section \<open>The router as a state machine\<close>

datatype dtn_op = DtnStore string dtn_message | DtnEncounter string string | DtnTick string

fun dtn_step :: "dtn_op \<Rightarrow> dtn_router \<Rightarrow> dtn_router" where
  "dtn_step (DtnStore n m) r = snd (dtn_store n m r)"
| "dtn_step (DtnEncounter a b) r = snd (dtn_encounter a b r)"
| "dtn_step (DtnTick n) r = snd (dtn_tick n r)"

definition dtn_inv :: "nat \<Rightarrow> dtn_router \<Rightarrow> bool" where
  "dtn_inv n r \<longleftrightarrow> max_buffer r = n
     \<and> (\<forall>node buf. buffers r node = Some buf \<longrightarrow> length buf \<le> max 1 n)
     \<and> total_delivered (stats r) = total_forwarded (stats r)"

lemma dtn_inv_new [simp]: "dtn_inv n (dtn_new n)"
  by (simp add: dtn_inv_def dtn_new_def zero_stats_def)

lemma collect_forwarded_bound:
  assumes "\<And>node buf. bufs node = Some buf \<Longrightarrow> length buf \<le> k"
    and "collect_forwarded bufs frm to = (bufs', out, f, d, e)"
  shows "(\<forall>node buf. bufs' node = Some buf \<longrightarrow> length buf \<le> k) \<and> f = d"
proof (cases "bufs frm")
  case None
  thus ?thesis using assms by auto
next
  case (Some buf)
  have "length (cf_rest frm to buf) \<le> k"
    using length_cf_rest [of frm to buf] assms(1) [OF Some] by linarith
  thus ?thesis using assms Some by (auto simp: collect_forwarded_Some split: if_splits)
qed

lemma dtn_encounter_inv: "dtn_inv n r \<Longrightarrow> dtn_inv n (snd (dtn_encounter a b r))"
proof -
  assume inv: "dtn_inv n r"
  obtain b1 o1 f1 d1 e1 where 1: "collect_forwarded (buffers r) b a = (b1, o1, f1, d1, e1)"
    by (cases "collect_forwarded (buffers r) b a") auto
  obtain b2 o2 f2 d2 e2 where 2: "collect_forwarded b1 a b = (b2, o2, f2, d2, e2)"
    by (cases "collect_forwarded b1 a b") auto
  have i1: "(\<forall>node buf. b1 node = Some buf \<longrightarrow> length buf \<le> max 1 n) \<and> f1 = d1"
    using inv by (intro collect_forwarded_bound [OF _ 1]) (auto simp: dtn_inv_def)
  have i2: "(\<forall>node buf. b2 node = Some buf \<longrightarrow> length buf \<le> max 1 n) \<and> f2 = d2"
    using i1 by (intro collect_forwarded_bound [OF _ 2]) auto
  show ?thesis using inv i1 i2 by (simp add: dtn_inv_def dtn_encounter_def 1 2 Let_def)
qed

lemma length_tick_rest: "length (remove_rev (positions P 0 xs) xs) \<le> length xs"
  using remove_rev_positions [of P xs "\<lambda>x. x"] by simp

lemma dtn_tick_inv: "dtn_inv n r \<Longrightarrow> dtn_inv n (snd (dtn_tick node r))"
proof (cases "buffers r node")
  case None
  thus "dtn_inv n r \<Longrightarrow> ?thesis" by (simp add: dtn_tick_def)
next
  case (Some buf)
  assume inv: "dtn_inv n r"
  hence "length buf \<le> max 1 n" using Some by (simp add: dtn_inv_def)
  hence "length (remove_rev (positions tick_expires 0 buf) buf) \<le> max 1 n"
    using length_tick_rest [of tick_expires buf] by linarith
  thus ?thesis using inv Some by (auto simp: dtn_inv_def dtn_tick_def Let_def)
qed

lemma dtn_store_inv: "dtn_inv n r \<Longrightarrow> dtn_inv n (snd (dtn_store node m r))"
proof -
  assume inv: "dtn_inv n r"
  let ?buf = "case buffers r node of Some b \<Rightarrow> b | None \<Rightarrow> []"
  have "length ?buf \<le> max 1 n" using inv by (auto simp: dtn_inv_def split: option.split)
  hence "length (dtn_push n m ?buf) \<le> max 1 n" by (rule dtnbuf.push_bounded)
  moreover have "total_delivered (stats (snd (dtn_store node m r)))
      = total_forwarded (stats (snd (dtn_store node m r)))"
    using inv by (simp add: dtn_inv_def dtn_store_def Let_def split: prod.split)
  ultimately show ?thesis
    using inv by (auto simp: dtn_inv_def dtn_store_buffers)
qed

interpretation dtnm: guarded_machine dtn_step "dtn_inv n" "\<lambda>_. True" for n
proof
  fix op r assume "dtn_inv n r"
  thus "dtn_inv n (dtn_step op r)"
    by (cases op) (auto intro: dtn_store_inv dtn_encounter_inv dtn_tick_inv)
qed

section \<open>Properties\<close>

text \<open>Whatever sequence of stores, encounters and ticks a router built by \<open>new(n)\<close> goes
  through, no node's buffer ever holds more than \<open>max 1 n\<close> messages (1 when \<open>n = 0\<close>: an empty
  buffer always accepts), and every forwarded message is counted as delivered.\<close>

theorem dtn_capacity:
  "buffer_size node (fold dtn_step ops (dtn_new n)) \<le> max 1 n
   \<and> total_delivered (stats (fold dtn_step ops (dtn_new n)))
       = total_forwarded (stats (fold dtn_step ops (dtn_new n)))"
proof -
  have "dtn_inv n (fold dtn_step ops (dtn_new n))" by (rule dtnm.run_inv) (simp_all add: list_all_iff)
  thus ?thesis by (auto simp: dtn_inv_def buffer_size_def split: option.split)
qed

text \<open>The documented eviction policy. On a full buffer an incoming message is stored only when
  it is strictly more urgent than the least urgent stored one; then exactly that message (the
  largest priority number, the oldest timestamp among those, the first in the queue among those)
  makes room, and the newcomer goes to the back. Otherwise the buffer is unchanged and the
  message is counted as dropped.\<close>

theorem dtn_store_full:
  assumes "buffers r node = Some buf" "max_buffer r \<le> length buf" "first_worst buf i"
  shows "dtn_store node msg r =
    (if dm_priority msg < dm_priority (buf ! i)
     then (True, r\<lparr>buffers := (buffers r)(node := Some (take i buf @ drop (Suc i) buf @ [msg])),
                   stats := (stats r)\<lparr>total_stored := total_stored (stats r) + 1,
                                      total_dropped := total_dropped (stats r) + 1\<rparr>\<rparr>)
     else (False, r\<lparr>buffers := (buffers r)(node := Some buf),
                    stats := (stats r)\<lparr>total_dropped := total_dropped (stats r) + 1\<rparr>\<rparr>))"
proof -
  have "worst_index buf = Some i" using assms(3) by (simp add: worst_index_first_worst)
  moreover from this have "buf \<noteq> []" by auto
  ultimately show ?thesis
    using assms(1,2)
    by (simp add: dtn_store_def store_in_cases remove_nth_def Let_def)
qed

definition sample_msg :: "string \<Rightarrow> string option \<Rightarrow> u8 \<Rightarrow> u8 \<Rightarrow> u64 \<Rightarrow> dtn_message" where
  "sample_msg i dest ttl prio ts =
     \<lparr>dm_id = i, dm_sender = ''s'', dm_destination = dest, dm_payload = [], dm_type = MtAlert,
      dm_ttl = ttl, dm_hop_count = 0, dm_timestamp_ms = ts, dm_priority = prio, dm_delivered_to = []\<rparr>"

lemma dtn_store_full_witness:
  "fst (dtn_store ''n'' (sample_msg ''c'' None 5 1 9)
     (fold dtn_step [DtnStore ''n'' (sample_msg ''a'' None 5 3 2), DtnStore ''n'' (sample_msg ''b'' None 5 3 1)]
        (dtn_new 2)))"
proof -
  let ?r = "fold dtn_step [DtnStore ''n'' (sample_msg ''a'' None 5 3 2), DtnStore ''n'' (sample_msg ''b'' None 5 3 1)]
        (dtn_new 2)"
  have 1: "buffers ?r ''n'' = Some [sample_msg ''a'' None 5 3 2, sample_msg ''b'' None 5 3 1]"
    by (simp add: dtn_store_buffers dtn_push_def store_in_def dtn_new_def)
  have 2: "max_buffer ?r \<le> length [sample_msg ''a'' None 5 3 2, sample_msg ''b'' None 5 3 1]"
    by (simp add: dtn_new_def)
  have 3: "first_worst [sample_msg ''a'' None 5 3 2, sample_msg ''b'' None 5 3 1] 1"
    by (simp add: first_worst_def worse_def sample_msg_def less_Suc_eq)
  show ?thesis
    by (subst dtn_store_full [OF 1 2 3]) (simp add: sample_msg_def)
qed

text \<open>Nothing is lost silently. A store that succeeds puts exactly the new message in and takes
  at most one message out, which is strictly less urgent than the newcomer and is the one counted
  as dropped; a store that fails leaves every buffer as it was and counts the message as
  dropped.\<close>

theorem dtn_store_conserves:
  "case dtn_store node msg r of (stored, r') \<Rightarrow>
     let buf = (case buffers r node of Some b \<Rightarrow> b | None \<Rightarrow> []) in
     if stored
     then total_stored (stats r') = total_stored (stats r) + 1
       \<and> (\<exists>lost. mset (the (buffers r' node)) + lost = add_mset msg (mset buf)
            \<and> (\<forall>x \<in># lost. dm_priority msg < dm_priority x)
            \<and> total_dropped (stats r') = total_dropped (stats r) + size lost \<and> size lost \<le> 1)
     else buffers r' node = Some buf \<and> total_stored (stats r') = total_stored (stats r)
       \<and> total_dropped (stats r') = total_dropped (stats r) + 1"
proof -
  define buf where "buf = (case buffers r node of Some b \<Rightarrow> b | None \<Rightarrow> [])"
  let ?i = "the (worst_index buf)"
  consider (room) "length buf < max_buffer r \<or> buf = []"
    | (evict) "\<not> (length buf < max_buffer r \<or> buf = [])" "dm_priority msg < dm_priority (buf ! ?i)"
    | (reject) "\<not> (length buf < max_buffer r \<or> buf = [])" "\<not> dm_priority msg < dm_priority (buf ! ?i)"
    by blast
  thus ?thesis
  proof cases
    case room
    thus ?thesis
      by (auto simp: dtn_store_def store_in_cases Let_def buf_def [symmetric] intro!: exI [of _ "{#}"])
  next
    case evict
    hence "?i < length buf" using worst_index_less [OF the_worst_index] by blast
    hence "add_mset (buf ! ?i) (mset (remove_nth ?i buf)) = mset buf" by (rule mset_remove_nth)
    thus ?thesis using evict
      by (auto simp: dtn_store_def store_in_cases Let_def buf_def [symmetric]
          intro!: exI [of _ "{#buf ! ?i#}"])
  next
    case reject
    thus ?thesis
      by (simp add: dtn_store_def store_in_cases Let_def buf_def [symmetric])
  qed
qed

text \<open>The index loop of \<open>collect_forwarded\<close> (mutate in place, collect the indices to drop, drop
  them in reverse) treats each message of the buffer independently: the receiver gets exactly the
  handed-over copies in buffer order, the buffer keeps exactly the other messages in order (a
  broadcast marked with both peers), and no other buffer changes.\<close>

theorem collect_forwarded_elementwise:
  "collect_forwarded bufs frm to = (case bufs frm of
      None \<Rightarrow> (bufs, [], 0, 0, 0)
    | Some buf \<Rightarrow> (let out = concat (map (handover frm to) buf) in
        (bufs(frm \<mapsto> map (cf_keep frm to) (filter (\<lambda>m. \<not> cf_leaves to m) buf)), out,
         length out, length out, length (filter cf_dead buf))))"
  by (simp add: collect_forwarded_Some cf_rest_def cf_out_def comp_def Let_def split: option.split)

lemma cf_rest_twice: "cf_rest frm to (cf_rest frm to buf) = cf_rest frm to buf"
proof -
  have keep: "\<not> cf_leaves to (cf_keep frm to m) \<and> cf_keep frm to (cf_keep frm to m) = cf_keep frm to m"
    if "\<not> cf_leaves to m" for m
    using that handover_after_keep [OF that, of frm] cf_keep_not_leaves [OF that, of to frm]
    by (auto simp: cf_keep_def cf_dead_def handover_def should_deliver_def set_mark_served split: if_splits)
  show ?thesis
    by (induction buf) (auto simp: cf_rest_def keep)
qed

definition cf_settled :: "string \<Rightarrow> string \<Rightarrow> dtn_buffers \<Rightarrow> bool" where
  "cf_settled frm to bufs \<longleftrightarrow> (\<forall>buf. bufs frm = Some buf \<longrightarrow> (\<exists>b. buf = cf_rest frm to b))"

lemma collect_settled: "cf_settled frm to bufs \<Longrightarrow> collect_forwarded bufs frm to = (bufs, [], 0, 0, 0)"
  by (cases "bufs frm")
    (auto simp: cf_settled_def collect_forwarded_Some cf_rest_twice cf_out_after_rest filter_dead_rest)

lemma collect_settles:
  "collect_forwarded bufs frm to = (bufs', out, f, d, e) \<Longrightarrow> cf_settled frm to bufs'"
  by (cases "bufs frm") (auto simp: cf_settled_def collect_forwarded_Some)

lemma collect_keeps_settled:
  "collect_forwarded bufs frm to = (bufs', out, f, d, e) \<Longrightarrow> frm \<noteq> x \<Longrightarrow> cf_settled x y bufs
    \<Longrightarrow> cf_settled x y bufs'"
  by (cases "bufs frm") (auto simp: cf_settled_def collect_forwarded_Some)

text \<open>An encounter leaves nothing to hand over: meeting the same peer again at once forwards
  nothing in either direction and changes neither the buffers nor the counters. In particular a
  broadcast is never bounced back.\<close>

theorem dtn_encounter_repeat:
  "dtn_encounter a b (snd (dtn_encounter a b r)) = (([], []), snd (dtn_encounter a b r))"
proof -
  obtain b1 o1 f1 d1 e1 where 1: "collect_forwarded (buffers r) b a = (b1, o1, f1, d1, e1)"
    by (cases "collect_forwarded (buffers r) b a") auto
  obtain b2 o2 f2 d2 e2 where 2: "collect_forwarded b1 a b = (b2, o2, f2, d2, e2)"
    by (cases "collect_forwarded b1 a b") auto
  have ab: "cf_settled a b b2" by (rule collect_settles [OF 2])
  have ba: "cf_settled b a b2"
  proof (cases "a = b")
    case False
    thus ?thesis using collect_keeps_settled [OF 2] collect_settles [OF 1] by blast
  qed (use ab in simp)
  show ?thesis
    by (simp add: dtn_encounter_def 1 2 Let_def collect_settled [OF ab] collect_settled [OF ba])
qed

text \<open>The life of one copy of a message: \<open>path\<close> lists the nodes that carried it, the last one
  holds it now. It is handed over at an encounter, stays behind (possibly marked) at an encounter,
  or ages.\<close>

inductive relay :: "dtn_message \<Rightarrow> string \<Rightarrow> string list \<Rightarrow> dtn_message \<Rightarrow> bool"
  for m0 :: dtn_message and origin :: string where
  relay_start: "relay m0 origin [origin] m0"
| relay_hop: "relay m0 origin path m \<Longrightarrow> to \<noteq> last path \<Longrightarrow>
    collect_forwarded [last path \<mapsto> [m]] (last path) to = (bufs, [m'], f, d, e) \<Longrightarrow>
    relay m0 origin (path @ [to]) m'"
| relay_stay: "relay m0 origin path m \<Longrightarrow> to \<noteq> last path \<Longrightarrow>
    collect_forwarded [last path \<mapsto> [m]] (last path) to = (bufs, out, f, d, e) \<Longrightarrow>
    bufs (last path) = Some [m'] \<Longrightarrow> relay m0 origin path m'"
| relay_age: "relay m0 origin path m \<Longrightarrow> buffers r = [last path \<mapsto> [m]] \<Longrightarrow>
    buffers (snd (dtn_tick (last path) r)) (last path) = Some [m'] \<Longrightarrow> relay m0 origin path m'"

lemma singleton_forward:
  assumes "collect_forwarded [h \<mapsto> [m]] h to = (bufs, out, f, d, e)"
  shows "out = handover h to m"
    and "bufs h = Some (if cf_leaves to m then [] else [cf_keep h to m])"
  using assms by (auto simp: collect_forwarded_Some cf_out_def cf_rest_def split: if_splits)

lemma singleton_tick:
  assumes "buffers r = [h \<mapsto> [m]]"
  shows "buffers (snd (dtn_tick h r)) h = Some (if tick_expires m then [] else [age m])"
  using assms by (simp add: dtn_tick_def remove_rev_def remove_nth_def Let_def)

lemma sat_pred_le: "unat (sat_pred t) \<le> unat t"
  by (simp add: sat_pred_def unat_minus_one)

definition relay_inv :: "dtn_message \<Rightarrow> string \<Rightarrow> string list \<Rightarrow> dtn_message \<Rightarrow> bool" where
  "relay_inv m0 origin path m \<longleftrightarrow> distinct path \<and> path \<noteq> [] \<and> dm_destination m = None
     \<and> unat (dm_hop_count m) + 1 = length path
     \<and> unat (dm_hop_count m) \<le> unat (dm_ttl m0) \<and> unat (dm_ttl m) \<le> unat (dm_ttl m0)
     \<and> (path = [origin] \<or> set path \<subseteq> set (dm_delivered_to m)) \<and> dm_id m = dm_id m0"

lemma relay_inv_hop:
  assumes "relay_inv m0 origin path m" "to \<noteq> last path" "handover (last path) to m = [m']"
  shows "relay_inv m0 origin (path @ [to]) m'"
proof -
  have live: "dm_hop_count m < dm_ttl m" and new: "to \<notin> set (dm_delivered_to m)"
    and m': "m' = mark_served (last path) to (m\<lparr>dm_hop_count := dm_hop_count m + 1\<rparr>)"
    using assms(1,3) by (auto simp: handover_def cf_dead_def should_deliver_def relay_inv_def split: if_splits)
  have hop: "unat (dm_hop_count m') = Suc (unat (dm_hop_count m))"
    by (simp add: m' unat_succ_no_wrap [OF live])
  have "to \<notin> set path"
    using assms(1,2) new by (auto simp: relay_inv_def)
  moreover have "unat (dm_hop_count m) < unat (dm_ttl m)"
    using live by (simp add: word_less_nat_alt)
  moreover have "set (path @ [to]) \<subseteq> set (dm_delivered_to m')"
    using assms(1) by (auto simp: m' set_mark_served relay_inv_def)
  ultimately show ?thesis using assms(1) hop by (auto simp: relay_inv_def m')
qed

lemma relay_relay_inv:
  assumes "relay m0 origin path m" "dm_destination m0 = None" "dm_hop_count m0 = 0"
  shows "relay_inv m0 origin path m"
  using assms(1)
proof induction
  case relay_start
  show ?case using assms by (simp add: relay_inv_def)
next
  case (relay_hop path m to bufs m' f d e)
  thus ?case by (metis relay_inv_hop singleton_forward(1))
next
  case (relay_stay path m to bufs out f d e m')
  hence "m' = cf_keep (last path) to m"
    by (auto simp: singleton_forward(2) split: if_splits)
  thus ?case using relay_stay.IH
    by (auto simp: relay_inv_def cf_keep_def set_mark_served)
next
  case (relay_age path m r m')
  hence "m' = age m" by (auto simp: singleton_tick split: if_splits)
  thus ?case using relay_age.IH sat_pred_le [of "dm_ttl m"]
    by (auto simp: relay_inv_def age_def)
qed

text \<open>C19: no routing loop. A broadcast created with hop count 0 visits pairwise distinct nodes
  along every chain of hand-overs, whatever happens in between (other encounters, ageing), and the
  chain has at most \<open>ttl\<close> hops; the \<open>u8\<close> hop count is the exact number of hops, so its increment
  never overflows.\<close>

theorem relay_no_loop:
  assumes "relay m0 origin path m" "dm_destination m0 = None" "dm_hop_count m0 = 0"
  shows "distinct path \<and> length path = unat (dm_hop_count m) + 1
    \<and> unat (dm_hop_count m) \<le> unat (dm_ttl m0)"
  using relay_relay_inv [OF assms] by (auto simp: relay_inv_def)

lemma relay_no_loop_witness:
  "\<exists>m. relay (sample_msg ''x'' None 3 0 0) ''a'' [''a'', ''b''] m
    \<and> length [''a'', ''b''] = unat (dm_hop_count m) + 1"
proof -
  let ?orig = "sample_msg ''x'' None 3 0 0"
  let ?copy = "?orig\<lparr>dm_hop_count := 1, dm_delivered_to := [''b'', ''a'']\<rparr>"
  have fwd: "collect_forwarded [''a'' \<mapsto> [?orig]] ''a'' ''b''
      = ([''a'' \<mapsto> cf_rest ''a'' ''b'' [?orig]], [?copy], 1, 1, 0)"
    by (simp add: collect_forwarded_Some cf_out_def, simp add: handover_def cf_dead_def,
        simp add: should_deliver_def mark_served_def push_unique_def Let_def,
        simp add: sample_msg_def)
  have "relay ?orig ''a'' ([''a''] @ [''b'']) ?copy"
  proof (rule relay_hop [OF relay_start])
    show "''b'' \<noteq> last [''a'']" by simp
    show "collect_forwarded [last [''a''] \<mapsto> [?orig]] (last [''a'']) ''b''
        = ([''a'' \<mapsto> cf_rest ''a'' ''b'' [?orig]], [?copy], 1, 1, 0)"
      unfolding last_ConsL [OF refl] by (rule fwd)
  qed
  moreover from relay_no_loop [OF this] have "length ([''a''] @ [''b'']) = unat (dm_hop_count ?copy) + 1"
    by (simp add: sample_msg_def)
  ultimately show ?thesis by fastforce
qed

lemma tick_expires_iff: "tick_expires m \<longleftrightarrow> unat (dm_ttl m) \<le> 1"
proof (cases "dm_ttl m = 0")
  case False
  hence "0 < unat (dm_ttl m)" by (simp add: unat_gt_0)
  moreover have "dm_ttl m - 1 = 0 \<longleftrightarrow> unat (dm_ttl m) = unat (1 :: u8)"
    unfolding word_unat_eq_iff [symmetric] by (rule right_minus_eq)
  ultimately show ?thesis using False by (simp add: tick_expires_def sat_pred_def le_Suc_eq)
qed (simp add: tick_expires_def sat_pred_def)

lemma dtn_tick_Some:
  assumes "buffers r node = Some buf"
  shows "buffers (snd (dtn_tick node r)) node = Some (map age (filter (\<lambda>m. 1 < unat (dm_ttl m)) buf))"
    and "fst (dtn_tick node r) = filter (\<lambda>m. unat (dm_ttl m) \<le> 1) buf"
proof -
  have "remove_rev (positions tick_expires 0 buf) buf = filter (\<lambda>m. 1 < unat (dm_ttl m)) buf"
    using remove_rev_positions [of tick_expires buf "\<lambda>m. m"]
    by (simp add: tick_expires_iff comp_def not_le)
  thus "buffers (snd (dtn_tick node r)) node = Some (map age (filter (\<lambda>m. 1 < unat (dm_ttl m)) buf))"
    "fst (dtn_tick node r) = filter (\<lambda>m. unat (dm_ttl m) \<le> 1) buf"
    using assms by (simp_all add: dtn_tick_def Let_def tick_expires_iff [abs_def])
qed

definition aged :: "nat \<Rightarrow> dtn_message \<Rightarrow> dtn_message" where
  "aged k m = m\<lparr>dm_ttl := dm_ttl m - of_nat k\<rparr>"

lemma unat_ttl_aged: "k \<le> unat (dm_ttl m) \<Longrightarrow> unat (dm_ttl (aged k m)) = unat (dm_ttl m) - k"
proof -
  assume k: "k \<le> unat (dm_ttl m)"
  have lt: "k < 2 ^ LENGTH(8)" using k unat_u8_le [of "dm_ttl m"] by simp
  have "unat (of_nat k :: u8) = k" using lt by (simp add: unat_of_nat take_bit_eq_mod)
  moreover from this k have "(of_nat k :: u8) \<le> dm_ttl m" by (simp add: word_le_nat_alt)
  ultimately show ?thesis by (simp add: aged_def unat_sub)
qed

lemma age_aged: "1 < unat (dm_ttl (aged k m)) \<Longrightarrow> age (aged k m) = aged (Suc k) m"
  by (auto simp: age_def aged_def sat_pred_def algebra_simps)

text \<open>The TTL counts ticks. After \<open>k + 1\<close> ticks a buffer holds, in order, exactly the messages
  whose TTL was greater than \<open>k + 1\<close>, with \<open>k + 1\<close> taken off it; and the next tick hands back as
  expired exactly those whose TTL runs out, so a message with TTL \<open>t > 0\<close> dies in tick \<open>t\<close>.\<close>

theorem dtn_ticks:
  assumes "buffers r node = Some buf"
  shows "buffers ((dtn_step (DtnTick node) ^^ Suc k) r) node
      = Some (map (aged (Suc k)) (filter (\<lambda>m. Suc k < unat (dm_ttl m)) buf))
    \<and> fst (dtn_tick node ((dtn_step (DtnTick node) ^^ Suc k) r))
      = map (aged (Suc k)) (filter (\<lambda>m. unat (dm_ttl m) = k + 2) buf)"
proof (intro conjI)
  show main: "buffers ((dtn_step (DtnTick node) ^^ Suc k) r) node
      = Some (map (aged (Suc k)) (filter (\<lambda>m. Suc k < unat (dm_ttl m)) buf))"
  proof (induction k)
    case 0
    have "map age (filter (\<lambda>m. 1 < unat (dm_ttl m)) buf)
        = map (aged 1) (filter (\<lambda>m. 1 < unat (dm_ttl m)) buf)"
      by (rule map_cong) (auto simp: age_def aged_def sat_pred_def)
    thus ?case using dtn_tick_Some(1) [OF assms] by simp
  next
    case (Suc k)
    let ?buf = "map (aged (Suc k)) (filter (\<lambda>m. Suc k < unat (dm_ttl m)) buf)"
    have "map age (filter (\<lambda>m. 1 < unat (dm_ttl m)) ?buf)
        = map (aged (Suc (Suc k))) (filter (\<lambda>m. Suc (Suc k) < unat (dm_ttl m)) buf)"
      by (induction buf) (auto simp: unat_ttl_aged age_aged)
    thus ?case using dtn_tick_Some(1) [OF Suc.IH] by simp
  qed
  show "fst (dtn_tick node ((dtn_step (DtnTick node) ^^ Suc k) r))
      = map (aged (Suc k)) (filter (\<lambda>m. unat (dm_ttl m) = k + 2) buf)"
    unfolding dtn_tick_Some(2) [OF main]
    by (induction buf) (auto simp: unat_ttl_aged)
qed

lemma dtn_ticks_witness:
  "buffers ((dtn_step (DtnTick ''n'') ^^ Suc 1)
      (snd (dtn_store ''n'' (sample_msg ''x'' None 3 0 0) (dtn_new 4)))) ''n''
    = Some [aged 2 (sample_msg ''x'' None 3 0 0)]"
proof -
  have "buffers (snd (dtn_store ''n'' (sample_msg ''x'' None 3 0 0) (dtn_new 4))) ''n''
      = Some [sample_msg ''x'' None 3 0 0]"
    by (simp add: dtn_store_buffers dtn_push_def store_in_def dtn_new_def)
  note this [THEN dtn_ticks, of 1, THEN conjunct1]
  moreover have "filter (\<lambda>m. Suc 1 < unat (dm_ttl m)) [sample_msg ''x'' None 3 0 0] = [sample_msg ''x'' None 3 0 0]"
    by (simp add: sample_msg_def)
  ultimately show ?thesis by (simp only: list.map Suc_1)
qed

end
