(* ===== verification/F64.thy ===== *)
theory F64
  imports Prelude
begin

text \<open>
  Binary floating point as the code uses it: \<open>f64\<close> in the reputation layer, \<open>f32\<close> in the
  audio reader. A finite float is the rational it denotes, and an operation is the exact rational
  operation followed by the rounding of IEEE 754, to nearest with ties to even:
  \<open>fl p emin x\<close> rounds to \<open>p\<close> significant bits with least exponent \<open>emin\<close> (gradual underflow
  included). Infinities and NaN are not modelled: every value the modelled code computes is
  finite and small. The facts the components use are that rounding is monotone, exact on what is
  representable, and idempotent.
\<close>

section \<open>Powers of two with an integer exponent\<close>

definition pow2 :: "int \<Rightarrow> rat" where
  "pow2 e = (if 0 \<le> e then 2 ^ nat e else 1 / 2 ^ nat (- e))"

lemma pow2_pos [simp]: "0 < pow2 e"
  by (simp add: pow2_def)

lemma pow2_nonneg [simp]: "0 \<le> pow2 e"
  by (simp add: less_imp_le)

lemma pow2_nonzero [simp]: "pow2 e \<noteq> 0"
  using pow2_pos [of e] by linarith

lemma pow2_not_nonpos [simp]: "\<not> pow2 e \<le> 0"
  by (simp add: not_le)

lemma pow2_0 [simp]: "pow2 0 = 1"
  by (simp add: pow2_def)

lemma pow2_Suc: "pow2 (e + 1) = 2 * pow2 e"
proof (cases "0 \<le> e")
  case True
  thus ?thesis by (simp add: pow2_def nat_add_distrib)
next
  case False
  hence "nat (- e) = Suc (nat (- (e + 1)))" by simp
  hence "2 * (1 / 2 ^ nat (- e)) = (1 / 2 ^ nat (- (e + 1)) :: rat)" by simp
  thus ?thesis using False by (cases "e + 1 = 0") (auto simp: pow2_def)
qed

lemma pow2_pred: "pow2 (e - 1) = pow2 e / 2"
  using pow2_Suc [of "e - 1"] by simp

lemma pow2_add_nat: "pow2 (e + int n) = 2 ^ n * pow2 e"
proof (induction n)
  case (Suc n)
  have "pow2 (e + int (Suc n)) = pow2 ((e + int n) + 1)" by (simp add: algebra_simps)
  thus ?case using Suc by (simp add: pow2_Suc)
qed simp

lemma pow2_split: "d \<le> e \<Longrightarrow> pow2 e = 2 ^ nat (e - d) * pow2 d"
  using pow2_add_nat [of d "nat (e - d)"] by simp

section \<open>Rounding\<close>

definition round_even :: "rat \<Rightarrow> int" where
  "round_even x =
     (let f = \<lfloor>x\<rfloor>; d = x - of_int f
      in if d < 1 / 2 then f else if d > 1 / 2 then f + 1 else if even f then f else f + 1)"

text \<open>Bring a positive number into the significand range, keeping \<open>m * 2 ^ e\<close>.\<close>

function scale_down :: "nat \<Rightarrow> rat \<Rightarrow> int \<Rightarrow> rat \<times> int" where
  "scale_down p m e = (if 2 ^ p \<le> m then scale_down p (m / 2) (e + 1) else (m, e))"
  by auto
termination
proof (relation "measure (\<lambda>(p, m, e). nat \<lfloor>m\<rfloor>)", simp)
  fix p :: nat and m :: rat and e :: int
  assume "2 ^ p \<le> m"
  hence "1 \<le> m" using one_le_power [of "2 :: rat" p] by linarith
  hence 1: "1 \<le> \<lfloor>m\<rfloor>" by simp
  hence "(1 :: rat) \<le> of_int \<lfloor>m\<rfloor>" by (simp only: of_int_1_le_iff)
  moreover have "m < of_int \<lfloor>m\<rfloor> + 1" by linarith
  ultimately have "m / 2 < of_int \<lfloor>m\<rfloor>" by linarith
  hence "\<lfloor>m / 2\<rfloor> < \<lfloor>m\<rfloor>" by (simp only: floor_less_iff)
  moreover have "0 < \<lfloor>m\<rfloor>" using 1 by linarith
  ultimately show "((p, m / 2, e + 1), p, m, e) \<in> measure (\<lambda>(p, m, e). nat \<lfloor>m\<rfloor>)" by simp
qed

function scale_up :: "nat \<Rightarrow> int \<Rightarrow> rat \<Rightarrow> int \<Rightarrow> rat \<times> int" where
  "scale_up p emin m e =
     (if m < 2 ^ (p - 1) \<and> emin < e then scale_up p emin (2 * m) (e - 1) else (m, e))"
  by auto
termination by (relation "measure (\<lambda>(p, emin, m, e). nat (e - emin))") auto

declare scale_down.simps [simp del] scale_up.simps [simp del]

definition normalise :: "nat \<Rightarrow> int \<Rightarrow> rat \<Rightarrow> rat \<times> int" where
  "normalise p emin x = (case scale_down p x 0 of (m, e) \<Rightarrow> scale_up p emin m e)"

definition fl_pos :: "nat \<Rightarrow> int \<Rightarrow> rat \<Rightarrow> rat" where
  "fl_pos p emin x = (case normalise p emin x of (m, e) \<Rightarrow> of_int (round_even m) * pow2 e)"

definition fl :: "nat \<Rightarrow> int \<Rightarrow> rat \<Rightarrow> rat" where
  "fl p emin x = (if x = 0 then 0 else if 0 < x then fl_pos p emin x else - fl_pos p emin (- x))"

definition f64 :: "rat \<Rightarrow> rat" where
  "f64 x = fl 53 (- 1074) x"

definition f32 :: "rat \<Rightarrow> rat" where
  "f32 x = fl 24 (- 149) x"

definition is_f64 :: "rat \<Rightarrow> bool" where
  "is_f64 x \<longleftrightarrow> f64 x = x"

text \<open>\<open>f64::round\<close>: to the nearest integer, ties away from zero.\<close>

definition round_away :: "rat \<Rightarrow> int" where
  "round_away x = (if 0 \<le> x then \<lfloor>x + 1 / 2\<rfloor> else - \<lfloor>- x + 1 / 2\<rfloor>)"

section \<open>Facts\<close>

subsection \<open>Rounding to an integer\<close>

lemma round_even_near: "\<bar>of_int (round_even x) - x\<bar> \<le> 1 / 2"
  unfolding round_even_def Let_def by (auto simp: abs_if) linarith+

lemma round_even_int [simp]: "round_even (of_int k) = k"
  by (simp add: round_even_def)

lemma round_even_mono:
  assumes "x \<le> y"
  shows "round_even x \<le> round_even y"
proof (cases "\<lfloor>x\<rfloor> = \<lfloor>y\<rfloor>")
  case True
  thus ?thesis using assms by (auto simp: round_even_def Let_def)
next
  case False
  hence "\<lfloor>x\<rfloor> + 1 \<le> \<lfloor>y\<rfloor>" using floor_mono [OF assms] by linarith
  moreover have "round_even x \<le> \<lfloor>x\<rfloor> + 1" "\<lfloor>y\<rfloor> \<le> round_even y"
    by (auto simp: round_even_def Let_def)
  ultimately show ?thesis by linarith
qed

lemma round_even_ge: "of_int k \<le> x \<Longrightarrow> k \<le> round_even x"
  using round_even_mono [of "of_int k" x] by simp

lemma round_even_le: "x \<le> of_int k \<Longrightarrow> round_even x \<le> k"
  using round_even_mono [of x "of_int k"] by simp

subsection \<open>Normalisation\<close>

lemma scale_down_spec:
  "scale_down p m e = (m', e') \<Longrightarrow> 0 < m \<Longrightarrow>
     m' * pow2 e' = m * pow2 e \<and> m' < 2 ^ p \<and> e \<le> e' \<and> 0 < m' \<and> (e < e' \<longrightarrow> 2 ^ p \<le> 2 * m')"
proof (induction p m e rule: scale_down.induct)
  case (1 p m e)
  show ?case
  proof (cases "2 ^ p \<le> m")
    case True
    hence eq: "scale_down p (m / 2) (e + 1) = (m', e')" using "1.prems" by (simp add: scale_down.simps)
    have ih: "m' * pow2 e' = m / 2 * pow2 (e + 1) \<and> m' < 2 ^ p \<and> e + 1 \<le> e' \<and> 0 < m'
        \<and> (e + 1 < e' \<longrightarrow> 2 ^ p \<le> 2 * m')"
      using "1.IH" [OF True eq] "1.prems" by simp
    have "2 ^ p \<le> 2 * m'"
    proof (cases "e + 1 < e'")
      case False
      hence "e' = e + 1" using ih by linarith
      hence "m' = m / 2" using ih by simp
      thus ?thesis using True by simp
    qed (use ih in simp)
    thus ?thesis using ih by (simp add: pow2_Suc)
  next
    case False
    thus ?thesis using "1.prems" by (simp add: scale_down.simps)
  qed
qed

lemma scale_up_spec:
  assumes "scale_up p emin m e = (m', e')" "0 < m" "m < 2 ^ p" "emin \<le> e" "0 < p"
  shows "m' * pow2 e' = m * pow2 e \<and> 0 < m' \<and> m' < 2 ^ p \<and> emin \<le> e'
    \<and> (2 ^ (p - 1) \<le> m' \<or> e' = emin)"
  using assms
proof (induction p emin m e rule: scale_up.induct)
  case (1 p emin m e)
  show ?case
  proof (cases "m < 2 ^ (p - 1) \<and> emin < e")
    case True
    have "2 * m < 2 ^ p" using True \<open>0 < p\<close> by (cases p) auto
    moreover have "scale_up p emin (2 * m) (e - 1) = (m', e')"
      using True "1.prems"(1) by (simp add: scale_up.simps)
    ultimately have "m' * pow2 e' = 2 * m * pow2 (e - 1) \<and> 0 < m' \<and> m' < 2 ^ p \<and> emin \<le> e'
        \<and> (2 ^ (p - 1) \<le> m' \<or> e' = emin)"
      using "1.IH" [OF True] True "1.prems" by simp
    thus ?thesis by (simp add: pow2_pred)
  next
    case False
    thus ?thesis using "1.prems" by (auto simp: scale_up.simps)
  qed
qed

definition normal_form :: "nat \<Rightarrow> int \<Rightarrow> rat \<Rightarrow> rat \<Rightarrow> int \<Rightarrow> bool" where
  "normal_form p emin x m e \<longleftrightarrow> x = m * pow2 e \<and> 0 < m \<and> m < 2 ^ p \<and> emin \<le> e
     \<and> (2 ^ (p - 1) \<le> m \<or> e = emin)"

lemma normalise_normal_form:
  assumes "0 < x" "emin \<le> 0" "0 < p"
  obtains m e where "normalise p emin x = (m, e)" "normal_form p emin x m e"
proof -
  obtain m0 e0 where 1: "scale_down p x 0 = (m0, e0)" by fastforce
  obtain m e where 2: "scale_up p emin m0 e0 = (m, e)" by fastforce
  have s1: "m0 * pow2 e0 = x \<and> m0 < 2 ^ p \<and> 0 \<le> e0 \<and> 0 < m0"
    using scale_down_spec [OF 1] assms(1) by simp
  have "m * pow2 e = m0 * pow2 e0 \<and> 0 < m \<and> m < 2 ^ p \<and> emin \<le> e \<and> (2 ^ (p - 1) \<le> m \<or> e = emin)"
    by (rule scale_up_spec [OF 2]) (use s1 assms in auto)
  hence "normal_form p emin x m e" using s1 by (simp add: normal_form_def)
  thus ?thesis using that 1 2 by (simp add: normalise_def)
qed

lemma normal_form_exp_mono:
  assumes "normal_form p emin x m e" "normal_form p emin y n f" "x \<le> y" "0 < p"
  shows "e \<le> f"
proof (rule ccontr)
  assume "\<not> e \<le> f"
  hence fe: "f + 1 \<le> e" by simp
  hence "2 ^ (p - 1) \<le> m" using assms(1,2) by (auto simp: normal_form_def)
  have "y < 2 ^ p * pow2 f" using assms(2) by (auto simp: normal_form_def)
  also have "\<dots> = 2 ^ (p - 1) * pow2 (f + 1)" using \<open>0 < p\<close> by (cases p) (simp_all add: pow2_Suc)
  also have "\<dots> \<le> 2 ^ (p - 1) * pow2 e"
    unfolding pow2_split [OF fe] by simp
  also have "\<dots> \<le> m * pow2 e" using \<open>2 ^ (p - 1) \<le> m\<close> by (simp add: mult_right_mono less_imp_le)
  also have "\<dots> = x" using assms(1) by (simp add: normal_form_def)
  finally show False using assms(3) by simp
qed

locale float_format =
  fixes p :: nat and emin :: int
  assumes p_pos: "0 < p" and emin_nonpos: "emin \<le> 0"
begin

lemma fl_pos_mono:
  assumes "0 < x" "x \<le> y"
  shows "fl_pos p emin x \<le> fl_pos p emin y"
proof -
  obtain m e where x: "normalise p emin x = (m, e)" "normal_form p emin x m e"
    using normalise_normal_form [OF assms(1) emin_nonpos p_pos] .
  have "0 < y" using assms by simp
  then obtain n f where y: "normalise p emin y = (n, f)" "normal_form p emin y n f"
    using normalise_normal_form [OF _ emin_nonpos p_pos] by blast
  have "e \<le> f" by (rule normal_form_exp_mono [OF x(2) y(2) assms(2) p_pos])
  have "of_int (round_even m) * pow2 e \<le> of_int (round_even n) * pow2 f"
  proof (cases "e = f")
    case True
    hence "m \<le> n" using x(2) y(2) assms(2) by (simp add: normal_form_def)
    thus ?thesis using True round_even_mono [of m n] by (simp add: mult_right_mono less_imp_le)
  next
    case False
    hence ef: "e + 1 \<le> f" using \<open>e \<le> f\<close> by simp
    have "round_even m \<le> 2 ^ p"
      using x(2) by (intro round_even_le) (simp add: normal_form_def)
    hence "(of_int (round_even m) :: rat) \<le> of_int (2 ^ p)" by (simp only: of_int_le_iff)
    hence "of_int (round_even m) * pow2 e \<le> 2 ^ p * pow2 e" by (simp add: mult_right_mono less_imp_le)
    also have "\<dots> = 2 ^ (p - 1) * pow2 (e + 1)" using p_pos by (cases p) (simp_all add: pow2_Suc)
    also have "\<dots> \<le> 2 ^ (p - 1) * pow2 f" unfolding pow2_split [OF ef] by simp
    also have "\<dots> \<le> of_int (round_even n) * pow2 f"
    proof -
      have "2 ^ (p - 1) \<le> n" using y(2) x(2) ef by (auto simp: normal_form_def)
      hence "2 ^ (p - 1) \<le> round_even n" by (intro round_even_ge) simp
      hence "(of_int (2 ^ (p - 1)) :: rat) \<le> of_int (round_even n)" by (simp only: of_int_le_iff)
      thus ?thesis by (simp add: mult_right_mono less_imp_le)
    qed
    finally show ?thesis .
  qed
  thus ?thesis using x(1) y(1) by (simp add: fl_pos_def)
qed

lemma fl_pos_nonneg: "0 < x \<Longrightarrow> 0 \<le> fl_pos p emin x"
proof -
  assume "0 < x"
  then obtain m e where "normalise p emin x = (m, e)" "normal_form p emin x m e"
    using normalise_normal_form [OF _ emin_nonpos p_pos] by blast
  moreover from this have "0 \<le> round_even m" by (intro round_even_ge) (simp add: normal_form_def)
  ultimately show ?thesis by (simp add: fl_pos_def zero_le_mult_iff)
qed

lemma fl_pos_exact:
  assumes "0 < k" "k < 2 ^ p" "emin \<le> e"
  shows "fl_pos p emin (of_int k * pow2 e) = of_int k * pow2 e"
proof -
  let ?x = "of_int k * pow2 e"
  have "0 < ?x" using assms by simp
  then obtain m f where nf: "normalise p emin ?x = (m, f)" "normal_form p emin ?x m f"
    using normalise_normal_form [OF _ emin_nonpos p_pos] by blast
  have "f \<le> e"
  proof (rule ccontr)
    assume "\<not> f \<le> e"
    hence fe: "e + 1 \<le> f" by simp
    have "2 ^ (p - 1) \<le> m" using nf(2) fe assms(3) by (auto simp: normal_form_def)
    have "of_int k * pow2 e < of_int (2 ^ p) * pow2 e"
      using assms(2) by (simp only: mult_less_cancel_right of_int_less_iff pow2_pos) simp
    also have "\<dots> = 2 ^ (p - 1) * pow2 (e + 1)" using p_pos by (cases p) (simp_all add: pow2_Suc)
    also have "\<dots> \<le> 2 ^ (p - 1) * pow2 f" unfolding pow2_split [OF fe] by simp
    also have "\<dots> \<le> m * pow2 f" using \<open>2 ^ (p - 1) \<le> m\<close> by (simp add: mult_right_mono less_imp_le)
    finally show False using nf(2) by (simp add: normal_form_def)
  qed
  have "m = of_int (k * 2 ^ nat (e - f))"
    using nf(2) pow2_split [OF \<open>f \<le> e\<close>] by (simp add: normal_form_def)
  hence "of_int (round_even m) = m" by (simp only: round_even_int)
  thus ?thesis using nf by (simp add: fl_pos_def normal_form_def)
qed

lemma fl_pos_result:
  assumes "0 < x"
  shows "fl_pos p emin x = 0 \<or> (\<exists>k e. fl_pos p emin x = of_int k * pow2 e \<and> 0 < k \<and> k < 2 ^ p \<and> emin \<le> e)"
proof -
  obtain m e where nf: "normalise p emin x = (m, e)" "normal_form p emin x m e"
    using normalise_normal_form [OF assms emin_nonpos p_pos] .
  let ?n = "round_even m"
  have r: "fl_pos p emin x = of_int ?n * pow2 e" using nf(1) by (simp add: fl_pos_def)
  have "0 \<le> ?n" "?n \<le> 2 ^ p"
    using nf(2) by (auto simp: normal_form_def intro: round_even_ge round_even_le)
  then consider "?n = 0" | "0 < ?n" "?n < 2 ^ p" | "?n = 2 ^ p" by linarith
  thus ?thesis
  proof cases
    case 1
    thus ?thesis using r by simp
  next
    case 2
    thus ?thesis using r nf(2) by (auto simp: normal_form_def)
  next
    case 3
    have "fl_pos p emin x = of_int 1 * pow2 (e + int p)"
      using r 3 by (simp add: pow2_add_nat)
    moreover have "(1 :: int) < 2 ^ p" using p_pos by simp
    moreover have "emin \<le> e + int p" using nf(2) by (simp add: normal_form_def)
    ultimately show ?thesis by (metis zero_less_one)
  qed
qed

lemma fl_0 [simp]: "fl p emin 0 = 0"
  by (simp add: fl_def)

lemma fl_mono: "x \<le> y \<Longrightarrow> fl p emin x \<le> fl p emin y"
  using fl_pos_mono [of x y] fl_pos_mono [of "- y" "- x"] fl_pos_nonneg [of "- x"] fl_pos_nonneg [of y]
  by (auto simp: fl_def)

lemma fl_exact:
  assumes "0 < k" "k < 2 ^ p" "emin \<le> e"
  shows "fl p emin (of_int k * pow2 e) = of_int k * pow2 e"
  using fl_pos_exact [OF assms] assms(1) by (simp add: fl_def)

lemma fl_exact_int: "0 < k \<Longrightarrow> k < 2 ^ p \<Longrightarrow> fl p emin (of_int k) = of_int k"
  using fl_exact [of k 0] emin_nonpos by simp

lemma fl_neg: "fl p emin (- x) = - fl p emin x"
  by (simp add: fl_def)

lemma fl_idem: "fl p emin (fl p emin x) = fl p emin x"
proof -
  have pos: "fl p emin (fl p emin y) = fl p emin y" if "0 < y" for y
  proof -
    have "fl p emin y = fl_pos p emin y" using that by (simp add: fl_def)
    thus ?thesis using fl_pos_result [OF that] fl_exact by auto
  qed
  show ?thesis
    using pos [of x] pos [of "- x"] fl_neg [of x] fl_neg [of "fl p emin x"]
    by (cases "x = 0"; cases "0 < x") auto
qed

end

section \<open>The two formats of the code\<close>

interpretation f64i: float_format 53 "- 1074" by unfold_locales auto

interpretation f32i: float_format 24 "- 149" by unfold_locales auto

named_theorems f64_facts \<open>bounds and exactness facts about the floats in use\<close>

lemma f64_mono [f64_facts]: "x \<le> y \<Longrightarrow> f64 x \<le> f64 y"
  unfolding f64_def by (rule f64i.fl_mono)

lemma f64_0 [simp]: "f64 0 = 0"
  by (simp add: f64_def)

lemma f64_idem [simp]: "f64 (f64 x) = f64 x"
  unfolding f64_def by (rule f64i.fl_idem)

lemma is_f64_f64 [simp]: "is_f64 (f64 x)"
  by (simp add: is_f64_def)

lemma f64_int: "0 < k \<Longrightarrow> k < 2 ^ 53 \<Longrightarrow> f64 (of_int k) = of_int k"
  unfolding f64_def by (rule f64i.fl_exact_int) auto

lemma f64_dyadic:
  "0 < k \<Longrightarrow> k < 2 ^ 53 \<Longrightarrow> n \<le> 1074 \<Longrightarrow> f64 (of_int k / 2 ^ n) = of_int k / 2 ^ n"
proof -
  assume k: "0 < k" "k < 2 ^ 53" "n \<le> 1074"
  have "pow2 (- int n) = 1 / 2 ^ n" by (cases "n = 0") (auto simp: pow2_def)
  thus ?thesis using f64i.fl_exact [of k "- int n"] k by (simp add: f64_def)
qed

lemma f64_1 [simp]: "f64 1 = 1"
  using f64_int [of 1] by simp

lemma is_f64_0 [simp]: "is_f64 0" and is_f64_1 [simp]: "is_f64 1"
  by (simp_all add: is_f64_def)

lemma is_f64_min [simp]: "is_f64 x \<Longrightarrow> is_f64 y \<Longrightarrow> is_f64 (min x y)"
  and is_f64_max [simp]: "is_f64 x \<Longrightarrow> is_f64 y \<Longrightarrow> is_f64 (max x y)"
  by (simp_all add: min_def max_def)

lemma f64_nonneg [f64_facts]: "0 \<le> x \<Longrightarrow> 0 \<le> f64 x"
  using f64_mono [of 0 x] by simp

lemma f64_le_repr: "is_f64 y \<Longrightarrow> x \<le> y \<Longrightarrow> f64 x \<le> y"
  using f64_mono [of x y] by (simp add: is_f64_def)

lemma f64_ge_repr: "is_f64 y \<Longrightarrow> y \<le> x \<Longrightarrow> y \<le> f64 x"
  using f64_mono [of y x] by (simp add: is_f64_def)

lemma f64_le_1 [f64_facts]: "x \<le> 1 \<Longrightarrow> f64 x \<le> 1"
  by (rule f64_le_repr) simp_all

end
