(* ===== verification/Spam.thy ===== *)
theory Spam
  imports F64 "HOL-Library.Mapping" "HOL-Library.AList_Mapping"
    "HOL-Library.Char_ord" "HOL-Library.List_Lexorder"
begin

text \<open>
  The anti-abuse layer, \<open>core/src/reputation/spam.rs\<close>: reasons and their wire codes, the abuse
  level of an author with its slow decay, the graduated actions, and the sliding admission window
  per author. Times are seconds kept as naturals (\<open>u64\<close>, only subtracted with saturation,
  compared and divided). A \<open>HashMap\<close> is a \<open>mapping\<close>; where the code iterates over it, the
  iteration order is the parameter \<open>ord\<close>, any function that lists the keys of a finite map.
\<close>

section \<open>Constants\<close>

definition SPAM_WINDOW_SECS :: nat where "SPAM_WINDOW_SECS = 60"
definition SPAM_BUDGET_PER_WINDOW :: nat where "SPAM_BUDGET_PER_WINDOW = 12"
definition MAX_TRACKED_AUTHORS :: nat where "MAX_TRACKED_AUTHORS = 1024"
definition MAX_ABUSE_REPORTS_TRACKED :: nat where "MAX_ABUSE_REPORTS_TRACKED = 2048"

definition ABUSE_THROTTLE_THRESHOLD :: rat where "ABUSE_THROTTLE_THRESHOLD = f64 (15 / 100)"
definition ABUSE_DEPRIORITIZE_THRESHOLD :: rat where "ABUSE_DEPRIORITIZE_THRESHOLD = f64 (40 / 100)"
definition ABUSE_IGNORE_THRESHOLD :: rat where "ABUSE_IGNORE_THRESHOLD = f64 (80 / 100)"

definition PENALTY_EXCESSIVE_RATE :: rat where "PENALTY_EXCESSIVE_RATE = f64 (30 / 100)"
definition PENALTY_INVALID_EVENT :: rat where "PENALTY_INVALID_EVENT = f64 (10 / 100)"
definition PENALTY_INSUFFICIENT_POW :: rat where "PENALTY_INSUFFICIENT_POW = f64 (20 / 100)"
definition PENALTY_REMOTE_REPORT :: rat where "PENALTY_REMOTE_REPORT = f64 (10 / 100)"

definition ABUSE_RECOVERY_PER_HOUR :: rat where "ABUSE_RECOVERY_PER_HOUR = f64 (1 / 100)"
definition SECS_PER_HOUR :: nat where "SECS_PER_HOUR = 3600"

section \<open>Reasons\<close>

datatype abuse_reason = ExcessiveRate | InvalidEvent | InsufficientPow

fun reason_code :: "abuse_reason \<Rightarrow> u8" where
  "reason_code ExcessiveRate = 1"
| "reason_code InvalidEvent = 2"
| "reason_code InsufficientPow = 3"

definition reason_from_code :: "u8 \<Rightarrow> abuse_reason option" where
  "reason_from_code c =
     (if c = 1 then Some ExcessiveRate else if c = 2 then Some InvalidEvent
      else if c = 3 then Some InsufficientPow else None)"

fun reason_penalty :: "abuse_reason \<Rightarrow> rat" where
  "reason_penalty ExcessiveRate = PENALTY_EXCESSIVE_RATE"
| "reason_penalty InvalidEvent = PENALTY_INVALID_EVENT"
| "reason_penalty InsufficientPow = PENALTY_INSUFFICIENT_POW"

lemma reason_from_code_iff: "reason_from_code c = Some r \<longleftrightarrow> c = reason_code r"
  by (cases r) (auto simp: reason_from_code_def)

section \<open>Levels and actions\<close>

datatype trust_action = Accept | Throttle | Deprioritize | Ignore

definition action_for_abuse :: "rat \<Rightarrow> trust_action" where
  "action_for_abuse abuse =
     (if abuse \<ge> ABUSE_IGNORE_THRESHOLD then Ignore
      else if abuse \<ge> ABUSE_DEPRIORITIZE_THRESHOLD then Deprioritize
      else if abuse \<ge> ABUSE_THROTTLE_THRESHOLD then Throttle
      else Accept)"

definition decayed_abuse :: "rat \<Rightarrow> nat \<Rightarrow> nat \<Rightarrow> rat" where
  "decayed_abuse score updated_at now =
     (let full_hours = (now - updated_at) div SECS_PER_HOUR
      in max (f64 (score - f64 (f64 (of_nat full_hours) * ABUSE_RECOVERY_PER_HOUR))) 0)"

record abuse_record =
  ar_score :: rat
  ar_updated_at :: nat

definition abuse_default :: abuse_record where
  "abuse_default = \<lparr>ar_score = 0, ar_updated_at = 0\<rparr>"

definition level_at :: "abuse_record \<Rightarrow> nat \<Rightarrow> rat" where
  "level_at r now = decayed_abuse (ar_score r) (ar_updated_at r) now"

definition abuse_record_add :: "rat \<Rightarrow> nat \<Rightarrow> abuse_record \<Rightarrow> rat \<times> abuse_record" where
  "abuse_record_add amount now r =
     (let current = level_at r now;
          s = min (f64 (current + amount)) 1
      in (s, r\<lparr>ar_score := s, ar_updated_at := now\<rparr>))"

record abuse_report =
  rp_reporter :: string
  rp_offender :: string
  rp_reason :: u8
  rp_timestamp :: nat

section \<open>The sliding window\<close>

type_synonym windows = "(string, nat list) mapping"

record spam_guard =
  sg_window_secs :: nat
  sg_budget :: nat
  sg_entries :: windows

definition spam_guard_new :: "nat \<Rightarrow> nat \<Rightarrow> spam_guard" where
  "spam_guard_new w b = \<lparr>sg_window_secs = w, sg_budget = b, sg_entries = Mapping.empty\<rparr>"

definition last_stamp :: "nat list \<Rightarrow> nat" where
  "last_stamp st = (if st = [] then 0 else last st)"

text \<open>The scan of \<open>evict_oldest\<close>: the strictly smallest last admission seen so far.\<close>

fun oldest_key :: "windows \<Rightarrow> string list \<Rightarrow> string option \<Rightarrow> nat \<Rightarrow> string option" where
  "oldest_key m [] best t = best"
| "oldest_key m (k # ks) best t =
     (let l = last_stamp (Mapping.lookup_default [] m k)
      in if l < t then oldest_key m ks (Some k) l else oldest_key m ks best t)"

definition evict_oldest :: "(windows \<Rightarrow> string list) \<Rightarrow> windows \<Rightarrow> windows" where
  "evict_oldest ord m =
     (case oldest_key m (ord m) None u64_max of Some k \<Rightarrow> Mapping.delete k m | None \<Rightarrow> m)"

definition admit_with_budget ::
    "(windows \<Rightarrow> string list) \<Rightarrow> string \<Rightarrow> nat \<Rightarrow> nat \<Rightarrow> spam_guard \<Rightarrow> bool \<times> spam_guard" where
  "admit_with_budget ord author now budget g =
     (if budget = 0 then (False, g)
      else
        let horizon = now - sg_window_secs g;
            stamps = dropWhile (\<lambda>t. t < horizon) (Mapping.lookup_default [] (sg_entries g) author)
        in if length stamps \<ge> budget
           then (False, g\<lparr>sg_entries := (if stamps = [] then Mapping.delete author (sg_entries g)
                                         else Mapping.update author stamps (sg_entries g))\<rparr>)
           else
             let entries = Mapping.update author (stamps @ [now]) (sg_entries g)
             in (True, g\<lparr>sg_entries := (if Mapping.size entries > MAX_TRACKED_AUTHORS
                                        then evict_oldest ord entries else entries)\<rparr>))"

definition admit :: "(windows \<Rightarrow> string list) \<Rightarrow> string \<Rightarrow> nat \<Rightarrow> spam_guard \<Rightarrow> bool \<times> spam_guard" where
  "admit ord author now g = admit_with_budget ord author now (sg_budget g) g"

definition tracked_authors :: "spam_guard \<Rightarrow> nat" where
  "tracked_authors g = Mapping.size (sg_entries g)"

section \<open>The abuse level\<close>

lemma f64_hundredth_le: "ABUSE_RECOVERY_PER_HOUR \<le> 1" and recovery_nonneg [simp]: "0 \<le> ABUSE_RECOVERY_PER_HOUR"
  by (auto simp: ABUSE_RECOVERY_PER_HOUR_def intro: f64_facts)

lemma decay_amount_nonneg [simp]: "0 \<le> f64 (f64 (of_nat h) * ABUSE_RECOVERY_PER_HOUR)"
  by (intro f64_nonneg mult_nonneg_nonneg) auto

lemma decay_amount_mono:
  "h \<le> k \<Longrightarrow> f64 (f64 (of_nat h) * ABUSE_RECOVERY_PER_HOUR) \<le> f64 (f64 (of_nat k) * ABUSE_RECOVERY_PER_HOUR)"
  by (intro f64_mono mult_right_mono) auto

lemma decayed_nonneg [simp]: "0 \<le> decayed_abuse s u t"
  by (simp add: decayed_abuse_def)

lemma is_f64_decayed [simp]: "is_f64 (decayed_abuse s u t)"
  by (simp add: decayed_abuse_def)

lemma decayed_le: "is_f64 s \<Longrightarrow> 0 \<le> s \<Longrightarrow> decayed_abuse s u t \<le> s"
  by (auto simp: decayed_abuse_def Let_def intro!: f64_le_repr)

lemma decayed_same: "is_f64 s \<Longrightarrow> 0 \<le> s \<Longrightarrow> t < u + SECS_PER_HOUR \<Longrightarrow> decayed_abuse s u t = s"
proof -
  assume "is_f64 s" "0 \<le> s" "t < u + SECS_PER_HOUR"
  moreover from this(3) have "(t - u) div SECS_PER_HOUR = 0"
    by (simp add: SECS_PER_HOUR_def)
  ultimately show ?thesis by (simp add: decayed_abuse_def is_f64_def)
qed

lemma decayed_mono_time: "t \<le> t' \<Longrightarrow> decayed_abuse s u t' \<le> decayed_abuse s u t"
proof -
  assume "t \<le> t'"
  hence "(t - u) div SECS_PER_HOUR \<le> (t' - u) div SECS_PER_HOUR" by (intro div_le_mono diff_le_mono)
  from decay_amount_mono [OF this] show ?thesis
    unfolding decayed_abuse_def Let_def by (intro max.mono f64_mono) auto
qed

lemma decayed_mono_score: "s \<le> s' \<Longrightarrow> decayed_abuse s u t \<le> decayed_abuse s' u t"
  unfolding decayed_abuse_def Let_def by (intro max.mono f64_mono) auto

definition abuse_ok :: "abuse_record \<Rightarrow> bool" where
  "abuse_ok r \<longleftrightarrow> is_f64 (ar_score r) \<and> 0 \<le> ar_score r \<and> ar_score r \<le> 1"

lemma abuse_ok_default [simp]: "abuse_ok abuse_default"
  by (simp add: abuse_ok_def abuse_default_def)

lemma level_at_range: "abuse_ok r \<Longrightarrow> 0 \<le> level_at r t \<and> level_at r t \<le> 1"
  using decayed_le [of "ar_score r" "ar_updated_at r" t] by (auto simp: abuse_ok_def level_at_def)

lemma abuse_ok_add:
  "abuse_ok r \<Longrightarrow> 0 \<le> a \<Longrightarrow> abuse_ok (snd (abuse_record_add a t r))"
  using level_at_range [of r t]
  by (auto simp: abuse_ok_def abuse_record_add_def Let_def min_def f64_nonneg)

lemma penalty_nonneg [simp]: "0 \<le> reason_penalty r"
  by (cases r) (auto simp: PENALTY_EXCESSIVE_RATE_def PENALTY_INVALID_EVENT_def
      PENALTY_INSUFFICIENT_POW_def intro: f64_facts)

lemma remote_penalty_nonneg [simp]: "0 \<le> PENALTY_REMOTE_REPORT"
  by (auto simp: PENALTY_REMOTE_REPORT_def intro: f64_facts)

lemma abuse_add_grows:
  assumes "abuse_ok r" "0 \<le> a"
  shows "level_at r t \<le> fst (abuse_record_add a t r)"
  using assms level_at_range [OF assms(1), of t]
  by (auto simp: abuse_record_add_def Let_def level_at_def intro!: f64_ge_repr)

section \<open>The sliding window\<close>

definition lists_keys :: "(windows \<Rightarrow> string list) \<Rightarrow> bool" where
  "lists_keys ord \<longleftrightarrow> (\<forall>m. finite (Mapping.keys m) \<longrightarrow> set (ord m) = Mapping.keys m)"

lemma lookup_default_update:
  "Mapping.lookup_default d (Mapping.update k v m) k' = (if k = k' then v else Mapping.lookup_default d m k')"
  by (simp add: lookup_default_update')

lemma lookup_default_not_key: "k \<notin> Mapping.keys m \<Longrightarrow> Mapping.lookup_default d m k = d"
  by (simp add: Mapping.lookup_default_def keys_dom_lookup domIff)

lemma oldest_key_cases:
  "oldest_key m ks best t = best \<and> (\<forall>k\<in>set ks. t \<le> last_stamp (Mapping.lookup_default [] m k))
   \<or> (\<exists>k\<in>set ks. oldest_key m ks best t = Some k
        \<and> (\<forall>k'\<in>set ks. last_stamp (Mapping.lookup_default [] m k) \<le> last_stamp (Mapping.lookup_default [] m k'))
        \<and> last_stamp (Mapping.lookup_default [] m k) < t)"
proof (induction ks arbitrary: best t)
  case (Cons k ks)
  let ?l = "last_stamp (Mapping.lookup_default [] m k)"
  show ?case
  proof (cases "?l < t")
    case True
    with Cons [of "Some k" ?l] show ?thesis by (auto intro: less_imp_le less_trans le_less_trans)
  next
    case False
    with Cons [of best t] show ?thesis by (auto simp: Let_def not_less)
  qed
qed simp

lemma evict_oldest_size:
  assumes "lists_keys ord" "finite (Mapping.keys m)" "Mapping.keys m \<noteq> {}"
    and "\<And>k. k \<in> Mapping.keys m \<Longrightarrow> last_stamp (Mapping.lookup_default [] m k) < u64_max"
  shows "\<exists>k \<in> Mapping.keys m. evict_oldest ord m = Mapping.delete k m
    \<and> (\<forall>k' \<in> Mapping.keys m. last_stamp (Mapping.lookup_default [] m k) \<le> last_stamp (Mapping.lookup_default [] m k'))"
proof -
  have ks: "set (ord m) = Mapping.keys m" using assms(1,2) by (simp add: lists_keys_def)
  from oldest_key_cases [of m "ord m" None u64_max] show ?thesis
    using assms(3,4) by (auto simp: ks evict_oldest_def not_le [symmetric])
qed

definition guard_inv :: "nat \<Rightarrow> spam_guard \<Rightarrow> bool" where
  "guard_inv b g \<longleftrightarrow> finite (Mapping.keys (sg_entries g))
     \<and> Mapping.size (sg_entries g) \<le> MAX_TRACKED_AUTHORS
     \<and> (\<forall>a. length (Mapping.lookup_default [] (sg_entries g) a) \<le> b
          \<and> (\<forall>t \<in> set (Mapping.lookup_default [] (sg_entries g) a). t < u64_max))"

lemma guard_inv_new [simp]: "guard_inv b (spam_guard_new w k)"
  by (simp add: guard_inv_def spam_guard_new_def Mapping.lookup_default_def lookup_empty)

lemma last_stamp_less: "(\<And>t. t \<in> set st \<Longrightarrow> t < u64_max) \<Longrightarrow> last_stamp st < u64_max"
  by (cases "st = []") (auto simp: last_stamp_def u64_max_def)

lemma guard_inv_update:
  assumes "guard_inv b g" "length st \<le> b" "\<And>t. t \<in> set st \<Longrightarrow> t < u64_max"
    and "Mapping.size (Mapping.update a st (sg_entries g)) \<le> MAX_TRACKED_AUTHORS"
  shows "guard_inv b (g\<lparr>sg_entries := Mapping.update a st (sg_entries g)\<rparr>)"
  using assms by (auto simp: guard_inv_def lookup_default_update)

lemma lookup_default_delete:
  "Mapping.lookup_default [] (Mapping.delete k m) a = (if a = k then [] else Mapping.lookup_default [] m a)"
  by (auto simp: Mapping.lookup_default_def lookup_delete)

lemma size_update_le: "finite (Mapping.keys m) \<Longrightarrow> Mapping.size (Mapping.update k v m) \<le> Suc (Mapping.size m)"
  by (simp add: Mapping.size_def card_insert_le_m1 card_insert_if)

lemma admit_inv:
  assumes "lists_keys ord" "guard_inv b g" "budget \<le> b" "now < u64_max"
  shows "guard_inv b (snd (admit_with_budget ord a now budget g))"
proof -
  define st where "st = dropWhile (\<lambda>t. t < now - sg_window_secs g) (Mapping.lookup_default [] (sg_entries g) a)"
  have st: "length st \<le> b" "\<And>t. t \<in> set st \<Longrightarrow> t < u64_max"
    using assms(2) length_dropWhile_le [of _ "Mapping.lookup_default [] (sg_entries g) a"]
    by (auto simp: guard_inv_def st_def dest: set_dropWhileD intro: le_trans)
  have fin: "finite (Mapping.keys (sg_entries g))" and sz: "Mapping.size (sg_entries g) \<le> MAX_TRACKED_AUTHORS"
    using assms(2) by (auto simp: guard_inv_def)
  consider (zero) "budget = 0" | (refuse) "budget > 0" "budget \<le> length st"
    | (ok) "length st < budget" by linarith
  thus ?thesis
  proof cases
    case zero
    thus ?thesis using assms(2) by (simp add: admit_with_budget_def)
  next
    case refuse
    hence "st \<noteq> []" by auto
    have "a \<in> Mapping.keys (sg_entries g)"
      using \<open>st \<noteq> []\<close> by (metis st_def lookup_default_not_key dropWhile.simps(1))
    hence "Mapping.size (Mapping.update a st (sg_entries g)) = Mapping.size (sg_entries g)"
      by (simp add: Mapping.size_def insert_absorb)
    thus ?thesis using guard_inv_update [OF assms(2) st] refuse \<open>st \<noteq> []\<close> sz
      by (simp add: admit_with_budget_def Let_def st_def [symmetric])
  next
    case ok
    let ?e = "Mapping.update a (st @ [now]) (sg_entries g)"
    have new: "length (st @ [now]) \<le> b" "\<And>t. t \<in> set (st @ [now]) \<Longrightarrow> t < u64_max"
      using ok assms(3,4) st by auto
    have res: "snd (admit_with_budget ord a now budget g) = g\<lparr>sg_entries :=
        (if Mapping.size ?e > MAX_TRACKED_AUTHORS then evict_oldest ord ?e else ?e)\<rparr>"
      using ok by (simp add: admit_with_budget_def Let_def st_def [symmetric])
    show ?thesis
    proof (cases "Mapping.size ?e > MAX_TRACKED_AUTHORS")
      case False
      thus ?thesis unfolding res using guard_inv_update [OF assms(2) new] by simp
    next
      case True
      have finE: "finite (Mapping.keys ?e)" using fin by simp
      have all: "\<forall>k. length (Mapping.lookup_default [] ?e k) \<le> b
          \<and> (\<forall>t\<in>set (Mapping.lookup_default [] ?e k). t < u64_max)"
        using assms(2) new by (auto simp: guard_inv_def lookup_default_update)
      obtain k where k: "k \<in> Mapping.keys ?e" "evict_oldest ord ?e = Mapping.delete k ?e"
        using evict_oldest_size [OF assms(1) finE] all last_stamp_less by (metis keys_update insert_not_empty)
      have "Mapping.size (Mapping.delete k ?e) = Mapping.size ?e - 1"
        using k(1) finE by (simp add: Mapping.size_def card_Diff_singleton)
      also have "\<dots> \<le> MAX_TRACKED_AUTHORS"
        using size_update_le [OF fin, of a "st @ [now]"] sz by linarith
      finally show ?thesis unfolding res using True finE all k(2)
        by (auto simp: guard_inv_def lookup_default_delete)
    qed
  qed
qed

subsection \<open>Runs of the guard\<close>

text \<open>A sequence of admission requests (author, time, budget in force); the second component is
  the history of the admitted ones, oldest first.\<close>

type_synonym request = "string \<times> nat \<times> nat"

definition guard_step ::
    "(windows \<Rightarrow> string list) \<Rightarrow> request \<Rightarrow> spam_guard \<times> (string \<times> nat) list \<Rightarrow> spam_guard \<times> (string \<times> nat) list" where
  "guard_step ord req st = (case (req, st) of ((a, now, budget), (g, hist)) \<Rightarrow>
     (case admit_with_budget ord a now budget g of
        (ok, g') \<Rightarrow> (g', if ok then hist @ [(a, now)] else hist)))"

definition guard_run ::
    "(windows \<Rightarrow> string list) \<Rightarrow> request list \<Rightarrow> spam_guard \<Rightarrow> spam_guard \<times> (string \<times> nat) list" where
  "guard_run ord reqs g = fold (guard_step ord) reqs (g, [])"

definition times_of :: "string \<Rightarrow> (string \<times> nat) list \<Rightarrow> nat list" where
  "times_of a hist = map snd (filter (\<lambda>(b, _). b = a) hist)"

lemma times_of_snoc [simp]:
  "times_of a (hist @ [(b, t)]) = (if a = b then times_of a hist @ [t] else times_of a hist)"
  by (auto simp: times_of_def)

definition admitted_in :: "string \<Rightarrow> nat \<Rightarrow> nat \<Rightarrow> (string \<times> nat) list \<Rightarrow> nat" where
  "admitted_in a from_t to_t hist = length (filter (\<lambda>s. from_t \<le> s \<and> s \<le> to_t) (times_of a hist))"

definition window_inv ::
    "nat \<Rightarrow> nat \<Rightarrow> string set \<Rightarrow> nat \<Rightarrow> spam_guard \<times> (string \<times> nat) list \<Rightarrow> bool" where
  "window_inv w b authors now st \<longleftrightarrow> (case st of (g, hist) \<Rightarrow>
     sg_window_secs g = w \<and> Mapping.keys (sg_entries g) \<subseteq> authors
     \<and> (\<forall>a. sorted (times_of a hist) \<and> (\<forall>t\<in>set (times_of a hist). t \<le> now)
        \<and> (\<exists>c \<le> now - w. Mapping.lookup_default [] (sg_entries g) a = filter (\<lambda>t. c \<le> t) (times_of a hist)))
     \<and> (\<forall>a t. admitted_in a (t - w) t hist \<le> b))"

lemma window_inv_init: "window_inv w b authors 0 (spam_guard_new w k, [])"
  by (auto simp: window_inv_def spam_guard_new_def times_of_def admitted_in_def
      Mapping.lookup_default_def lookup_empty)

lemma dropWhile_filter_sorted:
  "sorted xs \<Longrightarrow> dropWhile (\<lambda>t. t < h) xs = filter (\<lambda>t. h \<le> t) (xs :: nat list)"
  by (induction xs) (auto simp: not_less intro!: filter_True [symmetric])

lemma purge_window:
  assumes "sorted l" "c \<le> h"
  shows "dropWhile (\<lambda>t. t < h) (filter (\<lambda>t. c \<le> t) l) = filter (\<lambda>t. h \<le> t) (l :: nat list)"
proof -
  have "sorted (filter (\<lambda>t. c \<le> t) l)" using assms(1) by (rule sorted_wrt_filter)
  hence "dropWhile (\<lambda>t. t < h) (filter (\<lambda>t. c \<le> t) l) = filter (\<lambda>t. c \<le> t \<and> h \<le> t) l"
    by (simp add: dropWhile_filter_sorted conj_commute)
  also have "\<dots> = filter (\<lambda>t. h \<le> t) l" using assms(2) by (intro filter_cong) auto
  finally show ?thesis .
qed

lemma window_count_snoc:
  fixes now :: nat
  assumes "\<And>s. s \<in> set l \<Longrightarrow> s \<le> now" "length (filter (\<lambda>s. now - w \<le> s) l) < b"
    and "length (filter (\<lambda>s. t - w \<le> s \<and> s \<le> t) l) \<le> b"
  shows "length (filter (\<lambda>s. t - w \<le> s \<and> s \<le> t) (l @ [now])) \<le> (b :: nat)"
proof (cases "now \<le> t")
  case True
  have "length (filter (\<lambda>s. t - w \<le> s \<and> s \<le> t) l) \<le> length (filter (\<lambda>s. now - w \<le> s) l)"
  proof -
    have "filter (\<lambda>s. t - w \<le> s \<and> s \<le> t) l = filter (\<lambda>s. t - w \<le> s \<and> s \<le> t) (filter (\<lambda>s. now - w \<le> s) l)"
    proof -
      have "now - w \<le> s" if "t - w \<le> s" for s
        using that diff_le_mono [OF True, of w] by linarith
      thus ?thesis by (auto intro!: filter_cong)
    qed
    thus ?thesis by (metis length_filter_le)
  qed
  thus ?thesis using assms(2) by simp
qed (use assms(3) in simp)

lemma keys_few_size: "finite authors \<Longrightarrow> Mapping.keys m \<subseteq> authors \<Longrightarrow> Mapping.size m \<le> card authors"
  by (simp add: Mapping.size_def card_mono)

lemma window_inv_step:
  assumes inv: "window_inv w b authors prev (g, hist)" and le: "prev \<le> now" "budget \<le> b"
    and au: "finite authors" "card authors \<le> MAX_TRACKED_AUTHORS" "a \<in> authors"
  shows "window_inv w b authors now (guard_step ord (a, now, budget) (g, hist))"
proof -
  let ?l = "times_of a hist"
  obtain c where c: "c \<le> prev - w" "Mapping.lookup_default [] (sg_entries g) a = filter (\<lambda>t. c \<le> t) ?l"
    using inv unfolding window_inv_def prod.case by metis
  have sorted: "sorted ?l" and upto: "\<And>t. t \<in> set ?l \<Longrightarrow> t \<le> now" and w: "sg_window_secs g = w"
    using inv le by (auto simp: window_inv_def intro: le_trans)
  have st: "dropWhile (\<lambda>t. t < now - sg_window_secs g) (Mapping.lookup_default [] (sg_entries g) a)
      = filter (\<lambda>t. now - w \<le> t) ?l"
    unfolding c(2) w by (rule purge_window [OF sorted]) (use c(1) le in linarith)
  have later: "window_inv w b authors now (g, hist)"
  proof -
    have "\<forall>c. c \<le> prev - w \<longrightarrow> c \<le> now - w" "\<forall>t. t \<le> prev \<longrightarrow> t \<le> now"
      using le(1) by auto
    thus ?thesis using inv unfolding window_inv_def prod.case by meson
  qed
  let ?st = "filter (\<lambda>t. now - w \<le> t) ?l"
  consider (zero) "budget = 0" | (refuse) "budget > 0" "budget \<le> length ?st"
    | (ok) "length ?st < budget" by linarith
  thus ?thesis
  proof cases
    case zero
    thus ?thesis using later by (simp add: guard_step_def admit_with_budget_def)
  next
    case refuse
    hence ne: "?st \<noteq> []" by auto
    hence "a \<in> Mapping.keys (sg_entries g)"
      using st by (metis lookup_default_not_key dropWhile.simps(1))
    hence "window_inv w b authors now (g\<lparr>sg_entries := Mapping.update a ?st (sg_entries g)\<rparr>, hist)"
      using later by (auto simp: window_inv_def lookup_default_update)
    thus ?thesis using refuse ne by (simp add: guard_step_def admit_with_budget_def Let_def st)
  next
    case ok
    let ?e = "Mapping.update a (?st @ [now]) (sg_entries g)"
    have "Mapping.keys ?e \<subseteq> authors" using inv au by (simp add: window_inv_def)
    hence "\<not> Mapping.size ?e > MAX_TRACKED_AUTHORS"
      using keys_few_size [OF au(1)] au(2) by (metis not_le order_trans)
    hence eq: "guard_step ord (a, now, budget) (g, hist) = (g\<lparr>sg_entries := ?e\<rparr>, hist @ [(a, now)])"
      using ok by (simp add: guard_step_def admit_with_budget_def Let_def st)
    have cnt: "admitted_in x (t - w) t (hist @ [(a, now)]) \<le> b" for x t
      using inv window_count_snoc [of ?l now w b t, OF upto] ok le(2)
      by (cases "x = a") (auto simp: window_inv_def admitted_in_def)
    have ex: "\<exists>c\<le>now - w. Mapping.lookup_default [] ?e x = filter (\<lambda>t. c \<le> t) (times_of x (hist @ [(a, now)]))" for x
      using later by (cases "x = a") (auto simp: window_inv_def lookup_default_update)
    show ?thesis
      using later cnt ex au sorted upto
      unfolding eq by (auto simp: window_inv_def sorted_append)
  qed
qed

lemma window_inv_run:
  assumes "window_inv w b authors prev st" "sorted (prev # map (\<lambda>(a, t, k). t) reqs)"
    and "\<And>a t k. (a, t, k) \<in> set reqs \<Longrightarrow> a \<in> authors \<and> k \<le> b"
    and "finite authors" "card authors \<le> MAX_TRACKED_AUTHORS"
  shows "\<exists>now. window_inv w b authors now (fold (guard_step ord) reqs st)"
  using assms(1-3)
proof (induction reqs arbitrary: prev st)
  case Nil
  thus ?case by auto
next
  case (Cons r reqs)
  obtain a t k where r: "r = (a, t, k)" by (cases r)
  obtain g hist where st: "st = (g, hist)" by (cases st)
  have "window_inv w b authors t (guard_step ord r st)"
    unfolding r st
    by (rule window_inv_step) (use Cons.prems assms(4,5) r st in auto)
  from Cons.IH [OF this] show ?case
    using Cons.prems r by fastforce
qed

section \<open>Properties\<close>

text \<open>C20: the anti-spam window really is a sliding window. When requests come in order of time and
  no more than \<open>MAX_TRACKED_AUTHORS\<close> authors take part (so that none is evicted), then whatever
  budgets up to \<open>b\<close> are in force, every author is admitted at most \<open>b\<close> times in every closed
  window of \<open>w\<close> seconds, wherever it lies.\<close>

theorem spam_sliding_window:
  assumes "sorted (map (\<lambda>(a, t, k). t) reqs)" "\<forall>(a, t, k) \<in> set reqs. k \<le> b"
    and "card (fst ` set reqs) \<le> MAX_TRACKED_AUTHORS"
  shows "admitted_in author (t - w) t (snd (guard_run ord reqs (spam_guard_new w k0))) \<le> b"
proof -
  have "\<exists>now. window_inv w b (fst ` set reqs) now (fold (guard_step ord) reqs (spam_guard_new w k0, []))"
    by (rule window_inv_run [OF window_inv_init])
      (use assms in \<open>auto simp: image_iff split: prod.splits intro: rev_bexI\<close>)
  thus ?thesis by (auto simp: guard_run_def window_inv_def case_prod_unfold)
qed

lemma spam_sliding_window_witness:
  "admitted_in ''a'' 0 60 (snd (guard_run (\<lambda>_. []) [(''a'', 1, 2), (''a'', 2, 2), (''b'', 2, 2), (''a'', 3, 2)]
     (spam_guard_new 60 2))) \<le> 2"
  using spam_sliding_window [of "[(''a'', 1, 2), (''a'', 2, 2), (''b'', 2, 2), (''a'', 3, 2)]" 2 "''a''" 60 60 "\<lambda>_. []" 2]
  by (simp add: MAX_TRACKED_AUTHORS_def insert_commute)

text \<open>The guard's memory is bounded whatever the traffic: whatever authors, (valid) times and
  budgets up to \<open>b\<close> come in, and whatever order the hash map iterates in, it never tracks more
  than \<open>MAX_TRACKED_AUTHORS\<close> authors nor more than \<open>b\<close> stamps for one of them.\<close>

theorem spam_memory_bounded:
  assumes "lists_keys ord" "\<forall>(a, t, k) \<in> set reqs. t < u64_max \<and> k \<le> b"
  shows "tracked_authors (fst (guard_run ord reqs (spam_guard_new w k0))) \<le> MAX_TRACKED_AUTHORS
    \<and> length (Mapping.lookup_default [] (sg_entries (fst (guard_run ord reqs (spam_guard_new w k0)))) author) \<le> b"
proof -
  have "guard_inv b (fst (fold (guard_step ord) reqs st))" if "guard_inv b (fst st)" for st
    using that assms(2)
  proof (induction reqs arbitrary: st)
    case (Cons r reqs)
    have "guard_inv b (fst (guard_step ord r st))"
      using Cons.prems admit_inv [OF assms(1)]
      by (cases r; cases st) (fastforce simp: guard_step_def split: prod.splits dest: arg_cong [of _ _ snd])
    with Cons show ?case by simp
  qed simp
  hence "guard_inv b (fst (guard_run ord reqs (spam_guard_new w k0)))"
    by (simp add: guard_run_def)
  thus ?thesis by (auto simp: guard_inv_def tracked_authors_def)
qed

lemma spam_memory_bounded_witness:
  "tracked_authors (fst (guard_run Mapping.ordered_keys [(''a'', 1, 2), (''b'', 5, 1)] (spam_guard_new 60 12)))
     \<le> MAX_TRACKED_AUTHORS"
proof -
  have "lists_keys Mapping.ordered_keys"
    by (simp add: lists_keys_def Mapping.ordered_keys_def)
  from spam_memory_bounded [OF this, of "[(''a'', 1, 2), (''b'', 5, 1)]" 2 60 12]
  show ?thesis by (simp add: u64_max_def)
qed

end
