(* ===== verification/Reputation.thy ===== *)
theory Reputation
  imports Spam
begin

text \<open>
  The web of trust, \<open>core/src/reputation/mod.rs\<close>: scores, endorsements, activity, abuse records
  and the deduplicated remote abuse reports of one node's local view, and the adaptive
  proof-of-work difficulty computed from them. Scores are \<open>f64\<close> values (theory \<open>F64\<close>); every
  arithmetic step rounds as the code's does.
\<close>

section \<open>State\<close>

definition TRUSTED_THRESHOLD :: rat where "TRUSTED_THRESHOLD = f64 (7 / 10)"
definition ENDORSEMENT_THRESHOLD :: rat where "ENDORSEMENT_THRESHOLD = f64 (7 / 10)"
definition ENDORSEMENT_DECAY :: rat where "ENDORSEMENT_DECAY = f64 (5 / 10)"
definition GENESIS_TRUST :: rat where "GENESIS_TRUST = f64 (8 / 10)"
definition UNKNOWN_TRUST :: rat where "UNKNOWN_TRUST = 0"
definition REQUIRED_ENDORSEMENTS :: nat where "REQUIRED_ENDORSEMENTS = 3"
definition MAX_POW_DIFFICULTY :: nat where "MAX_POW_DIFFICULTY = 4"
definition BASE_POW_DIFFICULTY :: nat where "BASE_POW_DIFFICULTY = 2"

record endorsement =
  en_endorser :: string
  en_endorsed :: string
  en_timestamp :: u64

type_synonym report_key = "string \<times> string \<times> u8"

record reputation =
  rs_scores :: "(string, rat) mapping"
  rs_endorsements :: "(string, endorsement list) mapping"
  rs_activity :: "(string, nat) mapping"
  rs_abuse :: "(string, abuse_record) mapping"
  rs_report_keys :: "report_key set"
  rs_report_order :: "report_key list"

definition reputation_new :: reputation where
  "reputation_new = \<lparr>rs_scores = Mapping.empty, rs_endorsements = Mapping.empty,
     rs_activity = Mapping.empty, rs_abuse = Mapping.empty, rs_report_keys = {}, rs_report_order = []\<rparr>"

text \<open>The \<open>Err\<close> values, one constructor per message of the code.\<close>

datatype rep_error =
    CannotEndorseItself
  | EndorserNotTrusted string rat
  | DuplicateEndorsement
  | EndorsementUnverified
  | ReportUnverified
  | CannotReportItself
  | UnknownReasonCode u8
  | ReporterNotTrusted string rat
  | DuplicateReport

section \<open>Trust\<close>

definition score :: "reputation \<Rightarrow> string \<Rightarrow> rat" where
  "score r k = Mapping.lookup_default UNKNOWN_TRUST (rs_scores r) k"

definition clamp01 :: "rat \<Rightarrow> rat" where
  "clamp01 x = (if x < 0 then 0 else if 1 < x then 1 else x)"

definition set_trusted :: "string \<Rightarrow> rat \<Rightarrow> reputation \<Rightarrow> reputation" where
  "set_trusted k s r = r\<lparr>rs_scores := Mapping.update k (clamp01 s) (rs_scores r)\<rparr>"

definition bootstrap :: "string list \<Rightarrow> reputation \<Rightarrow> reputation" where
  "bootstrap peers r = fold (\<lambda>p. set_trusted p GENESIS_TRUST) peers r"

definition is_trusted :: "reputation \<Rightarrow> string \<Rightarrow> bool" where
  "is_trusted r k \<longleftrightarrow> score r k \<ge> TRUSTED_THRESHOLD"

definition endorsements_of :: "reputation \<Rightarrow> string \<Rightarrow> endorsement list" where
  "endorsements_of r k = Mapping.lookup_default [] (rs_endorsements r) k"

definition endorsement_count :: "reputation \<Rightarrow> string \<Rightarrow> nat" where
  "endorsement_count r k =
     length (filter (\<lambda>e. score r (en_endorser e) \<ge> ENDORSEMENT_THRESHOLD) (endorsements_of r k))"

definition endorse :: "string \<Rightarrow> string \<Rightarrow> u64 \<Rightarrow> reputation \<Rightarrow> (rep_error + rat) \<times> reputation" where
  "endorse endorser endorsed ts r =
     (if endorser = endorsed then (Inl CannotEndorseItself, r)
      else if score r endorser < ENDORSEMENT_THRESHOLD
      then (Inl (EndorserNotTrusted endorser (score r endorser)), r)
      else if \<exists>e \<in> set (endorsements_of r endorsed). en_endorser e = endorser
      then (Inl DuplicateEndorsement, r)
      else
        let e = \<lparr>en_endorser = endorser, en_endorsed = endorsed, en_timestamp = ts\<rparr>;
            r1 = r\<lparr>rs_endorsements := Mapping.update endorsed (endorsements_of r endorsed @ [e]) (rs_endorsements r)\<rparr>;
            gained = f64 (score r1 endorser * ENDORSEMENT_DECAY);
            new_score = max (score r1 endorsed) gained;
            r2 = r1\<lparr>rs_scores := Mapping.update endorsed new_score (rs_scores r1)\<rparr>;
            qualified = endorsement_count r2 endorsed;
            r3 = (if qualified \<ge> REQUIRED_ENDORSEMENTS \<and> new_score < TRUSTED_THRESHOLD
                  then r2\<lparr>rs_scores := Mapping.update endorsed TRUSTED_THRESHOLD (rs_scores r2)\<rparr>
                  else r2)
        in (Inr (score r3 endorsed), r3))"

definition apply_remote_endorsement :: "endorsement \<Rightarrow> bool \<Rightarrow> reputation \<Rightarrow> (rep_error + unit) \<times> reputation" where
  "apply_remote_endorsement e verified r =
     (if \<not> verified then (Inl EndorsementUnverified, r)
      else case endorse (en_endorser e) (en_endorsed e) (en_timestamp e) r of
          (Inl err, r') \<Rightarrow> (Inl err, r')
        | (Inr _, r') \<Rightarrow> (Inr (), r'))"

definition pending_endorsements ::
    "((string, endorsement list) mapping \<Rightarrow> string list) \<Rightarrow> reputation \<Rightarrow> endorsement list" where
  "pending_endorsements ord r = concat (map (endorsements_of r) (ord (rs_endorsements r)))"

definition activity_of :: "reputation \<Rightarrow> string \<Rightarrow> nat" where
  "activity_of r k = Mapping.lookup_default 0 (rs_activity r) k"

definition ACTIVITY_BONUS :: rat where "ACTIVITY_BONUS = f64 (2 / 100)"

definition record_activity :: "string \<Rightarrow> reputation \<Rightarrow> reputation" where
  "record_activity k r =
     (let n = activity_of r k + 1;
          r1 = r\<lparr>rs_activity := Mapping.update k n (rs_activity r)\<rparr>;
          s = score r1 k
      in if n \<ge> 10 \<and> s < TRUSTED_THRESHOLD
         then r1\<lparr>rs_scores := Mapping.update k (min (f64 (s + ACTIVITY_BONUS)) TRUSTED_THRESHOLD) (rs_scores r1)\<rparr>
         else r1)"

definition penalize :: "string \<Rightarrow> rat \<Rightarrow> reputation \<Rightarrow> reputation" where
  "penalize k amount r =
     r\<lparr>rs_scores := Mapping.update k (max (f64 (score r k - amount)) 0) (rs_scores r)\<rparr>"

section \<open>Abuse\<close>

definition stored_abuse_level :: "reputation \<Rightarrow> string \<Rightarrow> rat" where
  "stored_abuse_level r a = (case Mapping.lookup (rs_abuse r) a of Some x \<Rightarrow> ar_score x | None \<Rightarrow> 0)"

definition abuse_level :: "reputation \<Rightarrow> string \<Rightarrow> nat \<Rightarrow> rat" where
  "abuse_level r a now = (case Mapping.lookup (rs_abuse r) a of Some x \<Rightarrow> level_at x now | None \<Rightarrow> 0)"

definition record_violation :: "string \<Rightarrow> abuse_reason \<Rightarrow> nat \<Rightarrow> reputation \<Rightarrow> rat \<times> reputation" where
  "record_violation a reason now r =
     (case abuse_record_add (reason_penalty reason) now
             (Mapping.lookup_default abuse_default (rs_abuse r) a) of
        (level, x) \<Rightarrow> (level, r\<lparr>rs_abuse := Mapping.update a x (rs_abuse r)\<rparr>))"

definition fold_abuse_decay :: "string \<Rightarrow> nat \<Rightarrow> reputation \<Rightarrow> rat \<times> reputation" where
  "fold_abuse_decay a now r =
     (case Mapping.lookup (rs_abuse r) a of
        None \<Rightarrow> (0, r)
      | Some x \<Rightarrow>
          (let folded = level_at x now
           in (folded, r\<lparr>rs_abuse := Mapping.update a (x\<lparr>ar_score := folded, ar_updated_at := now\<rparr>) (rs_abuse r)\<rparr>)))"

definition action_for :: "reputation \<Rightarrow> string \<Rightarrow> nat \<Rightarrow> trust_action" where
  "action_for r a now = action_for_abuse (abuse_level r a now)"

definition effective_score :: "reputation \<Rightarrow> string \<Rightarrow> nat \<Rightarrow> rat" where
  "effective_score r a now = clamp01 (f64 (score r a - abuse_level r a now))"

fun trim_reports :: "report_key set \<Rightarrow> report_key list \<Rightarrow> report_key set \<times> report_key list" where
  "trim_reports keys [] = (keys, [])"
| "trim_reports keys (k # ks) =
     (if length (k # ks) > MAX_ABUSE_REPORTS_TRACKED then trim_reports (keys - {k}) ks
      else (keys, k # ks))"

definition apply_remote_abuse_report :: "abuse_report \<Rightarrow> bool \<Rightarrow> reputation \<Rightarrow> (rep_error + rat) \<times> reputation" where
  "apply_remote_abuse_report rp verified r =
     (let key = (rp_reporter rp, rp_offender rp, rp_reason rp) in
      if \<not> verified then (Inl ReportUnverified, r)
      else if rp_reporter rp = rp_offender rp then (Inl CannotReportItself, r)
      else if reason_from_code (rp_reason rp) = None then (Inl (UnknownReasonCode (rp_reason rp)), r)
      else if score r (rp_reporter rp) < ENDORSEMENT_THRESHOLD
      then (Inl (ReporterNotTrusted (rp_reporter rp) (score r (rp_reporter rp))), r)
      else if key \<in> rs_report_keys r then (Inl DuplicateReport, r)
      else
        case abuse_record_add PENALTY_REMOTE_REPORT (rp_timestamp rp)
               (Mapping.lookup_default abuse_default (rs_abuse r) (rp_offender rp)) of
          (level, x) \<Rightarrow>
            (let (keys, order) = trim_reports (insert key (rs_report_keys r)) (rs_report_order r @ [key])
             in (Inr level, r\<lparr>rs_abuse := Mapping.update (rp_offender rp) x (rs_abuse r),
                              rs_report_keys := keys, rs_report_order := order\<rparr>)))"

definition abuse_report_count :: "reputation \<Rightarrow> nat" where
  "abuse_report_count r = card (rs_report_keys r)"

definition known_count :: "reputation \<Rightarrow> nat" where
  "known_count r = Mapping.size (rs_scores r)"

text \<open>\<open>sort_by\<close> is stable, the comparison is descending on the score.\<close>

definition summary :: "((string, rat) mapping \<Rightarrow> string list) \<Rightarrow> reputation \<Rightarrow> (string \<times> rat \<times> nat) list" where
  "summary ord r =
     sort_key (\<lambda>(_, s, _). - s) (map (\<lambda>k. (k, score r k, endorsement_count r k)) (ord (rs_scores r)))"

section \<open>Adaptive proof of work\<close>

definition required_pow_inner :: "reputation \<Rightarrow> string \<Rightarrow> nat" where
  "required_pow_inner r k =
     (let s = score r k in
      if s \<ge> TRUSTED_THRESHOLD then 0
      else if s \<le> UNKNOWN_TRUST then MAX_POW_DIFFICULTY
      else
        let t = f64 (s / TRUSTED_THRESHOLD);
            diff_f = f64 (f64 (of_nat MAX_POW_DIFFICULTY)
                          - f64 (t * f64 (of_nat (MAX_POW_DIFFICULTY - BASE_POW_DIFFICULTY))));
            d = min 255 (nat (round_away diff_f))
        in max BASE_POW_DIFFICULTY (min MAX_POW_DIFFICULTY d))"

definition required_pow_difficulty :: "reputation \<Rightarrow> string \<Rightarrow> nat" where
  "required_pow_difficulty r k =
     (if stored_abuse_level r k \<ge> ABUSE_THROTTLE_THRESHOLD then MAX_POW_DIFFICULTY
      else required_pow_inner r k)"

definition required_pow_difficulty_at :: "reputation \<Rightarrow> string \<Rightarrow> nat \<Rightarrow> nat" where
  "required_pow_difficulty_at r k now =
     (if abuse_level r k now \<ge> ABUSE_THROTTLE_THRESHOLD then MAX_POW_DIFFICULTY
      else required_pow_inner r k)"

section \<open>The constants\<close>

lemma threshold_eq: "ENDORSEMENT_THRESHOLD = TRUSTED_THRESHOLD"
  by (simp add: ENDORSEMENT_THRESHOLD_def TRUSTED_THRESHOLD_def)

lemma decay_half: "ENDORSEMENT_DECAY = 1 / 2"
  using f64_dyadic [of 1 1] by (simp add: ENDORSEMENT_DECAY_def)

lemma threshold_gt_half: "1 / 2 < TRUSTED_THRESHOLD"
proof -
  have "f64 (of_int 5 / 2 ^ 3) \<le> f64 (7 / 10)" by (rule f64_mono) simp
  thus ?thesis using f64_dyadic [of 5 3] by (simp add: TRUSTED_THRESHOLD_def)
qed

lemma threshold_le_1: "TRUSTED_THRESHOLD \<le> 1"
  by (auto simp: TRUSTED_THRESHOLD_def intro: f64_facts)

lemma threshold_pos [simp]: "0 < TRUSTED_THRESHOLD"
  using threshold_gt_half by linarith

lemma is_f64_threshold [simp]: "is_f64 TRUSTED_THRESHOLD"
  by (simp add: TRUSTED_THRESHOLD_def)

lemma bonus_nonneg [simp]: "0 \<le> ACTIVITY_BONUS"
  by (auto simp: ACTIVITY_BONUS_def intro: f64_facts)

lemma throttle_pos: "0 < ABUSE_THROTTLE_THRESHOLD"
proof -
  have "f64 (of_int 1 / 2 ^ 3) \<le> f64 (15 / 100)" by (rule f64_mono) simp
  thus ?thesis using f64_dyadic [of 1 3] by (simp add: ABUSE_THROTTLE_THRESHOLD_def)
qed

section \<open>Scores\<close>

lemma score_update [simp]:
  "score (r\<lparr>rs_scores := Mapping.update k s m\<rparr>) k' = (if k = k' then s else Mapping.lookup_default UNKNOWN_TRUST m k')"
  by (simp add: score_def lookup_default_update)

lemma score_fold: "Mapping.lookup_default UNKNOWN_TRUST (rs_scores r) k = score r k"
  by (simp add: score_def)

lemma score_cong: "rs_scores r = rs_scores r' \<Longrightarrow> score r = score r'"
  by (simp add: score_def fun_eq_iff)

definition endorsements_ok :: "string \<Rightarrow> endorsement list \<Rightarrow> bool" where
  "endorsements_ok k l \<longleftrightarrow> distinct (map en_endorser l) \<and> (\<forall>e\<in>set l. en_endorsed e = k \<and> en_endorser e \<noteq> k)"

definition rep_inv :: "reputation \<Rightarrow> bool" where
  "rep_inv r \<longleftrightarrow>
     (\<forall>k. is_f64 (score r k) \<and> 0 \<le> score r k \<and> score r k \<le> 1)
   \<and> (\<forall>k. endorsements_ok k (endorsements_of r k))
   \<and> (\<forall>k x. Mapping.lookup (rs_abuse r) k = Some x \<longrightarrow> abuse_ok x)
   \<and> rs_report_keys r = set (rs_report_order r) \<and> distinct (rs_report_order r)
   \<and> length (rs_report_order r) \<le> MAX_ABUSE_REPORTS_TRACKED"

lemma rep_inv_new [simp]: "rep_inv reputation_new"
  by (simp add: rep_inv_def reputation_new_def score_def endorsements_of_def endorsements_ok_def
      UNKNOWN_TRUST_def Mapping.lookup_default_def lookup_empty)

lemma rep_inv_score: "rep_inv r \<Longrightarrow> is_f64 (score r k) \<and> 0 \<le> score r k \<and> score r k \<le> 1"
  by (simp add: rep_inv_def)

lemma rep_inv_set_score:
  assumes "rep_inv r" "is_f64 s" "0 \<le> s" "s \<le> 1"
  shows "rep_inv (r\<lparr>rs_scores := Mapping.update k s (rs_scores r)\<rparr>)"
  using assms by (auto simp: rep_inv_def score_fold endorsements_of_def)

lemma rep_inv_activity: "rep_inv r \<Longrightarrow> rep_inv (r\<lparr>rs_activity := m\<rparr>)"
  by (simp add: rep_inv_def score_def endorsements_of_def)

lemma rep_inv_set_trusted: "rep_inv r \<Longrightarrow> is_f64 s \<Longrightarrow> rep_inv (set_trusted k s r)"
  unfolding set_trusted_def by (rule rep_inv_set_score) (auto simp: clamp01_def)

lemma f64_sub_le: "is_f64 s \<Longrightarrow> 0 \<le> a \<Longrightarrow> f64 (s - a) \<le> s"
  by (rule f64_le_repr) auto

lemma rep_inv_penalize:
  assumes "rep_inv r" "0 \<le> a"
  shows "rep_inv (penalize k a r)"
proof -
  have "f64 (score r k - a) \<le> 1"
    using f64_sub_le [of "score r k" a] rep_inv_score [OF assms(1), of k] assms(2) by linarith
  thus ?thesis
    unfolding penalize_def by (intro rep_inv_set_score [OF assms(1)]) auto
qed

lemma rep_inv_record_activity: "rep_inv r \<Longrightarrow> rep_inv (record_activity k r)"
proof -
  assume inv: "rep_inv r"
  let ?r = "r\<lparr>rs_activity := Mapping.update k (activity_of r k + 1) (rs_activity r)\<rparr>"
  have i: "rep_inv ?r" by (rule rep_inv_activity [OF inv])
  have s: "0 \<le> score ?r k" using rep_inv_score [OF i] by simp
  have "rep_inv (?r\<lparr>rs_scores := Mapping.update k (min (f64 (score ?r k + ACTIVITY_BONUS)) TRUSTED_THRESHOLD) (rs_scores ?r)\<rparr>)"
    using s threshold_le_1 threshold_pos
    by (intro rep_inv_set_score [OF i]) (auto intro!: f64_nonneg simp: min_le_iff_disj simp del: threshold_pos)
  thus ?thesis using i unfolding record_activity_def Let_def by (auto split: if_splits)
qed

subsection \<open>Endorsing\<close>

definition gained_score :: "reputation \<Rightarrow> string \<Rightarrow> string \<Rightarrow> rat" where
  "gained_score r endorser endorsed = max (score r endorsed) (f64 (score r endorser * ENDORSEMENT_DECAY))"

definition endorse_ok :: "string \<Rightarrow> string \<Rightarrow> reputation \<Rightarrow> bool" where
  "endorse_ok a b r \<longleftrightarrow> a \<noteq> b \<and> \<not> score r a < ENDORSEMENT_THRESHOLD
     \<and> (\<forall>e \<in> set (endorsements_of r b). en_endorser e \<noteq> a)"

definition endorse_list :: "string \<Rightarrow> string \<Rightarrow> u64 \<Rightarrow> reputation \<Rightarrow> reputation" where
  "endorse_list a b ts r = r\<lparr>rs_endorsements := Mapping.update b
     (endorsements_of r b @ [\<lparr>en_endorser = a, en_endorsed = b, en_timestamp = ts\<rparr>]) (rs_endorsements r),
     rs_scores := Mapping.update b (gained_score r a b) (rs_scores r)\<rparr>"

lemma endorse_refused: "\<not> endorse_ok a b r \<Longrightarrow> \<exists>err. endorse a b ts r = (Inl err, r)"
  by (auto simp: endorse_ok_def endorse_def)

lemma endorse_accepted:
  assumes "endorse_ok a b r"
  shows "endorse a b ts r =
    (let r2 = endorse_list a b ts r;
         r3 = (if endorsement_count r2 b \<ge> REQUIRED_ENDORSEMENTS \<and> gained_score r a b < TRUSTED_THRESHOLD
               then r2\<lparr>rs_scores := Mapping.update b TRUSTED_THRESHOLD (rs_scores r2)\<rparr> else r2)
     in (Inr (score r3 b), r3))"
  using assms
  by (simp add: endorse_def endorse_ok_def endorse_list_def gained_score_def Let_def score_def)

lemma endorsements_of_list:
  "endorsements_of (endorse_list a b ts r) k =
     (if k = b then endorsements_of r b @ [\<lparr>en_endorser = a, en_endorsed = b, en_timestamp = ts\<rparr>]
      else endorsements_of r k)"
  by (simp add: endorse_list_def endorsements_of_def lookup_default_update)

lemma gained_range: "rep_inv r \<Longrightarrow> is_f64 (gained_score r a b) \<and> 0 \<le> gained_score r a b \<and> gained_score r a b \<le> 1"
proof -
  assume inv: "rep_inv r"
  have "f64 (score r a * ENDORSEMENT_DECAY) \<le> 1"
    using rep_inv_score [OF inv, of a] by (intro f64_le_1) (simp add: decay_half)
  thus ?thesis using rep_inv_score [OF inv, of b] by (simp add: gained_score_def le_max_iff_disj)
qed

lemma gained_untrusted: "rep_inv r \<Longrightarrow> \<not> is_trusted r b \<Longrightarrow> gained_score r a b < TRUSTED_THRESHOLD"
proof -
  assume inv: "rep_inv r" and nt: "\<not> is_trusted r b"
  have "f64 (of_int 1 / 2 ^ 1) = (1 / 2 :: rat)" using f64_dyadic [of 1 1] by simp
  moreover have "f64 (score r a * ENDORSEMENT_DECAY) \<le> f64 (1 / 2)"
    using rep_inv_score [OF inv, of a] by (intro f64_mono) (simp add: decay_half)
  ultimately show ?thesis using nt threshold_gt_half by (simp add: gained_score_def is_trusted_def)
qed

lemma rep_inv_endorse_list:
  assumes "rep_inv r" "endorse_ok a b r"
  shows "rep_inv (endorse_list a b ts r)"
proof -
  have "rep_inv (r\<lparr>rs_scores := Mapping.update b (gained_score r a b) (rs_scores r)\<rparr>)"
    using gained_range [OF assms(1), of a b] by (intro rep_inv_set_score [OF assms(1)]) auto
  moreover have "endorsements_ok b (endorsements_of r b @ [\<lparr>en_endorser = a, en_endorsed = b, en_timestamp = ts\<rparr>])"
    using assms by (auto simp: rep_inv_def endorsements_ok_def endorse_ok_def)
  ultimately show ?thesis
    by (auto simp: rep_inv_def endorse_list_def endorsements_of_def lookup_default_update score_def)
qed

lemma rep_inv_endorse: "rep_inv r \<Longrightarrow> rep_inv (snd (endorse a b ts r))"
proof (cases "endorse_ok a b r")
  case False
  thus "rep_inv r \<Longrightarrow> ?thesis" using endorse_refused [OF False, of ts] by auto
next
  case True
  assume inv: "rep_inv r"
  have i: "rep_inv (endorse_list a b ts r)" by (rule rep_inv_endorse_list [OF inv True])
  have "rep_inv ((endorse_list a b ts r)\<lparr>rs_scores := Mapping.update b TRUSTED_THRESHOLD (rs_scores (endorse_list a b ts r))\<rparr>)"
    by (intro rep_inv_set_score [OF i]) (auto simp: threshold_le_1 less_imp_le)
  thus ?thesis using i by (simp add: endorse_accepted [OF True] Let_def)
qed

subsection \<open>Abuse\<close>

lemma rep_inv_abuse_default: "rep_inv r \<Longrightarrow> abuse_ok (Mapping.lookup_default abuse_default (rs_abuse r) a)"
  by (auto simp: rep_inv_def Mapping.lookup_default_def split: option.split)

lemma rep_inv_set_abuse:
  "rep_inv r \<Longrightarrow> abuse_ok x \<Longrightarrow> rep_inv (r\<lparr>rs_abuse := Mapping.update a x (rs_abuse r)\<rparr>)"
  by (auto simp: rep_inv_def score_def endorsements_of_def lookup_update' split: if_splits)

lemma rep_inv_record_violation: "rep_inv r \<Longrightarrow> rep_inv (snd (record_violation a reason t r))"
  using rep_inv_set_abuse [OF _ abuse_ok_add [OF rep_inv_abuse_default penalty_nonneg]]
  by (auto simp: record_violation_def split: prod.split) (metis snd_conv)

lemma rep_inv_fold: "rep_inv r \<Longrightarrow> rep_inv (snd (fold_abuse_decay a t r))"
proof (cases "Mapping.lookup (rs_abuse r) a")
  case (Some x)
  assume inv: "rep_inv r"
  hence ok: "abuse_ok x" using Some by (simp add: rep_inv_def)
  have "abuse_ok (x\<lparr>ar_score := level_at x t, ar_updated_at := t\<rparr>)"
    using level_at_range [OF ok, of t] by (simp add: abuse_ok_def level_at_def)
  from rep_inv_set_abuse [OF inv this] show ?thesis by (simp add: fold_abuse_decay_def Some Let_def)
qed (simp add: fold_abuse_decay_def)

lemma trim_reports_spec:
  assumes "distinct order"
  shows "snd (trim_reports keys order) = last_n MAX_ABUSE_REPORTS_TRACKED order
    \<and> (keys = set order \<longrightarrow> fst (trim_reports keys order) = set (last_n MAX_ABUSE_REPORTS_TRACKED order))"
  using assms
proof (induction order arbitrary: keys)
  case (Cons k ks)
  show ?case
  proof (cases "length (k # ks) > MAX_ABUSE_REPORTS_TRACKED")
    case True
    hence "last_n MAX_ABUSE_REPORTS_TRACKED (k # ks) = last_n MAX_ABUSE_REPORTS_TRACKED ks"
      by (simp add: last_n_def Suc_diff_le)
    moreover have "keys = set (k # ks) \<Longrightarrow> keys - {k} = set ks" using Cons.prems by auto
    ultimately show ?thesis using Cons.IH [of "keys - {k}"] Cons.prems True by auto
  qed (simp add: last_n_def)
qed (simp add: last_n_def)

lemma rep_inv_report: "rep_inv r \<Longrightarrow> rep_inv (snd (apply_remote_abuse_report rp v r))"
proof -
  assume inv: "rep_inv r"
  let ?key = "(rp_reporter rp, rp_offender rp, rp_reason rp)"
  let ?x = "snd (abuse_record_add PENALTY_REMOTE_REPORT (rp_timestamp rp)
       (Mapping.lookup_default abuse_default (rs_abuse r) (rp_offender rp)))"
  let ?t = "trim_reports (insert ?key (rs_report_keys r)) (rs_report_order r @ [?key])"
  have "rep_inv (r\<lparr>rs_abuse := Mapping.update (rp_offender rp) ?x (rs_abuse r)\<rparr>)"
    by (rule rep_inv_set_abuse [OF inv abuse_ok_add [OF rep_inv_abuse_default [OF inv]]]) simp
  moreover have "snd ?t = last_n MAX_ABUSE_REPORTS_TRACKED (rs_report_order r @ [?key])
      \<and> fst ?t = set (snd ?t)" if "?key \<notin> rs_report_keys r"
    using trim_reports_spec [of "rs_report_order r @ [?key]" "insert ?key (rs_report_keys r)"] inv that
    by (auto simp: rep_inv_def)
  ultimately have "rep_inv (r\<lparr>rs_abuse := Mapping.update (rp_offender rp) ?x (rs_abuse r),
      rs_report_keys := fst ?t, rs_report_order := snd ?t\<rparr>)" if "?key \<notin> rs_report_keys r"
    using that inv by (auto simp: rep_inv_def score_def endorsements_of_def simp del: trim_reports.simps)
  thus ?thesis using inv
    by (auto simp: apply_remote_abuse_report_def Let_def split: prod.split simp del: trim_reports.simps)
qed

section \<open>The reputation store as a state machine\<close>

datatype rep_op =
    RBootstrap "string list"
  | RSetTrusted string rat
  | REndorse string string u64
  | RRemoteEndorse endorsement bool
  | RActivity string
  | RPenalize string rat
  | RViolation string abuse_reason nat
  | RFold string nat
  | RReport abuse_report bool

fun rep_step :: "rep_op \<Rightarrow> reputation \<Rightarrow> reputation" where
  "rep_step (RBootstrap ps) r = bootstrap ps r"
| "rep_step (RSetTrusted k s) r = set_trusted k s r"
| "rep_step (REndorse a b ts) r = snd (endorse a b ts r)"
| "rep_step (RRemoteEndorse e v) r = snd (apply_remote_endorsement e v r)"
| "rep_step (RActivity k) r = record_activity k r"
| "rep_step (RPenalize k a) r = penalize k a r"
| "rep_step (RViolation k reason t) r = snd (record_violation k reason t r)"
| "rep_step (RFold k t) r = snd (fold_abuse_decay k t r)"
| "rep_step (RReport rp v) r = snd (apply_remote_abuse_report rp v r)"

text \<open>Arguments the callers pass: floats are representable, penalties are not negative.\<close>

fun rep_op_ok :: "rep_op \<Rightarrow> bool" where
  "rep_op_ok (RSetTrusted k s) = is_f64 s"
| "rep_op_ok (RPenalize k a) = (0 \<le> a)"
| "rep_op_ok _ = True"

lemma rep_inv_bootstrap: "rep_inv r \<Longrightarrow> rep_inv (bootstrap ps r)"
  unfolding bootstrap_def GENESIS_TRUST_def
  by (induction ps arbitrary: r) (simp_all add: rep_inv_set_trusted)

lemma rep_inv_remote_endorse: "rep_inv r \<Longrightarrow> rep_inv (snd (apply_remote_endorsement e v r))"
  using rep_inv_endorse [of r "en_endorser e" "en_endorsed e" "en_timestamp e"]
  by (auto simp: apply_remote_endorsement_def split: prod.split sum.split)

interpretation repm: guarded_machine rep_step rep_inv rep_op_ok
proof
  fix op r assume "rep_inv r" "rep_op_ok op"
  thus "rep_inv (rep_step op r)"
    by (cases op) (auto intro: rep_inv_bootstrap rep_inv_set_trusted rep_inv_endorse rep_inv_remote_endorse
        rep_inv_record_activity rep_inv_penalize rep_inv_record_violation rep_inv_fold rep_inv_report)
qed

lemma rep_inv_level: "rep_inv r \<Longrightarrow> 0 \<le> abuse_level r a t \<and> abuse_level r a t \<le> 1"
  using level_at_range by (auto simp: rep_inv_def abuse_level_def split: option.split)

section \<open>Properties\<close>

text \<open>In every state a node's reputation store can reach, each trust score, abuse level and
  effective score lies between 0 and 1, the effective score never exceeds the trust score, and the
  table of remote reports holds at most \<open>MAX_ABUSE_REPORTS_TRACKED\<close> keys.\<close>

theorem reputation_ranges:
  assumes "list_all rep_op_ok ops" "r = fold rep_step ops reputation_new"
  shows "0 \<le> score r k \<and> score r k \<le> 1 \<and> 0 \<le> abuse_level r k t \<and> abuse_level r k t \<le> 1
    \<and> 0 \<le> effective_score r k t \<and> effective_score r k t \<le> score r k
    \<and> abuse_report_count r \<le> MAX_ABUSE_REPORTS_TRACKED"
proof -
  have inv: "rep_inv r" unfolding assms(2) by (rule repm.run_inv [OF rep_inv_new assms(1)])
  have s: "is_f64 (score r k) \<and> 0 \<le> score r k \<and> score r k \<le> 1" by (rule rep_inv_score [OF inv])
  have l: "0 \<le> abuse_level r k t \<and> abuse_level r k t \<le> 1" by (rule rep_inv_level [OF inv])
  have "f64 (score r k - abuse_level r k t) \<le> score r k" using s l by (intro f64_sub_le) auto
  hence "0 \<le> effective_score r k t \<and> effective_score r k t \<le> score r k"
    using s by (auto simp: effective_score_def clamp01_def)
  moreover have "abuse_report_count r \<le> MAX_ABUSE_REPORTS_TRACKED"
    using inv by (simp add: rep_inv_def abuse_report_count_def distinct_card)
  ultimately show ?thesis using s l by blast
qed

lemma reputation_ranges_witness:
  "0 \<le> effective_score (fold rep_step [RSetTrusted ''a'' 1, RPenalize ''a'' 2, RActivity ''b''] reputation_new) ''a'' 5"
  using reputation_ranges [OF _ refl, of "[RSetTrusted ''a'' 1, RPenalize ''a'' 2, RActivity ''b'']" "''a''" 5]
  by simp

text \<open>C21: an endorsement alone never makes a node trusted: if \<open>endorse\<close> turns an untrusted node into
  a trusted one, at least \<open>REQUIRED_ENDORSEMENTS\<close> pairwise distinct nodes other than itself have
  endorsed it and are trusted at that moment; and its score is then exactly the threshold.\<close>

theorem endorse_needs_three:
  assumes "rep_inv r" "\<not> is_trusted r b" "endorse a b ts r = (res, r')" "is_trusted r' b"
  shows "\<exists>es. length es \<ge> REQUIRED_ENDORSEMENTS \<and> distinct (map en_endorser es)
      \<and> set es \<subseteq> set (endorsements_of r' b)
      \<and> (\<forall>e\<in>set es. en_endorser e \<noteq> b \<and> is_trusted r' (en_endorser e))
    \<and> score r' b = TRUSTED_THRESHOLD"
proof -
  have ok: "endorse_ok a b r"
    using assms(2-4) endorse_refused [of a b r ts] by (metis prod.inject)
  let ?two = "endorse_list a b ts r"
  have low: "gained_score r a b < TRUSTED_THRESHOLD" by (rule gained_untrusted [OF assms(1,2)])
  have "score ?two b = gained_score r a b" by (simp add: endorse_list_def score_def lookup_default_update)
  hence cnt: "endorsement_count ?two b \<ge> REQUIRED_ENDORSEMENTS"
    and r': "r' = ?two\<lparr>rs_scores := Mapping.update b TRUSTED_THRESHOLD (rs_scores ?two)\<rparr>"
    using assms(3,4) low by (auto simp: endorse_accepted [OF ok] Let_def is_trusted_def split: if_splits)
  let ?es = "filter (\<lambda>e. score ?two (en_endorser e) \<ge> ENDORSEMENT_THRESHOLD) (endorsements_of ?two b)"
  have eok: "endorsements_ok b (endorsements_of ?two b)"
    using rep_inv_endorse_list [OF assms(1) ok, of ts] by (simp add: rep_inv_def)
  have same: "endorsements_of r' b = endorsements_of ?two b" by (simp add: r' endorsements_of_def)
  have "distinct (map en_endorser ?es)"
    using eok by (simp add: endorsements_ok_def distinct_map_filter)
  moreover have "\<forall>e\<in>set ?es. en_endorser e \<noteq> b \<and> is_trusted r' (en_endorser e)"
    using eok by (auto simp: endorsements_ok_def is_trusted_def r' threshold_eq score_fold)
  moreover have "set ?es \<subseteq> set (endorsements_of r' b)" by (auto simp: same)
  moreover have "length ?es \<ge> REQUIRED_ENDORSEMENTS" using cnt by (simp add: endorsement_count_def)
  moreover have "score r' b = TRUSTED_THRESHOLD" by (simp add: r')
  ultimately show ?thesis by blast
qed

definition sample_trust :: reputation where
  "sample_trust = reputation_new\<lparr>
     rs_scores := Mapping.update ''n'' (1 / 2) (Mapping.update ''z'' 1 (Mapping.update ''y'' 1
       (Mapping.update ''x'' 1 Mapping.empty))),
     rs_endorsements := Mapping.update ''n''
       [\<lparr>en_endorser = ''x'', en_endorsed = ''n'', en_timestamp = 0\<rparr>,
        \<lparr>en_endorser = ''y'', en_endorsed = ''n'', en_timestamp = 0\<rparr>] Mapping.empty\<rparr>"

lemma f64_half [simp]: "f64 (1 / 2) = 1 / 2"
  using f64_dyadic [of 1 1] by simp

lemma sample_trust_simps:
  "score sample_trust k = (if k = ''n'' then 1 / 2 else if k \<in> {''x'', ''y'', ''z''} then 1 else 0)"
  "endorsements_of sample_trust k = (if k = ''n'' then
       [\<lparr>en_endorser = ''x'', en_endorsed = ''n'', en_timestamp = 0\<rparr>,
        \<lparr>en_endorser = ''y'', en_endorsed = ''n'', en_timestamp = 0\<rparr>] else [])"
  by (auto simp: sample_trust_def score_def endorsements_of_def reputation_new_def UNKNOWN_TRUST_def
      lookup_default_update Mapping.lookup_default_def lookup_empty lookup_update')

lemma endorse_needs_three_witness:
  "score (snd (endorse ''z'' ''n'' 0 sample_trust)) ''n'' = TRUSTED_THRESHOLD"
proof -
  have 1: "rep_inv sample_trust"
    by (auto simp: rep_inv_def sample_trust_simps endorsements_ok_def is_f64_def)
      (simp_all add: sample_trust_def reputation_new_def lookup_empty)
  have 2: "\<not> is_trusted sample_trust ''n''"
    using threshold_gt_half by (simp add: is_trusted_def sample_trust_simps)
  have ok: "endorse_ok ''z'' ''n'' sample_trust"
    using threshold_le_1 by (simp add: endorse_ok_def sample_trust_simps threshold_eq)
  have g: "gained_score sample_trust ''z'' ''n'' = 1 / 2"
    by (simp add: gained_score_def sample_trust_simps decay_half)
  have sc: "score (endorse_list ''z'' ''n'' 0 sample_trust) k = score sample_trust k" for k
    by (simp add: endorse_list_def score_fold g) (simp add: sample_trust_simps)
  have "endorsement_count (endorse_list ''z'' ''n'' 0 sample_trust) ''n'' = 3"
    using threshold_le_1 by (simp add: endorsement_count_def sc endorsements_of_list sample_trust_simps threshold_eq)
  hence 3: "is_trusted (snd (endorse ''z'' ''n'' 0 sample_trust)) ''n''"
    using threshold_gt_half
    by (simp add: endorse_accepted [OF ok] Let_def g REQUIRED_ENDORSEMENTS_def is_trusted_def)
  from endorse_needs_three [OF 1 2 prod.collapse [symmetric] 3] show ?thesis by blast
qed

lemma round_away_mono: "0 \<le> x \<Longrightarrow> x \<le> y \<Longrightarrow> round_away x \<le> round_away y"
  by (auto simp: round_away_def intro: floor_mono)

lemma required_pow_inner_bounds:
  "required_pow_inner r k = 0 \<and> is_trusted r k
   \<or> \<not> is_trusted r k \<and> BASE_POW_DIFFICULTY \<le> required_pow_inner r k \<and> required_pow_inner r k \<le> MAX_POW_DIFFICULTY"
  by (simp add: required_pow_inner_def is_trusted_def Let_def BASE_POW_DIFFICULTY_def MAX_POW_DIFFICULTY_def)

definition pow_diff :: "rat \<Rightarrow> rat" where
  "pow_diff s = f64 (f64 (of_nat MAX_POW_DIFFICULTY)
     - f64 (f64 (s / TRUSTED_THRESHOLD) * f64 (of_nat (MAX_POW_DIFFICULTY - BASE_POW_DIFFICULTY))))"

lemma pow_diff_antimono: "s \<le> s' \<Longrightarrow> pow_diff s' \<le> pow_diff s"
  unfolding pow_diff_def
  by (intro f64_mono diff_left_mono mult_right_mono divide_right_mono f64_nonneg) (auto simp: less_imp_le)

lemma pow_diff_nonneg: "s \<le> TRUSTED_THRESHOLD \<Longrightarrow> 0 \<le> pow_diff s"
proof -
  assume "s \<le> TRUSTED_THRESHOLD"
  hence "pow_diff TRUSTED_THRESHOLD \<le> pow_diff s" by (rule pow_diff_antimono)
  moreover have "pow_diff TRUSTED_THRESHOLD = 2"
    using f64_int [of 4] f64_int [of 2]
    by (simp add: pow_diff_def MAX_POW_DIFFICULTY_def BASE_POW_DIFFICULTY_def less_imp_neq [symmetric])
  ultimately show ?thesis by linarith
qed

lemma required_pow_inner_eq:
  "required_pow_inner r k =
     (if is_trusted r k then 0 else if score r k \<le> 0 then MAX_POW_DIFFICULTY
      else max BASE_POW_DIFFICULTY (min MAX_POW_DIFFICULTY (min 255 (nat (round_away (pow_diff (score r k)))))))"
  by (simp add: required_pow_inner_def is_trusted_def pow_diff_def Let_def UNKNOWN_TRUST_def)

text \<open>The proof of work asked of an author is 0 exactly for a trusted author whose abuse level
  is below the throttling threshold, the maximum for an author who is throttled or unknown, and
  otherwise between the network floor and the maximum; it never grows with the trust score.\<close>

theorem required_pow_adaptive:
  "(required_pow_difficulty_at r k now = 0
      \<longleftrightarrow> is_trusted r k \<and> abuse_level r k now < ABUSE_THROTTLE_THRESHOLD)
   \<and> required_pow_difficulty_at r k now \<in> {0} \<union> {BASE_POW_DIFFICULTY .. MAX_POW_DIFFICULTY}
   \<and> (score r k \<le> score r k' \<longrightarrow> abuse_level r k' now \<le> abuse_level r k now \<longrightarrow>
        required_pow_difficulty_at r k' now \<le> required_pow_difficulty_at r k now)"
proof (intro conjI impI)
  show "required_pow_difficulty_at r k now = 0
      \<longleftrightarrow> is_trusted r k \<and> abuse_level r k now < ABUSE_THROTTLE_THRESHOLD"
    using required_pow_inner_bounds [of r k]
    by (auto simp: required_pow_difficulty_at_def MAX_POW_DIFFICULTY_def BASE_POW_DIFFICULTY_def)
  show "required_pow_difficulty_at r k now \<in> {0} \<union> {BASE_POW_DIFFICULTY .. MAX_POW_DIFFICULTY}"
    using required_pow_inner_bounds [of r k]
    by (auto simp: required_pow_difficulty_at_def MAX_POW_DIFFICULTY_def BASE_POW_DIFFICULTY_def)
  assume s: "score r k \<le> score r k'" and a: "abuse_level r k' now \<le> abuse_level r k now"
  have "required_pow_inner r k' \<le> required_pow_inner r k"
  proof (cases "is_trusted r k' \<or> score r k \<le> 0")
    case True
    thus ?thesis using s required_pow_inner_bounds [of r k']
      by (auto simp: required_pow_inner_eq is_trusted_def MAX_POW_DIFFICULTY_def BASE_POW_DIFFICULTY_def)
  next
    case False
    hence nt: "\<not> is_trusted r k" using s by (auto simp: is_trusted_def)
    have "round_away (pow_diff (score r k')) \<le> round_away (pow_diff (score r k))"
      using False by (intro round_away_mono pow_diff_nonneg pow_diff_antimono s) (simp add: is_trusted_def)
    thus ?thesis using False nt s by (auto simp: required_pow_inner_eq)
  qed
  thus "required_pow_difficulty_at r k' now \<le> required_pow_difficulty_at r k now"
    using a required_pow_inner_bounds [of r k']
    by (auto simp: required_pow_difficulty_at_def MAX_POW_DIFFICULTY_def)
qed

lemma required_pow_adaptive_witness:
  "required_pow_difficulty_at (set_trusted ''b'' 1 reputation_new) ''b'' 7
     \<le> required_pow_difficulty_at (set_trusted ''b'' 1 reputation_new) ''a'' 7"
  using required_pow_adaptive [of "set_trusted ''b'' 1 reputation_new" "''a''" 7 "''b''"]
  by (simp add: set_trusted_def score_def clamp01_def reputation_new_def UNKNOWN_TRUST_def
      Mapping.lookup_default_def lookup_empty lookup_update' abuse_level_def)

lemma recovery_hundred: "1 \<le> f64 (f64 (of_nat 100) * ABUSE_RECOVERY_PER_HOUR)"
proof -
  have "f64 (of_nat 100) = (100 :: rat)" using f64_int [of 100] by simp
  moreover have "1 \<le> 100 * ABUSE_RECOVERY_PER_HOUR" by code_simp
  ultimately show ?thesis by (intro f64_ge_repr) simp_all
qed

lemma decayed_forgotten:
  assumes "s \<le> 1" "u + 100 * SECS_PER_HOUR \<le> t"
  shows "decayed_abuse s u t = 0"
proof -
  have "100 \<le> (t - u) div SECS_PER_HOUR"
    using assms(2) by (simp add: SECS_PER_HOUR_def less_eq_div_iff_mult_less_eq)
  hence "1 \<le> f64 (f64 (of_nat ((t - u) div SECS_PER_HOUR)) * ABUSE_RECOVERY_PER_HOUR)"
    using decay_amount_mono recovery_hundred order_trans by blast
  hence "f64 (s - f64 (f64 (of_nat ((t - u) div SECS_PER_HOUR)) * ABUSE_RECOVERY_PER_HOUR)) \<le> f64 0"
    using assms(1) by (intro f64_mono) linarith
  thus ?thesis by (simp add: decayed_abuse_def Let_def)
qed

definition severity :: "trust_action \<Rightarrow> nat" where
  "severity a = (case a of Accept \<Rightarrow> 0 | Throttle \<Rightarrow> 1 | Deprioritize \<Rightarrow> 2 | Ignore \<Rightarrow> 3)"

lemma thresholds_ordered:
  "ABUSE_THROTTLE_THRESHOLD \<le> ABUSE_DEPRIORITIZE_THRESHOLD"
  "ABUSE_DEPRIORITIZE_THRESHOLD \<le> ABUSE_IGNORE_THRESHOLD"
  by (auto simp: ABUSE_THROTTLE_THRESHOLD_def ABUSE_DEPRIORITIZE_THRESHOLD_def
      ABUSE_IGNORE_THRESHOLD_def intro!: f64_mono)

lemma severity_mono: "x \<le> y \<Longrightarrow> severity (action_for_abuse x) \<le> severity (action_for_abuse y)"
  using thresholds_ordered by (auto simp: action_for_abuse_def severity_def)

lemma action_zero [simp]: "action_for_abuse 0 = Accept"
  using throttle_pos thresholds_ordered by (simp add: action_for_abuse_def)

lemma abuse_level_mono: "t \<le> t' \<Longrightarrow> abuse_level r a t' \<le> abuse_level r a t"
  by (auto simp: abuse_level_def level_at_def decayed_mono_time split: option.split)

text \<open>Slow recovery. As time passes without a new violation an author's abuse level only goes
  down, so the action against him only gets milder, and after 100 hours nothing is left: he is
  accepted again. An author with no abuse record is always accepted.\<close>

theorem abuse_recovery:
  assumes "rep_inv r" "t \<le> t'"
  shows "abuse_level r a t' \<le> abuse_level r a t
    \<and> severity (action_for r a t') \<le> severity (action_for r a t)
    \<and> (Mapping.lookup (rs_abuse r) a = None \<longrightarrow> action_for r a t = Accept)
    \<and> (\<forall>x. Mapping.lookup (rs_abuse r) a = Some x \<longrightarrow> ar_updated_at x + 100 * SECS_PER_HOUR \<le> t
         \<longrightarrow> abuse_level r a t = 0 \<and> action_for r a t = Accept)"
proof -
  have "abuse_level r a t = 0" if "Mapping.lookup (rs_abuse r) a = Some x" "ar_updated_at x + 100 * SECS_PER_HOUR \<le> t" for x
    using assms(1) that decayed_forgotten [of "ar_score x" "ar_updated_at x" t]
    by (auto simp: rep_inv_def abuse_ok_def abuse_level_def level_at_def)
  thus ?thesis
    using abuse_level_mono [OF assms(2)] severity_mono by (auto simp: action_for_def abuse_level_def)
qed

lemma abuse_recovery_witness:
  "action_for (snd (record_violation ''a'' ExcessiveRate 0 reputation_new)) ''a'' 360000 = Accept"
proof -
  let ?r = "snd (record_violation ''a'' ExcessiveRate 0 reputation_new)"
  have "rep_inv ?r" by (rule rep_inv_record_violation) simp
  moreover have "\<exists>x. Mapping.lookup (rs_abuse ?r) ''a'' = Some x \<and> ar_updated_at x = 0"
    by (simp add: record_violation_def abuse_record_add_def Let_def abuse_default_def)
  ultimately show ?thesis
    using abuse_recovery [of ?r 360000 360000 "''a''"] by (auto simp: SECS_PER_HOUR_def)
qed

subsection \<open>Repeated violations\<close>

lemma excessive_ge: "19 / 64 \<le> PENALTY_EXCESSIVE_RATE"
proof -
  have "f64 (of_int 19 / 2 ^ 6) \<le> f64 (30 / 100)" by (rule f64_mono) simp
  thus ?thesis using f64_dyadic [of 19 6] by (simp add: PENALTY_EXCESSIVE_RATE_def)
qed

lemma ignore_le: "ABUSE_IGNORE_THRESHOLD \<le> 57 / 64"
proof -
  have "f64 (80 / 100) \<le> f64 (of_int 57 / 2 ^ 6)" by (rule f64_mono) simp
  thus ?thesis using f64_dyadic [of 57 6] by (simp add: ABUSE_IGNORE_THRESHOLD_def)
qed

lemma abuse_level_record:
  "abuse_level (snd (record_violation a reason t r)) a t'
     = level_at (snd (abuse_record_add (reason_penalty reason) t (Mapping.lookup_default abuse_default (rs_abuse r) a))) t'"
  by (simp add: record_violation_def abuse_level_def split: prod.split)

lemma decayed_zero: "decayed_abuse 0 u t = 0"
  using decayed_le [of 0 u t] decayed_nonneg [of 0 u t] by simp

lemma abuse_level_default: "abuse_level r a t = level_at (Mapping.lookup_default abuse_default (rs_abuse r) a) t"
  by (auto simp: abuse_level_def Mapping.lookup_default_def level_at_def decayed_zero
      abuse_default_def split: option.split)

text \<open>A violation raises the level by at least any dyadic part of its penalty, as long as the
  ceiling is not reached and the clock stays within the hour.\<close>

lemma record_violation_raises:
  assumes inv: "rep_inv r" and t: "t \<le> t'" "t' < t + SECS_PER_HOUR"
    and k: "0 < k" "k \<le> 64" "of_int j / 64 \<le> abuse_level r a t" "of_int (k - j) / 64 \<le> reason_penalty reason"
  shows "of_int k / 64 \<le> abuse_level (snd (record_violation a reason t r)) a t'"
proof -
  let ?x = "Mapping.lookup_default abuse_default (rs_abuse r) a"
  let ?y = "snd (abuse_record_add (reason_penalty reason) t ?x)"
  have ok: "abuse_ok ?y" by (rule abuse_ok_add [OF rep_inv_abuse_default [OF inv] penalty_nonneg])
  have y: "ar_updated_at ?y = t" "ar_score ?y = min (f64 (level_at ?x t + reason_penalty reason)) 1"
    by (simp_all add: abuse_record_add_def Let_def)
  have "is_f64 (of_int k / 64)" using f64_dyadic [of k 6] k by (simp add: is_f64_def)
  moreover have "of_int k / 64 \<le> level_at ?x t + reason_penalty reason"
    using k(3,4) by (simp add: abuse_level_default diff_divide_distrib)
  ultimately have "of_int k / 64 \<le> f64 (level_at ?x t + reason_penalty reason)" by (rule f64_ge_repr)
  hence "of_int k / 64 \<le> ar_score ?y" using k(2) by (simp add: y)
  also have "ar_score ?y = level_at ?y t'"
    using ok t y(1) by (simp add: level_at_def abuse_ok_def decayed_same)
  finally show ?thesis by (simp add: abuse_level_record)
qed

text \<open>Escalation. Three excessive-rate violations within one hour put any author, whatever his
  trust, in the \<open>Ignore\<close> regime, and the proof of work asked of him is then the maximum.\<close>

theorem three_violations_ignore:
  assumes "rep_inv r" "t \<le> t'" "t' \<le> t''" "t'' < t + SECS_PER_HOUR"
    and "r' = snd (record_violation a ExcessiveRate t'' (snd (record_violation a ExcessiveRate t'
               (snd (record_violation a ExcessiveRate t r)))))"
  shows "action_for r' a t'' = Ignore \<and> required_pow_difficulty_at r' a t'' = MAX_POW_DIFFICULTY"
proof -
  let ?one = "snd (record_violation a ExcessiveRate t r)"
  let ?two = "snd (record_violation a ExcessiveRate t' ?one)"
  have i1: "rep_inv ?one" and i2: "rep_inv ?two"
    using assms(1) rep_inv_record_violation by blast+
  have "of_int 19 / 64 \<le> abuse_level ?one a t'"
    using rep_inv_level [OF assms(1), of a t] excessive_ge assms(2-4)
    by (intro record_violation_raises [OF assms(1), where j = 0]) auto
  hence "of_int 38 / 64 \<le> abuse_level ?two a t''"
    using excessive_ge assms(2-4)
    by (intro record_violation_raises [OF i1, where j = 19]) auto
  hence "of_int 57 / 64 \<le> abuse_level r' a t''"
    unfolding assms(5) using excessive_ge
    by (intro record_violation_raises [OF i2, where j = 38]) (auto simp: SECS_PER_HOUR_def)
  hence "ABUSE_IGNORE_THRESHOLD \<le> abuse_level r' a t''" using ignore_le by simp
  thus ?thesis using thresholds_ordered
    by (simp add: action_for_def action_for_abuse_def required_pow_difficulty_at_def)
qed

lemma three_violations_ignore_witness:
  "action_for (snd (record_violation ''a'' ExcessiveRate 30 (snd (record_violation ''a'' ExcessiveRate 20
     (snd (record_violation ''a'' ExcessiveRate 10 reputation_new)))))) ''a'' 30 = Ignore"
  using three_violations_ignore [OF rep_inv_new, of 10 20 30 _ "''a''", OF _ _ _ refl]
  by (simp add: SECS_PER_HOUR_def)

subsection \<open>Remote reports\<close>

text \<open>C27: a remote report weighs once. A report is refused without any effect unless its signature
  was verified, its reason exists, it is not about its own author and the reporter is trusted
  here; once it is accepted the same report (reporter, offender, reason, whatever its timestamp) is
  refused as a duplicate and changes nothing.\<close>

theorem remote_report_once:
  assumes "rep_inv r" "apply_remote_abuse_report rp v r = (Inr level, r')"
    and "rp_reporter rp' = rp_reporter rp" "rp_offender rp' = rp_offender rp" "rp_reason rp' = rp_reason rp"
  shows "v \<and> is_trusted r (rp_reporter rp) \<and> rp_reporter rp \<noteq> rp_offender rp \<and> rp_reason rp \<in> {1, 2, 3}
    \<and> apply_remote_abuse_report rp' True r' = (Inl DuplicateReport, r')
    \<and> rs_scores r' = rs_scores r"
proof -
  let ?key = "(rp_reporter rp, rp_offender rp, rp_reason rp)"
  let ?order = "rs_report_order r @ [?key]"
  have c: "v" "rp_reporter rp \<noteq> rp_offender rp" "reason_from_code (rp_reason rp) \<noteq> None"
    "\<not> score r (rp_reporter rp) < ENDORSEMENT_THRESHOLD" "?key \<notin> rs_report_keys r"
    using assms(2) by (auto simp: apply_remote_abuse_report_def Let_def split: if_splits)
  have r': "rs_scores r' = rs_scores r"
    "rs_report_keys r' = fst (trim_reports (insert ?key (rs_report_keys r)) ?order)"
    using assms(2) c
    by (auto simp: apply_remote_abuse_report_def Let_def split: prod.splits simp del: trim_reports.simps)
  have "distinct ?order" "insert ?key (rs_report_keys r) = set ?order"
    using assms(1) c(5) by (auto simp: rep_inv_def)
  hence "rs_report_keys r' = set (last_n MAX_ABUSE_REPORTS_TRACKED ?order)"
    using trim_reports_spec r'(2) by metis
  moreover have "?key \<in> set (last_n MAX_ABUSE_REPORTS_TRACKED ?order)"
    by (simp add: last_n_def MAX_ABUSE_REPORTS_TRACKED_def drop_append)
  ultimately have "?key \<in> rs_report_keys r'" by simp
  moreover have "score r' = score r" by (rule score_cong [OF r'(1)])
  ultimately show ?thesis
    using c assms(3-5) r'(1)
    by (simp add: apply_remote_abuse_report_def Let_def is_trusted_def threshold_eq)
      (simp add: reason_from_code_def split: if_splits)
qed

definition sample_report :: "nat \<Rightarrow> abuse_report" where
  "sample_report ts = \<lparr>rp_reporter = ''a'', rp_offender = ''b'', rp_reason = 2, rp_timestamp = ts\<rparr>"

lemma remote_report_once_witness:
  "apply_remote_abuse_report (sample_report 9) True
     (snd (apply_remote_abuse_report (sample_report 5) True (set_trusted ''a'' 1 reputation_new)))
   = (Inl DuplicateReport, snd (apply_remote_abuse_report (sample_report 5) True (set_trusted ''a'' 1 reputation_new)))"
proof -
  let ?r = "set_trusted ''a'' 1 reputation_new"
  have inv: "rep_inv ?r" by (rule rep_inv_set_trusted) simp_all
  have "score ?r ''a'' = 1" by (simp add: set_trusted_def clamp01_def)
  hence "\<not> score ?r ''a'' < ENDORSEMENT_THRESHOLD" using threshold_le_1 by (simp add: threshold_eq)
  hence "\<exists>level r'. apply_remote_abuse_report (sample_report 5) True ?r = (Inr level, r')"
    by (auto simp: apply_remote_abuse_report_def sample_report_def Let_def reason_from_code_def
        set_trusted_def reputation_new_def split: prod.split)
  then obtain level r' where acc: "apply_remote_abuse_report (sample_report 5) True ?r = (Inr level, r')" by blast
  show ?thesis
    using remote_report_once [OF inv acc, of "sample_report 9"] by (simp add: acc) (simp add: sample_report_def)
qed

text \<open>C28: the report's own timestamp is taken as the time of the violation, and it becomes the date
  the offender's record decays from. A qualified report dated 100 hours back therefore wipes the
  record: whatever the offender's level was, it reads 0 afterwards and he is accepted again.\<close>

theorem stale_report_wipes:
  assumes "rep_inv r" "apply_remote_abuse_report rp v r = (Inr level, r')"
    and "rp_timestamp rp + 100 * SECS_PER_HOUR \<le> now"
  shows "abuse_level r' (rp_offender rp) now = 0 \<and> action_for r' (rp_offender rp) now = Accept"
proof -
  let ?x = "snd (abuse_record_add PENALTY_REMOTE_REPORT (rp_timestamp rp)
       (Mapping.lookup_default abuse_default (rs_abuse r) (rp_offender rp)))"
  have "rs_abuse r' = Mapping.update (rp_offender rp) ?x (rs_abuse r)"
    using assms(2)
    by (auto simp: apply_remote_abuse_report_def Let_def split: prod.splits if_splits simp del: trim_reports.simps)
  moreover have "abuse_ok ?x" by (rule abuse_ok_add [OF rep_inv_abuse_default [OF assms(1)]]) simp
  hence "level_at ?x now = 0"
    using assms(3) by (simp add: level_at_def abuse_ok_def decayed_forgotten abuse_record_add_def Let_def)
  ultimately have "abuse_level r' (rp_offender rp) now = 0" by (simp add: abuse_level_def)
  thus ?thesis by (simp add: action_for_def)
qed

lemma stale_report_wipes_witness:
  "action_for (snd (apply_remote_abuse_report (sample_report 0) True
     (snd (record_violation ''b'' ExcessiveRate 360000 (set_trusted ''a'' 1 reputation_new))))) ''b'' 360000 = Accept"
proof -
  let ?r = "snd (record_violation ''b'' ExcessiveRate 360000 (set_trusted ''a'' 1 reputation_new))"
  have inv: "rep_inv ?r" by (intro rep_inv_record_violation rep_inv_set_trusted) simp_all
  have "score ?r ''a'' = 1"
    by (simp add: record_violation_def set_trusted_def clamp01_def score_def lookup_default_update split: prod.split)
  hence "\<not> score ?r ''a'' < ENDORSEMENT_THRESHOLD" using threshold_le_1 by (simp add: threshold_eq)
  moreover have "rs_report_keys ?r = {}"
    by (simp add: record_violation_def set_trusted_def reputation_new_def split: prod.split)
  ultimately have "\<exists>level r'. apply_remote_abuse_report (sample_report 0) True ?r = (Inr level, r')"
    by (auto simp: apply_remote_abuse_report_def sample_report_def Let_def reason_from_code_def split: prod.split)
  then obtain level r' where "apply_remote_abuse_report (sample_report 0) True ?r = (Inr level, r')" by blast
  from stale_report_wipes [OF inv this, of 360000] this show ?thesis
    by (simp add: sample_report_def SECS_PER_HOUR_def)
qed

end
