(* ===== verification/Bytes.thy ===== *)
theory Bytes
  imports Prelude
begin

text \<open>
  Bytes: fixed-width integers in both byte orders, \<open>String::from_utf8\<close>, decimal rendering, and
  the bounds-checked \<open>WireReader\<close> of \<open>core/src/protocol/mod.rs\<close>. A Rust \<open>String\<close> is a HOL
  string whose characters are the bytes of its UTF-8 encoding.
\<close>

section \<open>Fixed-width integers\<close>

text \<open>\<open>to_le_bytes\<close> / \<open>from_le_bytes\<close> on \<open>k\<close> bytes; \<open>as u32\<close> casts wrap in the same way.\<close>

fun nat_le :: "nat \<Rightarrow> nat \<Rightarrow> byte list" where
  "nat_le 0 n = []"
| "nat_le (Suc k) n = of_nat (n mod 256) # nat_le k (n div 256)"

fun le_nat :: "byte list \<Rightarrow> nat" where
  "le_nat [] = 0"
| "le_nat (b # bs) = unat b + 256 * le_nat bs"

definition nat_be :: "nat \<Rightarrow> nat \<Rightarrow> byte list" where
  "nat_be k n = rev (nat_le k n)"

definition be_nat :: "byte list \<Rightarrow> nat" where
  "be_nat bs = le_nat (rev bs)"

lemma unat_byte_of_nat: "n < 256 \<Longrightarrow> unat (of_nat n :: byte) = n"
  by (simp add: unat_of_nat take_bit_eq_mod)

lemma length_nat_le [simp]: "length (nat_le k n) = k"
  by (induction k arbitrary: n) simp_all

lemma length_nat_be [simp]: "length (nat_be k n) = k"
  by (simp add: nat_be_def)

lemma le_nat_nat_le: "le_nat (nat_le k n) = n mod 256 ^ k"
proof (induction k arbitrary: n)
  case (Suc k)
  have "n mod 256 + 256 * (n div 256 mod 256 ^ k) = n mod (256 * 256 ^ k)"
    by (rule mod_mult2_eq [symmetric, THEN trans [rotated]]) simp
  thus ?case by (simp add: Suc unat_byte_of_nat)
qed simp

lemma le_nat_less: "le_nat bs < 256 ^ length bs"
proof (induction bs)
  case (Cons b bs)
  have "unat b < 256" using unat_u8_le [of b] by simp
  moreover have "256 * (le_nat bs + 1) \<le> 256 * 256 ^ length bs"
    using Cons by (intro mult_le_mono2) simp
  ultimately show ?case by simp
qed simp

lemma be_nat_nat_be: "be_nat (nat_be k n) = n mod 256 ^ k"
  by (simp add: be_nat_def nat_be_def le_nat_nat_le)

lemma nat_le_le_nat: "nat_le (length bs) (le_nat bs) = bs"
proof (induction bs)
  case (Cons b bs)
  have "unat b < 256" using unat_u8_le [of b] by simp
  hence "(unat b + 256 * le_nat bs) mod 256 = unat b" "(unat b + 256 * le_nat bs) div 256 = le_nat bs"
    by simp_all
  thus ?case by (simp add: Cons)
qed simp

lemma nat_be_be_nat: "nat_be (length bs) (be_nat bs) = bs"
  using nat_le_le_nat [of "rev bs"] by (simp add: nat_be_def be_nat_def)

definition u64_le :: "u64 \<Rightarrow> byte list" where
  "u64_le w = nat_le 8 (unat w)"

definition le_u64 :: "byte list \<Rightarrow> u64" where
  "le_u64 bs = of_nat (le_nat bs)"

lemma length_u64_le [simp]: "length (u64_le w) = 8"
  by (simp add: u64_le_def)

lemma le_u64_u64_le [simp]: "le_u64 (u64_le w) = w"
proof -
  have "unat w < 256 ^ 8" using unsigned_less [of w, where 'a = nat] by simp
  thus ?thesis by (simp add: le_u64_def u64_le_def le_nat_nat_le)
qed

section \<open>Strings\<close>

definition str_bytes :: "string \<Rightarrow> byte list" where
  "str_bytes s = map of_char s"

definition bytes_str :: "byte list \<Rightarrow> string" where
  "bytes_str bs = map (\<lambda>b. char_of (unat b)) bs"

lemma length_str_bytes [simp]: "length (str_bytes s) = length s"
  by (simp add: str_bytes_def)

lemma char_of_of_char_byte: "char_of (unat (of_char c :: byte)) = c"
proof -
  have "(of_nat (of_char c) :: byte) = of_char c" by (rule of_nat_of_char)
  moreover have "of_char c < (256 :: nat)" by simp
  ultimately have "unat (of_char c :: byte) = of_char c"
    by (metis unat_byte_of_nat)
  thus ?thesis by simp
qed

lemma bytes_str_bytes [simp]: "bytes_str (str_bytes s) = s"
  by (simp add: bytes_str_def str_bytes_def comp_def char_of_of_char_byte)

text \<open>Well-formed UTF-8, the table of the Unicode standard that \<open>core::str::from_utf8\<close> follows.\<close>

definition cont_byte :: "byte \<Rightarrow> bool" where
  "cont_byte b \<longleftrightarrow> 0x80 \<le> b \<and> b \<le> 0xBF"

fun utf8_valid :: "byte list \<Rightarrow> bool" where
  "utf8_valid [] = True"
| "utf8_valid (a # bs) =
     (if a \<le> 0x7F then utf8_valid bs
      else if 0xC2 \<le> a \<and> a \<le> 0xDF then
        (case bs of b # bs' \<Rightarrow> cont_byte b \<and> utf8_valid bs' | _ \<Rightarrow> False)
      else if 0xE0 \<le> a \<and> a \<le> 0xEF then
        (case bs of
           b # c # bs' \<Rightarrow>
             (if a = 0xE0 then 0xA0 \<le> b \<and> b \<le> 0xBF
              else if a = 0xED then 0x80 \<le> b \<and> b \<le> 0x9F
              else cont_byte b) \<and> cont_byte c \<and> utf8_valid bs'
         | _ \<Rightarrow> False)
      else if 0xF0 \<le> a \<and> a \<le> 0xF4 then
        (case bs of
           b # c # d # bs' \<Rightarrow>
             (if a = 0xF0 then 0x90 \<le> b \<and> b \<le> 0xBF
              else if a = 0xF4 then 0x80 \<le> b \<and> b \<le> 0x8F
              else cont_byte b) \<and> cont_byte c \<and> cont_byte d \<and> utf8_valid bs'
         | _ \<Rightarrow> False)
      else False)"

text \<open>\<open>s.chars().count()\<close> of a valid string: the bytes that start a character.\<close>

definition chars_count :: "string \<Rightarrow> nat" where
  "chars_count s = length (filter (\<lambda>b. \<not> cont_byte b) (str_bytes s))"

lemma utf8_valid_ascii: "list_all (\<lambda>b. b \<le> 0x7F) bs \<Longrightarrow> utf8_valid bs"
  by (induction bs) auto

text \<open>The characters of a UTF-8 string: each starts at a byte that is no continuation byte.\<close>

function utf8_chars :: "string \<Rightarrow> string list" where
  "utf8_chars [] = []"
| "utf8_chars (c # cs) =
     (c # takeWhile (\<lambda>x. cont_byte (of_char x)) cs) # utf8_chars (dropWhile (\<lambda>x. cont_byte (of_char x)) cs)"
  by pat_completeness auto
termination by (relation "measure length") (simp_all add: le_imp_less_Suc length_dropWhile_le)

lemma utf8_chars_ascii:
  "\<forall>c\<in>set s. \<not> cont_byte (of_char c) \<Longrightarrow> utf8_chars s = map (\<lambda>c. [c]) s"
proof (induction s)
  case (Cons c cs)
  hence "takeWhile (\<lambda>x. cont_byte (of_char x)) cs = []" "dropWhile (\<lambda>x. cont_byte (of_char x)) cs = cs"
    by (cases cs; auto)+
  thus ?case using Cons by simp
qed simp

text \<open>\<open>str::trim\<close>: the 25 white space characters of Unicode, in UTF-8.\<close>

definition white_space :: "string list" where
  "white_space = map (\<lambda>n. [char_of n]) [9, 10, 11, 12, 13, 32 :: nat]
     @ map (map char_of) [[0xC2, 0x85], [0xC2, 0xA0], [0xE1, 0x9A, 0x80 :: nat]]
     @ map (\<lambda>n. map char_of [0xE2, 0x80, n]) ([0x80..<0x8B] @ [0xA8, 0xA9, 0xAF])
     @ map (map char_of) [[0xE2, 0x81, 0x9F], [0xE3, 0x80, 0x80 :: nat]]"

definition trim_ws :: "string \<Rightarrow> string" where
  "trim_ws s = concat (rev (dropWhile (\<lambda>c. c \<in> set white_space)
     (rev (dropWhile (\<lambda>c. c \<in> set white_space) (utf8_chars s)))))"

lemma white_space_high: "[c] \<in> set white_space \<Longrightarrow> (of_char c :: nat) < 33"
  by (auto simp: white_space_def)

lemma trim_ws_printable:
  assumes "\<forall>c\<in>set s. 33 \<le> (of_char c :: nat) \<and> of_char c < (128 :: nat)"
  shows "trim_ws s = s"
proof -
  have "\<not> cont_byte (of_char c)" if "c \<in> set s" for c
  proof -
    have "(of_char c :: byte) = of_nat (of_char c)" by (cases c) (simp add: of_char_def horner_sum_simps)
    hence "unat (of_char c :: byte) = (of_char c :: nat) mod 256"
      by (simp only: unat_of_nat take_bit_eq_mod) simp
    moreover have "(of_char c :: nat) < 128" using assms that by blast
    ultimately have "\<not> 128 \<le> unat (of_char c :: byte)" by simp
    thus ?thesis by (simp add: cont_byte_def word_le_nat_alt)
  qed
  hence chars: "utf8_chars s = map (\<lambda>c. [c]) s" by (intro utf8_chars_ascii) auto
  have dw: "dropWhile (\<lambda>c. c \<in> set white_space) (map (\<lambda>c. [c]) t) = map (\<lambda>c. [c]) t" if "set t \<subseteq> set s" for t
    using that assms white_space_high by (cases t) fastforce+
  have "concat (map (\<lambda>c. [c]) t) = t" for t :: string by (induction t) auto
  thus ?thesis using dw [of s] dw [of "rev s"] by (simp add: trim_ws_def chars rev_map)
qed


text \<open>\<open>str::contains\<close>\<close>

definition contains :: "string \<Rightarrow> string \<Rightarrow> bool" where
  "contains s p \<longleftrightarrow> list_ex (\<lambda>i. take (length p) (drop i s) = p) [0..<Suc (length s)]"

text \<open>The decimal rendering of an unsigned integer by \<open>format!\<close>.\<close>

fun dec_digits :: "nat \<Rightarrow> string" where
  "dec_digits n = (if n < 10 then [char_of (48 + n)] else dec_digits (n div 10) @ [char_of (48 + n mod 10)])"

declare dec_digits.simps [simp del]

section \<open>The bounds-checked reader\<close>

datatype wire_error =
    WTruncated nat nat nat
  | WNotUtf8
  | WUnknownKind u8
  | WTooManyTags nat
  | WAllZero

record wire_reader =
  wr_buf :: "byte list"
  wr_pos :: nat

type_synonym 'a reader = "wire_reader \<Rightarrow> wire_error + ('a \<times> wire_reader)"

definition wire_reader_new :: "byte list \<Rightarrow> wire_reader" where
  "wire_reader_new buf = \<lparr>wr_buf = buf, wr_pos = 0\<rparr>"

definition rd_return :: "'a \<Rightarrow> 'a reader" where
  "rd_return x r = Inr (x, r)"

text \<open>The \<open>?\<close> operator: stop at the first error.\<close>

definition rd_bind :: "'a reader \<Rightarrow> ('a \<Rightarrow> 'b reader) \<Rightarrow> 'b reader" where
  "rd_bind p f r = (case p r of Inl e \<Rightarrow> Inl e | Inr (x, r') \<Rightarrow> f x r')"

definition rd_fail :: "wire_error \<Rightarrow> 'a reader" where
  "rd_fail e r = Inl e"

definition take_bytes :: "nat \<Rightarrow> byte list reader" where
  "take_bytes n r =
     (if wr_pos r + n > length (wr_buf r)
      then Inl (WTruncated n (wr_pos r) (length (wr_buf r) - wr_pos r))
      else Inr (take n (drop (wr_pos r) (wr_buf r)), r\<lparr>wr_pos := wr_pos r + n\<rparr>))"

definition take_u8 :: "u8 reader" where
  "take_u8 = rd_bind (take_bytes 1) (\<lambda>b. rd_return (hd b))"

definition take_u32 :: "nat reader" where
  "take_u32 = rd_bind (take_bytes 4) (\<lambda>b. rd_return (le_nat b))"

definition take_u64 :: "u64 reader" where
  "take_u64 = rd_bind (take_bytes 8) (\<lambda>b. rd_return (le_u64 b))"

definition take_string :: "string reader" where
  "take_string = rd_bind take_u32 (\<lambda>len. rd_bind (take_bytes len)
     (\<lambda>b. if utf8_valid b then rd_return (bytes_str b) else rd_fail WNotUtf8))"

text \<open>\<open>for _ in 0..n { v.push(p()?) }\<close>\<close>

fun take_many :: "'a reader \<Rightarrow> nat \<Rightarrow> 'a list reader" where
  "take_many p 0 = rd_return []"
| "take_many p (Suc n) = rd_bind p (\<lambda>x. rd_bind (take_many p n) (\<lambda>xs. rd_return (x # xs)))"

subsection \<open>What a reader reads\<close>

text \<open>\<open>reads p x bs\<close>: wherever \<open>bs\<close> comes next, \<open>p\<close> returns \<open>x\<close> and stands right behind it.\<close>

definition reads :: "'a reader \<Rightarrow> 'a \<Rightarrow> byte list \<Rightarrow> bool" where
  "reads p x bs \<longleftrightarrow> (\<forall>r pre rest. wr_buf r = pre @ bs @ rest \<longrightarrow> wr_pos r = length pre \<longrightarrow>
     p r = Inr (x, r\<lparr>wr_pos := length pre + length bs\<rparr>))"

named_theorems reads_intro \<open>what the readers of the wire format read\<close>

lemma reads_return [reads_intro]: "reads (rd_return x) x []"
  by (auto simp: reads_def rd_return_def)

lemma reads_bind [reads_intro]:
  assumes "reads p x bs" "reads (f x) y cs"
  shows "reads (rd_bind p f) y (bs @ cs)"
  unfolding reads_def
proof (intro allI impI)
  fix r :: wire_reader and pre rest
  assume r: "wr_buf r = pre @ (bs @ cs) @ rest" "wr_pos r = length pre"
  have 1: "p r = Inr (x, r\<lparr>wr_pos := length pre + length bs\<rparr>)"
    using assms(1) r by (simp add: reads_def)
  have "f x (r\<lparr>wr_pos := length (pre @ bs)\<rparr>)
      = Inr (y, r\<lparr>wr_pos := length (pre @ bs)\<rparr>\<lparr>wr_pos := length (pre @ bs) + length cs\<rparr>)"
    using assms(2) [unfolded reads_def, rule_format, of "r\<lparr>wr_pos := length (pre @ bs)\<rparr>" "pre @ bs" rest] r
    by simp
  thus "rd_bind p f r = Inr (y, r\<lparr>wr_pos := length pre + length (bs @ cs)\<rparr>)"
    by (simp add: rd_bind_def 1 add.assoc)
qed

lemma reads_take [reads_intro]: "length bs = n \<Longrightarrow> reads (take_bytes n) bs bs"
  by (auto simp: reads_def take_bytes_def)

lemma reads_cong: "reads p x bs \<Longrightarrow> bs = cs \<Longrightarrow> reads p x cs"
  by simp

lemma reads_bind_return:
  assumes "reads p x bs"
  shows "reads (rd_bind p (\<lambda>y. rd_return (g y))) (g x) bs"
  using reads_bind [OF assms reads_return, of g] by simp

lemma reads_u8 [reads_intro]: "reads take_u8 b [b]"
  unfolding take_u8_def
  using reads_bind_return [OF reads_take [of "[b]" 1], of hd] by simp

lemma reads_u32 [reads_intro]: "n < 2 ^ 32 \<Longrightarrow> reads take_u32 n (nat_le 4 n)"
  unfolding take_u32_def
  using reads_bind_return [OF reads_take, of "nat_le 4 n" 4 le_nat] by (simp add: le_nat_nat_le)

lemma reads_u64 [reads_intro]: "reads take_u64 w (u64_le w)"
  unfolding take_u64_def
  using reads_bind_return [OF reads_take, of "u64_le w" 8 le_u64] by simp

definition string_bytes :: "string \<Rightarrow> byte list" where
  "string_bytes s = nat_le 4 (length s) @ str_bytes s"

lemma reads_string [reads_intro]:
  assumes "utf8_valid (str_bytes s)" "length s < 2 ^ 32"
  shows "reads take_string s (string_bytes s)"
  unfolding take_string_def string_bytes_def
proof (rule reads_bind [OF reads_u32 [OF assms(2)]])
  have "reads (rd_bind (take_bytes (length s)) (\<lambda>b. if utf8_valid b then rd_return (bytes_str b) else rd_fail WNotUtf8))
      s (str_bytes s @ [])"
    by (rule reads_bind [OF reads_take]) (use assms reads_return in simp_all)
  thus "reads (rd_bind (take_bytes (length s)) (\<lambda>b. if utf8_valid b then rd_return (bytes_str b) else rd_fail WNotUtf8))
      s (str_bytes s)" by simp
qed

lemma reads_many [reads_intro]:
  "list_all (\<lambda>x. reads p x (enc x)) xs \<Longrightarrow> n = length xs \<Longrightarrow> reads (take_many p n) xs (concat (map enc xs))"
proof (induction xs arbitrary: n)
  case (Cons x xs)
  have "reads (rd_bind (take_many p (length xs)) (\<lambda>xs. rd_return (x # xs))) (x # xs) (concat (map enc xs))"
    using Cons by (intro reads_bind_return [where g = "\<lambda>xs. x # xs"]) simp
  thus ?case using Cons.prems by (auto intro: reads_bind)
qed (auto intro: reads_return)

subsection \<open>Truncation\<close>

text \<open>A reader only ever looks at the bytes it passes: if it succeeds on a buffer it succeeds in the
  same way on any longer one, stays inside the buffer and never moves back.\<close>

definition local_reader :: "'a reader \<Rightarrow> bool" where
  "local_reader p \<longleftrightarrow> (\<forall>r x r' ext. p r = Inr (x, r') \<longrightarrow> wr_pos r \<le> length (wr_buf r) \<longrightarrow>
     wr_buf r' = wr_buf r \<and> wr_pos r \<le> wr_pos r' \<and> wr_pos r' \<le> length (wr_buf r)
     \<and> p (r\<lparr>wr_buf := wr_buf r @ ext\<rparr>) = Inr (x, r'\<lparr>wr_buf := wr_buf r @ ext\<rparr>))"

named_theorems local_intro \<open>readers that only look at the bytes they pass\<close>

lemma local_return [local_intro]: "local_reader (rd_return x)"
  by (auto simp: local_reader_def rd_return_def)

lemma local_fail [local_intro]: "local_reader (rd_fail e)"
  by (auto simp: local_reader_def rd_fail_def)

lemma local_take [local_intro]: "local_reader (take_bytes n)"
  by (auto simp: local_reader_def take_bytes_def)

lemma local_bind [local_intro]:
  assumes "local_reader p" "\<And>x. local_reader (f x)"
  shows "local_reader (rd_bind p f)"
  unfolding local_reader_def
proof (intro allI impI)
  fix r y r' and ext :: "byte list"
  assume b: "rd_bind p f r = Inr (y, r')" and pos: "wr_pos r \<le> length (wr_buf r)"
  then obtain x r1 where 1: "p r = Inr (x, r1)" and 2: "f x r1 = Inr (y, r')"
    by (auto simp: rd_bind_def split: sum.splits prod.splits)
  have p1: "wr_buf r1 = wr_buf r \<and> wr_pos r \<le> wr_pos r1 \<and> wr_pos r1 \<le> length (wr_buf r)
      \<and> p (r\<lparr>wr_buf := wr_buf r @ ext\<rparr>) = Inr (x, r1\<lparr>wr_buf := wr_buf r @ ext\<rparr>)"
    using assms(1) 1 pos unfolding local_reader_def by blast
  hence "wr_pos r1 \<le> length (wr_buf r1)" by simp
  with assms(2) [of x] 2 have "wr_buf r' = wr_buf r1 \<and> wr_pos r1 \<le> wr_pos r' \<and> wr_pos r' \<le> length (wr_buf r1)
      \<and> f x (r1\<lparr>wr_buf := wr_buf r1 @ ext\<rparr>) = Inr (y, r'\<lparr>wr_buf := wr_buf r1 @ ext\<rparr>)"
    unfolding local_reader_def by blast
  thus "wr_buf r' = wr_buf r \<and> wr_pos r \<le> wr_pos r' \<and> wr_pos r' \<le> length (wr_buf r)
      \<and> rd_bind p f (r\<lparr>wr_buf := wr_buf r @ ext\<rparr>) = Inr (y, r'\<lparr>wr_buf := wr_buf r @ ext\<rparr>)"
    using p1 by (auto simp: rd_bind_def)
qed

lemma local_if [local_intro]: "local_reader p \<Longrightarrow> local_reader q \<Longrightarrow> local_reader (if b then p else q)"
  by simp

lemma local_basic [local_intro]: "local_reader take_u8" "local_reader take_u32" "local_reader take_u64"
    "local_reader take_string"
  by (auto simp: take_u8_def take_u32_def take_u64_def take_string_def intro!: local_intro)

lemma local_many [local_intro]: "local_reader p \<Longrightarrow> local_reader (take_many p n)"
  by (induction n) (auto intro!: local_intro)

lemma local_truncated:
  assumes "local_reader p" "reads p x bs" "prefix cs bs" "cs \<noteq> bs"
  shows "\<exists>e. p (wire_reader_new cs) = Inl e"
proof (rule ccontr)
  assume "\<not> ?thesis"
  then obtain y r where ok: "p (wire_reader_new cs) = Inr (y, r)"
    by (metis old.prod.exhaust sumE)
  obtain ds where ds: "bs = cs @ ds" using assms(3) by (auto simp: prefix_def)
  have loc: "wr_pos r \<le> length cs
      \<and> p ((wire_reader_new cs)\<lparr>wr_buf := cs @ ds\<rparr>) = Inr (y, r\<lparr>wr_buf := cs @ ds\<rparr>)"
    using assms(1) [unfolded local_reader_def, rule_format, OF ok, of ds] by (simp add: wire_reader_new_def)
  have "p (wire_reader_new bs) = Inr (x, (wire_reader_new bs)\<lparr>wr_pos := length bs\<rparr>)"
    using assms(2) [unfolded reads_def, rule_format, of "wire_reader_new bs" "[]" "[]"]
    by (simp add: wire_reader_new_def)
  moreover have "p (wire_reader_new bs) = Inr (y, r\<lparr>wr_buf := bs\<rparr>)"
    using loc ds by (simp add: wire_reader_new_def)
  ultimately have "r\<lparr>wr_buf := bs\<rparr> = (wire_reader_new bs)\<lparr>wr_pos := length bs\<rparr>" by simp
  hence "wr_pos (r\<lparr>wr_buf := bs\<rparr>) = length bs" by simp
  hence "wr_pos r = length bs" by simp
  thus False using loc ds assms(4) by simp
qed

end
