(* ===== verification/Crypto.thy ===== *)
theory Crypto
  imports Bytes
begin

text \<open>
  The parts of \<open>core/src/crypto/mod.rs\<close> that are the repository's own logic: signature checks on
  raw keys, traffic padding, the signed APK manifest, the transaction pool with its (mock) proofs,
  and the rotation of identities. The cryptographic crates themselves (SHA-256, Ed25519, X25519,
  hex) are not under \<open>src/\<close>: they are the functions of the record \<open>crypto_env\<close>, an argument
  of every definition that calls them, and what is used of their documented behaviour is stated as
  \<open>hex_laws\<close>, \<open>sign_laws\<close> and \<open>sha_laws\<close>.
\<close>

section \<open>The cryptographic crates\<close>

record crypto_env =
  ce_hex_encode :: "byte list \<Rightarrow> string"
  ce_hex_decode :: "string \<Rightarrow> byte list option"
  ce_lower_hex :: "byte list \<Rightarrow> string"
  ce_sha256 :: "byte list \<Rightarrow> byte list"
  ce_public_key :: "byte list \<Rightarrow> byte list"
  ce_sign :: "byte list \<Rightarrow> byte list \<Rightarrow> byte list"
  ce_key_ok :: "byte list \<Rightarrow> bool"
  ce_verify :: "byte list \<Rightarrow> byte list \<Rightarrow> byte list \<Rightarrow> bool"
  ce_event_json :: "string \<Rightarrow> u64 \<Rightarrow> u8 \<Rightarrow> string list \<Rightarrow> string \<Rightarrow> byte list"

text \<open>\<open>char::is_ascii_hexdigit\<close>\<close>

definition is_hexdigit :: "char \<Rightarrow> bool" where
  "is_hexdigit c = (let n = of_char c :: nat in
     48 \<le> n \<and> n \<le> 57 \<or> 65 \<le> n \<and> n \<le> 70 \<or> 97 \<le> n \<and> n \<le> 102)"

text \<open>\<open>hex::decode\<close> inverts \<open>hex::encode\<close>, a decoded string has two digits per byte,
  and an encoded one consists of hexadecimal digits.\<close>

definition hex_laws :: "crypto_env \<Rightarrow> bool" where
  "hex_laws ce \<longleftrightarrow> (\<forall>b. ce_hex_decode ce (ce_hex_encode ce b) = Some b)
     \<and> (\<forall>s b. ce_hex_decode ce s = Some b \<longrightarrow> length s = 2 * length b)
     \<and> (\<forall>b. list_all is_hexdigit (ce_hex_encode ce b))"

text \<open>Ed25519: keys and signatures have their fixed lengths, and an honest signature verifies.\<close>

definition sign_laws :: "crypto_env \<Rightarrow> bool" where
  "sign_laws ce \<longleftrightarrow> (\<forall>seed msg. length seed = 32 \<longrightarrow>
     length (ce_public_key ce seed) = 32 \<and> length (ce_sign ce seed msg) = 64
     \<and> ce_key_ok ce (ce_public_key ce seed)
     \<and> ce_verify ce (ce_public_key ce seed) msg (ce_sign ce seed msg))"

definition sha_laws :: "crypto_env \<Rightarrow> bool" where
  "sha_laws ce \<longleftrightarrow> (\<forall>m. length (ce_sha256 ce m) = 32)"

definition verify_from_pubkey :: "crypto_env \<Rightarrow> byte list \<Rightarrow> byte list \<Rightarrow> byte list \<Rightarrow> bool" where
  "verify_from_pubkey ce pk msg sig \<longleftrightarrow> ce_key_ok ce pk \<and> ce_verify ce pk msg sig"

subsection \<open>A concrete environment\<close>

text \<open>Simple functions that satisfy the three laws, for evaluating the definitions.\<close>

definition hex_digit :: "nat \<Rightarrow> char" where
  "hex_digit n = (if n < 10 then char_of (48 + n) else char_of (87 + n))"

definition hex_value :: "char \<Rightarrow> nat option" where
  "hex_value c = (let n = of_char c in
     if 48 \<le> n \<and> n < 58 then Some (n - 48) else if 97 \<le> n \<and> n < 103 then Some (n - 87) else None)"

definition demo_hex :: "byte list \<Rightarrow> string" where
  "demo_hex bs = concat (map (\<lambda>b. [hex_digit (unat b div 16), hex_digit (unat b mod 16)]) bs)"

fun demo_unhex :: "string \<Rightarrow> byte list option" where
  "demo_unhex [] = Some []"
| "demo_unhex [c] = None"
| "demo_unhex (c # d # cs) =
     (case (hex_value c, hex_value d, demo_unhex cs) of
        (Some h, Some l, Some bs) \<Rightarrow> Some (of_nat (16 * h + l) # bs) | _ \<Rightarrow> None)"

definition demo_sum :: "byte list \<Rightarrow> byte" where
  "demo_sum m = foldl (\<lambda>a b. 31 * a + b + 7) 0 m"

definition demo_env :: crypto_env where
  "demo_env = \<lparr>ce_hex_encode = demo_hex, ce_hex_decode = demo_unhex, ce_lower_hex = demo_hex,
     ce_sha256 = (\<lambda>m. replicate 32 (demo_sum m)),
     ce_public_key = (\<lambda>seed. seed),
     ce_sign = (\<lambda>seed m. replicate 64 (demo_sum (seed @ m))),
     ce_key_ok = (\<lambda>pk. length pk = 32),
     ce_verify = (\<lambda>pk m sig. sig = replicate 64 (demo_sum (pk @ m))),
     ce_event_json = (\<lambda>pk t k tags c. str_bytes pk @ u64_le t @ [k] @ concat (map string_bytes tags) @ string_bytes c)\<rparr>"

lemma hex_value_digit: "n < 16 \<Longrightarrow> hex_value (hex_digit n) = Some n"
  by (auto simp: hex_value_def hex_digit_def Let_def)

lemma demo_unhex_hex: "demo_unhex (demo_hex bs) = Some bs"
proof (induction bs)
  case (Cons b bs)
  have "unat b < 256" using unat_u8_le [of b] by simp
  hence "unat b div 16 < 16" "16 * (unat b div 16) + unat b mod 16 = unat b" by auto
  thus ?case using Cons by (simp add: demo_hex_def hex_value_digit)
qed (simp add: demo_hex_def)

lemma demo_unhex_length: "demo_unhex s = Some b \<Longrightarrow> length s = 2 * length b"
  by (induction s arbitrary: b rule: demo_unhex.induct) (auto split: option.splits)

lemma demo_hex_digits: "list_all is_hexdigit (demo_hex bs)"
proof (induction bs)
  case (Cons b bs)
  have "is_hexdigit (hex_digit n)" if "n < 16" for n
    using that by (auto simp: is_hexdigit_def hex_digit_def Let_def)
  moreover have "unat b div 16 < 16" "unat b mod 16 < 16" using unat_u8_le [of b] by auto
  ultimately show ?case using Cons by (simp add: demo_hex_def)
qed (simp add: demo_hex_def)

lemma demo_laws: "hex_laws demo_env" "sign_laws demo_env" "sha_laws demo_env"
  by (auto simp: hex_laws_def sign_laws_def sha_laws_def demo_env_def demo_unhex_hex demo_hex_digits dest: demo_unhex_length)

section \<open>Traffic padding\<close>

definition BUCKETS :: "nat list" where
  "BUCKETS = [256, 1024, 4096, 16384]"

definition bucket_for :: "nat \<Rightarrow> nat" where
  "bucket_for n = (case find (\<lambda>b. n \<le> b) BUCKETS of Some b \<Rightarrow> b | None \<Rightarrow> BUCKETS ! (length BUCKETS - 1))"

definition pad :: "byte list \<Rightarrow> byte list" where
  "pad data = (let target = bucket_for (length data) in
     if target > length data then data @ replicate (target - length data) 0 else data)"

fun unpad_end :: "byte list \<Rightarrow> nat \<Rightarrow> nat" where
  "unpad_end data 0 = 0"
| "unpad_end data (Suc n) = (if data ! n = 0 then unpad_end data n else Suc n)"

definition unpad :: "byte list \<Rightarrow> byte list" where
  "unpad data = take (unpad_end data (length data)) data"

lemma bucket_for_eq:
  "bucket_for n = (if n \<le> 256 then 256 else if n \<le> 1024 then 1024 else if n \<le> 4096 then 4096 else 16384)"
  by (simp add: bucket_for_def BUCKETS_def)

lemma pad_eq: "pad data = data @ replicate (bucket_for (length data) - length data) 0"
  by (simp add: pad_def Let_def)

lemma length_pad: "length (pad data) = max (length data) (bucket_for (length data))"
  by (simp add: pad_eq)

lemma unpad_end_le: "unpad_end data n \<le> n"
  by (induction n) (auto intro: le_SucI)

lemma unpad_end_cong: "(\<And>i. i < n \<Longrightarrow> a ! i = b ! i) \<Longrightarrow> unpad_end a n = unpad_end b n"
  by (induction n) auto

lemma unpad_snoc_zero: "unpad (xs @ [0]) = unpad xs"
proof -
  have "unpad_end (xs @ [0]) (length xs) = unpad_end xs (length xs)"
    by (rule unpad_end_cong) (simp add: nth_append)
  thus ?thesis using unpad_end_le [of xs "length xs"] by (simp add: unpad_def)
qed

lemma unpad_append_zeros: "unpad (data @ replicate k 0) = unpad data"
proof (induction k)
  case (Suc k)
  have "data @ replicate (Suc k) 0 = (data @ replicate k 0) @ [0]"
    by (simp add: replicate_append_same)
  thus ?case using Suc by (simp only: unpad_snoc_zero)
qed simp

lemma unpad_id_iff: "unpad data = data \<longleftrightarrow> data = [] \<or> last data \<noteq> 0"
proof (cases data rule: rev_cases)
  case (snoc xs x)
  have "unpad_end data (length xs) < length data" using unpad_end_le [of data "length xs"] snoc by simp
  thus ?thesis using snoc by (auto simp: unpad_def dest: arg_cong [of _ _ length])
qed (simp add: unpad_def)

section \<open>The signed APK manifest\<close>

definition APK_MAGIC :: "byte list" where
  "APK_MAGIC = str_bytes ''ONDEAPK1''"

record apk_manifest =
  am_apk_hash :: "byte list"
  am_dev_pubkey :: "byte list"
  am_timestamp :: u64

definition to_signed_bytes :: "apk_manifest \<Rightarrow> byte list" where
  "to_signed_bytes m = APK_MAGIC @ am_apk_hash m @ am_dev_pubkey m @ u64_le (am_timestamp m)"

definition manifest_verify :: "crypto_env \<Rightarrow> byte list \<Rightarrow> byte list \<Rightarrow> byte list \<Rightarrow> bool" where
  "manifest_verify ce rootk data sig \<longleftrightarrow>
     \<not> (length data < 8 \<or> take 8 data \<noteq> APK_MAGIC) \<and> \<not> (length data \<noteq> 8 + 32 + 32 + 8)
     \<and> verify_from_pubkey ce rootk data sig"

definition from_apk :: "crypto_env \<Rightarrow> byte list \<Rightarrow> byte list \<Rightarrow> u64 \<Rightarrow> apk_manifest" where
  "from_apk ce apk dev ts = \<lparr>am_apk_hash = ce_sha256 ce apk, am_dev_pubkey = dev, am_timestamp = ts\<rparr>"

definition manifest_sign :: "crypto_env \<Rightarrow> apk_manifest \<Rightarrow> byte list \<Rightarrow> byte list \<times> byte list" where
  "manifest_sign ce m root_seed = (let b = to_signed_bytes m in (ce_sign ce root_seed b, b))"

datatype apk_error = ApkUntrusted | ApkMalformed | ApkHashMismatch

definition verify_apk_signature ::
    "crypto_env \<Rightarrow> byte list \<Rightarrow> byte list \<Rightarrow> byte list \<Rightarrow> byte list \<Rightarrow> apk_error + apk_manifest" where
  "verify_apk_signature ce apk mbytes sig rootk =
     (if \<not> manifest_verify ce rootk mbytes sig then Inl ApkUntrusted
      else if length mbytes \<noteq> 8 + 32 + 32 + 8 \<or> take 8 mbytes \<noteq> APK_MAGIC then Inl ApkMalformed
      else
        let m = \<lparr>am_apk_hash = take 32 (drop 8 mbytes), am_dev_pubkey = take 32 (drop 40 mbytes),
                 am_timestamp = le_u64 (take 8 (drop 72 mbytes))\<rparr>
        in if ce_sha256 ce apk \<noteq> am_apk_hash m then Inl ApkHashMismatch else Inr m)"

definition manifest_ok :: "apk_manifest \<Rightarrow> bool" where
  "manifest_ok m \<longleftrightarrow> length (am_apk_hash m) = 32 \<and> length (am_dev_pubkey m) = 32"

lemma length_magic [simp]: "length APK_MAGIC = 8"
  by (simp add: APK_MAGIC_def)

lemma parse_signed_bytes:
  assumes "manifest_ok m"
  shows "length (to_signed_bytes m) = 80" "take 8 (to_signed_bytes m) = APK_MAGIC"
    "take 32 (drop 8 (to_signed_bytes m)) = am_apk_hash m"
    "take 32 (drop 40 (to_signed_bytes m)) = am_dev_pubkey m"
    "drop 72 (to_signed_bytes m) = u64_le (am_timestamp m)"
  using assms by (simp_all add: to_signed_bytes_def manifest_ok_def)

lemma signed_bytes_exact:
  assumes "length b = 80" "take 8 b = APK_MAGIC"
  shows "b = to_signed_bytes \<lparr>am_apk_hash = take 32 (drop 8 b), am_dev_pubkey = take 32 (drop 40 b),
                 am_timestamp = le_u64 (take 8 (drop 72 b))\<rparr>"
proof -
  have "u64_le (le_u64 (take 8 (drop 72 b))) = take 8 (drop 72 b)"
  proof -
    let ?t = "take 8 (drop 72 b)"
    have "length ?t = 8" using assms by simp
    moreover have "le_nat ?t < 2 ^ 64" using le_nat_less [of ?t] \<open>length ?t = 8\<close> by simp
    ultimately show ?thesis
      using nat_le_le_nat [of ?t] by (simp add: u64_le_def le_u64_def unat_of_nat take_bit_eq_mod)
  qed
  moreover have "b = take 8 b @ take 32 (drop 8 b) @ take 32 (drop 40 b) @ take 8 (drop 72 b)"
  proof -
    have "drop 72 b = take 8 (drop 72 b)" using assms by simp
    moreover have "drop 40 b = take 32 (drop 40 b) @ drop 72 b"
      using append_take_drop_id [of 32 "drop 40 b"] by (simp add: add.commute)
    moreover have "drop 8 b = take 32 (drop 8 b) @ drop 40 b"
      using append_take_drop_id [of 32 "drop 8 b"] by (simp add: add.commute)
    ultimately show ?thesis by (metis append_take_drop_id)
  qed
  ultimately show ?thesis using assms by (simp add: to_signed_bytes_def)
qed

section \<open>Transactions and the offline pool\<close>

definition tx_data :: "string \<Rightarrow> string \<Rightarrow> u64 \<Rightarrow> u64 \<Rightarrow> string" where
  "tx_data sender receiver amount nonce =
     sender @ '':'' @ receiver @ '':'' @ dec_digits (unat amount) @ '':'' @ dec_digits (unat nonce)"

record zk_proof =
  zp_commitment :: string
  zp_public_inputs :: "string list"
  zp_proof_data :: "byte list"

record zk_transaction =
  tx_id :: string
  tx_sender :: string
  tx_receiver :: string
  tx_amount_micro :: u64
  tx_nonce :: u64
  tx_timestamp :: u64
  tx_zk_proof :: zk_proof
  tx_committed :: bool

definition zk_prove :: "crypto_env \<Rightarrow> string \<Rightarrow> string \<Rightarrow> u64 \<Rightarrow> u64 \<Rightarrow> zk_proof" where
  "zk_prove ce s r a n = (let digest = ce_sha256 ce (str_bytes (tx_data s r a n)) in
     \<lparr>zp_commitment = ce_hex_encode ce digest, zp_public_inputs = [s, r], zp_proof_data = digest\<rparr>)"

definition zk_verify :: "crypto_env \<Rightarrow> zk_proof \<Rightarrow> bool" where
  "zk_verify ce p \<longleftrightarrow> length (zp_commitment p) = 64 \<and> list_all is_hexdigit (zp_commitment p)
     \<and> length (zp_proof_data p) = 32 \<and> ce_hex_encode ce (zp_proof_data p) = zp_commitment p"

definition tx_new :: "crypto_env \<Rightarrow> u64 \<Rightarrow> string \<Rightarrow> string \<Rightarrow> u64 \<Rightarrow> u64 \<Rightarrow> zk_transaction" where
  "tx_new ce now s r a n =
     \<lparr>tx_id = ce_hex_encode ce (ce_sha256 ce (str_bytes (tx_data s r a n))), tx_sender = s,
      tx_receiver = r, tx_amount_micro = a, tx_nonce = n, tx_timestamp = now,
      tx_zk_proof = zk_prove ce s r a n, tx_committed = False\<rparr>"

definition has_valid_proof :: "crypto_env \<Rightarrow> zk_transaction \<Rightarrow> bool" where
  "has_valid_proof ce tx \<longleftrightarrow> zk_verify ce (tx_zk_proof tx)
     \<and> zp_commitment (tx_zk_proof tx) = ce_hex_encode ce (ce_sha256 ce
          (str_bytes (tx_data (tx_sender tx) (tx_receiver tx) (tx_amount_micro tx) (tx_nonce tx))))
     \<and> zp_public_inputs (tx_zk_proof tx) = [tx_sender tx, tx_receiver tx]"

record tx_pool =
  tp_pending :: "zk_transaction list"
  tp_committed :: "zk_transaction list"
  tp_state_roots :: "string list"

definition tx_pool_new :: tx_pool where
  "tx_pool_new = \<lparr>tp_pending = [], tp_committed = [], tp_state_roots = [''genesis'']\<rparr>"

text \<open>\<open>tx.nonce + 1\<close> is the wrapping addition of a build without overflow checks, which is what
  the repository's release profile asks for.\<close>

definition next_expected_nonce :: "tx_pool \<Rightarrow> string \<Rightarrow> u64" where
  "next_expected_nonce p sender =
     fold (\<lambda>tx next. if tx_sender tx = sender then max next (tx_nonce tx + 1) else next)
       (tp_pending p @ tp_committed p) 0"

datatype tx_error = TxInvalidProof | TxDuplicateNonce | TxStaleNonce

definition tx_submit :: "crypto_env \<Rightarrow> zk_transaction \<Rightarrow> tx_pool \<Rightarrow> (tx_error + unit) \<times> tx_pool" where
  "tx_submit ce tx p =
     (if \<not> has_valid_proof ce tx then (Inl TxInvalidProof, p)
      else if \<exists>t\<in>set (tp_pending p). tx_sender t = tx_sender tx \<and> tx_nonce t = tx_nonce tx
      then (Inl TxDuplicateNonce, p)
      else if tx_nonce tx < next_expected_nonce p (tx_sender tx) then (Inl TxStaleNonce, p)
      else (Inr (), p\<lparr>tp_pending := tp_pending p @ [tx]\<rparr>))"

definition commit_pending :: "crypto_env \<Rightarrow> nat \<Rightarrow> tx_pool \<Rightarrow> zk_transaction list \<times> tx_pool" where
  "commit_pending ce max_batch p =
     (let n = min max_batch (length (tp_pending p));
          done = map (\<lambda>tx. tx\<lparr>tx_committed := True\<rparr>) (take n (tp_pending p));
          committed = tp_committed p @ done;
          new_root = ce_hex_encode ce (ce_sha256 ce (str_bytes
            (last (tp_state_roots p) @ '':'' @ dec_digits (length committed))))
      in (done, \<lparr>tp_pending = drop n (tp_pending p), tp_committed = committed,
                 tp_state_roots = (if done \<noteq> [] then tp_state_roots p @ [new_root] else tp_state_roots p)\<rparr>))"

subsection \<open>The pool as a state machine\<close>

datatype tx_op = TxSubmit zk_transaction | TxCommit nat

fun tx_step :: "crypto_env \<Rightarrow> tx_op \<Rightarrow> tx_pool \<Rightarrow> tx_pool" where
  "tx_step ce (TxSubmit tx) p = snd (tx_submit ce tx p)"
| "tx_step ce (TxCommit n) p = snd (commit_pending ce n p)"

text \<open>The last nonce of the type is left out: see \<open>tx_nonce_wraps\<close>.\<close>

fun tx_op_ok :: "tx_op \<Rightarrow> bool" where
  "tx_op_ok (TxSubmit tx) = (tx_nonce tx \<noteq> - 1)"
| "tx_op_ok (TxCommit n) = True"

definition tx_all :: "tx_pool \<Rightarrow> zk_transaction list" where
  "tx_all p = tp_committed p @ tp_pending p"

definition nonces_of :: "string \<Rightarrow> zk_transaction list \<Rightarrow> u64 list" where
  "nonces_of s txs = map tx_nonce (filter (\<lambda>tx. tx_sender tx = s) txs)"

definition tx_inv :: "crypto_env \<Rightarrow> tx_pool \<Rightarrow> bool" where
  "tx_inv ce p \<longleftrightarrow> (\<forall>tx\<in>set (tx_all p). has_valid_proof ce tx \<and> tx_nonce tx \<noteq> - 1)
     \<and> (\<forall>s. sorted_wrt (<) (nonces_of s (tx_all p)))
     \<and> list_all tx_committed (tp_committed p) \<and> tp_state_roots p \<noteq> []"

lemma tx_inv_new [simp]: "tx_inv ce tx_pool_new"
  by (simp add: tx_inv_def tx_pool_new_def tx_all_def nonces_of_def)

definition nonce_fold :: "string \<Rightarrow> zk_transaction list \<Rightarrow> u64 \<Rightarrow> u64" where
  "nonce_fold s txs = fold (\<lambda>tx next. if tx_sender tx = s then max next (tx_nonce tx + 1) else next) txs"

lemma nonce_fold_ge: "n \<le> nonce_fold s txs n"
proof (induction txs arbitrary: n)
  case (Cons t txs)
  have "n \<le> max n (tx_nonce t + 1)" by simp
  also have "\<dots> \<le> nonce_fold s txs (max n (tx_nonce t + 1))" by (rule Cons)
  finally show ?case using Cons [of n] by (simp add: nonce_fold_def)
qed (simp add: nonce_fold_def)

lemma nonce_fold_covers: "tx \<in> set txs \<Longrightarrow> tx_sender tx = s \<Longrightarrow> tx_nonce tx + 1 \<le> nonce_fold s txs n"
proof (induction txs arbitrary: n)
  case (Cons t txs)
  show ?case
  proof (cases "tx = t")
    case True
    have "nonce_fold s (t # txs) n = nonce_fold s txs (max n (tx_nonce t + 1))"
      using True Cons.prems by (simp add: nonce_fold_def)
    thus ?thesis using nonce_fold_ge [of "max n (tx_nonce t + 1)" s txs] True by simp
  next
    case False
    thus ?thesis using Cons by (simp add: nonce_fold_def)
  qed
qed simp

lemma less_succ_word: "(n :: u64) \<noteq> - 1 \<Longrightarrow> n < n + 1"
proof -
  assume "n \<noteq> - 1"
  hence "n < - 1" by (simp only: word_order.not_eq_extremum)
  from unat_succ_no_wrap [OF this] show ?thesis by (simp add: word_less_nat_alt)
qed

lemma next_expected_covers:
  assumes "tx \<in> set (tx_all p)" "tx_nonce tx \<noteq> - 1"
  shows "tx_nonce tx < next_expected_nonce p (tx_sender tx)"
proof -
  have "tx_nonce tx + 1 \<le> next_expected_nonce p (tx_sender tx)"
    using assms(1) nonce_fold_covers [of tx "tp_pending p @ tp_committed p" "tx_sender tx" 0]
    by (auto simp: tx_all_def next_expected_nonce_def nonce_fold_def)
  with less_succ_word [OF assms(2)] show ?thesis by (rule less_le_trans)
qed

lemma tx_inv_submit:
  assumes "tx_inv ce p" "tx_nonce tx \<noteq> - 1"
  shows "tx_inv ce (snd (tx_submit ce tx p))"
proof (cases "tx_submit ce tx p")
  case (Pair res p')
  show ?thesis
  proof (cases res)
    case (Inl e)
    thus ?thesis using Pair assms(1) by (auto simp: tx_submit_def split: if_splits)
  next
    case (Inr u)
    have v: "has_valid_proof ce tx" and fresh: "\<not> tx_nonce tx < next_expected_nonce p (tx_sender tx)"
      and p': "p' = p\<lparr>tp_pending := tp_pending p @ [tx]\<rparr>"
      using Pair Inr by (auto simp: tx_submit_def split: if_splits)
    have all: "tx_all p' = tx_all p @ [tx]" by (simp add: p' tx_all_def)
    have "\<forall>n \<in> set (nonces_of (tx_sender tx) (tx_all p)). n < tx_nonce tx"
    proof
      fix n assume "n \<in> set (nonces_of (tx_sender tx) (tx_all p))"
      then obtain t where t: "t \<in> set (tx_all p)" "tx_sender t = tx_sender tx" "n = tx_nonce t"
        by (auto simp: nonces_of_def)
      hence "n < next_expected_nonce p (tx_sender tx)"
        using next_expected_covers [of t p] assms(1) by (auto simp: tx_inv_def)
      thus "n < tx_nonce tx" using fresh by (simp add: not_less)
    qed
    hence "sorted_wrt (<) (nonces_of s (tx_all p'))" for s
      using assms(1) by (auto simp: all tx_inv_def nonces_of_def sorted_wrt_append)
    thus ?thesis using assms Pair v by (auto simp: tx_inv_def all) (auto simp: p')
  qed
qed

lemma commit_pending_all:
  "map (\<lambda>tx. tx\<lparr>tx_committed := c\<rparr>) (tx_all (snd (commit_pending ce n p)))
     = map (\<lambda>tx. tx\<lparr>tx_committed := c\<rparr>) (tx_all p)"
  unfolding commit_pending_def Let_def tx_all_def
  by (simp add: comp_def) (metis append_take_drop_id map_append)

lemma nonces_of_flag: "nonces_of s (map (\<lambda>tx. tx\<lparr>tx_committed := c\<rparr>) txs) = nonces_of s txs"
  by (induction txs) (auto simp: nonces_of_def)

lemma valid_proof_flag [simp]: "has_valid_proof ce (tx\<lparr>tx_committed := c\<rparr>) = has_valid_proof ce tx"
  by (simp add: has_valid_proof_def)

lemma tx_inv_commit:
  assumes "tx_inv ce p"
  shows "tx_inv ce (snd (commit_pending ce n p))"
proof -
  let ?p = "snd (commit_pending ce n p)"
  have all: "map (\<lambda>tx. tx\<lparr>tx_committed := False\<rparr>) (tx_all ?p) = map (\<lambda>tx. tx\<lparr>tx_committed := False\<rparr>) (tx_all p)"
    by (rule commit_pending_all)
  have "nonces_of s (tx_all ?p) = nonces_of s (tx_all p)" for s
    by (metis all nonces_of_flag)
  moreover have "\<forall>tx\<in>set (tx_all ?p). has_valid_proof ce tx \<and> tx_nonce tx \<noteq> - 1"
  proof
    fix tx assume "tx \<in> set (tx_all ?p)"
    hence "tx\<lparr>tx_committed := False\<rparr> \<in> set (map (\<lambda>tx. tx\<lparr>tx_committed := False\<rparr>) (tx_all p))"
      unfolding all [symmetric] by simp
    then obtain t where "t \<in> set (tx_all p)" "tx\<lparr>tx_committed := False\<rparr> = t\<lparr>tx_committed := False\<rparr>" by auto
    thus "has_valid_proof ce tx \<and> tx_nonce tx \<noteq> - 1"
      using assms by (metis tx_inv_def valid_proof_flag zk_transaction.select_convs(5)
          zk_transaction.surjective zk_transaction.update_convs(8))
  qed
  moreover have "list_all tx_committed (tp_committed ?p) \<and> tp_state_roots ?p \<noteq> []"
    using assms by (auto simp: tx_inv_def commit_pending_def Let_def list_all_iff)
  ultimately show ?thesis using assms by (simp add: tx_inv_def)
qed

interpretation txm: guarded_machine "tx_step ce" "tx_inv ce" tx_op_ok for ce
proof
  fix op p assume "tx_inv ce p" "tx_op_ok op"
  thus "tx_inv ce (tx_step ce op p)" by (cases op) (auto intro: tx_inv_submit tx_inv_commit)
qed

section \<open>Properties\<close>

text \<open>C18: no replay. Whatever transactions are submitted (none with the last nonce of \<open>u64\<close>) and
  however commits interleave, each sender's transactions in the pool, committed then pending, carry
  strictly increasing nonces and a proof that matches their fields; so no (sender, nonce) is ever
  committed twice.\<close>

theorem tx_pool_no_replay:
  assumes "list_all tx_op_ok ops" "p = fold (tx_step ce) ops tx_pool_new"
  shows "sorted_wrt (<) (nonces_of s (tp_committed p @ tp_pending p))
    \<and> (\<forall>tx\<in>set (tp_committed p @ tp_pending p). has_valid_proof ce tx)
    \<and> distinct (map (\<lambda>tx. (tx_sender tx, tx_nonce tx)) (tp_committed p))"
proof -
  have inv: "tx_inv ce p" unfolding assms(2) by (rule txm.run_inv [OF tx_inv_new assms(1)])
  have "distinct (map (\<lambda>tx. (tx_sender tx, tx_nonce tx)) txs)"
    if "\<forall>s. sorted_wrt (<) (nonces_of s txs)" for txs
    using that
  proof (induction txs)
    case (Cons t txs)
    have "sorted_wrt (<) (nonces_of s txs)" for s
      using Cons.prems [rule_format, of s] by (auto simp: nonces_of_def split: if_splits)
    moreover have "tx_nonce t < tx_nonce x" if "x \<in> set txs" "tx_sender x = tx_sender t" for x
      using Cons.prems [rule_format, of "tx_sender t"] that by (auto simp: nonces_of_def)
    ultimately show ?case using Cons.IH by force
  qed simp
  moreover have "sorted_wrt (<) (nonces_of s (tp_committed p))" for s
    using inv by (auto simp: tx_inv_def tx_all_def nonces_of_def sorted_wrt_append)
  ultimately show ?thesis using inv by (auto simp: tx_inv_def tx_all_def)
qed

lemma tx_pool_no_replay_witness:
  "distinct (map (\<lambda>tx. (tx_sender tx, tx_nonce tx)) (tp_committed
     (fold (tx_step demo_env) [TxSubmit (tx_new demo_env 0 ''a'' ''b'' 5 0), TxCommit 4,
        TxSubmit (tx_new demo_env 0 ''a'' ''b'' 5 0)] tx_pool_new)))"
  using tx_pool_no_replay [OF _ refl, where ce = demo_env and ops = "[TxSubmit (tx_new demo_env 0 ''a'' ''b'' 5 0),
        TxCommit 4, TxSubmit (tx_new demo_env 0 ''a'' ''b'' 5 0)]"]
  by (simp add: tx_new_def)

text \<open>Nothing is lost. A commit only moves the oldest pending transactions, at most the batch
  size and in order, to the end of the committed ones, marks them, returns exactly them, and
  appends one state root if and only if it moved any.\<close>

theorem commit_pending_moves:
  "case commit_pending ce n p of (moved, p') \<Rightarrow>
     tp_committed p' = tp_committed p @ moved
   \<and> map (\<lambda>tx. tx\<lparr>tx_committed := c\<rparr>) (moved @ tp_pending p') = map (\<lambda>tx. tx\<lparr>tx_committed := c\<rparr>) (tp_pending p)
   \<and> length moved = min n (length (tp_pending p)) \<and> list_all tx_committed moved
   \<and> length (tp_state_roots p') = length (tp_state_roots p) + (if moved = [] then 0 else 1)"
proof -
  let ?n = "min n (length (tp_pending p))"
  have flag: "map (\<lambda>tx. tx\<lparr>tx_committed := c\<rparr>) (map (\<lambda>tx. tx\<lparr>tx_committed := True\<rparr>) (take ?n (tp_pending p)) @ drop ?n (tp_pending p))
      = map (\<lambda>tx. tx\<lparr>tx_committed := c\<rparr>) (tp_pending p)"
    by (simp add: comp_def) (metis append_take_drop_id map_append)
  show ?thesis
    unfolding commit_pending_def Let_def prod.case using flag
    by (intro conjI) (simp_all only: tx_pool.simps, simp_all add: list_all_iff)
qed

lemma honest_proof:
  assumes "hex_laws ce" "sha_laws ce"
  shows "has_valid_proof ce (tx_new ce now s r a n)"
proof -
  have "length (ce_hex_encode ce b) = 2 * length b" for b
    using assms(1) by (auto simp: hex_laws_def)
  thus ?thesis using assms
    by (simp add: has_valid_proof_def tx_new_def zk_verify_def zk_prove_def Let_def hex_laws_def sha_laws_def)
qed

text \<open>An honest sender is never blocked: in every pool the operations can reach, a transaction
  built by \<open>new\<close> with the sender's next expected nonce is accepted and becomes pending; and an
  accepted transaction makes that nonce, and every lower one, refused from then on.\<close>

theorem tx_next_nonce_accepted:
  assumes "hex_laws ce" "sha_laws ce" "tx_inv ce p"
    and "tx = tx_new ce now s r a (next_expected_nonce p s)" "next_expected_nonce p s \<noteq> - 1"
  shows "tx_submit ce tx p = (Inr (), p\<lparr>tp_pending := tp_pending p @ [tx]\<rparr>)
    \<and> (\<forall>tx'. tx_sender tx' = s \<longrightarrow> tx_nonce tx' \<le> tx_nonce tx \<longrightarrow>
         fst (tx_submit ce tx' (p\<lparr>tp_pending := tp_pending p @ [tx]\<rparr>)) \<noteq> Inr ())"
proof -
  let ?p = "p\<lparr>tp_pending := tp_pending p @ [tx]\<rparr>"
  have tx: "tx_sender tx = s" "tx_nonce tx = next_expected_nonce p s"
    by (simp_all add: assms(4) tx_new_def)
  have v: "has_valid_proof ce tx" unfolding assms(4) by (rule honest_proof [OF assms(1,2)])
  have "\<not> (\<exists>t\<in>set (tp_pending p). tx_sender t = s \<and> tx_nonce t = next_expected_nonce p s)"
    using next_expected_covers [of _ p] assms(3) by (fastforce simp: tx_inv_def tx_all_def)
  hence acc: "tx_submit ce tx p = (Inr (), ?p)" using v tx by (simp add: tx_submit_def)
  have "tx_nonce tx < next_expected_nonce ?p s"
    using next_expected_covers [of tx ?p] tx assms(5) by (simp add: tx_all_def)
  hence "fst (tx_submit ce tx' ?p) \<noteq> Inr ()" if "tx_sender tx' = s" "tx_nonce tx' \<le> tx_nonce tx" for tx'
  proof -
    have "tx_nonce tx' < next_expected_nonce ?p s"
      by (rule le_less_trans [OF that(2)]) fact
    thus ?thesis using that(1) by (simp add: tx_submit_def)
  qed
  thus ?thesis using acc by blast
qed

lemma tx_next_nonce_accepted_witness:
  "fst (tx_submit demo_env (tx_new demo_env 0 ''a'' ''b'' 5 0) tx_pool_new) = Inr ()"
proof -
  have "next_expected_nonce tx_pool_new ''a'' = 0" by (simp add: next_expected_nonce_def tx_pool_new_def)
  thus ?thesis
    using tx_next_nonce_accepted [OF demo_laws(1,3) tx_inv_new refl, of "''a''" 0 "''b''" 5] by simp
qed

text \<open>The sequence breaks at the top of the type. Once a sender's only transaction carries the
  last \<open>u64\<close> nonce, the next expected nonce wraps to 0, and after its commit the very same
  transaction is accepted again.\<close>

theorem tx_nonce_wraps:
  assumes "hex_laws ce" "sha_laws ce" "tx = tx_new ce now s r a (- 1)"
  shows "fst (tx_submit ce tx (fold (tx_step ce) [TxSubmit tx, TxCommit 1] tx_pool_new)) = Inr ()"
proof -
  have v: "has_valid_proof ce tx" unfolding assms(3) by (rule honest_proof [OF assms(1,2)])
  have n: "tx_nonce tx = - 1" by (simp add: assms(3) tx_new_def)
  show ?thesis
    by (simp add: tx_submit_def commit_pending_def next_expected_nonce_def tx_pool_new_def Let_def v n)
qed

lemma tx_nonce_wraps_witness:
  "fst (tx_submit demo_env (tx_new demo_env 0 ''a'' ''b'' 5 (- 1))
     (fold (tx_step demo_env) [TxSubmit (tx_new demo_env 0 ''a'' ''b'' 5 (- 1)), TxCommit 1] tx_pool_new)) = Inr ()"
  by (rule tx_nonce_wraps [OF demo_laws(1,3) refl])

text \<open>Traffic padding. The padded length is one of the four bucket sizes whenever the message
  fits the largest one, and the message itself beyond it; padding never truncates, is idempotent,
  and \<open>unpad\<close> recovers the message exactly when it does not end in a zero byte (the comment's
  "for every x" fails for the others).\<close>

theorem padding_correct:
  "(length data \<le> 16384 \<longrightarrow> length (pad data) \<in> set BUCKETS)
   \<and> (16384 < length data \<longrightarrow> pad data = data)
   \<and> take (length data) (pad data) = data \<and> pad (pad data) = pad data
   \<and> (unpad (pad data) = data \<longleftrightarrow> data = [] \<or> last data \<noteq> 0)
   \<and> unpad (unpad data) = unpad data"
proof (intro conjI impI)
  assume "length data \<le> 16384"
  thus "length (pad data) \<in> set BUCKETS" by (auto simp: length_pad bucket_for_eq BUCKETS_def)
next
  assume "16384 < length data"
  thus "pad data = data" by (simp add: pad_eq bucket_for_eq)
next
  show "take (length data) (pad data) = data" by (simp add: pad_eq)
  have "bucket_for (length (pad data)) \<le> length (pad data)"
    by (auto simp: length_pad bucket_for_eq max_def)
  thus "pad (pad data) = pad data" using pad_eq [of "pad data"] by simp
  show "unpad (pad data) = data \<longleftrightarrow> data = [] \<or> last data \<noteq> 0"
    unfolding pad_eq unpad_append_zeros by (rule unpad_id_iff)
  have "unpad data = [] \<or> last (unpad data) \<noteq> 0"
  proof (induction data rule: rev_induct)
    case (snoc x xs)
    show ?case
    proof (cases "x = 0")
      case True
      thus ?thesis using snoc by (simp add: unpad_snoc_zero)
    next
      case False
      hence "unpad (xs @ [x]) = xs @ [x]" by (simp add: unpad_id_iff)
      thus ?thesis using False by simp
    qed
  qed (simp add: unpad_def)
  thus "unpad (unpad data) = unpad data" by (simp only: unpad_id_iff)
qed

lemma padding_correct_witness:
  "unpad (pad [7]) = [7] \<and> unpad (pad [7, 0]) \<noteq> [7, 0] \<and> length (pad [7, 0]) \<in> set BUCKETS"
  using padding_correct [of "[7]"] padding_correct [of "[7, 0]"] by simp

text \<open>What an accepted APK proves. \<open>verify_apk_signature\<close> accepts exactly when the manifest is
  the canonical 80-byte encoding of the returned manifest, the pinned root key signed exactly these
  bytes, and the SHA-256 of the received APK is the signed hash; every other input is refused.\<close>

theorem apk_signature_sound:
  "verify_apk_signature ce apk mbytes sig rootk = Inr m \<longleftrightarrow>
     manifest_ok m \<and> mbytes = to_signed_bytes m \<and> verify_from_pubkey ce rootk mbytes sig
     \<and> ce_sha256 ce apk = am_apk_hash m"
proof
  assume ok: "verify_apk_signature ce apk mbytes sig rootk = Inr m"
  hence b: "length mbytes = 80" "take 8 mbytes = APK_MAGIC" "verify_from_pubkey ce rootk mbytes sig"
    by (auto simp: verify_apk_signature_def manifest_verify_def Let_def split: if_splits)
  have m: "m = \<lparr>am_apk_hash = take 32 (drop 8 mbytes), am_dev_pubkey = take 32 (drop 40 mbytes),
      am_timestamp = le_u64 (take 8 (drop 72 mbytes))\<rparr>" "ce_sha256 ce apk = am_apk_hash m"
    using ok by (auto simp: verify_apk_signature_def Let_def split: if_splits)
  show "manifest_ok m \<and> mbytes = to_signed_bytes m \<and> verify_from_pubkey ce rootk mbytes sig
     \<and> ce_sha256 ce apk = am_apk_hash m"
    using signed_bytes_exact [OF b(1,2)] b(1,3) m(2) by (simp add: m(1) manifest_ok_def)
next
  assume r: "manifest_ok m \<and> mbytes = to_signed_bytes m \<and> verify_from_pubkey ce rootk mbytes sig
     \<and> ce_sha256 ce apk = am_apk_hash m"
  hence "manifest_ok m" by blast
  with r show "verify_apk_signature ce apk mbytes sig rootk = Inr m"
    by (auto simp: verify_apk_signature_def manifest_verify_def parse_signed_bytes Let_def)
qed

end
