(* ===== verification/Event.thy ===== *)
theory Event
  imports Crypto
begin

text \<open>
  The signed events of the mesh, \<open>core/src/protocol/mod.rs\<close>: kinds and their wire codes, the
  canonical identifier, proof of work, validation, and the binary wire format with its padding.
  The JSON serialisation behind the identifier and the hash, hex and signature functions come from
  crates and are fields of \<open>crypto_env\<close>; the clock is an argument.
\<close>

section \<open>Events\<close>

definition MAX_ALERT_SIZE :: nat where "MAX_ALERT_SIZE = 280"
definition MAX_CLOCK_SKEW_SECS :: nat where "MAX_CLOCK_SKEW_SECS = 300"
definition MIN_POW_DIFFICULTY :: nat where "MIN_POW_DIFFICULTY = 1"

datatype onde_message_type =
    Alert | MutualAid | VoiceMemo | Transcription | Transaction | AiQuery | AiResponse
  | FileShareRequest | Heartbeat | UpdateAnnounce | UpdateManifest | UpdateChunk | UpdateRequest
  | Endorsement | IdentityRotation | AbuseReport | SocialPost | SocialComment | SocialVote
  | SocialFollow | SocialMessage | SocialModeration

record mesh_event =
  ev_id :: string
  ev_pubkey :: string
  ev_created_at :: u64
  ev_kind :: onde_message_type
  ev_tags :: "string list"
  ev_content :: string
  ev_sig :: string
  ev_pow_nonce :: u64
  ev_pow_difficulty :: u8
  ev_ttl :: u8

fun kind_code :: "onde_message_type \<Rightarrow> u8" where
  "kind_code Alert = 0"
| "kind_code MutualAid = 1"
| "kind_code VoiceMemo = 2"
| "kind_code Transcription = 3"
| "kind_code Transaction = 4"
| "kind_code AiQuery = 5"
| "kind_code AiResponse = 6"
| "kind_code FileShareRequest = 7"
| "kind_code Heartbeat = 8"
| "kind_code UpdateAnnounce = 9"
| "kind_code UpdateManifest = 10"
| "kind_code UpdateChunk = 11"
| "kind_code UpdateRequest = 12"
| "kind_code Endorsement = 13"
| "kind_code IdentityRotation = 14"
| "kind_code AbuseReport = 15"
| "kind_code SocialPost = 16"
| "kind_code SocialComment = 17"
| "kind_code SocialVote = 18"
| "kind_code SocialFollow = 19"
| "kind_code SocialMessage = 20"
| "kind_code SocialModeration = 21"

definition kind_from_code :: "u8 \<Rightarrow> onde_message_type option" where
  "kind_from_code c =
     (if c = 0 then Some Alert else if c = 1 then Some MutualAid else if c = 2 then Some VoiceMemo
      else if c = 3 then Some Transcription else if c = 4 then Some Transaction
      else if c = 5 then Some AiQuery else if c = 6 then Some AiResponse
      else if c = 7 then Some FileShareRequest else if c = 8 then Some Heartbeat
      else if c = 9 then Some UpdateAnnounce else if c = 10 then Some UpdateManifest
      else if c = 11 then Some UpdateChunk else if c = 12 then Some UpdateRequest
      else if c = 13 then Some Endorsement else if c = 14 then Some IdentityRotation
      else if c = 15 then Some AbuseReport else if c = 16 then Some SocialPost
      else if c = 17 then Some SocialComment else if c = 18 then Some SocialVote
      else if c = 19 then Some SocialFollow else if c = 20 then Some SocialMessage
      else if c = 21 then Some SocialModeration else None)"

definition compute_id :: "crypto_env \<Rightarrow> string \<Rightarrow> u64 \<Rightarrow> onde_message_type \<Rightarrow> string list \<Rightarrow> string \<Rightarrow> string" where
  "compute_id ce pubkey created_at kind tags content =
     ce_hex_encode ce (ce_sha256 ce (ce_event_json ce pubkey created_at (kind_code kind) tags content))"

text \<open>\<open>fuzzy_timestamp_secs\<close>: the clock plus a random skew in -30 .. 30, never negative.\<close>

definition fuzzy_timestamp :: "int \<Rightarrow> int \<Rightarrow> u64" where
  "fuzzy_timestamp now skew = of_int (max (now + skew) 0)"

definition event_new :: "crypto_env \<Rightarrow> u64 \<Rightarrow> string \<Rightarrow> onde_message_type \<Rightarrow> string \<Rightarrow> string list \<Rightarrow> mesh_event" where
  "event_new ce t pubkey kind content tags =
     \<lparr>ev_id = compute_id ce pubkey t kind tags content, ev_pubkey = pubkey, ev_created_at = t,
      ev_kind = kind, ev_tags = tags, ev_content = content, ev_sig = [], ev_pow_nonce = 0,
      ev_pow_difficulty = 4, ev_ttl = 5\<rparr>"

definition pubkey_hex :: "crypto_env \<Rightarrow> byte list \<Rightarrow> string" where
  "pubkey_hex ce seed = ce_hex_encode ce (ce_public_key ce seed)"

definition new_signed :: "crypto_env \<Rightarrow> u64 \<Rightarrow> byte list \<Rightarrow> onde_message_type \<Rightarrow> string \<Rightarrow> string list \<Rightarrow> mesh_event" where
  "new_signed ce t seed kind content tags =
     (let pk = pubkey_hex ce seed; i = compute_id ce pk t kind tags content in
      \<lparr>ev_id = i, ev_pubkey = pk, ev_created_at = t, ev_kind = kind, ev_tags = tags,
       ev_content = content, ev_sig = ce_hex_encode ce (ce_sign ce seed (str_bytes i)),
       ev_pow_nonce = 0, ev_pow_difficulty = 4, ev_ttl = 5\<rparr>)"

definition with_pow_difficulty :: "u8 \<Rightarrow> mesh_event \<Rightarrow> mesh_event" where
  "with_pow_difficulty d e = e\<lparr>ev_pow_difficulty := d\<rparr>"

section \<open>Proof of work\<close>

definition zeros :: "nat \<Rightarrow> string" where
  "zeros n = replicate n (CHR ''0'')"

definition pow_hash :: "crypto_env \<Rightarrow> string \<Rightarrow> nat \<Rightarrow> string" where
  "pow_hash ce i nonce = ce_lower_hex ce (ce_sha256 ce (str_bytes (i @ '':'' @ dec_digits nonce)))"

definition starts_with :: "string \<Rightarrow> string \<Rightarrow> bool" where
  "starts_with s p \<longleftrightarrow> take (length p) s = p"

lemma starts_with_zeros_0 [simp]: "starts_with s (zeros 0)"
  by (simp add: starts_with_def zeros_def)

definition verify_pow :: "crypto_env \<Rightarrow> string \<Rightarrow> u64 \<Rightarrow> u8 \<Rightarrow> bool" where
  "verify_pow ce i nonce difficulty = starts_with (pow_hash ce i (unat nonce)) (zeros (unat difficulty))"

text \<open>\<open>for nonce in 0..max_iterations\<close>: the second number is what is left of the range.\<close>

fun pow_search :: "crypto_env \<Rightarrow> string \<Rightarrow> string \<Rightarrow> nat \<Rightarrow> nat \<Rightarrow> nat option" where
  "pow_search ce i target nonce 0 = None"
| "pow_search ce i target nonce (Suc k) =
     (if starts_with (pow_hash ce i nonce) target then Some nonce
      else pow_search ce i target (Suc nonce) k)"

definition compute_pow :: "crypto_env \<Rightarrow> u64 \<Rightarrow> mesh_event \<Rightarrow> bool \<times> mesh_event" where
  "compute_pow ce max_iterations e =
     (case pow_search ce (ev_id e) (zeros (unat (ev_pow_difficulty e))) 0 (unat max_iterations) of
        Some n \<Rightarrow> (True, e\<lparr>ev_pow_nonce := of_nat n\<rparr>)
      | None \<Rightarrow> (False, e))"

section \<open>Validation\<close>

definition decode_hex_n :: "crypto_env \<Rightarrow> nat \<Rightarrow> string \<Rightarrow> byte list option" where
  "decode_hex_n ce n s =
     (case ce_hex_decode ce s of None \<Rightarrow> None
      | Some b \<Rightarrow> if length b \<noteq> n then None else Some b)"

definition decode_hex_32 :: "crypto_env \<Rightarrow> string \<Rightarrow> byte list option" where
  "decode_hex_32 ce = decode_hex_n ce 32"

definition decode_hex_64 :: "crypto_env \<Rightarrow> string \<Rightarrow> byte list option" where
  "decode_hex_64 ce = decode_hex_n ce 64"

definition signature_valid :: "crypto_env \<Rightarrow> mesh_event \<Rightarrow> bool" where
  "signature_valid ce e =
     (case decode_hex_32 ce (ev_pubkey e) of None \<Rightarrow> False
      | Some pk \<Rightarrow>
          (case decode_hex_64 ce (ev_sig e) of None \<Rightarrow> False
           | Some sg \<Rightarrow> verify_from_pubkey ce pk (str_bytes (ev_id e)) sg))"

datatype validation_error =
    VAlertTooLong
  | VFuture
  | VIdMismatch
  | VMissingSignature
  | VBadPubkeyEncoding
  | VBadSignatureEncoding
  | VInvalidSignature
  | VPowTooLow nat nat
  | VInvalidPow

definition validate_with_pow_min :: "crypto_env \<Rightarrow> nat \<Rightarrow> nat \<Rightarrow> mesh_event \<Rightarrow> validation_error + unit" where
  "validate_with_pow_min ce now min_difficulty e =
     (if ev_kind e = Alert \<and> chars_count (ev_content e) > MAX_ALERT_SIZE then Inl VAlertTooLong
      else if unat (ev_created_at e) > now \<and> unat (ev_created_at e) - now > MAX_CLOCK_SKEW_SECS
      then Inl VFuture
      else if ev_id e \<noteq> compute_id ce (ev_pubkey e) (ev_created_at e) (ev_kind e) (ev_tags e) (ev_content e)
      then Inl VIdMismatch
      else if ev_sig e = [] then Inl VMissingSignature
      else case decode_hex_32 ce (ev_pubkey e) of
        None \<Rightarrow> Inl VBadPubkeyEncoding
      | Some pk \<Rightarrow>
         (case decode_hex_64 ce (ev_sig e) of
            None \<Rightarrow> Inl VBadSignatureEncoding
          | Some sg \<Rightarrow>
              if \<not> verify_from_pubkey ce pk (str_bytes (ev_id e)) sg then Inl VInvalidSignature
              else if unat (ev_pow_difficulty e) < min_difficulty
              then Inl (VPowTooLow (unat (ev_pow_difficulty e)) min_difficulty)
              else if \<not> verify_pow ce (ev_id e) (ev_pow_nonce e) (ev_pow_difficulty e) then Inl VInvalidPow
              else Inr ()))"

definition validate :: "crypto_env \<Rightarrow> nat \<Rightarrow> mesh_event \<Rightarrow> validation_error + unit" where
  "validate ce now e = validate_with_pow_min ce now MIN_POW_DIFFICULTY e"

definition is_expired :: "nat \<Rightarrow> nat \<Rightarrow> mesh_event \<Rightarrow> bool" where
  "is_expired now max_age e \<longleftrightarrow> now - unat (ev_created_at e) > max_age"

section \<open>The wire format\<close>

datatype encode_error = WireBadId | WireBadPubkey | WireBadSignature

definition wire_body :: "mesh_event \<Rightarrow> byte list \<Rightarrow> byte list \<Rightarrow> byte list \<Rightarrow> byte list" where
  "wire_body e i pk sg =
     i @ pk @ u64_le (ev_created_at e) @ [kind_code (ev_kind e)]
     @ nat_le 4 (length (ev_tags e)) @ concat (map string_bytes (ev_tags e))
     @ string_bytes (ev_content e) @ sg @ u64_le (ev_pow_nonce e) @ [ev_pow_difficulty e] @ [ev_ttl e]"

definition to_wire_bytes :: "crypto_env \<Rightarrow> mesh_event \<Rightarrow> encode_error + byte list" where
  "to_wire_bytes ce e =
     (case decode_hex_32 ce (ev_id e) of None \<Rightarrow> Inl WireBadId
      | Some i \<Rightarrow>
        (case decode_hex_32 ce (ev_pubkey e) of None \<Rightarrow> Inl WireBadPubkey
         | Some pk \<Rightarrow>
           (case decode_hex_64 ce (ev_sig e) of None \<Rightarrow> Inl WireBadSignature
            | Some sg \<Rightarrow> Inr (pad (wire_body e i pk sg)))))"

definition take_kind :: "onde_message_type reader" where
  "take_kind = rd_bind take_u8 (\<lambda>c. case kind_from_code c of
     Some k \<Rightarrow> rd_return k | None \<Rightarrow> rd_fail (WUnknownKind c))"

definition take_tags :: "string list reader" where
  "take_tags = rd_bind take_u32 (\<lambda>n. if n > 10000 then rd_fail (WTooManyTags n) else take_many take_string n)"

definition read_event :: "crypto_env \<Rightarrow> mesh_event reader" where
  "read_event ce =
     rd_bind (take_bytes 32) (\<lambda>i. rd_bind (take_bytes 32) (\<lambda>pk. rd_bind take_u64 (\<lambda>t.
     rd_bind take_kind (\<lambda>k. rd_bind take_tags (\<lambda>tags. rd_bind take_string (\<lambda>content.
     rd_bind (take_bytes 64) (\<lambda>sg. rd_bind take_u64 (\<lambda>nonce. rd_bind take_u8 (\<lambda>d.
     rd_bind take_u8 (\<lambda>ttl. rd_return
       \<lparr>ev_id = ce_hex_encode ce i, ev_pubkey = ce_hex_encode ce pk, ev_created_at = t, ev_kind = k,
        ev_tags = tags, ev_content = content, ev_sig = ce_hex_encode ce sg, ev_pow_nonce = nonce,
        ev_pow_difficulty = d, ev_ttl = ttl\<rparr>))))))))))"

definition from_wire_bytes :: "crypto_env \<Rightarrow> byte list \<Rightarrow> wire_error + mesh_event" where
  "from_wire_bytes ce data =
     (if data \<noteq> [] \<and> list_all (\<lambda>b. b = 0) data then Inl WAllZero
      else case read_event ce (wire_reader_new data) of
             Inl err \<Rightarrow> Inl err
           | Inr (e, _) \<Rightarrow> Inr e)"

section \<open>Facts\<close>

lemma kind_from_kind_code [simp]: "kind_from_code (kind_code k) = Some k"
  by (cases k) (simp_all add: kind_from_code_def)

lemma kind_from_code_cases: "kind_from_code c = Some k \<Longrightarrow> c = kind_code k"
  by (auto simp: kind_from_code_def split: if_splits)

lemma kind_code_le: "kind_code k \<le> 21"
  by (cases k) simp_all

lemma kind_code_inj: "kind_code k = kind_code k' \<longleftrightarrow> k = k'"
  by (metis kind_from_kind_code option.inject)

lemma reads_kind [reads_intro]: "reads take_kind k [kind_code k]"
proof -
  have "reads (case kind_from_code (kind_code k) of Some k \<Rightarrow> rd_return k | None \<Rightarrow> rd_fail (WUnknownKind (kind_code k))) k []"
    by (simp add: reads_return)
  hence "reads take_kind k ([kind_code k] @ [])"
    unfolding take_kind_def by (rule reads_bind [OF reads_u8])
  thus ?thesis by simp
qed

definition text_ok :: "string \<Rightarrow> bool" where
  "text_ok s \<longleftrightarrow> utf8_valid (str_bytes s) \<and> length s < 2 ^ 32"

lemma reads_tags:
  assumes "length tags \<le> 10000" "list_all text_ok tags"
  shows "reads take_tags tags (nat_le 4 (length tags) @ concat (map string_bytes tags))"
  unfolding take_tags_def
proof (rule reads_bind)
  show "reads take_u32 (length tags) (nat_le 4 (length tags))"
    using assms(1) by (intro reads_u32) simp
  have "list_all (\<lambda>x. reads take_string x (string_bytes x)) tags"
    using assms(2) by (auto simp: list_all_iff text_ok_def intro: reads_string)
  thus "reads (if length tags > 10000 then rd_fail (WTooManyTags (length tags))
      else take_many take_string (length tags)) tags (concat (map string_bytes tags))"
    using assms(1) reads_many [of take_string string_bytes tags] by simp
qed

text \<open>What an event can be encoded and read back: the identifiers are the lower-case hexadecimal of
  the right number of bytes, the tags are at most the 10000 the decoder accepts, and the texts are
  UTF-8 (as every Rust string is) with a length that fits its 32-bit prefix.\<close>

definition wire_ok :: "crypto_env \<Rightarrow> mesh_event \<Rightarrow> byte list \<Rightarrow> byte list \<Rightarrow> byte list \<Rightarrow> bool" where
  "wire_ok ce e i pk sg \<longleftrightarrow>
     ev_id e = ce_hex_encode ce i \<and> length i = 32 \<and> ev_pubkey e = ce_hex_encode ce pk \<and> length pk = 32
     \<and> ev_sig e = ce_hex_encode ce sg \<and> length sg = 64
     \<and> length (ev_tags e) \<le> 10000 \<and> list_all text_ok (ev_tags e) \<and> text_ok (ev_content e)"

lemma reads_event:
  assumes "wire_ok ce e i pk sg"
  shows "reads (read_event ce) e (wire_body e i pk sg)"
proof -
  have len: "length i = 32" "length pk = 32" "length sg = 64"
    and content: "utf8_valid (str_bytes (ev_content e))" "length (ev_content e) < 2 ^ 32"
    and tags: "length (ev_tags e) \<le> 10000" "list_all text_ok (ev_tags e)"
    using assms by (auto simp: wire_ok_def text_ok_def)
  have e: "e = \<lparr>ev_id = ce_hex_encode ce i, ev_pubkey = ce_hex_encode ce pk, ev_created_at = ev_created_at e,
      ev_kind = ev_kind e, ev_tags = ev_tags e, ev_content = ev_content e, ev_sig = ce_hex_encode ce sg,
      ev_pow_nonce = ev_pow_nonce e, ev_pow_difficulty = ev_pow_difficulty e, ev_ttl = ev_ttl e\<rparr>" (is "e = ?e")
    using assms by (simp add: wire_ok_def)
  have body: "wire_body e i pk sg = i @ pk @ u64_le (ev_created_at e) @ [kind_code (ev_kind e)]
     @ (nat_le 4 (length (ev_tags e)) @ concat (map string_bytes (ev_tags e)))
     @ string_bytes (ev_content e) @ sg @ u64_le (ev_pow_nonce e) @ [ev_pow_difficulty e] @ [ev_ttl e] @ []"
    by (simp add: wire_body_def)
  have "reads (read_event ce) ?e (wire_body e i pk sg)"
    unfolding body read_event_def
    by (rule reads_bind [OF reads_take [OF len(1)]], rule reads_bind [OF reads_take [OF len(2)]],
        rule reads_bind [OF reads_u64], rule reads_bind [OF reads_kind], rule reads_bind [OF reads_tags [OF tags]],
        rule reads_bind [OF reads_string [OF content]], rule reads_bind [OF reads_take [OF len(3)]],
        rule reads_bind [OF reads_u64], rule reads_bind [OF reads_u8], rule reads_bind [OF reads_u8],
        rule reads_return)
  thus ?thesis using e by simp
qed

lemma local_kind [local_intro]: "local_reader take_kind"
  unfolding take_kind_def by (intro local_intro) (auto split: option.split intro: local_intro)

lemma local_tags [local_intro]: "local_reader take_tags"
  unfolding take_tags_def by (intro local_intro)

lemma local_event: "local_reader (read_event ce)"
  unfolding read_event_def by (intro local_intro)

lemma decode_hex_encode:
  "hex_laws ce \<Longrightarrow> decode_hex_n ce n (ce_hex_encode ce b) = (if length b = n then Some b else None)"
  by (simp add: decode_hex_n_def hex_laws_def)

lemma to_wire_ok:
  "hex_laws ce \<Longrightarrow> wire_ok ce e i pk sg \<Longrightarrow> to_wire_bytes ce e = Inr (pad (wire_body e i pk sg))"
  by (simp add: to_wire_bytes_def wire_ok_def decode_hex_32_def decode_hex_64_def decode_hex_encode)

lemma read_event_prefix:
  assumes "wire_ok ce e i pk sg"
  shows "\<exists>r. read_event ce (wire_reader_new (wire_body e i pk sg @ rest)) = Inr (e, r)"
  using reads_event [OF assms, unfolded reads_def, rule_format,
      of "wire_reader_new (wire_body e i pk sg @ rest)" "[]" rest]
  by (simp add: wire_reader_new_def)

lemma length_wire_body:
  assumes "wire_ok ce e i pk sg"
  shows "152 \<le> length (wire_body e i pk sg)"
  using assms by (simp add: wire_body_def wire_ok_def string_bytes_def)

lemma from_wire_body:
  assumes "wire_ok ce e i pk sg"
  shows "from_wire_bytes ce (wire_body e i pk sg @ rest) =
    (if list_all (\<lambda>b. b = 0) (wire_body e i pk sg @ rest) then Inl WAllZero else Inr e)"
proof -
  have "wire_body e i pk sg \<noteq> []" using length_wire_body [OF assms] by auto
  moreover obtain r where "read_event ce (wire_reader_new (wire_body e i pk sg @ rest)) = Inr (e, r)"
    using read_event_prefix [OF assms] by blast
  ultimately show ?thesis by (simp add: from_wire_bytes_def)
qed

section \<open>Properties\<close>

definition demo_event :: mesh_event where
  "demo_event = (new_signed demo_env 1000 (replicate 32 1) Alert ''hi'' [''t'', ''uu''])\<lparr>ev_ttl := 0\<rparr>"

lemma demo_wire_ok:
  "wire_ok demo_env demo_event (ce_sha256 demo_env (ce_event_json demo_env (ev_pubkey demo_event) 1000 0 [''t'', ''uu''] ''hi''))
     (replicate 32 1) (ce_sign demo_env (replicate 32 1) (str_bytes (ev_id demo_event)))"
proof -
  have "utf8_valid (str_bytes s)" if "s \<in> {''t'', ''uu'', ''hi''}" for s
    using that by (auto simp: str_bytes_def)
  thus ?thesis
    by (simp add: wire_ok_def demo_event_def new_signed_def compute_id_def pubkey_hex_def Let_def text_ok_def)
      (simp add: demo_env_def)
qed

lemma reads_step:
  assumes "reads p x bs" "wr_buf r = pre @ bs @ rest" "wr_pos r = length pre"
  shows "rd_bind p f r = f x (r\<lparr>wr_pos := length (pre @ bs)\<rparr>)"
  using assms(1) [unfolded reads_def, rule_format, OF assms(2,3)] by (simp add: rd_bind_def)

lemma many_tags_refused:
  assumes "length i = 32" "length pk = 32" "10000 < length (ev_tags e)" "length (ev_tags e) < 2 ^ 32"
  shows "read_event ce (wire_reader_new (wire_body e i pk sg @ rest)) = Inl (WTooManyTags (length (ev_tags e)))"
proof -
  let ?n = "nat_le 4 (length (ev_tags e))"
  obtain tl where b: "wire_body e i pk sg @ rest = i @ pk @ u64_le (ev_created_at e) @ [kind_code (ev_kind e)] @ ?n @ tl"
    by (simp add: wire_body_def)
  have "take_tags (r :: wire_reader) = Inl (WTooManyTags (length (ev_tags e)))"
    if "wr_buf r = pre @ ?n @ tl" "wr_pos r = length pre" for r pre
    unfolding take_tags_def reads_step [OF reads_u32 [OF assms(4)] that] using assms(3) by (simp add: rd_fail_def)
  then have t: "rd_bind take_tags f r = Inl (WTooManyTags (length (ev_tags e)))"
    if "wr_buf r = pre @ ?n @ tl" "wr_pos r = length pre" for f :: "string list \<Rightarrow> mesh_event reader" and r pre
    using that by (simp add: rd_bind_def)
  let ?r = "wire_reader_new (i @ pk @ u64_le (ev_created_at e) @ [kind_code (ev_kind e)] @ ?n @ tl)"
  have s1: "rd_bind (take_bytes 32) f ?r = f i (?r\<lparr>wr_pos := length i\<rparr>)" for f :: "byte list \<Rightarrow> mesh_event reader"
    using reads_step [OF reads_take [OF assms(1)], of ?r "[]" "pk @ u64_le (ev_created_at e) @ [kind_code (ev_kind e)] @ ?n @ tl" f]
    by (simp add: wire_reader_new_def)
  have s2: "rd_bind (take_bytes 32) f (?r\<lparr>wr_pos := length i\<rparr>) = f pk (?r\<lparr>wr_pos := length (i @ pk)\<rparr>)"
    for f :: "byte list \<Rightarrow> mesh_event reader"
    using reads_step [OF reads_take [OF assms(2)], of "?r\<lparr>wr_pos := length i\<rparr>" i
        "u64_le (ev_created_at e) @ [kind_code (ev_kind e)] @ ?n @ tl" f]
    by (simp add: wire_reader_new_def)
  have s3: "rd_bind take_u64 f (?r\<lparr>wr_pos := length (i @ pk)\<rparr>) =
      f (ev_created_at e) (?r\<lparr>wr_pos := length (i @ pk @ u64_le (ev_created_at e))\<rparr>)" for f :: "u64 \<Rightarrow> mesh_event reader"
    using reads_step [OF reads_u64, of "?r\<lparr>wr_pos := length (i @ pk)\<rparr>" "i @ pk" "ev_created_at e" "[kind_code (ev_kind e)] @ ?n @ tl" f]
    by (simp add: wire_reader_new_def)
  have s4: "rd_bind take_kind f (?r\<lparr>wr_pos := length (i @ pk @ u64_le (ev_created_at e))\<rparr>) =
      f (ev_kind e) (?r\<lparr>wr_pos := length (i @ pk @ u64_le (ev_created_at e) @ [kind_code (ev_kind e)])\<rparr>)"
    for f :: "onde_message_type \<Rightarrow> mesh_event reader"
    using reads_step [OF reads_kind, of "?r\<lparr>wr_pos := length (i @ pk @ u64_le (ev_created_at e))\<rparr>"
        "i @ pk @ u64_le (ev_created_at e)" "ev_kind e" "?n @ tl" f]
    by (simp add: wire_reader_new_def)
  show ?thesis unfolding b read_event_def s1 s2 s3 s4
    by (rule t [where pre = "i @ pk @ u64_le (ev_created_at e) @ [kind_code (ev_kind e)]"]) (simp_all add: wire_reader_new_def)
qed

text \<open>The event in the spelling of the encoder of hexadecimal, which writes lower case.\<close>

definition canonical_hex :: "crypto_env \<Rightarrow> mesh_event \<Rightarrow> mesh_event" where
  "canonical_hex ce e =
     (let spell = (\<lambda>s. ce_hex_encode ce (the (ce_hex_decode ce s)))
      in e\<lparr>ev_id := spell (ev_id e), ev_pubkey := spell (ev_pubkey e), ev_sig := spell (ev_sig e)\<rparr>)"

text \<open>C26: the wire round trip. Whatever event the encoder accepts (with UTF-8 texts and less than \<open>2\<^sup>3\<^sup>2\<close> tags
  and bytes of a text), decoding the padded bytes gives the event back, its three identifiers in the spelling of the
  encoder of hexadecimal, also when its last byte is zero; the exceptions are a message made of zero bytes only and an
  event of more than 10000 tags, which the encoder accepts and the decoder refuses. Up to 16 KiB the length is that
  of a bucket.\<close>

theorem wire_roundtrip:
  assumes "hex_laws ce" "list_all text_ok (ev_content e # ev_tags e)" "length (ev_tags e) < 2 ^ 32" "to_wire_bytes ce e = Inr w"
  shows "from_wire_bytes ce w =
      (if list_all (\<lambda>b. b = 0) w then Inl WAllZero
       else if length (ev_tags e) > 10000 then Inl (WTooManyTags (length (ev_tags e)))
       else Inr (canonical_hex ce e))
    \<and> (length w \<in> set BUCKETS \<or> 16384 < length w)"
proof -
  obtain i pk sg where d: "ce_hex_decode ce (ev_id e) = Some i" "length i = 32" "ce_hex_decode ce (ev_pubkey e) = Some pk"
      "length pk = 32" "ce_hex_decode ce (ev_sig e) = Some sg" "length sg = 64"
    and w: "w = pad (wire_body e i pk sg)"
    using assms(4)
    by (auto simp: to_wire_bytes_def decode_hex_32_def decode_hex_64_def decode_hex_n_def split: option.splits if_splits)
  let ?c = "canonical_hex ce e"
  have body: "wire_body e i pk sg = wire_body ?c i pk sg" by (simp add: wire_body_def canonical_hex_def Let_def)
  have "w \<noteq> []" using d(2) by (auto simp: w pad_eq wire_body_def)
  have "from_wire_bytes ce w = (if list_all (\<lambda>b. b = 0) w then Inl WAllZero else Inr ?c)" if "length (ev_tags e) \<le> 10000"
  proof -
    have "wire_ok ce ?c i pk sg"
      using assms(2) d that by (simp add: wire_ok_def canonical_hex_def Let_def)
    from from_wire_body [OF this] show ?thesis by (simp add: w body pad_eq)
  qed
  moreover have "from_wire_bytes ce w =
      (if list_all (\<lambda>b. b = 0) w then Inl WAllZero else Inl (WTooManyTags (length (ev_tags e))))" if "10000 < length (ev_tags e)"
    using many_tags_refused [OF d(2,4) that assms(3)] \<open>w \<noteq> []\<close> by (simp add: from_wire_bytes_def w pad_eq)
  moreover have "length w \<in> set BUCKETS \<or> 16384 < length w"
    by (auto simp: w length_pad bucket_for_eq BUCKETS_def)
  ultimately show ?thesis by (auto simp: not_less)
qed

lemma wire_roundtrip_witness:
  "\<exists>w. to_wire_bytes demo_env demo_event = Inr w \<and> from_wire_bytes demo_env w = Inr demo_event \<and> length w \<in> set BUCKETS"
proof -
  let ?i = "ce_sha256 demo_env (ce_event_json demo_env (ev_pubkey demo_event) 1000 0 [''t'', ''uu''] ''hi'')"
  let ?sg = "ce_sign demo_env (replicate 32 1) (str_bytes (ev_id demo_event))"
  let ?b = "wire_body demo_event ?i (replicate 32 1) ?sg"
  have w: "to_wire_bytes demo_env demo_event = Inr (pad ?b)" by (rule to_wire_ok [OF demo_laws(1) demo_wire_ok])
  have t: "list_all text_ok (ev_content demo_event # ev_tags demo_event)" "length (ev_tags demo_event) < 2 ^ 32"
      "\<not> 10000 < length (ev_tags demo_event)"
    using demo_wire_ok by (simp_all add: wire_ok_def)
  have "(1 :: byte) \<in> set ?b" by (simp add: wire_body_def)
  then have "\<not> list_all (\<lambda>b. b = 0) (pad ?b)" unfolding list_all_iff pad_eq by (metis UnI1 set_append zero_neq_one)
  moreover have "canonical_hex demo_env demo_event = demo_event"
    using demo_wire_ok demo_laws(1) by (simp add: canonical_hex_def wire_ok_def hex_laws_def)
  moreover have "length ?b \<le> 16384"
    by (simp add: wire_body_def demo_event_def new_signed_def Let_def string_bytes_def) (simp add: demo_env_def)
  then have "length (pad ?b) \<le> 16384" by (simp add: length_pad bucket_for_eq)
  ultimately show ?thesis using wire_roundtrip [OF demo_laws(1) t(1,2) w] w t(3) by auto
qed

text \<open>Truncation is always detected: no strict prefix of an event's encoding decodes to anything.
  (Cutting only the padding is harmless, as the round trip with any trailing bytes shows.)\<close>

theorem wire_truncation:
  assumes "wire_ok ce e i pk sg" "strict_prefix bs (wire_body e i pk sg)"
  shows "\<exists>err. from_wire_bytes ce bs = Inl err"
proof -
  have "\<exists>err. read_event ce (wire_reader_new bs) = Inl err"
    using local_truncated [OF local_event reads_event [OF assms(1)]] assms(2)
    by (auto simp: strict_prefix_def)
  thus ?thesis by (auto simp: from_wire_bytes_def)
qed

lemma wire_truncation_witness:
  "\<exists>bs err. bs \<noteq> [] \<and> from_wire_bytes demo_env bs = Inl err"
proof -
  let ?b = "wire_body demo_event (ce_sha256 demo_env (ce_event_json demo_env (ev_pubkey demo_event) 1000 0 [''t'', ''uu''] ''hi''))
     (replicate 32 1) (ce_sign demo_env (replicate 32 1) (str_bytes (ev_id demo_event)))"
  have "?b \<noteq> []" using length_wire_body [OF demo_wire_ok] by auto
  moreover have "length (butlast ?b) \<ge> 1" using length_wire_body [OF demo_wire_ok] by simp
  moreover from \<open>?b \<noteq> []\<close> have "strict_prefix (butlast ?b) ?b"
    using append_butlast_last_id [of ?b] by (metis strict_prefix_def prefixeq_butlast butlast_snoc not_Cons_self2 append_self_conv)
  ultimately show ?thesis using wire_truncation [OF demo_wire_ok] by (metis list.size(3) not_one_le_zero)
qed

lemma rd_bind_Inr: "rd_bind p f r = Inr (y, r') \<longleftrightarrow> (\<exists>x s. p r = Inr (x, s) \<and> f x s = Inr (y, r'))"
  by (auto simp: rd_bind_def split: sum.split prod.split)

lemma take_bytes_Inr: "take_bytes n r = Inr (b, r') \<Longrightarrow> length b = n"
  by (auto simp: take_bytes_def split: if_splits)

lemma str_bytes_bytes_str: "str_bytes (bytes_str b) = b"
proof -
  have "(of_char (char_of (unat x) :: char) :: byte) = x" for x :: byte
  proof -
    have n: "(of_char (char_of (unat x) :: char) :: nat) = unat x" using unat_u8_le [of x] by simp
    have "(of_char (char_of (unat x) :: char) :: byte) = of_nat (of_char (char_of (unat x) :: char))"
      by (rule of_nat_of_char [symmetric])
    also have "\<dots> = x" unfolding n by simp
    finally show ?thesis .
  qed
  thus ?thesis by (simp add: str_bytes_def bytes_str_def comp_def)
qed

lemma take_string_Inr: "take_string r = Inr (s, r') \<Longrightarrow> utf8_valid (str_bytes s)"
  by (auto simp: take_string_def rd_bind_Inr rd_return_def rd_fail_def str_bytes_bytes_str split: if_splits)

lemma take_many_Inr:
  "take_many p n r = Inr (xs, r') \<Longrightarrow> (\<And>r x r'. p r = Inr (x, r') \<Longrightarrow> P x) \<Longrightarrow> length xs = n \<and> list_all P xs"
proof (induction n arbitrary: r xs r')
  case (Suc n)
  then obtain x s ys t where "p r = Inr (x, s)" "take_many p n s = Inr (ys, t)" "xs = x # ys"
    by (auto simp: rd_bind_Inr rd_return_def)
  thus ?case using Suc.IH Suc.prems(2) by auto
qed (auto simp: rd_return_def)

text \<open>C29: whatever bytes come in, a decoded event has a known kind, at most 10000 tags, and texts
  that are valid UTF-8.\<close>

theorem wire_decoded_wellformed:
  assumes "from_wire_bytes ce data = Inr e"
  shows "length (ev_tags e) \<le> 10000 \<and> list_all (\<lambda>s. utf8_valid (str_bytes s)) (ev_content e # ev_tags e)
    \<and> (\<exists>i pk sg. length i = 32 \<and> length pk = 32 \<and> length sg = 64 \<and> ev_id e = ce_hex_encode ce i
         \<and> ev_pubkey e = ce_hex_encode ce pk \<and> ev_sig e = ce_hex_encode ce sg)"
proof -
  obtain r where "read_event ce (wire_reader_new data) = Inr (e, r)"
    using assms by (auto simp: from_wire_bytes_def split: if_splits sum.splits prod.splits)
  then obtain i pk sg tags r1 r2 r3 r4 content r5 r6 where
    i: "length i = 32" "length pk = 32" "length sg = 64" and
    tags: "take_tags r1 = Inr (tags, r2)" and c: "take_string r3 = Inr (content, r4)" and
    e: "ev_id e = ce_hex_encode ce i" "ev_pubkey e = ce_hex_encode ce pk" "ev_sig e = ce_hex_encode ce sg"
      "ev_tags e = tags" "ev_content e = content"
    by (auto simp: read_event_def rd_bind_Inr rd_return_def dest!: take_bytes_Inr)
  have "length tags \<le> 10000 \<and> list_all (\<lambda>s. utf8_valid (str_bytes s)) tags"
    using tags take_many_Inr [OF _ take_string_Inr]
    by (fastforce simp: take_tags_def rd_bind_Inr rd_fail_def split: if_splits)
  thus ?thesis using i e take_string_Inr [OF c] by auto
qed

lemma wire_decoded_wellformed_witness:
  "\<exists>data e. from_wire_bytes demo_env data = Inr e \<and> length (ev_tags e) \<le> 10000"
proof -
  let ?i = "ce_sha256 demo_env (ce_event_json demo_env (ev_pubkey demo_event) 1000 0 [''t'', ''uu''] ''hi'')"
  let ?sg = "ce_sign demo_env (replicate 32 1) (str_bytes (ev_id demo_event))"
  have "(1 :: byte) \<in> set (wire_body demo_event ?i (replicate 32 1) ?sg)" by (simp add: wire_body_def)
  hence "\<not> list_all (\<lambda>b. b = 0) (wire_body demo_event ?i (replicate 32 1) ?sg @ [])"
    unfolding list_all_iff append_Nil2 by (metis zero_neq_one)
  hence "from_wire_bytes demo_env (wire_body demo_event ?i (replicate 32 1) ?sg @ []) = Inr demo_event"
    unfolding from_wire_body [OF demo_wire_ok] by simp
  with wire_decoded_wellformed [OF this] show ?thesis by blast
qed

lemma signature_valid_iff:
  "signature_valid ce e \<longleftrightarrow>
     (\<exists>pk sg. ce_hex_decode ce (ev_pubkey e) = Some pk \<and> length pk = 32
        \<and> ce_hex_decode ce (ev_sig e) = Some sg \<and> length sg = 64
        \<and> verify_from_pubkey ce pk (str_bytes (ev_id e)) sg)"
  by (auto simp: signature_valid_def decode_hex_32_def decode_hex_64_def decode_hex_n_def split: option.splits)

lemma validate_conditions:
  "validate_with_pow_min ce now d e = Inr () \<longleftrightarrow>
     (ev_kind e \<noteq> Alert \<or> chars_count (ev_content e) \<le> 280)
   \<and> unat (ev_created_at e) \<le> now + 300
   \<and> ev_id e = compute_id ce (ev_pubkey e) (ev_created_at e) (ev_kind e) (ev_tags e) (ev_content e)
   \<and> ev_sig e \<noteq> [] \<and> signature_valid ce e
   \<and> d \<le> unat (ev_pow_difficulty e)
   \<and> starts_with (pow_hash ce (ev_id e) (unat (ev_pow_nonce e))) (zeros (unat (ev_pow_difficulty e)))"
  by (auto simp: validate_with_pow_min_def signature_valid_def verify_pow_def MAX_ALERT_SIZE_def
      MAX_CLOCK_SKEW_SECS_def split: option.split)

text \<open>The text whose SHA-256 is the identifier, the law of the JSON writer (an array of a string, two numbers, an array of
  strings and a string determines them), and the fields an identifier stands for.\<close>

definition canonical_json :: "crypto_env \<Rightarrow> mesh_event \<Rightarrow> byte list" where
  "canonical_json ce e = ce_event_json ce (ev_pubkey e) (ev_created_at e) (kind_code (ev_kind e)) (ev_tags e) (ev_content e)"

definition json_laws :: "crypto_env \<Rightarrow> bool" where
  "json_laws ce \<longleftrightarrow> (\<forall>pk t k tags c pk' t' k' tags' c'.
     ce_event_json ce pk t k tags c = ce_event_json ce pk' t' k' tags' c' \<longrightarrow>
       pk = pk' \<and> t = t' \<and> k = k' \<and> tags = tags' \<and> c = c')"

definition same_message :: "mesh_event \<Rightarrow> mesh_event \<Rightarrow> bool" where
  "same_message x y \<longleftrightarrow> ev_id x = ev_id y \<and> ev_pubkey x = ev_pubkey y \<and> ev_created_at x = ev_created_at y
     \<and> ev_kind x = ev_kind y \<and> ev_tags x = ev_tags y \<and> ev_content x = ev_content y"


text \<open>A writer with the law, and a scheme that verifies one identifier.\<close>

definition strict_text :: "string \<Rightarrow> byte list" where
  "strict_text s = concat (map (\<lambda>b. [1, b]) (str_bytes s)) @ [0]"

definition strict_env :: "string \<Rightarrow> crypto_env" where
  "strict_env only = demo_env\<lparr>ce_verify := (\<lambda>pk m sg. m = str_bytes only),
     ce_event_json := (\<lambda>pk t k tags c. strict_text pk @ u64_le t @ [k] @ concat (map (\<lambda>s. 1 # strict_text s) tags) @ 0 # strict_text c)\<rparr>"

lemma str_bytes_eq: "str_bytes s = str_bytes t \<longleftrightarrow> s = t"
  by (metis bytes_str_bytes)

lemma strict_text_append: "strict_text s @ xs = strict_text t @ ys \<Longrightarrow> s = t \<and> xs = ys"
proof -
  have c: "concat (map (\<lambda>b. [1, b]) as) @ 0 # xs = concat (map (\<lambda>b. [1, b]) bs) @ 0 # ys \<Longrightarrow> as = bs \<and> xs = ys" for as bs :: "byte list"
  proof (induction as arbitrary: bs)
    case Nil
    then show ?case by (cases bs) simp_all
  next
    case (Cons a as)
    then obtain b bs' where "bs = b # bs'" by (cases bs) auto
    then show ?case using Cons by simp
  qed
  assume "strict_text s @ xs = strict_text t @ ys"
  then have "str_bytes s = str_bytes t \<and> xs = ys" by (intro c) (simp add: strict_text_def)
  then show "s = t \<and> xs = ys" by (simp add: str_bytes_eq)
qed

lemma strict_tags_append:
  "concat (map (\<lambda>s. 1 # strict_text s) ss) @ (0 :: byte) # xs = concat (map (\<lambda>s. 1 # strict_text s) ts) @ 0 # ys \<Longrightarrow> ss = ts \<and> xs = ys"
proof (induction ss arbitrary: ts)
  case Nil
  then show ?case by (cases ts) simp_all
next
  case (Cons s ss)
  then obtain t tt where t: "ts = t # tt" by (cases ts) auto
  from Cons.prems have "strict_text s @ (concat (map (\<lambda>s. 1 # strict_text s) ss) @ 0 # xs) =
      strict_text t @ (concat (map (\<lambda>s. 1 # strict_text s) tt) @ 0 # ys)" by (simp add: t)
  from strict_text_append [OF this] show ?case using Cons.IH [of tt] t by simp
qed

lemma strict_laws: "hex_laws (strict_env only)" "json_laws (strict_env only)"
proof -
  show "hex_laws (strict_env only)" using demo_laws(1) by (simp add: strict_env_def hex_laws_def)
  have "pk = pk' \<and> t = t' \<and> k = k' \<and> tags = tags' \<and> c = c'"
    if "ce_event_json (strict_env only) pk t k tags c = ce_event_json (strict_env only) pk' t' k' tags' c'" for pk t k tags c pk' t' k' tags' c'
  proof -
    from that have "strict_text pk @ (u64_le t @ [k] @ concat (map (\<lambda>s. 1 # strict_text s) tags) @ 0 # strict_text c) =
        strict_text pk' @ (u64_le t' @ [k'] @ concat (map (\<lambda>s. 1 # strict_text s) tags') @ 0 # strict_text c')"
      by (simp add: strict_env_def)
    note 1 = strict_text_append [OF this]
    then have 2: "u64_le t = u64_le t'" "k = k'"
      "concat (map (\<lambda>s. 1 # strict_text s) tags) @ 0 # strict_text c = concat (map (\<lambda>s. 1 # strict_text s) tags') @ 0 # strict_text c'"
      by (auto simp: append_eq_append_conv)
    then have "t = t'" by (metis le_u64_u64_le)
    then show ?thesis using 1 2 strict_tags_append [OF 2(3)] strict_text_append [of c "[]" c' "[]"] by simp
  qed
  then show "json_laws (strict_env only)" unfolding json_laws_def by blast
qed

definition strict_event :: mesh_event where
  "strict_event = demo_event\<lparr>ev_pow_difficulty := 0, ev_id := ce_hex_encode (strict_env []) (ce_sha256 (strict_env []) (canonical_json (strict_env []) demo_event))\<rparr>"


lemma validate_cases: "validate_with_pow_min ce now d e = Inr () \<or> (\<exists>err. validate_with_pow_min ce now d e = Inl err)"
  by (cases "validate_with_pow_min ce now d e") auto

lemma pow_search_Some:
  "pow_search ce i target n k = Some m \<Longrightarrow> n \<le> m \<and> m < n + k
     \<and> starts_with (pow_hash ce i m) target \<and> (\<forall>j. n \<le> j \<longrightarrow> j < m \<longrightarrow> \<not> starts_with (pow_hash ce i j) target)"
proof (induction k arbitrary: n)
  case (Suc k)
  show ?case
  proof (cases "starts_with (pow_hash ce i n) target")
    case True
    thus ?thesis using Suc.prems by auto
  next
    case False
    hence ih: "Suc n \<le> m \<and> m < Suc n + k \<and> starts_with (pow_hash ce i m) target
        \<and> (\<forall>j. Suc n \<le> j \<longrightarrow> j < m \<longrightarrow> \<not> starts_with (pow_hash ce i j) target)"
      using Suc.IH [of "Suc n"] Suc.prems by simp
    moreover have "\<not> starts_with (pow_hash ce i j) target" if "n \<le> j" "j < m" for j
      using ih False that by (cases "j = n") auto
    ultimately show ?thesis by auto
  qed
qed simp

lemma pow_search_None:
  "pow_search ce i target n k = None \<longleftrightarrow> (\<forall>j. n \<le> j \<longrightarrow> j < n + k \<longrightarrow> \<not> starts_with (pow_hash ce i j) target)"
proof (induction k arbitrary: n)
  case (Suc k)
  have "(\<forall>j. n \<le> j \<longrightarrow> j < n + Suc k \<longrightarrow> P j) \<longleftrightarrow> P n \<and> (\<forall>j. Suc n \<le> j \<longrightarrow> j < Suc n + k \<longrightarrow> P j)" for P
  proof (intro iffI conjI allI impI)
    fix j assume "P n \<and> (\<forall>j. Suc n \<le> j \<longrightarrow> j < Suc n + k \<longrightarrow> P j)" "n \<le> j" "j < n + Suc k"
    thus "P j" by (cases "j = n") auto
  qed auto
  thus ?case using Suc by simp
qed simp

lemma compute_pow_spec:
  "case compute_pow ce m e of (found, e') \<Rightarrow>
     (found \<longleftrightarrow> (\<exists>n < unat m. starts_with (pow_hash ce (ev_id e) n) (zeros (unat (ev_pow_difficulty e)))))
   \<and> (found \<longrightarrow> verify_pow ce (ev_id e) (ev_pow_nonce e') (ev_pow_difficulty e)
        \<and> unat (ev_pow_nonce e') < unat m
        \<and> (\<forall>n < unat (ev_pow_nonce e'). \<not> starts_with (pow_hash ce (ev_id e) n) (zeros (unat (ev_pow_difficulty e)))))
   \<and> e' = e\<lparr>ev_pow_nonce := ev_pow_nonce e'\<rparr> \<and> (\<not> found \<longrightarrow> e' = e)"
proof (cases "pow_search ce (ev_id e) (zeros (unat (ev_pow_difficulty e))) 0 (unat m)")
  case None
  thus ?thesis using pow_search_None [of ce "ev_id e" "zeros (unat (ev_pow_difficulty e))" 0 "unat m"]
    by (auto simp: compute_pow_def)
next
  case (Some n)
  from pow_search_Some [OF this]
  have n: "n < unat m" "starts_with (pow_hash ce (ev_id e) n) (zeros (unat (ev_pow_difficulty e)))"
    "\<forall>j < n. \<not> starts_with (pow_hash ce (ev_id e) j) (zeros (unat (ev_pow_difficulty e)))" by auto
  have "n < 2 ^ 64" using n(1) unsigned_less [of m, where 'a = nat] by simp
  hence "unat (of_nat n :: u64) = n" by (simp add: unat_of_nat take_bit_eq_mod)
  thus ?thesis using n by (auto simp: compute_pow_def Some verify_pow_def)
qed

text \<open>Mining. \<open>compute_pow\<close> finds the least nonce below the bound whose hash has the wanted
  leading zeros and reports failure exactly when there is none; it changes nothing but the nonce,
  so the identifier and the signature stay valid, and what it mined verifies.\<close>

theorem compute_pow_least:
  "case compute_pow ce m e of (found, e') \<Rightarrow>
     (found \<longleftrightarrow> (\<exists>n < unat m. starts_with (pow_hash ce (ev_id e) n) (zeros (unat (ev_pow_difficulty e)))))
   \<and> (found \<longrightarrow> verify_pow ce (ev_id e) (ev_pow_nonce e') (ev_pow_difficulty e)
        \<and> unat (ev_pow_nonce e') < unat m
        \<and> (\<forall>n < unat (ev_pow_nonce e'). \<not> starts_with (pow_hash ce (ev_id e) n) (zeros (unat (ev_pow_difficulty e)))))
   \<and> e' = e\<lparr>ev_pow_nonce := ev_pow_nonce e'\<rparr> \<and> (\<not> found \<longrightarrow> e' = e)"
  by (rule compute_pow_spec)

lemma compute_pow_least_witness:
  "fst (compute_pow demo_env 3 (demo_event\<lparr>ev_pow_difficulty := 0\<rparr>))"
proof -
  have "starts_with (pow_hash demo_env (ev_id demo_event) 0) (zeros 0)" by (simp add: starts_with_def zeros_def)
  thus ?thesis
    using compute_pow_least [where ce = demo_env and m = 3 and e = "demo_event\<lparr>ev_pow_difficulty := 0\<rparr>"]
    by (auto split: prod.splits intro!: exI [of _ 0])
qed

text \<open>An honest event gets through. What \<open>new_signed\<close> builds, once mined at a difficulty not
  below the receiver's floor, validates at every receiver whose clock is at most 300 s behind the
  event's timestamp.\<close>

theorem honest_event_valid:
  assumes "hex_laws ce" "sign_laws ce" "length seed = 32"
    and "kind \<noteq> Alert \<or> chars_count content \<le> MAX_ALERT_SIZE"
    and "compute_pow ce m (with_pow_difficulty d (new_signed ce t seed kind content tags)) = (True, e)"
    and "floor_d \<le> unat d" "unat t \<le> now + MAX_CLOCK_SKEW_SECS"
  shows "validate_with_pow_min ce now floor_d e = Inr () \<and> ev_pubkey e = pubkey_hex ce seed"
proof -
  let ?e = "with_pow_difficulty d (new_signed ce t seed kind content tags)"
  have pow: "verify_pow ce (ev_id ?e) (ev_pow_nonce e) (ev_pow_difficulty ?e)"
    and e: "e = ?e\<lparr>ev_pow_nonce := ev_pow_nonce e\<rparr>"
    using assms(5) by (auto simp: compute_pow_def verify_pow_def split: option.splits dest!: pow_search_Some)
      (use compute_pow_spec [where ce = ce and m = m and e = ?e] assms(5) in \<open>auto simp: verify_pow_def\<close>)
  have seed: "length (ce_public_key ce seed) = 32" "\<And>msg. length (ce_sign ce seed msg) = 64"
    "ce_key_ok ce (ce_public_key ce seed)" "\<And>msg. ce_verify ce (ce_public_key ce seed) msg (ce_sign ce seed msg)"
    using assms(2,3) by (auto simp: sign_laws_def)
  have f: "ev_id e = ev_id ?e" "ev_pubkey e = pubkey_hex ce seed" "ev_created_at e = t" "ev_kind e = kind"
    "ev_tags e = tags" "ev_content e = content" "ev_pow_difficulty e = d"
    "ev_sig e = ce_hex_encode ce (ce_sign ce seed (str_bytes (ev_id ?e)))"
    by (subst e, simp add: with_pow_difficulty_def new_signed_def Let_def)+
  have i: "ev_id ?e = compute_id ce (pubkey_hex ce seed) t kind tags content"
    by (simp add: with_pow_difficulty_def new_signed_def Let_def)
  have sigv: "signature_valid ce e"
    using seed by (simp add: signature_valid_def f decode_hex_32_def decode_hex_64_def pubkey_hex_def
        decode_hex_encode [OF assms(1)] verify_from_pubkey_def)
  have "ev_sig e \<noteq> []"
  proof
    assume "ev_sig e = []"
    moreover have "ce_hex_decode ce (ev_sig e) = Some (ce_sign ce seed (str_bytes (ev_id ?e)))"
      using assms(1) by (simp add: f hex_laws_def)
    ultimately have "length ([] :: string) = 2 * length (ce_sign ce seed (str_bytes (ev_id ?e)))"
      using assms(1) by (metis hex_laws_def)
    thus False using seed(2) by simp
  qed
  moreover have "starts_with (pow_hash ce (ev_id e) (unat (ev_pow_nonce e))) (zeros (unat (ev_pow_difficulty e)))"
    using pow by (simp add: verify_pow_def f with_pow_difficulty_def)
  ultimately show ?thesis
    using assms(4,6,7) sigv f i by (simp add: validate_conditions MAX_ALERT_SIZE_def MAX_CLOCK_SKEW_SECS_def)
qed

lemma honest_event_valid_witness:
  "\<exists>e. validate_with_pow_min demo_env 900 0 e = Inr () \<and> ev_content e = ''hi''"
proof -
  let ?e = "with_pow_difficulty 0 (new_signed demo_env 1000 (replicate 32 1) Alert ''hi'' [])"
  have "ev_pow_difficulty ?e = 0" by (simp add: with_pow_difficulty_def)
  hence c: "compute_pow demo_env 1 ?e = (True, ?e\<lparr>ev_pow_nonce := 0\<rparr>)"
    by (simp add: compute_pow_def)
  have "chars_count ''hi'' \<le> MAX_ALERT_SIZE"
    by (simp add: chars_count_def MAX_ALERT_SIZE_def str_bytes_def)
  hence "validate_with_pow_min demo_env 900 0 (?e\<lparr>ev_pow_nonce := 0\<rparr>) = Inr ()"
    using honest_event_valid [OF demo_laws(1,2) _ _ c, of 0 900] by (simp add: MAX_CLOCK_SKEW_SECS_def)
  moreover have "ev_content (?e\<lparr>ev_pow_nonce := 0\<rparr>) = ''hi''"
    by (simp add: with_pow_difficulty_def new_signed_def Let_def)
  ultimately show ?thesis by blast
qed

end
