(* ===== verification/Gossip.thy ===== *)
theory Gossip
  imports Event Reputation
begin

text \<open>
  The gossip layer, \<open>GossipProtocol\<close> of \<open>core/src/protocol/mod.rs\<close>: the bounded set of known
  identifiers, the bounded outbox, and the per-peer memory of what was delivered. Hash set
  iteration order is the parameter \<open>ord\<close>; the clock and the crypto functions are arguments.
\<close>

section \<open>State\<close>

definition MAX_KNOWN_EVENTS :: nat where "MAX_KNOWN_EVENTS = 10000"
definition MAX_PENDING_BROADCASTS :: nat where "MAX_PENDING_BROADCASTS = 1000"
definition MAX_DELIVERED_PER_PEER :: nat where "MAX_DELIVERED_PER_PEER = 2000"

record gossip =
  gp_known :: "string set"
  gp_pending :: "mesh_event list"
  gp_delivered :: "string \<Rightarrow> string list option"
  gp_metrics :: "nat option"

definition gossip_new :: gossip where
  "gossip_new = \<lparr>gp_known = {}, gp_pending = [], gp_delivered = (\<lambda>_. None), gp_metrics = None\<rparr>"

definition set_metrics :: "nat \<Rightarrow> gossip \<Rightarrow> gossip" where
  "set_metrics n g = g\<lparr>gp_metrics := Some n\<rparr>"

section \<open>Operations\<close>

text \<open>The loop of \<open>expire_old_known\<close>: evict what is not kept until the overflow is gone.\<close>

fun evict_known :: "string set \<Rightarrow> nat \<Rightarrow> string list \<Rightarrow> string set \<Rightarrow> string set" where
  "evict_known keep overflow [] known = known"
| "evict_known keep overflow (i # is) known =
     (if overflow = 0 then known
      else if i \<in> keep then evict_known keep overflow is known
      else evict_known keep (overflow - 1) is (known - {i}))"

definition expire_old_known :: "(string set \<Rightarrow> string list) \<Rightarrow> gossip \<Rightarrow> gossip" where
  "expire_old_known ord g =
     (if card (gp_known g) \<le> MAX_KNOWN_EVENTS then g
      else g\<lparr>gp_known := evict_known (set (map ev_id (gp_pending g)))
               (card (gp_known g) - MAX_KNOWN_EVENTS) (ord (gp_known g)) (gp_known g)\<rparr>)"

definition insert_new :: "(string set \<Rightarrow> string list) \<Rightarrow> mesh_event \<Rightarrow> gossip \<Rightarrow> bool \<times> gossip" where
  "insert_new ord e g =
     (if ev_id e \<in> gp_known g then (False, g)
      else
        let g1 = g\<lparr>gp_known := insert (ev_id e) (gp_known g)\<rparr>;
            pending = (if length (gp_pending g1) \<ge> MAX_PENDING_BROADCASTS then tl (gp_pending g1)
                       else gp_pending g1);
            g2 = g1\<lparr>gp_pending := pending @ [e]\<rparr>;
            g3 = (if card (gp_known g2) > MAX_KNOWN_EVENTS then expire_old_known ord g2 else g2)
        in (True, g3\<lparr>gp_metrics := map_option (\<lambda>n. n + 1) (gp_metrics g3)\<rparr>))"

definition add_event ::
    "crypto_env \<Rightarrow> nat \<Rightarrow> (string set \<Rightarrow> string list) \<Rightarrow> mesh_event \<Rightarrow> gossip \<Rightarrow> (validation_error + bool) \<times> gossip" where
  "add_event ce now ord e g =
     (case validate ce now e of
        Inl err \<Rightarrow> (Inl err, g)
      | Inr _ \<Rightarrow> (case insert_new ord e g of (b, g') \<Rightarrow> (Inr b, g')))"

definition validate_with_reputation :: "crypto_env \<Rightarrow> nat \<Rightarrow> reputation \<Rightarrow> mesh_event \<Rightarrow> validation_error + unit" where
  "validate_with_reputation ce now rep e =
     validate_with_pow_min ce now (required_pow_difficulty rep (ev_pubkey e)) e"

definition add_event_with_reputation ::
    "crypto_env \<Rightarrow> nat \<Rightarrow> (string set \<Rightarrow> string list) \<Rightarrow> reputation \<Rightarrow> mesh_event \<Rightarrow> gossip
       \<Rightarrow> (validation_error + bool) \<times> gossip" where
  "add_event_with_reputation ce now ord rep e g =
     (case validate_with_reputation ce now rep e of
        Inl err \<Rightarrow> (Inl err, g)
      | Inr _ \<Rightarrow> (case insert_new ord e g of (b, g') \<Rightarrow> (Inr b, g')))"

definition gossip_receive_event ::
    "crypto_env \<Rightarrow> nat \<Rightarrow> (string set \<Rightarrow> string list) \<Rightarrow> mesh_event \<Rightarrow> gossip \<Rightarrow> bool \<times> gossip" where
  "gossip_receive_event ce now ord e g =
     (if ev_id e \<in> gp_known g then (False, g)
      else case validate ce now e of Inl _ \<Rightarrow> (False, g) | Inr _ \<Rightarrow> insert_new ord e g)"

text \<open>The selection loop of \<open>peek_pending_for_peer\<close>; \<open>acc\<close> is \<open>to_send\<close>.\<close>

fun peek_loop :: "nat \<Rightarrow> string list \<Rightarrow> mesh_event list \<Rightarrow> mesh_event list \<Rightarrow> mesh_event list" where
  "peek_loop mx delivered acc [] = acc"
| "peek_loop mx delivered acc (e # es) =
     (if length acc \<ge> mx then acc
      else if ev_id e \<in> set delivered then peek_loop mx delivered acc es
      else peek_loop mx delivered (acc @ [e]) es)"

definition delivered_to :: "gossip \<Rightarrow> string \<Rightarrow> string list" where
  "delivered_to g p = (case gp_delivered g p of Some l \<Rightarrow> l | None \<Rightarrow> [])"

definition peek_pending_for_peer :: "string \<Rightarrow> nat \<Rightarrow> gossip \<Rightarrow> mesh_event list \<times> gossip" where
  "peek_pending_for_peer p mx g =
     (if mx = 0 then ([], g)
      else (peek_loop mx (delivered_to g p) [] (gp_pending g),
            g\<lparr>gp_delivered := (gp_delivered g)(p := Some (delivered_to g p))\<rparr>))"

definition push_delivered :: "string \<Rightarrow> string list \<Rightarrow> string list" where
  "push_delivered i l = (if length l \<ge> MAX_DELIVERED_PER_PEER then tl l else l) @ [i]"

definition mark_delivered_to_peer :: "string \<Rightarrow> string list \<Rightarrow> gossip \<Rightarrow> gossip" where
  "mark_delivered_to_peer p ids g =
     (if ids = [] then g
      else g\<lparr>gp_delivered := (gp_delivered g)(p := Some (fold push_delivered ids (delivered_to g p)))\<rparr>)"

text \<open>\<open>usize::MAX\<close>, the bound \<open>get_pending_for_peer\<close> peeks with.\<close>

definition usize_max :: nat where
  "usize_max = 18446744073709551615"

definition get_pending_for_peer :: "string \<Rightarrow> gossip \<Rightarrow> mesh_event list \<times> gossip" where
  "get_pending_for_peer p g =
     (case peek_pending_for_peer p usize_max g of
        (to_send, g1) \<Rightarrow> (to_send, mark_delivered_to_peer p (map ev_id to_send) g1))"

text \<open>\<open>collect::<Result<Vec<_>, _>>\<close>: the first error, or all the values.\<close>

fun collect_results :: "('e + 'a) list \<Rightarrow> 'e + 'a list" where
  "collect_results [] = Inr []"
| "collect_results (Inl e # rs) = Inl e"
| "collect_results (Inr x # rs) = (case collect_results rs of Inl e \<Rightarrow> Inl e | Inr xs \<Rightarrow> Inr (x # xs))"

definition get_pending_for_peer_wire ::
    "crypto_env \<Rightarrow> string \<Rightarrow> gossip \<Rightarrow> (encode_error + byte list list) \<times> gossip" where
  "get_pending_for_peer_wire ce p g =
     (case get_pending_for_peer p g of (es, g') \<Rightarrow> (collect_results (map (to_wire_bytes ce) es), g'))"

definition is_known :: "gossip \<Rightarrow> string \<Rightarrow> bool" where
  "is_known g i \<longleftrightarrow> i \<in> gp_known g"

definition known_event_count :: "gossip \<Rightarrow> nat" where
  "known_event_count g = card (gp_known g)"

definition get_pending_broadcasts :: "gossip \<Rightarrow> mesh_event list" where
  "get_pending_broadcasts g = gp_pending g"

section \<open>The delivered memory is a drop-oldest queue\<close>

interpretation dlv: drop_oldest push_delivered "\<lambda>l. l" MAX_DELIVERED_PER_PEER
proof
  fix l :: "string list" and i
  show "length l \<le> MAX_DELIVERED_PER_PEER \<Longrightarrow> length (push_delivered i l) \<le> MAX_DELIVERED_PER_PEER"
    by (auto simp: push_delivered_def MAX_DELIVERED_PER_PEER_def)
  show "set (push_delivered i l) \<subseteq> insert i (set l)"
    by (cases l) (auto simp: push_delivered_def)
  show "length l \<le> MAX_DELIVERED_PER_PEER \<Longrightarrow>
      push_delivered i l = last_n MAX_DELIVERED_PER_PEER (l @ [i])"
    by (cases l) (auto simp: push_delivered_def last_n_def MAX_DELIVERED_PER_PEER_def drop_Cons')
qed

text \<open>So is the outbox, seen as the list of its identifiers.\<close>

definition push_outbox :: "mesh_event \<Rightarrow> mesh_event list \<Rightarrow> mesh_event list" where
  "push_outbox e l = (if length l \<ge> MAX_PENDING_BROADCASTS then tl l else l) @ [e]"

interpretation outbox: drop_oldest push_outbox "\<lambda>l. l" MAX_PENDING_BROADCASTS
proof
  fix l :: "mesh_event list" and e
  show "length l \<le> MAX_PENDING_BROADCASTS \<Longrightarrow> length (push_outbox e l) \<le> MAX_PENDING_BROADCASTS"
    by (auto simp: push_outbox_def MAX_PENDING_BROADCASTS_def)
  show "set (push_outbox e l) \<subseteq> insert e (set l)"
    by (cases l) (auto simp: push_outbox_def)
  show "length l \<le> MAX_PENDING_BROADCASTS \<Longrightarrow>
      push_outbox e l = last_n MAX_PENDING_BROADCASTS (l @ [e])"
    by (cases l) (auto simp: push_outbox_def last_n_def MAX_PENDING_BROADCASTS_def drop_Cons')
qed

section \<open>Invariant\<close>

lemma peek_loop_eq:
  "length acc \<le> mx \<Longrightarrow> peek_loop mx d acc es = acc @ take (mx - length acc) (filter (\<lambda>e. ev_id e \<notin> set d) es)"
proof (induction es arbitrary: acc)
  case (Cons e es)
  show ?case
  proof (cases "length acc \<ge> mx")
    case False
    hence "Suc (mx - Suc (length acc)) = mx - length acc" by simp
    thus ?thesis using Cons.IH [of acc] Cons.IH [of "acc @ [e]"] Cons.prems False
      by (cases "mx - length acc") auto
  qed simp
qed simp

lemma peek_eq:
  "fst (peek_pending_for_peer p mx g) = take mx (filter (\<lambda>e. ev_id e \<notin> set (delivered_to g p)) (gp_pending g))"
  by (simp add: peek_pending_for_peer_def peek_loop_eq)

lemma peek_state [simp]:
  "gp_known (snd (peek_pending_for_peer p mx g)) = gp_known g"
  "gp_pending (snd (peek_pending_for_peer p mx g)) = gp_pending g"
  "gp_metrics (snd (peek_pending_for_peer p mx g)) = gp_metrics g"
  "delivered_to (snd (peek_pending_for_peer p mx g)) q = delivered_to g q"
  by (simp_all add: peek_pending_for_peer_def delivered_to_def)

lemma mark_state [simp]:
  "gp_known (mark_delivered_to_peer p ids g) = gp_known g"
  "gp_pending (mark_delivered_to_peer p ids g) = gp_pending g"
  "gp_metrics (mark_delivered_to_peer p ids g) = gp_metrics g"
  "delivered_to (mark_delivered_to_peer p ids g) q =
     (if q = p then fold push_delivered ids (delivered_to g p) else delivered_to g q)"
  by (simp_all add: mark_delivered_to_peer_def delivered_to_def)

definition gossip_inv :: "gossip \<Rightarrow> bool" where
  "gossip_inv g \<longleftrightarrow> finite (gp_known g) \<and> card (gp_known g) \<le> MAX_KNOWN_EVENTS
     \<and> length (gp_pending g) \<le> MAX_PENDING_BROADCASTS
     \<and> distinct (map ev_id (gp_pending g)) \<and> set (map ev_id (gp_pending g)) \<subseteq> gp_known g
     \<and> (\<forall>p. length (delivered_to g p) \<le> MAX_DELIVERED_PER_PEER)"

definition lists_set :: "(string set \<Rightarrow> string list) \<Rightarrow> bool" where
  "lists_set ord \<longleftrightarrow> (\<forall>s. finite s \<longrightarrow> set (ord s) = s \<and> distinct (ord s))"

lemma evict_known_spec:
  assumes "finite known" "set is \<subseteq> known" "distinct is" "n \<le> card (set is - keep)"
  shows "card (evict_known keep n is known) = card known - n
    \<and> evict_known keep n is known \<subseteq> known \<and> known \<inter> keep \<subseteq> evict_known keep n is known"
  using assms
proof (induction "is" arbitrary: n known)
  case (Cons i "is")
  show ?case
  proof (cases "n = 0 \<or> i \<in> keep")
    case True
    show ?thesis
    proof (cases "n = 0")
      case False
      hence "i \<in> keep" using True by simp
      moreover from this have "n \<le> card (set is - keep)" using Cons.prems(4) by (simp add: insert_Diff_if)
      ultimately show ?thesis using Cons.IH [of known n] Cons.prems by auto
    qed simp
  next
    case False
    have i: "i \<in> known" "i \<notin> set is" "i \<notin> keep" using Cons.prems False by auto
    have "set (i # is) - keep = insert i (set is - keep)" using i by auto
    hence "n - 1 \<le> card (set is - keep)" using Cons.prems(4) i by simp
    moreover have "set is \<subseteq> known - {i}" using Cons.prems i by auto
    ultimately have "card (evict_known keep (n - 1) is (known - {i})) = card (known - {i}) - (n - 1)
        \<and> evict_known keep (n - 1) is (known - {i}) \<subseteq> known - {i}
        \<and> (known - {i}) \<inter> keep \<subseteq> evict_known keep (n - 1) is (known - {i})"
      using Cons.prems by (intro Cons.IH) auto
    moreover have "card known \<ge> 1" using i(1) Cons.prems(1) by (metis One_nat_def Suc_leI card_gt_0_iff empty_iff)
    ultimately show ?thesis using False i Cons.prems(1) by auto
  qed
qed auto

lemma expire_old_known_spec:
  assumes "lists_set ord" "finite (gp_known g)" "set (map ev_id (gp_pending g)) \<subseteq> gp_known g"
    and "length (gp_pending g) \<le> MAX_PENDING_BROADCASTS"
  shows "card (gp_known (expire_old_known ord g)) \<le> MAX_KNOWN_EVENTS
    \<and> gp_known (expire_old_known ord g) \<subseteq> gp_known g
    \<and> set (map ev_id (gp_pending g)) \<subseteq> gp_known (expire_old_known ord g)"
proof (cases "card (gp_known g) \<le> MAX_KNOWN_EVENTS")
  case True
  thus ?thesis using assms(3) by (simp add: expire_old_known_def)
next
  case False
  let ?keep = "set (map ev_id (gp_pending g))"
  let ?n = "card (gp_known g) - MAX_KNOWN_EVENTS"
  have ord: "set (ord (gp_known g)) = gp_known g" "distinct (ord (gp_known g))"
    using assms(1,2) by (auto simp: lists_set_def)
  have "card ?keep \<le> MAX_KNOWN_EVENTS"
    using card_length [of "map ev_id (gp_pending g)"] assms(4)
    by (simp add: MAX_KNOWN_EVENTS_def MAX_PENDING_BROADCASTS_def)
  hence "?n \<le> card (gp_known g - ?keep)"
    using assms(2,3) by (simp add: card_Diff_subset)
  hence "card (evict_known ?keep ?n (ord (gp_known g)) (gp_known g)) = card (gp_known g) - ?n
    \<and> evict_known ?keep ?n (ord (gp_known g)) (gp_known g) \<subseteq> gp_known g
    \<and> gp_known g \<inter> ?keep \<subseteq> evict_known ?keep ?n (ord (gp_known g)) (gp_known g)"
    using assms(2) ord by (intro evict_known_spec) auto
  thus ?thesis using False assms(3) by (auto simp: expire_old_known_def)
qed

lemma expire_old_known_state [simp]:
  "gp_pending (expire_old_known ord g) = gp_pending g"
  "gp_delivered (expire_old_known ord g) = gp_delivered g"
  "gp_metrics (expire_old_known ord g) = gp_metrics g"
  by (simp_all add: expire_old_known_def)

lemma insert_new_state:
  assumes "ev_id e \<notin> gp_known g"
  shows "fst (insert_new ord e g)"
    "gp_pending (snd (insert_new ord e g)) = push_outbox e (gp_pending g)"
    "delivered_to (snd (insert_new ord e g)) p = delivered_to g p"
    "gp_metrics (snd (insert_new ord e g)) = map_option (\<lambda>n. n + 1) (gp_metrics g)"
  using assms by (simp_all add: insert_new_def Let_def push_outbox_def delivered_to_def)

lemma insert_new_known: "ev_id e \<in> gp_known g \<Longrightarrow> insert_new ord e g = (False, g)"
  by (simp add: insert_new_def)

lemma gossip_inv_insert:
  assumes "lists_set ord" "gossip_inv g"
  shows "gossip_inv (snd (insert_new ord e g))"
proof (cases "ev_id e \<in> gp_known g")
  case True
  thus ?thesis using assms by (simp add: insert_new_def)
next
  case False
  let ?q = "push_outbox e (gp_pending g)"
  let ?two = "g\<lparr>gp_known := insert (ev_id e) (gp_known g), gp_pending := ?q\<rparr>"
  have q: "length ?q \<le> MAX_PENDING_BROADCASTS" "set ?q \<subseteq> insert e (set (gp_pending g))"
    "distinct (map ev_id ?q)"
  proof -
    show "length ?q \<le> MAX_PENDING_BROADCASTS" "set ?q \<subseteq> insert e (set (gp_pending g))"
      using assms(2) outbox.push_bounded outbox.push_subset by (auto simp: gossip_inv_def)
    have "set (tl (map ev_id (gp_pending g))) \<subseteq> gp_known g"
      using assms(2) set_tl_subset [of "map ev_id (gp_pending g)"] unfolding gossip_inv_def by blast
    hence "ev_id e \<notin> set (tl (map ev_id (gp_pending g)))" "ev_id e \<notin> set (map ev_id (gp_pending g))"
      using assms(2) False by (auto simp: gossip_inv_def)
    moreover have "map ev_id ?q = (if length (gp_pending g) \<ge> MAX_PENDING_BROADCASTS
        then tl (map ev_id (gp_pending g)) else map ev_id (gp_pending g)) @ [ev_id e]"
      by (simp add: push_outbox_def map_tl)
    moreover have "distinct (map ev_id (gp_pending g))" using assms(2) by (simp add: gossip_inv_def)
    ultimately show "distinct (map ev_id ?q)" by (simp add: distinct_tl del: set_map)
  qed
  have fin: "finite (gp_known ?two)" and sub: "set (map ev_id (gp_pending ?two)) \<subseteq> gp_known ?two"
    using assms(2) q(2) by (auto simp: gossip_inv_def)
  have known: "gp_known (snd (insert_new ord e g)) =
      gp_known (if card (gp_known ?two) > MAX_KNOWN_EVENTS then expire_old_known ord ?two else ?two)"
    using False by (simp add: insert_new_def Let_def push_outbox_def)
  have "gp_known (snd (insert_new ord e g)) \<subseteq> gp_known ?two
      \<and> card (gp_known (snd (insert_new ord e g))) \<le> MAX_KNOWN_EVENTS
      \<and> set (map ev_id ?q) \<subseteq> gp_known (snd (insert_new ord e g))"
    using expire_old_known_spec [OF assms(1) fin sub] q(1) sub unfolding known by auto
  moreover from this have "finite (gp_known (snd (insert_new ord e g)))"
    using fin finite_subset by blast
  ultimately show ?thesis
    using assms(2) q insert_new_state [OF False] by (simp add: gossip_inv_def)
qed

lemma gossip_inv_peek: "gossip_inv g \<Longrightarrow> gossip_inv (snd (peek_pending_for_peer p mx g))"
  by (simp add: gossip_inv_def)

lemma gossip_inv_mark: "gossip_inv g \<Longrightarrow> gossip_inv (mark_delivered_to_peer p ids g)"
  using dlv.run_bounded by (simp add: gossip_inv_def)

lemma gossip_inv_new [simp]: "gossip_inv gossip_new"
  by (simp add: gossip_inv_def gossip_new_def delivered_to_def)

section \<open>Delivery to the peers\<close>

text \<open>What can happen to the outbox: a (validated) event is inserted, a peer takes everything pending
  for it, or a bounded batch is selected and its first \<open>k\<close> events are sent and marked, as the heal
  batches and the TCP flush do. The run keeps the accepted identifiers, in order, and what each
  peer was sent.\<close>

datatype gossip_op = GInsert mesh_event | GGet string | GBatch string nat nat

type_synonym gossip_trace = "gossip \<times> string list \<times> (string \<Rightarrow> string list)"

fun gossip_step :: "(string set \<Rightarrow> string list) \<Rightarrow> gossip_op \<Rightarrow> gossip_trace \<Rightarrow> gossip_trace" where
  "gossip_step ord (GInsert e) (g, acc, sent) =
     (case insert_new ord e g of (new, g') \<Rightarrow> (g', if new then acc @ [ev_id e] else acc, sent))"
| "gossip_step ord (GGet p) (g, acc, sent) =
     (case get_pending_for_peer p g of (es, g') \<Rightarrow> (g', acc, sent(p := sent p @ map ev_id es)))"
| "gossip_step ord (GBatch p n k) (g, acc, sent) =
     (case peek_pending_for_peer p n g of (es, g') \<Rightarrow>
        (mark_delivered_to_peer p (map ev_id (take k es)) g', acc, sent(p := sent p @ map ev_id (take k es))))"

definition window_start :: "string list \<Rightarrow> nat" where
  "window_start acc = length acc - MAX_PENDING_BROADCASTS"

definition peer_inv :: "string list \<Rightarrow> string list \<Rightarrow> string list \<Rightarrow> bool" where
  "peer_inv acc d s \<longleftrightarrow> d = last_n MAX_DELIVERED_PER_PEER s
     \<and> (\<exists>k. window_start acc \<le> k \<and> k \<le> length acc \<and> subseq s (take k acc)
          \<and> suffix (drop (window_start acc) (take k acc)) s)"

definition delivery_inv :: "string set \<Rightarrow> gossip_trace \<Rightarrow> bool" where
  "delivery_inv U tr \<longleftrightarrow> (case tr of (g, acc, sent) \<Rightarrow>
     gossip_inv g \<and> gp_known g = set acc \<and> distinct acc \<and> set acc \<subseteq> U
     \<and> map ev_id (gp_pending g) = drop (window_start acc) acc
     \<and> (\<forall>p. peer_inv acc (delivered_to g p) (sent p)))"

lemma subseq_set: "subseq xs ys \<Longrightarrow> set xs \<subseteq> set ys"
  by (induction rule: list_emb.induct) auto

lemma subseq_distinct: "subseq xs ys \<Longrightarrow> distinct ys \<Longrightarrow> distinct xs"
proof (induction rule: list_emb.induct)
  case (list_emb_Cons2 x y xs ys)
  thus ?case using subseq_set [of xs ys] by auto
qed auto

lemma subseq_grow: "subseq s xs \<Longrightarrow> subseq s (xs @ ys)"
  using list_emb_append_mono [of "(=)" s xs "[]" ys] by simp

lemma subseq_send: "subseq s xs \<Longrightarrow> subseq (s @ ys) (xs @ ys)"
  by (rule list_emb_append_mono) simp_all

text \<open>What a peer is offered is exactly the part of the outbox behind the last event it was sent.\<close>

lemma peer_inv_offer:
  assumes "peer_inv acc d s" "distinct acc"
  obtains k where "window_start acc \<le> k" "k \<le> length acc" "subseq s (take k acc)"
    "suffix (drop (window_start acc) (take k acc)) s"
    "filter (\<lambda>i. i \<notin> set d) (drop (window_start acc) acc) = drop k acc"
proof -
  obtain k where k: "window_start acc \<le> k" "k \<le> length acc" "subseq s (take k acc)"
    "suffix (drop (window_start acc) (take k acc)) s" and d: "d = last_n MAX_DELIVERED_PER_PEER s"
    using assms(1) by (auto simp: peer_inv_def)
  let ?a = "drop (window_start acc) (take k acc)"
  have "length ?a \<le> MAX_DELIVERED_PER_PEER"
    by (simp add: window_start_def MAX_PENDING_BROADCASTS_def MAX_DELIVERED_PER_PEER_def)
  moreover obtain s0 where s0: "s = s0 @ ?a" using k(4) by (auto simp: suffix_def)
  ultimately have "set ?a \<subseteq> set d"
    by (auto simp: d last_n_def drop_append)
  moreover have "set d \<subseteq> set (take k acc)"
    using d set_last_n [of MAX_DELIVERED_PER_PEER s] subseq_set [OF k(3)] by blast
  hence "set d \<inter> set (drop k acc) = {}"
    using set_take_disj_set_drop_if_distinct [OF assms(2), of k k] by auto
  moreover have "drop (window_start acc) acc = ?a @ drop k acc"
    using k(1,2) by (metis append_take_drop_id drop_append drop_drop length_take min.absorb2 diff_is_0_eq drop0)
  moreover from \<open>set ?a \<subseteq> set d\<close> have "filter (\<lambda>i. i \<notin> set d) ?a = []"
    unfolding filter_empty_conv by blast
  moreover from \<open>set d \<inter> set (drop k acc) = {}\<close> have "filter (\<lambda>i. i \<notin> set d) (drop k acc) = drop k acc"
    by (intro filter_True) auto
  ultimately have "filter (\<lambda>i. i \<notin> set d) (drop (window_start acc) acc) = drop k acc"
    by simp
  with k that show ?thesis by blast
qed

lemma peer_inv_send:
  assumes "peer_inv acc d s" "distinct acc"
    and "ids = take m (filter (\<lambda>i. i \<notin> set d) (drop (window_start acc) acc))"
    and "length d \<le> MAX_DELIVERED_PER_PEER"
  shows "peer_inv acc (fold push_delivered ids d) (s @ ids)"
proof -
  obtain k where k: "window_start acc \<le> k" "k \<le> length acc" "subseq s (take k acc)"
    "suffix (drop (window_start acc) (take k acc)) s"
    "filter (\<lambda>i. i \<notin> set d) (drop (window_start acc) acc) = drop k acc"
    by (rule peer_inv_offer [OF assms(1,2)])
  have ids: "ids = take m (drop k acc)" using assms(3) k(5) by simp
  let ?k = "min (k + m) (length acc)"
  have t: "take ?k acc = take k acc @ ids"
    using k(2) by (simp add: ids take_add min_def)
  have "fold push_delivered ids d = last_n MAX_DELIVERED_PER_PEER (s @ ids)"
    using dlv.run_last [OF assms(4), of ids] assms(1) by (simp add: peer_inv_def last_n_append_last_n)
  moreover have "subseq (s @ ids) (take ?k acc)" unfolding t by (rule subseq_send [OF k(3)])
  moreover have "drop (window_start acc) (take ?k acc) = drop (window_start acc) (take k acc) @ ids"
    unfolding t using k(1,2) by simp
  hence "suffix (drop (window_start acc) (take ?k acc)) (s @ ids)" using k(4) by (auto simp: suffix_def)
  ultimately show ?thesis using k(1,2) by (auto simp: peer_inv_def intro!: exI [of _ ?k])
qed

lemma peer_inv_accept:
  assumes "peer_inv acc d s"
  shows "peer_inv (acc @ [i]) d s"
proof -
  obtain k where k: "window_start acc \<le> k" "k \<le> length acc" "subseq s (take k acc)"
    "suffix (drop (window_start acc) (take k acc)) s" and d: "d = last_n MAX_DELIVERED_PER_PEER s"
    using assms by (auto simp: peer_inv_def)
  have w: "window_start (acc @ [i]) = window_start acc \<or> window_start (acc @ [i]) = Suc (window_start acc)"
    by (auto simp: window_start_def)
  let ?k = "max k (window_start (acc @ [i]))"
  have "?k \<le> Suc k" using w k(1) by auto
  hence le: "?k \<le> length (acc @ [i])" using k(2) by simp
  have "\<exists>ys. take ?k (acc @ [i]) = take k acc @ ys"
  proof -
    have "take k (take ?k (acc @ [i])) = take k acc" using k(2) by (simp add: min_def max_def)
    thus ?thesis by (metis append_take_drop_id)
  qed
  hence "subseq s (take ?k (acc @ [i]))" using subseq_grow [OF k(3)] by auto
  moreover have "suffix (drop (window_start (acc @ [i])) (take ?k (acc @ [i]))) s"
  proof (cases "window_start (acc @ [i]) \<le> k")
    case True
    hence "drop (window_start (acc @ [i])) (take ?k (acc @ [i])) = drop (window_start (acc @ [i])) (take k acc)"
      using k(2) by (simp add: max_absorb1)
    moreover have "suffix (drop (window_start (acc @ [i])) (take k acc)) (drop (window_start acc) (take k acc))"
    proof -
      have "drop (Suc n) (take k acc) = drop 1 (drop n (take k acc))" for n by simp
      thus ?thesis using w by (metis suffix_drop suffix_order.order_refl)
    qed
    ultimately show ?thesis using k(4) suffix_order.order_trans by metis
  next
    case False
    thus ?thesis by (simp add: max_absorb2)
  qed
  ultimately show ?thesis using d le by (auto simp: peer_inv_def intro!: exI [of _ ?k])
qed

lemma delivery_inv_insert:
  assumes "delivery_inv U (g, acc, sent)" "lists_set ord" "finite U" "card U \<le> MAX_KNOWN_EVENTS" "ev_id e \<in> U"
  shows "delivery_inv U (gossip_step ord (GInsert e) (g, acc, sent))"
proof (cases "ev_id e \<in> gp_known g")
  case True
  thus ?thesis using assms(1) by (simp add: insert_new_known)
next
  case False
  let ?g = "snd (insert_new ord e g)" and ?acc = "acc @ [ev_id e]"
  have inv: "gossip_inv g" "gp_known g = set acc" "distinct acc" "set acc \<subseteq> U"
    "map ev_id (gp_pending g) = drop (window_start acc) acc"
    and peers: "\<And>p. peer_inv acc (delivered_to g p) (sent p)"
    using assms(1) by (auto simp: delivery_inv_def)
  have step: "gossip_step ord (GInsert e) (g, acc, sent) = (?g, ?acc, sent)"
    using insert_new_state(1) [OF False] by (simp add: prod.case_eq_if)
  have "card (insert (ev_id e) (gp_known g)) \<le> card U"
    using inv(2,4) assms(3,5) by (intro card_mono) auto
  hence known: "gp_known ?g = set ?acc"
    using False inv(2) assms(4) by (simp add: insert_new_def Let_def)
  have "length (gp_pending g) = length (drop (window_start acc) acc)" by (metis inv(5) length_map)
  hence len: "length (gp_pending g) = min (length acc) MAX_PENDING_BROADCASTS"
    by (simp add: window_start_def min_def)
  have "map ev_id (gp_pending ?g) = (if length (gp_pending g) \<ge> MAX_PENDING_BROADCASTS
      then tl (map ev_id (gp_pending g)) else map ev_id (gp_pending g)) @ [ev_id e]"
    by (simp add: insert_new_state(2) [OF False] push_outbox_def map_tl)
  also have "\<dots> = drop (window_start ?acc) ?acc"
  proof (cases "length acc \<ge> MAX_PENDING_BROADCASTS")
    case True
    hence "window_start ?acc = Suc (window_start acc)" "window_start ?acc \<le> length acc"
      by (auto simp: window_start_def MAX_PENDING_BROADCASTS_def)
    thus ?thesis using True len by (simp add: inv(5) drop_Suc tl_drop)
  next
    case False
    hence "window_start ?acc = 0" "window_start acc = 0" by (auto simp: window_start_def)
    thus ?thesis using False len by (simp add: inv(5))
  qed
  finally have pend: "map ev_id (gp_pending ?g) = drop (window_start ?acc) ?acc" .
  have "gossip_inv ?g" by (rule gossip_inv_insert [OF assms(2) inv(1)])
  moreover have "distinct ?acc" "set ?acc \<subseteq> U" using inv False assms(5) by auto
  moreover have "peer_inv ?acc (delivered_to ?g p) (sent p)" for p
    using peer_inv_accept [OF peers] insert_new_state(3) [OF False] by simp
  ultimately show ?thesis unfolding step delivery_inv_def prod.case using known pend by blast
qed

lemma take_map_filter:
  "map ev_id (take n (filter (\<lambda>e. ev_id e \<notin> A) es)) = take n (filter (\<lambda>i. i \<notin> A) (map ev_id es))"
  by (simp add: take_map [symmetric] filter_map comp_def)

lemma delivery_inv_send:
  assumes "delivery_inv U (g, acc, sent)"
    and "ids = take m (filter (\<lambda>i. i \<notin> set (delivered_to g p)) (map ev_id (gp_pending g)))"
  shows "delivery_inv U (mark_delivered_to_peer p ids (snd (peek_pending_for_peer p n g)), acc, sent(p := sent p @ ids))"
proof -
  have inv: "gossip_inv g" "distinct acc" "map ev_id (gp_pending g) = drop (window_start acc) acc"
    and peers: "\<And>p. peer_inv acc (delivered_to g p) (sent p)"
    using assms(1) by (auto simp: delivery_inv_def)
  have "peer_inv acc (fold push_delivered ids (delivered_to g p)) (sent p @ ids)"
    using inv(1) assms(2) unfolding inv(3)
    by (intro peer_inv_send [OF peers inv(2)]) (auto simp: gossip_inv_def)
  thus ?thesis using assms(1) peers gossip_inv_mark [OF gossip_inv_peek [OF inv(1)]]
    by (simp add: delivery_inv_def)
qed

lemma gossip_step_send:
  "gossip_step ord (GBatch p n k) (g, acc, sent) =
     (let ids = take (min k n) (filter (\<lambda>i. i \<notin> set (delivered_to g p)) (map ev_id (gp_pending g)))
      in (mark_delivered_to_peer p ids (snd (peek_pending_for_peer p n g)), acc, sent(p := sent p @ ids)))"
  by (simp add: prod.case_eq_if peek_eq take_map_filter Let_def min.commute)

lemma gossip_step_get:
  "gossip_step ord (GGet p) (g, acc, sent) =
     (let ids = take usize_max (filter (\<lambda>i. i \<notin> set (delivered_to g p)) (map ev_id (gp_pending g)))
      in (mark_delivered_to_peer p ids (snd (peek_pending_for_peer p usize_max g)), acc, sent(p := sent p @ ids)))"
  by (simp add: prod.case_eq_if peek_eq take_map_filter Let_def get_pending_for_peer_def)

lemma delivery_inv_step:
  assumes "delivery_inv U tr" "lists_set ord" "finite U" "card U \<le> MAX_KNOWN_EVENTS"
    and "\<And>e. op = GInsert e \<Longrightarrow> ev_id e \<in> U"
  shows "delivery_inv U (gossip_step ord op tr)"
proof -
  obtain g acc sent where tr: "tr = (g, acc, sent)" by (cases tr)
  show ?thesis
  proof (cases op)
    case (GInsert e)
    thus ?thesis using delivery_inv_insert assms tr by blast
  next
    case (GGet p)
    show ?thesis unfolding GGet tr gossip_step_get Let_def
      by (rule delivery_inv_send) (use assms(1) tr in auto)
  next
    case (GBatch p n k)
    show ?thesis unfolding GBatch tr gossip_step_send Let_def
      by (rule delivery_inv_send) (use assms(1) tr in auto)
  qed
qed

definition gossip_ids :: "gossip_op list \<Rightarrow> string set" where
  "gossip_ids ops = ev_id ` {e. GInsert e \<in> set ops}"

lemma finite_gossip_ids: "finite (gossip_ids ops)"
proof -
  have "{e. GInsert e \<in> set ops} \<subseteq> (\<lambda>x. case x of GInsert e \<Rightarrow> e) ` set ops" by force
  thus ?thesis unfolding gossip_ids_def by (meson finite_imageI finite_set finite_subset)
qed

definition gossip_start :: gossip_trace where
  "gossip_start = (gossip_new, [], \<lambda>_. [])"

lemma delivery_inv_start: "delivery_inv U gossip_start"
  by (simp add: delivery_inv_def gossip_start_def)
    (simp add: gossip_new_def delivered_to_def peer_inv_def last_n_def window_start_def)

interpretation deliverym: guarded_machine "gossip_step ord"
    "\<lambda>tr. lists_set ord \<and> finite U \<and> card U \<le> MAX_KNOWN_EVENTS \<and> delivery_inv U tr"
    "\<lambda>x. case x of GInsert e \<Rightarrow> ev_id e \<in> U | _ \<Rightarrow> True" for ord U
proof
  fix tr op
  assume "lists_set ord \<and> finite U \<and> card U \<le> MAX_KNOWN_EVENTS \<and> delivery_inv U tr"
    and "case op of GInsert e \<Rightarrow> ev_id e \<in> U | _ \<Rightarrow> True"
  thus "lists_set ord \<and> finite U \<and> card U \<le> MAX_KNOWN_EVENTS \<and> delivery_inv U (gossip_step ord op tr)"
    by (auto intro!: delivery_inv_step split: gossip_op.splits)
qed

section \<open>Properties\<close>

text \<open>C14: the outbox never sends a peer the same event twice. In any interleaving of insertions,
  full and bounded deliveries to any number of peers, with at most \<open>MAX_KNOWN_EVENTS\<close> distinct
  events in circulation, each peer is sent pairwise different events, in the order in which they
  were accepted; and right after a full delivery nothing is left to send to that peer.\<close>

theorem gossip_no_duplicate_delivery:
  assumes "lists_set ord" "card (gossip_ids ops) \<le> MAX_KNOWN_EVENTS"
    and "fold (gossip_step ord) ops gossip_start = (g, acc, sent)"
  shows "distinct (sent p) \<and> subseq (sent p) acc
    \<and> fst (get_pending_for_peer p (snd (get_pending_for_peer p g))) = []"
proof -
  have "list_all (\<lambda>x. case x of GInsert e \<Rightarrow> ev_id e \<in> gossip_ids ops | _ \<Rightarrow> True) ops"
    by (auto simp: list_all_iff gossip_ids_def split: gossip_op.split)
  hence inv: "delivery_inv (gossip_ids ops) (g, acc, sent)"
    using deliverym.run_inv [of ord "gossip_ids ops" gossip_start ops] assms delivery_inv_start finite_gossip_ids
    by simp
  hence ginv: "gossip_inv g" and d: "distinct acc" and pi: "peer_inv acc (delivered_to g p) (sent p)"
    by (auto simp: delivery_inv_def)
  have sub: "subseq (sent p) acc"
    using pi subseq_grow by (metis append_take_drop_id peer_inv_def)
  have "length (gp_pending g) \<le> usize_max"
    using ginv by (simp add: gossip_inv_def MAX_PENDING_BROADCASTS_def usize_max_def)
  hence short: "length (filter P (gp_pending g)) \<le> usize_max" for P
    using length_filter_le order_trans by blast
  let ?g = "snd (get_pending_for_peer p g)"
  have "delivery_inv (gossip_ids ops) (gossip_step ord (GGet p) (g, acc, sent))"
    unfolding gossip_step_get Let_def by (rule delivery_inv_send [OF inv refl])
  then obtain sent' where inv': "delivery_inv (gossip_ids ops) (?g, acc, sent')"
    and sent': "sent' p = sent p @ map ev_id (fst (get_pending_for_peer p g))"
    by (simp add: prod.case_eq_if)
  have fst_g: "fst (get_pending_for_peer p h) = take usize_max (filter (\<lambda>e. ev_id e \<notin> set (delivered_to h p)) (gp_pending h))" for h
    by (simp add: get_pending_for_peer_def peek_eq prod.case_eq_if)
  have "pe \<in> set (gp_pending ?g) \<Longrightarrow> ev_id pe \<in> set (delivered_to ?g p)" for pe
  proof (rule ccontr)
    assume pe: "pe \<in> set (gp_pending ?g)" and nd: "ev_id pe \<notin> set (delivered_to ?g p)"
    have dist: "distinct acc" and pi': "peer_inv acc (delivered_to ?g p) (sent' p)"
      and q: "map ev_id (gp_pending ?g) = drop (window_start acc) acc"
      using inv' by (auto simp: delivery_inv_def)
    obtain k where k: "subseq (sent' p) (take k acc)"
        "filter (\<lambda>i. i \<notin> set (delivered_to ?g p)) (drop (window_start acc) acc) = drop k acc"
      by (rule peer_inv_offer [OF pi' dist])
    have "ev_id pe \<in> set (drop k acc)"
      unfolding k(2) [symmetric] q [symmetric] using pe nd by simp
    hence "ev_id pe \<notin> set (sent' p)"
      using subseq_set [OF k(1)] set_take_disj_set_drop_if_distinct [OF dist, of k k] by auto
    moreover have "pe \<in> set (gp_pending g)" using pe by (simp add: get_pending_for_peer_def prod.case_eq_if)
    hence "ev_id pe \<in> set (delivered_to g p) \<or> ev_id pe \<in> set (map ev_id (fst (get_pending_for_peer p g)))"
      using short by (auto simp: fst_g)
    moreover have "set (delivered_to g p) \<subseteq> set (sent p)"
    proof -
      have "delivered_to g p = last_n MAX_DELIVERED_PER_PEER (sent p)" using pi by (simp add: peer_inv_def)
      thus ?thesis by (simp only: set_last_n)
    qed
    ultimately show False using sent' by auto
  qed
  hence "fst (get_pending_for_peer p ?g) = []" by (simp add: fst_g filter_empty_conv)
  thus ?thesis using sub subseq_distinct [OF sub d] by blast
qed

lemma sorted_lists_set: "lists_set sorted_list_of_set"
  by (simp add: lists_set_def)

lemma gossip_no_duplicate_delivery_witness:
  "\<exists>g acc sent. fold (gossip_step sorted_list_of_set)
       [GInsert demo_event, GGet ''p'', GInsert demo_event, GGet ''p''] gossip_start = (g, acc, sent)
     \<and> distinct (sent ''p'')"
proof -
  let ?ops = "[GInsert demo_event, GGet ''p'', GInsert demo_event, GGet ''p'']"
  have "gossip_ids ?ops = {ev_id demo_event}" by (auto simp: gossip_ids_def)
  hence c: "card (gossip_ids ?ops) \<le> MAX_KNOWN_EVENTS" by (simp add: MAX_KNOWN_EVENTS_def)
  obtain g acc sent where r: "fold (gossip_step sorted_list_of_set) ?ops gossip_start = (g, acc, sent)"
    by (cases "fold (gossip_step sorted_list_of_set) ?ops gossip_start")
  from gossip_no_duplicate_delivery [OF sorted_lists_set c r, of "''p''"] r show ?thesis by blast
qed

lemma gossip_inv_step:
  assumes "lists_set ord" "gossip_inv (fst tr)"
  shows "gossip_inv (fst (gossip_step ord op tr))"
proof -
  obtain g acc sent where tr: "tr = (g, acc, sent)" by (cases tr)
  show ?thesis using assms gossip_inv_insert gossip_inv_mark gossip_inv_peek
    by (cases op) (auto simp: tr get_pending_for_peer_def prod.case_eq_if)
qed

interpretation gossipm: guarded_machine "gossip_step ord" "\<lambda>tr. lists_set ord \<and> gossip_inv (fst tr)" "\<lambda>_. True" for ord
  by unfold_locales (use gossip_inv_step in blast)

text \<open>Bounded memory, and no dangling outbox: whatever is inserted and delivered, however many
  events go by and whatever order the hash set iterates in, at most \<open>MAX_KNOWN_EVENTS\<close> identifiers,
  \<open>MAX_PENDING_BROADCASTS\<close> outbox events and \<open>MAX_DELIVERED_PER_PEER\<close> deliveries per peer are kept;
  and every outbox event is known and appears once, so the eviction of old identifiers never lets
  an event of the outbox be inserted a second time.\<close>

theorem gossip_bounded:
  assumes "lists_set ord" "fold (gossip_step ord) ops gossip_start = (g, acc, sent)"
  shows "known_event_count g \<le> MAX_KNOWN_EVENTS \<and> length (get_pending_broadcasts g) \<le> MAX_PENDING_BROADCASTS
    \<and> length (delivered_to g p) \<le> MAX_DELIVERED_PER_PEER
    \<and> distinct (map ev_id (get_pending_broadcasts g))
    \<and> (\<forall>e \<in> set (get_pending_broadcasts g). is_known g (ev_id e) \<and> (\<forall>e'. ev_id e' = ev_id e \<longrightarrow> insert_new ord e' g = (False, g)))"
proof -
  have "gossip_inv (fst (fold (gossip_step ord) ops gossip_start))"
    using gossipm.run_inv [of ord gossip_start ops] assms(1)
    by (simp add: gossip_start_def list_all_iff)
  hence "gossip_inv g" using assms(2) by simp
  thus ?thesis
    by (auto simp: gossip_inv_def known_event_count_def get_pending_broadcasts_def is_known_def insert_new_def)
qed

lemma gossip_bounded_witness:
  "\<exists>g acc sent. fold (gossip_step sorted_list_of_set) [GInsert demo_event, GBatch ''p'' 1 1] gossip_start = (g, acc, sent)
     \<and> known_event_count g \<le> MAX_KNOWN_EVENTS"
proof -
  obtain g acc sent where r: "fold (gossip_step sorted_list_of_set) [GInsert demo_event, GBatch ''p'' 1 1] gossip_start = (g, acc, sent)"
    by (cases "fold (gossip_step sorted_list_of_set) [GInsert demo_event, GBatch ''p'' 1 1] gossip_start")
  from gossip_bounded [OF sorted_lists_set r] r show ?thesis by blast
qed

subsection \<open>Encoding what was validated\<close>

lemma valid_event_encodes:
  assumes "hex_laws ce" "sha_laws ce" "validate_with_pow_min ce now d e = Inr ()"
  shows "\<exists>w. to_wire_bytes ce e = Inr w"
proof -
  have v: "ev_id e = compute_id ce (ev_pubkey e) (ev_created_at e) (ev_kind e) (ev_tags e) (ev_content e)"
    "signature_valid ce e" using assms(3) by (auto simp: validate_conditions)
  have "decode_hex_32 ce (ev_id e) \<noteq> None"
    using assms(1,2) by (simp add: v(1) compute_id_def decode_hex_32_def decode_hex_encode sha_laws_def)
  thus ?thesis using v(2) by (auto simp: signature_valid_def to_wire_bytes_def split: option.splits)
qed

lemma collect_results_total:
  "(\<And>e. e \<in> set es \<Longrightarrow> \<exists>w. f e = Inr w) \<Longrightarrow> \<exists>ws. collect_results (map f es) = Inr ws \<and> length ws = length es"
proof (induction es)
  case (Cons e es)
  then obtain w ws where "f e = Inr w" "collect_results (map f es) = Inr ws \<and> length ws = length es"
    by fastforce
  thus ?case by simp
qed simp

text \<open>The outbox after any number of validated insertions.\<close>

definition outbox_valid :: "crypto_env \<Rightarrow> gossip \<Rightarrow> bool" where
  "outbox_valid ce g \<longleftrightarrow> (\<forall>e\<in>set (gp_pending g). \<exists>now d. validate_with_pow_min ce now d e = Inr ())"

lemma outbox_valid_insert:
  assumes "outbox_valid ce g" "validate_with_pow_min ce now d e = Inr ()"
  shows "outbox_valid ce (snd (insert_new ord e g))"
proof (cases "ev_id e \<in> gp_known g")
  case True
  thus ?thesis using assms(1) by (simp add: insert_new_known)
next
  case False
  thus ?thesis using assms set_tl_subset [of "gp_pending g"]
    by (auto simp: outbox_valid_def insert_new_state push_outbox_def)
qed

text \<open>The doors of the outbox. Each of the three ways in validates first, refuses without any
  change, and on success the event is known; so everything in the outbox was validated, and
  serialising a peer's pending events (which marks them delivered before encoding them) can never
  fail half-way and lose the others.\<close>

theorem gossip_wire_never_fails:
  assumes "hex_laws ce" "sha_laws ce" "outbox_valid ce g"
  shows "(\<exists>ws. fst (get_pending_for_peer_wire ce p g) = Inr ws
        \<and> length ws = length (fst (get_pending_for_peer p g)))
    \<and> outbox_valid ce (snd (add_event ce now ord e g))
    \<and> outbox_valid ce (snd (add_event_with_reputation ce now ord rep e g))
    \<and> outbox_valid ce (snd (gossip_receive_event ce now ord e g))
    \<and> (\<forall>err. fst (add_event ce now ord e g) = Inl err \<longrightarrow> snd (add_event ce now ord e g) = g)"
proof (intro conjI)
  have "set (fst (get_pending_for_peer p g)) \<subseteq> set (gp_pending g)"
    using set_take_subset by (fastforce simp: get_pending_for_peer_def peek_eq prod.case_eq_if)
  hence "\<exists>w. to_wire_bytes ce x = Inr w" if "x \<in> set (fst (get_pending_for_peer p g))" for x
    using that valid_event_encodes [OF assms(1,2)] assms(3) unfolding outbox_valid_def by blast
  from collect_results_total [OF this]
  show "\<exists>ws. fst (get_pending_for_peer_wire ce p g) = Inr ws \<and> length ws = length (fst (get_pending_for_peer p g))"
    by (simp add: get_pending_for_peer_wire_def prod.case_eq_if)
  show "outbox_valid ce (snd (add_event ce now ord e g))"
    using assms(3) outbox_valid_insert [OF assms(3)]
    by (auto simp: add_event_def validate_def prod.case_eq_if split: sum.split)
  show "outbox_valid ce (snd (add_event_with_reputation ce now ord rep e g))"
    using assms(3) outbox_valid_insert [OF assms(3)]
    by (auto simp: add_event_with_reputation_def validate_with_reputation_def prod.case_eq_if split: sum.split)
  show "outbox_valid ce (snd (gossip_receive_event ce now ord e g))"
    using assms(3) outbox_valid_insert [OF assms(3)]
    by (auto simp: gossip_receive_event_def validate_def prod.case_eq_if split: sum.split)
  show "\<forall>err. fst (add_event ce now ord e g) = Inl err \<longrightarrow> snd (add_event ce now ord e g) = g"
    by (auto simp: add_event_def prod.case_eq_if split: sum.split)
qed

lemma gossip_wire_never_fails_witness:
  "\<exists>ws. fst (get_pending_for_peer_wire demo_env ''p'' gossip_new) = Inr ws"
proof -
  have "outbox_valid demo_env gossip_new" by (simp add: outbox_valid_def gossip_new_def)
  from gossip_wire_never_fails [OF demo_laws(1,3) this, where p = "''p''"] show ?thesis by blast
qed

end
