(* ===== verification/Tcp.thy ===== *)
theory Tcp
  imports Gossip
begin

text \<open>
  The TCP transport, \<open>core/src/network/tcp.rs\<close>: the frame format and the incremental
  \<open>FrameReader\<close>, the bounded inbound and outbound queues with their counters, connection
  admission, and the pump step that moves pending gossip events into the outbound queues. A socket
  is the script of what its \<open>read\<close> calls return: data in arbitrary segments, timeouts, end of
  stream, errors. Threads run the atomic steps modelled here, each of which holds one mutex.
\<close>

section \<open>Frames\<close>

definition FRAME_HEADER_LEN :: nat where "FRAME_HEADER_LEN = 4"
definition MAX_FRAME_PAYLOAD :: nat where "MAX_FRAME_PAYLOAD = 16384"

datatype tcp_error = PayloadTooLarge nat

definition encode_frame :: "byte list \<Rightarrow> tcp_error + byte list" where
  "encode_frame payload =
     (if length payload > MAX_FRAME_PAYLOAD then Inl (PayloadTooLarge (length payload))
      else Inr (nat_be 4 (length payload) @ payload))"

datatype frame_fatal =
    TruncatedHeader | TruncatedPayload | ZeroLength | FrameTooLarge nat | ReadFailed string

datatype frame_poll = Pending | Frame "byte list" | Eof | Fatal frame_fatal

text \<open>What successive \<open>read\<close> calls on a socket meet.\<close>

datatype sock_event = SData "byte list" | SBlock | SEof | SErr string

datatype read_result = ROk "byte list" | RBlock | RErr string

text \<open>\<open>r.read(buf)\<close> with room for \<open>k\<close> bytes: at most \<open>k\<close> bytes of the next segment; the end of the
  stream (zero bytes) repeats; when the script is over nothing has arrived yet.\<close>

fun sock_read :: "nat \<Rightarrow> sock_event list \<Rightarrow> read_result \<times> sock_event list" where
  "sock_read k [] = (RBlock, [])"
| "sock_read k (SData [] # s) = sock_read k s"
| "sock_read k (SData (b # bs) # s) = (ROk (take k (b # bs)), SData (drop k (b # bs)) # s)"
| "sock_read k (SBlock # s) = (RBlock, s)"
| "sock_read k (SEof # s) = (ROk [], SEof # s)"
| "sock_read k (SErr e # s) = (RErr e, s)"

record frame_reader =
  fr_header :: "byte list"
  fr_header_fill :: nat
  fr_body :: "byte list"
  fr_body_fill :: nat

definition frame_reader_new :: frame_reader where
  "frame_reader_new = \<lparr>fr_header = replicate 4 0, fr_header_fill = 0, fr_body = [], fr_body_fill = 0\<rparr>"

definition between_frames :: "frame_reader \<Rightarrow> bool" where
  "between_frames r \<longleftrightarrow> fr_header_fill r = 0 \<and> fr_body r = []"

definition fr_reset :: "frame_reader \<Rightarrow> frame_reader" where
  "fr_reset r = r\<lparr>fr_header_fill := 0, fr_body := [], fr_body_fill := 0\<rparr>"

text \<open>\<open>read\<close> into \<open>buf[fill..]\<close>\<close>

definition write_at :: "nat \<Rightarrow> byte list \<Rightarrow> byte list \<Rightarrow> byte list" where
  "write_at fill bs buf = take fill buf @ bs @ drop (fill + length bs) buf"

definition sock_bytes :: "sock_event list \<Rightarrow> nat" where
  "sock_bytes s = sum_list (map (\<lambda>e. case e of SData bs \<Rightarrow> length bs | _ \<Rightarrow> 0) s)"

lemma sock_read_bytes:
  "sock_read k s = (ROk bs, s') \<Longrightarrow> sock_bytes s' + length bs = sock_bytes s"
  by (induction k s rule: sock_read.induct) (auto simp: sock_bytes_def)

lemma sock_read_decreases:
  assumes "sock_read k s = (ROk bs, s')" "bs \<noteq> []"
  shows "sock_bytes s' < sock_bytes s"
  using sock_read_bytes [OF assms(1)] assms(2) by (cases bs) auto

lemma sock_read_len: "sock_read k s = (ROk bs, s') \<Longrightarrow> length bs \<le> k"
  by (induction k s rule: sock_read.induct) auto

text \<open>One turn of the \<open>loop\<close> in \<open>poll\<close>: \<open>Inl\<close> is a \<open>return\<close>, \<open>Inr\<close> goes round again.\<close>

definition frame_reader_turn ::
    "frame_reader \<Rightarrow> sock_event list \<Rightarrow>
       (frame_poll \<times> frame_reader \<times> sock_event list) + (frame_reader \<times> sock_event list)" where
  "frame_reader_turn r s =
     (if fr_header_fill r < FRAME_HEADER_LEN then
        (case sock_read (length (fr_header r) - fr_header_fill r) s of
           (ROk bs, s') \<Rightarrow>
             if bs = [] then
               Inl ((if between_frames r then Eof else Fatal TruncatedHeader), r, s')
             else
               let r1 = r\<lparr>fr_header := write_at (fr_header_fill r) bs (fr_header r),
                          fr_header_fill := fr_header_fill r + length bs\<rparr>
               in if fr_header_fill r1 < FRAME_HEADER_LEN then Inr (r1, s')
                  else let declared = be_nat (fr_header r1)
                       in if declared = 0 then Inl (Fatal ZeroLength, fr_reset r1, s')
                          else if declared > MAX_FRAME_PAYLOAD then
                            Inl (Fatal (FrameTooLarge declared), fr_reset r1, s')
                          else Inr (r1\<lparr>fr_body := replicate declared 0\<rparr>, s')
         | (RBlock, s') \<Rightarrow> Inl (Pending, r, s')
         | (RErr e, s') \<Rightarrow> Inl (Fatal (ReadFailed e), r, s'))
      else
        (case sock_read (length (fr_body r) - fr_body_fill r) s of
           (ROk bs, s') \<Rightarrow>
             if bs = [] then Inl (Fatal TruncatedPayload, r, s')
             else
               let r1 = r\<lparr>fr_body := write_at (fr_body_fill r) bs (fr_body r),
                          fr_body_fill := fr_body_fill r + length bs\<rparr>
               in if fr_body_fill r1 = length (fr_body r1) then Inl (Frame (fr_body r1), fr_reset r1, s')
                  else Inr (r1, s')
         | (RBlock, s') \<Rightarrow> Inl (Pending, r, s')
         | (RErr e, s') \<Rightarrow> Inl (Fatal (ReadFailed e), r, s')))"

lemma turn_continue_bytes:
  "frame_reader_turn r s = Inr (r', s') \<Longrightarrow> sock_bytes s' < sock_bytes s"
  unfolding frame_reader_turn_def Let_def
  by (auto split: if_splits prod.splits read_result.splits dest: sock_read_decreases)

function frame_reader_poll ::
    "frame_reader \<Rightarrow> sock_event list \<Rightarrow> frame_poll \<times> frame_reader \<times> sock_event list" where
  "frame_reader_poll r s =
     (case frame_reader_turn r s of
        Inl result \<Rightarrow> result
      | Inr (r', s') \<Rightarrow> frame_reader_poll r' s')"
  by auto
termination
  by (relation "measure (\<lambda>(r, s). sock_bytes s)") (auto dest: turn_continue_bytes)

declare frame_reader_poll.simps [simp del]

text \<open>A relation between the start and the result of \<open>poll\<close> follows from one turn.\<close>

lemma poll_induct:
  assumes ret: "\<And>r s x. I r s \<Longrightarrow> frame_reader_turn r s = Inl x \<Longrightarrow> R r s x"
    and cont: "\<And>r s r' s' x. I r s \<Longrightarrow> frame_reader_turn r s = Inr (r', s') \<Longrightarrow>
        I r' s' \<and> (R r' s' x \<longrightarrow> R r s x)"
    and I: "I r s"
  shows "R r s (frame_reader_poll r s)"
  using I
proof (induction r s rule: frame_reader_poll.induct)
  case (1 r s)
  show ?case
  proof (cases "frame_reader_turn r s")
    case (Inl x)
    with ret 1 show ?thesis by (subst frame_reader_poll.simps) simp
  next
    case (Inr y)
    obtain r' s' where y: "y = (r', s')" by (cases y)
    have "I r' s'" using cont 1(2) Inr y by blast
    hence "R r' s' (frame_reader_poll r' s')" using 1(1) Inr y by simp
    hence "R r s (frame_reader_poll r' s')" using cont 1(2) Inr y by blast
    thus ?thesis using Inr y by (subst frame_reader_poll.simps) simp
  qed
qed

text \<open>The loop of \<open>read_frames_until_closed\<close>: the frames pushed, and how the connection stands when
  the script is over (still open) or the loop has ended.\<close>

datatype conn_end = StillOpen | ClosedEof | ClosedFatal frame_fatal

definition sock_size :: "sock_event list \<Rightarrow> nat" where
  "sock_size s = sock_bytes s + length s"

lemma sock_read_size: "sock_read k s = (x, s') \<Longrightarrow> sock_size s' \<le> sock_size s"
  by (induction k s rule: sock_read.induct) (auto simp: sock_size_def sock_bytes_def)

lemma sock_read_block: "sock_read k s = (RBlock, s') \<Longrightarrow> s' = [] \<or> sock_size s' < sock_size s"
  by (induction k s rule: sock_read.induct) (auto simp: sock_size_def sock_bytes_def)

lemma sock_read_size_lt: "sock_read k s = (ROk bs, s') \<Longrightarrow> bs \<noteq> [] \<Longrightarrow> sock_size s' < sock_size s"
  by (induction k s rule: sock_read.induct) (auto simp: sock_size_def sock_bytes_def)

lemma turn_continue_size:
  "frame_reader_turn r s = Inr (r', s') \<Longrightarrow> sock_size s' < sock_size s"
  unfolding frame_reader_turn_def Let_def
  by (auto split: if_splits prod.splits read_result.splits dest: sock_read_size_lt)

lemma turn_return_size:
  "frame_reader_turn r s = Inl (p, r', s') \<Longrightarrow>
     (p = Pending \<longrightarrow> s' = [] \<or> sock_size s' < sock_size s) \<and>
     ((\<exists>f. p = Frame f) \<longrightarrow> sock_size s' < sock_size s)"
  unfolding frame_reader_turn_def Let_def
  by (auto split: if_splits prod.splits read_result.splits dest: sock_read_size_lt sock_read_block)

lemma poll_size:
  assumes "frame_reader_poll r s = (p, r', s')"
  shows "(p = Pending \<longrightarrow> s' = [] \<or> sock_size s' < sock_size s) \<and>
     ((\<exists>f. p = Frame f) \<longrightarrow> sock_size s' < sock_size s)"
proof -
  let ?R = "\<lambda>r s x. case x of (p, r', s') \<Rightarrow> (p = Pending \<longrightarrow> s' = [] \<or> sock_size s' < sock_size s) \<and>
     ((\<exists>f. p = Frame f) \<longrightarrow> sock_size s' < sock_size s)"
  have "?R r s (frame_reader_poll r s)"
    by (rule poll_induct [where I = "\<lambda>_ _. True"])
      (auto dest!: turn_return_size turn_continue_size intro: less_trans split: prod.splits)
  thus ?thesis by (simp add: assms)
qed

function read_frames_loop ::
    "frame_reader \<Rightarrow> sock_event list \<Rightarrow> byte list list \<times> conn_end" where
  "read_frames_loop r s =
     (case frame_reader_poll r s of
        (Pending, r', s') \<Rightarrow> if s' = [] then ([], StillOpen) else read_frames_loop r' s'
      | (Frame f, r', s') \<Rightarrow> (case read_frames_loop r' s' of (fs, e) \<Rightarrow> (f # fs, e))
      | (Eof, r', s') \<Rightarrow> ([], ClosedEof)
      | (Fatal e, r', s') \<Rightarrow> ([], ClosedFatal e))"
  by auto
termination
  by (relation "measure (\<lambda>(r, s). sock_size s)") (auto dest!: poll_size [OF sym])

declare read_frames_loop.simps [simp del]

definition read_frames_until_closed :: "sock_event list \<Rightarrow> byte list list \<times> conn_end" where
  "read_frames_until_closed s = read_frames_loop frame_reader_new s"

section \<open>The stream as a whole\<close>

text \<open>What a stream of bytes says, whatever the segments it arrives in: the reference definition
  the incremental reader is compared with.\<close>

definition frame_bytes :: "byte list \<Rightarrow> byte list" where
  "frame_bytes f = nat_be 4 (length f) @ f"

definition valid_frame :: "byte list \<Rightarrow> bool" where
  "valid_frame f \<longleftrightarrow> 1 \<le> length f \<and> length f \<le> MAX_FRAME_PAYLOAD"

function parse_frames :: "bool \<Rightarrow> byte list \<Rightarrow> byte list list \<times> conn_end" where
  "parse_frames cl d =
     (if length d < 4 then
        ([], if \<not> cl then StillOpen else if d = [] then ClosedEof else ClosedFatal TruncatedHeader)
      else
        let n = be_nat (take 4 d)
        in if n = 0 then ([], ClosedFatal ZeroLength)
           else if n > MAX_FRAME_PAYLOAD then ([], ClosedFatal (FrameTooLarge n))
           else if length d < 4 + n then ([], if cl then ClosedFatal TruncatedPayload else StillOpen)
           else case parse_frames cl (drop (4 + n) d) of (fs, e) \<Rightarrow> (take n (drop 4 d) # fs, e))"
  by auto
termination by (relation "measure (\<lambda>(c, d). length d)") auto

declare parse_frames.simps [simp del]

lemma frame_header_be: "length f \<le> MAX_FRAME_PAYLOAD \<Longrightarrow> be_nat (nat_be 4 (length f)) = length f"
  by (simp add: be_nat_nat_be MAX_FRAME_PAYLOAD_def)

lemma parse_frame_step:
  assumes "valid_frame f"
  shows "parse_frames cl (frame_bytes f @ d) =
    (case parse_frames cl d of (fs, e) \<Rightarrow> (f # fs, e))"
  using assms
  by (subst parse_frames.simps)
    (auto simp: frame_bytes_def valid_frame_def frame_header_be Let_def split: prod.splits)

lemma parse_frames_concat:
  assumes "list_all valid_frame fs"
  shows "parse_frames cl (concat (map frame_bytes fs) @ d) =
    (case parse_frames cl d of (gs, e) \<Rightarrow> (fs @ gs, e))"
  using assms
  by (induction fs) (auto simp: parse_frame_step split: prod.splits)

lemma be_nat_take4: "4 \<le> length d \<Longrightarrow> nat_be 4 (be_nat (take 4 d)) = take 4 d"
  using nat_be_be_nat [of "take 4 d"] by (simp add: min_absorb2)

definition complete_frame :: "byte list \<Rightarrow> bool" where
  "complete_frame d \<longleftrightarrow> 4 \<le> length d \<and> be_nat (take 4 d) \<noteq> 0 \<and>
     be_nat (take 4 d) \<le> MAX_FRAME_PAYLOAD \<and> 4 + be_nat (take 4 d) \<le> length d"

lemma parse_frames_go:
  "complete_frame d \<Longrightarrow> parse_frames cl d =
     (case parse_frames cl (drop (4 + be_nat (take 4 d)) d) of
        (fs, e) \<Rightarrow> (take (be_nat (take 4 d)) (drop 4 d) # fs, e))"
  by (subst parse_frames.simps) (simp add: complete_frame_def Let_def)

lemma parse_frames_stop: "\<not> complete_frame d \<Longrightarrow> fst (parse_frames cl d) = []"
  by (subst parse_frames.simps) (auto simp: complete_frame_def Let_def)

lemma complete_frame_split:
  assumes "complete_frame d"
  shows "d = frame_bytes (take (be_nat (take 4 d)) (drop 4 d)) @ drop (4 + be_nat (take 4 d)) d"
    and "valid_frame (take (be_nat (take 4 d)) (drop 4 d))"
proof -
  let ?n = "be_nat (take 4 d)" and ?f = "take (be_nat (take 4 d)) (drop 4 d)"
  have n: "length ?f = ?n" using assms by (auto simp: complete_frame_def)
  hence "frame_bytes ?f = take 4 d @ ?f"
    using assms by (simp add: frame_bytes_def be_nat_take4 complete_frame_def)
  moreover have "take 4 d @ ?f = take (4 + ?n) d" by (simp add: take_add)
  ultimately have "frame_bytes ?f = take (4 + ?n) d" by simp
  thus "d = frame_bytes ?f @ drop (4 + ?n) d" by simp
  show "valid_frame ?f" using assms n by (simp add: valid_frame_def complete_frame_def)
qed

lemma parse_frames_prefix:
  "parse_frames cl d = (fs, e) \<Longrightarrow>
     list_all valid_frame fs \<and>
     (\<exists>rest. d = concat (map frame_bytes fs) @ rest \<and> parse_frames cl rest = ([], e))"
proof (induction "length d" arbitrary: d fs rule: less_induct)
  case less
  show ?case
  proof (cases "complete_frame d")
    case False
    from parse_frames_stop [OF this, of cl] less.prems show ?thesis by auto
  next
    case True
    let ?d' = "drop (4 + be_nat (take 4 d)) d" and ?f = "take (be_nat (take 4 d)) (drop 4 d)"
    obtain gs where gs: "parse_frames cl ?d' = (gs, e)" "fs = ?f # gs"
      using parse_frames_go [OF True, of cl] less.prems by (cases "parse_frames cl ?d'") auto
    have "length ?d' < length d" using True by (auto simp: complete_frame_def)
    from less.hyps [OF this gs(1)] obtain rest
      where "list_all valid_frame gs" "?d' = concat (map frame_bytes gs) @ rest"
        "parse_frames cl rest = ([], e)" by blast
    with complete_frame_split [OF True] gs(2) show ?thesis
      by (intro conjI exI [of _ rest]) simp_all
  qed
qed

text \<open>The bytes of the frame in progress, and the reader's invariant.\<close>

definition pending_bytes :: "frame_reader \<Rightarrow> byte list" where
  "pending_bytes r = take (fr_header_fill r) (fr_header r) @ take (fr_body_fill r) (fr_body r)"

definition reader_ok :: "frame_reader \<Rightarrow> bool" where
  "reader_ok r \<longleftrightarrow> length (fr_header r) = 4 \<and>
     (fr_header_fill r < 4 \<and> fr_body r = [] \<and> fr_body_fill r = 0 \<or>
      fr_header_fill r = 4 \<and> be_nat (fr_header r) = length (fr_body r) \<and>
      fr_body_fill r < length (fr_body r) \<and> length (fr_body r) \<le> MAX_FRAME_PAYLOAD)"

text \<open>Scripts without read errors: data in any segments and timeouts, then possibly the end.\<close>

fun sock_data :: "sock_event list \<Rightarrow> byte list" where
  "sock_data [] = []"
| "sock_data (SData bs # s) = bs @ sock_data s"
| "sock_data (_ # s) = sock_data s"

fun clean_script :: "bool \<Rightarrow> sock_event list \<Rightarrow> bool" where
  "clean_script cl [] = (\<not> cl)"
| "clean_script cl (SData bs # s) = clean_script cl s"
| "clean_script cl (SBlock # s) = clean_script cl s"
| "clean_script cl (SEof # s) = (cl \<and> s = [])"
| "clean_script cl (SErr e # s) = False"

lemma sock_read_clean:
  assumes "clean_script cl s" "sock_read k s = (x, s')" "0 < k"
  shows "clean_script cl s' \<and>
     (case x of ROk bs \<Rightarrow> sock_data s = bs @ sock_data s' \<and> length bs \<le> k \<and> (bs = [] \<longrightarrow> cl \<and> sock_data s = [])
      | RBlock \<Rightarrow> sock_data s' = sock_data s \<and> (s' = [] \<longrightarrow> sock_data s = [] \<and> \<not> cl)
      | RErr e \<Rightarrow> False)"
  using assms
  by (induction k s rule: sock_read.induct) (auto split: read_result.splits)

lemma write_at_fill:
  assumes "fill + length bs \<le> length buf"
  shows "take (fill + length bs) (write_at fill bs buf) = take fill buf @ bs"
    "length (write_at fill bs buf) = length buf"
  using assms by (auto simp: write_at_def)

definition turn_ok :: "bool \<Rightarrow> frame_reader \<Rightarrow> sock_event list \<Rightarrow> frame_reader \<Rightarrow> sock_event list \<Rightarrow> bool" where
  "turn_ok cl r s r' s' \<longleftrightarrow> reader_ok r' \<and> clean_script cl s' \<and>
     pending_bytes r' @ sock_data s' = pending_bytes r @ sock_data s"

definition return_ok ::
    "bool \<Rightarrow> frame_reader \<Rightarrow> sock_event list \<Rightarrow> frame_poll \<times> frame_reader \<times> sock_event list \<Rightarrow> bool" where
  "return_ok cl r s x = (case x of
      (Pending, r', s') \<Rightarrow> turn_ok cl r s r' s' \<and> (s' = [] \<longrightarrow> \<not> cl)
    | (Frame f, r', s') \<Rightarrow> valid_frame f \<and> reader_ok r' \<and> clean_script cl s' \<and> pending_bytes r' = [] \<and>
        pending_bytes r @ sock_data s = frame_bytes f @ sock_data s'
    | (Eof, _, _) \<Rightarrow> cl \<and> pending_bytes r @ sock_data s = []
    | (Fatal e, _, _) \<Rightarrow> parse_frames cl (pending_bytes r @ sock_data s) = ([], ClosedFatal e))"

lemma return_ok_cont: "turn_ok cl r s r' s' \<Longrightarrow> return_ok cl r' s' x \<Longrightarrow> return_ok cl r s x"
  by (auto simp: turn_ok_def return_ok_def split: prod.splits frame_poll.splits)

lemma parse_frames_header_end:
  assumes "length d < 4" "d \<noteq> []"
  shows "parse_frames True d = ([], ClosedFatal TruncatedHeader)"
  using assms by (subst parse_frames.simps) simp

lemma parse_frames_bad_header:
  assumes "length h = 4"
  shows "be_nat h = 0 \<Longrightarrow> parse_frames cl (h @ d) = ([], ClosedFatal ZeroLength)"
    and "be_nat h > MAX_FRAME_PAYLOAD \<Longrightarrow>
         parse_frames cl (h @ d) = ([], ClosedFatal (FrameTooLarge (be_nat h)))"
  using assms by (subst parse_frames.simps; simp add: Let_def)+

lemma parse_frames_body_end:
  assumes "length h = 4" "0 < be_nat h" "be_nat h \<le> MAX_FRAME_PAYLOAD" "length d < be_nat h"
  shows "parse_frames cl (h @ d) = ([], if cl then ClosedFatal TruncatedPayload else StillOpen)"
  using assms by (subst parse_frames.simps) (simp add: Let_def)

text \<open>One turn in the header: fewer than four bytes of it have arrived.\<close>

lemma turn_header:
  assumes "reader_ok r" "clean_script cl s" "fr_header_fill r < 4"
  shows "case frame_reader_turn r s of Inl x \<Rightarrow> return_ok cl r s x | Inr (r', s') \<Rightarrow> turn_ok cl r s r' s'"
proof -
  let ?k = "length (fr_header r) - fr_header_fill r"
  obtain x s' where x: "sock_read ?k s = (x, s')" by (cases "sock_read ?k s")
  have r: "length (fr_header r) = 4" "fr_body r = []" "fr_body_fill r = 0" "0 < ?k"
    using assms by (auto simp: reader_ok_def)
  note c = sock_read_clean [OF assms(2) x r(4)]
  have pend: "pending_bytes r = take (fr_header_fill r) (fr_header r)" by (simp add: pending_bytes_def r)
  show ?thesis
  proof (cases x)
    case (ROk bs)
    show ?thesis
    proof (cases "bs = []")
      case True
      hence "cl" "sock_data s = []" using c ROk by auto
      thus ?thesis
        using True assms(3) r ROk x pend
        by (auto simp: frame_reader_turn_def return_ok_def between_frames_def FRAME_HEADER_LEN_def
            intro!: parse_frames_header_end)
    next
      case False
      let ?h = "write_at (fr_header_fill r) bs (fr_header r)" and ?m = "fr_header_fill r + length bs"
      have le: "?m \<le> 4" using c ROk r by auto
      have h: "take ?m ?h = pending_bytes r @ bs" "length ?h = 4"
        using write_at_fill [of "fr_header_fill r" bs "fr_header r"] le r pend by auto
      have d: "pending_bytes r @ sock_data s = take ?m ?h @ sock_data s'" "clean_script cl s'"
        using c ROk h by auto
      show ?thesis
      proof (cases "?m < 4")
        case True
        thus ?thesis using x ROk False assms(3) d h r
          by (simp add: frame_reader_turn_def FRAME_HEADER_LEN_def turn_ok_def reader_ok_def pending_bytes_def)
      next
        case m: False
        hence m4: "?m = 4" using le by simp
        hence full: "pending_bytes r @ sock_data s = ?h @ sock_data s'" using d(1) h(2) by simp
        have "frame_reader_turn r s =
          (let r1 = r\<lparr>fr_header := ?h, fr_header_fill := 4\<rparr>; declared = be_nat ?h
           in if declared = 0 then Inl (Fatal ZeroLength, fr_reset r1, s')
              else if declared > MAX_FRAME_PAYLOAD then Inl (Fatal (FrameTooLarge declared), fr_reset r1, s')
              else Inr (r1\<lparr>fr_body := replicate declared 0\<rparr>, s'))"
          using x ROk False assms(3) m4 by (simp add: frame_reader_turn_def FRAME_HEADER_LEN_def Let_def)
        thus ?thesis using h(2) full d(2) r
          by (auto simp: Let_def return_ok_def turn_ok_def reader_ok_def parse_frames_bad_header
              pending_bytes_def [of "r\<lparr>fr_header := _, fr_header_fill := _, fr_body := _\<rparr>"])
      qed
    qed
  qed (use c x assms pend r in \<open>auto simp: frame_reader_turn_def FRAME_HEADER_LEN_def return_ok_def turn_ok_def\<close>)
qed

text \<open>One turn in the body.\<close>

lemma turn_body:
  assumes "reader_ok r" "clean_script cl s" "\<not> fr_header_fill r < 4"
  shows "case frame_reader_turn r s of Inl x \<Rightarrow> return_ok cl r s x | Inr (r', s') \<Rightarrow> turn_ok cl r s r' s'"
proof -
  let ?k = "length (fr_body r) - fr_body_fill r"
  obtain x s' where x: "sock_read ?k s = (x, s')" by (cases "sock_read ?k s")
  have r: "length (fr_header r) = 4" "fr_header_fill r = 4" "be_nat (fr_header r) = length (fr_body r)"
      "fr_body_fill r < length (fr_body r)" "length (fr_body r) \<le> MAX_FRAME_PAYLOAD" "0 < ?k"
    using assms by (auto simp: reader_ok_def)
  note c = sock_read_clean [OF assms(2) x r(6)]
  have pend: "pending_bytes r = fr_header r @ take (fr_body_fill r) (fr_body r)"
    by (simp add: pending_bytes_def r)
  have hdr: "fr_header r = nat_be 4 (length (fr_body r))"
    using nat_be_be_nat [of "fr_header r"] r(1,3) by simp
  show ?thesis
  proof (cases x)
    case (ROk bs)
    show ?thesis
    proof (cases "bs = []")
      case True
      hence "cl" "sock_data s = []" using c ROk by auto
      moreover have "parse_frames cl (fr_header r @ take (fr_body_fill r) (fr_body r)) =
          ([], if cl then ClosedFatal TruncatedPayload else StillOpen)"
        by (rule parse_frames_body_end) (use r in auto)
      ultimately show ?thesis
        using True r ROk x pend
        by (auto simp: frame_reader_turn_def return_ok_def FRAME_HEADER_LEN_def)
    next
      case False
      let ?b = "write_at (fr_body_fill r) bs (fr_body r)" and ?m = "fr_body_fill r + length bs"
      have le: "?m \<le> length (fr_body r)" using c ROk r by auto
      note b = write_at_fill [OF le]
      have d: "pending_bytes r @ sock_data s = fr_header r @ take ?m ?b @ sock_data s'" "clean_script cl s'"
        using c ROk b pend by auto
      show ?thesis
      proof (cases "?m = length (fr_body r)")
        case True
        hence "take ?m ?b = ?b" using b(2) by simp
        hence "pending_bytes r @ sock_data s = frame_bytes ?b @ sock_data s'"
          using d(1) hdr b(2) by (simp add: frame_bytes_def)
        moreover have "valid_frame ?b" using r b(2) by (auto simp: valid_frame_def)
        ultimately show ?thesis using x ROk False r d(2) b(2) True
          by (simp add: frame_reader_turn_def FRAME_HEADER_LEN_def return_ok_def fr_reset_def reader_ok_def
              pending_bytes_def [of "r\<lparr>fr_header_fill := _, fr_body := _, fr_body_fill := _\<rparr>"])
      next
        case m: False
        hence "?m < length (fr_body r)" using le by simp
        thus ?thesis using x ROk False r d b m
          by (simp add: frame_reader_turn_def FRAME_HEADER_LEN_def turn_ok_def reader_ok_def
              pending_bytes_def [of "r\<lparr>fr_body := _, fr_body_fill := _\<rparr>"])
      qed
    qed
  qed (use c x assms pend r in \<open>auto simp: frame_reader_turn_def FRAME_HEADER_LEN_def return_ok_def turn_ok_def\<close>)
qed

lemma turn_spec:
  assumes "reader_ok r" "clean_script cl s"
  shows "case frame_reader_turn r s of Inl x \<Rightarrow> return_ok cl r s x | Inr (r', s') \<Rightarrow> turn_ok cl r s r' s'"
  using turn_header [OF assms] turn_body [OF assms] by blast

lemma poll_spec:
  assumes "reader_ok r" "clean_script cl s"
  shows "return_ok cl r s (frame_reader_poll r s)"
proof (rule poll_induct [where I = "\<lambda>r s. reader_ok r \<and> clean_script cl s"])
  fix r s x assume "reader_ok r \<and> clean_script cl s" "frame_reader_turn r s = Inl x"
  with turn_spec [of r cl s] show "return_ok cl r s x" by simp
next
  fix r s r' s' x assume "reader_ok r \<and> clean_script cl s" "frame_reader_turn r s = Inr (r', s')"
  with turn_spec [of r cl s] have "turn_ok cl r s r' s'" by simp
  thus "(reader_ok r' \<and> clean_script cl s') \<and> (return_ok cl r' s' x \<longrightarrow> return_ok cl r s x)"
    using return_ok_cont [of cl r s r' s' x] by (auto simp: turn_ok_def)
qed (use assms in simp)

text \<open>An open connection whose bytes end inside a frame stays open.\<close>

lemma parse_frames_still_open:
  assumes "reader_ok r"
  shows "parse_frames False (pending_bytes r) = ([], StillOpen)"
proof (cases "fr_header_fill r < 4")
  case True
  thus ?thesis using assms by (subst parse_frames.simps) (auto simp: pending_bytes_def reader_ok_def)
next
  case False
  have "parse_frames False (fr_header r @ take (fr_body_fill r) (fr_body r)) = ([], StillOpen)"
    using parse_frames_body_end [of "fr_header r" "take (fr_body_fill r) (fr_body r)" False] assms False
    by (auto simp: reader_ok_def)
  thus ?thesis using assms False by (simp add: pending_bytes_def reader_ok_def)
qed

lemma read_loop_parses:
  assumes "reader_ok r" "clean_script cl s"
  shows "read_frames_loop r s = parse_frames cl (pending_bytes r @ sock_data s)"
  using assms
proof (induction r s rule: read_frames_loop.induct)
  case (1 r s)
  obtain p r' s' where p: "frame_reader_poll r s = (p, r', s')" by (cases "frame_reader_poll r s")
  note ok = poll_spec [OF "1.prems", unfolded p return_ok_def, simplified]
  show ?case
  proof (cases p)
    case Pending
    show ?thesis
    proof (cases "s' = []")
      case True
      hence "reader_ok r'" "\<not> cl" "pending_bytes r @ sock_data s = pending_bytes r'"
        using ok Pending by (auto simp: turn_ok_def)
      thus ?thesis using p Pending True
        by (subst read_frames_loop.simps) (simp add: parse_frames_still_open)
    next
      case False
      with "1.IH"(1) [OF p [symmetric] Pending HOL.refl False] ok p Pending show ?thesis
        by (subst read_frames_loop.simps) (auto simp: turn_ok_def)
    qed
  next
    case (Frame f)
    with "1.IH"(2) [OF p [symmetric] Frame HOL.refl] ok p Frame show ?thesis
      by (subst read_frames_loop.simps) (auto simp: parse_frame_step)
  next
    case Eof
    thus ?thesis using ok p
      by (subst read_frames_loop.simps, subst parse_frames.simps) simp
  next
    case (Fatal e)
    thus ?thesis using ok p by (subst read_frames_loop.simps) simp
  qed
qed

lemma read_frames_parses:
  "clean_script cl s \<Longrightarrow> read_frames_until_closed s = parse_frames cl (sock_data s)"
  unfolding read_frames_until_closed_def
  by (subst read_loop_parses)
    (auto simp: reader_ok_def frame_reader_new_def pending_bytes_def)

lemma encode_frame_bytes:
  "encode_frame f = (if length f > MAX_FRAME_PAYLOAD then Inl (PayloadTooLarge (length f)) else Inr (frame_bytes f))"
  by (simp add: encode_frame_def frame_bytes_def)

text \<open>The frame format is a self-delimiting code: what one frame is decoded to does not depend on
  what follows.\<close>

definition take_frame :: "byte list \<Rightarrow> (byte list \<times> byte list) option" where
  "take_frame d = (if complete_frame d
     then Some (take (be_nat (take 4 d)) (drop 4 d), drop (4 + be_nat (take 4 d)) d) else None)"

interpretation framecode: prefix_codec frame_bytes take_frame valid_frame
  by unfold_locales
    (auto simp: take_frame_def complete_frame_def frame_bytes_def frame_header_be valid_frame_def)

lemma parse_frames_complete:
  assumes "list_all valid_frame fs"
  shows "parse_frames cl (concat (map frame_bytes fs)) = (fs, if cl then ClosedEof else StillOpen)"
proof -
  have "parse_frames cl [] = ([], if cl then ClosedEof else StillOpen)"
    by (subst parse_frames.simps) simp
  thus ?thesis using parse_frames_concat [OF assms, of cl "[]"] by simp
qed

lemma encoded_frames:
  assumes "map encode_frame fs = map Inr ws" "[] \<notin> set fs"
  shows "list_all valid_frame fs \<and> concat ws = concat (map frame_bytes fs)"
  using assms
proof (induction fs arbitrary: ws)
  case (Cons f fs)
  then obtain w ws' where ws: "ws = w # ws'" by (cases ws) auto
  have f: "length f \<le> MAX_FRAME_PAYLOAD" "w = frame_bytes f"
    using Cons.prems ws by (auto simp: encode_frame_bytes split: if_splits)
  have "1 \<le> length f" using Cons.prems by (cases f) auto
  thus ?case using Cons.IH [of ws'] Cons.prems ws f by (auto simp: valid_frame_def)
qed simp

text \<open>C22: the incremental reader is the reference parser: whatever segments the bytes of a connection
  arrive in and wherever the read timeouts fall, the frames pushed and the way the connection ends
  are those of the whole byte stream. The frames pushed are the decoding of a prefix of the stream,
  each of 1 to 16384 bytes, and the end is reported as clean only when nothing is left over.\<close>

theorem tcp_reader_parses:
  assumes "clean_script cl s" "read_frames_until_closed s = (fs, e)"
  shows "(fs, e) = parse_frames cl (sock_data s)
    \<and> list_all valid_frame fs
    \<and> (\<exists>rest. sock_data s = concat (map frame_bytes fs) @ rest \<and> take_frame rest = None
          \<and> (e = ClosedEof \<longrightarrow> cl \<and> rest = []))"
proof (intro conjI)
  show eq: "(fs, e) = parse_frames cl (sock_data s)"
    using read_frames_parses [OF assms(1)] assms(2) by simp
  obtain rest where fs: "list_all valid_frame fs" and rest: "sock_data s = concat (map frame_bytes fs) @ rest"
    "parse_frames cl rest = ([], e)"
    using parse_frames_prefix [OF eq [symmetric]] by blast
  show "list_all valid_frame fs" by (rule fs)
  have "\<not> complete_frame rest"
    using parse_frames_go [of rest cl] rest(2) by (auto split: prod.splits)
  moreover have "cl \<and> rest = []" if "e = ClosedEof"
    using rest(2) that by (subst (asm) parse_frames.simps) (auto simp: Let_def split: if_splits prod.splits)
  ultimately show "\<exists>rest. sock_data s = concat (map frame_bytes fs) @ rest \<and> take_frame rest = None
      \<and> (e = ClosedEof \<longrightarrow> cl \<and> rest = [])"
    using rest(1) by (auto simp: take_frame_def)
qed

lemma tcp_reader_parses_witness:
  "parse_frames True [0, 0, 0, 1, 7, 0, 0] = ([[7]], ClosedFatal TruncatedHeader)"
proof -
  have "read_frames_until_closed [SData [0, 0], SBlock, SData [0, 1, 7, 0], SData [0], SEof]
      = ([[7]], ClosedFatal TruncatedHeader)"
    by code_simp
  from tcp_reader_parses [OF _ this, of True] show ?thesis by simp
qed

text \<open>What one side encodes the other side reads: any sequence of payloads accepted by
  \<open>encode_frame\<close> (none empty) is received unchanged and in order whatever the segmentation, the
  connection is then idle or cleanly closed, and a stream cut inside the next frame delivers the same
  payloads and is reported as truncated.\<close>

theorem tcp_stream_roundtrip:
  assumes "map encode_frame fs = map Inr ws" "[] \<notin> set fs" "clean_script cl s"
  shows "(sock_data s = concat ws \<longrightarrow>
           read_frames_until_closed s = (fs, if cl then ClosedEof else StillOpen))
    \<and> (\<forall>f k. valid_frame f \<longrightarrow> 0 < k \<longrightarrow> k < 4 + length f \<longrightarrow> cl \<longrightarrow>
           sock_data s = concat ws @ take k (frame_bytes f) \<longrightarrow>
           read_frames_until_closed s =
             (fs, ClosedFatal (if k < 4 then TruncatedHeader else TruncatedPayload)))"
proof (intro conjI impI allI)
  note v = encoded_frames [OF assms(1,2)]
  show "read_frames_until_closed s = (fs, if cl then ClosedEof else StillOpen)" if "sock_data s = concat ws"
    using read_frames_parses [OF assms(3)] that v parse_frames_complete [of fs cl] by simp
  fix f k assume f: "valid_frame f" "0 < k" "k < 4 + length f" "cl"
    and d: "sock_data s = concat ws @ take k (frame_bytes f)"
  have "parse_frames True (take k (frame_bytes f)) =
      ([], ClosedFatal (if k < 4 then TruncatedHeader else TruncatedPayload))"
  proof (cases "k < 4")
    case True
    moreover have "nat_be 4 (length f) \<noteq> []"
      by (rule notI) (use length_nat_be [of 4 "length f"] in simp)
    ultimately show ?thesis using parse_frames_header_end [of "take k (frame_bytes f)"] f
      by (auto simp: frame_bytes_def)
  next
    case False
    have "take k (frame_bytes f) = nat_be 4 (length f) @ take (k - 4) f"
      using False by (simp add: frame_bytes_def)
    thus ?thesis using parse_frames_body_end [of "nat_be 4 (length f)" "take (k - 4) f" True] f False
      by (auto simp: valid_frame_def frame_header_be)
  qed
  thus "read_frames_until_closed s = (fs, ClosedFatal (if k < 4 then TruncatedHeader else TruncatedPayload))"
    using read_frames_parses [OF assms(3)] d v f(4) parse_frames_concat [of fs cl] by auto
qed

lemma tcp_stream_roundtrip_witness:
  "read_frames_until_closed [SData [0, 0, 0], SBlock, SData [2, 5, 6, 0, 0, 0], SBlock, SData [1], SData [9], SEof]
     = ([[5, 6], [9]], ClosedEof)"
proof -
  have "map encode_frame [[5, 6], [9]] = map Inr [[0, 0, 0, 2, 5, 6], [0, 0, 0, 1, 9]]" by code_simp
  from tcp_stream_roundtrip [OF this, of True] show ?thesis by simp
qed

section \<open>The transport: queues, counters, admission\<close>

text \<open>Durations are in milliseconds, socket addresses are their text.\<close>

record transport_config =
  tc_listen :: "string option"
  tc_peers :: "string list"
  tc_max_connections :: nat
  tc_reconnect_interval :: nat
  tc_connect_timeout :: nat
  tc_socket_timeout :: nat
  tc_queue_capacity :: nat

definition DEFAULT_MAX_CONNECTIONS :: nat where "DEFAULT_MAX_CONNECTIONS = 32"
definition DEFAULT_QUEUE_CAPACITY :: nat where "DEFAULT_QUEUE_CAPACITY = 256"
definition MAX_CONSECUTIVE_ACCEPT_ERRORS :: nat where "MAX_CONSECUTIVE_ACCEPT_ERRORS = 32"

definition transport_config_default :: transport_config where
  "transport_config_default = \<lparr>tc_listen = None, tc_peers = [], tc_max_connections = DEFAULT_MAX_CONNECTIONS,
     tc_reconnect_interval = 2000, tc_connect_timeout = 3000, tc_socket_timeout = 30000,
     tc_queue_capacity = DEFAULT_QUEUE_CAPACITY\<rparr>"

record inbound_frame =
  if_peer_key :: string
  if_payload :: "byte list"

record transport_stats =
  ts_frames_sent :: u64
  ts_frames_received :: u64
  ts_dropped_inbound :: u64
  ts_dropped_outbound :: u64
  ts_refused_busy :: u64
  ts_reconnect_attempts :: u64
  ts_protocol_violations :: u64

definition stats_default :: transport_stats where
  "stats_default = \<lparr>ts_frames_sent = 0, ts_frames_received = 0, ts_dropped_inbound = 0,
     ts_dropped_outbound = 0, ts_refused_busy = 0, ts_reconnect_attempts = 0, ts_protocol_violations = 0\<rparr>"

record transport =
  tr_stop :: bool
  tr_config :: transport_config
  tr_listener_addr :: "string option"
  tr_inbound :: "inbound_frame list"
  tr_outbound :: "string \<Rightarrow> byte list list option"
  tr_dial_targets :: "string list"
  tr_active_conns :: nat
  tr_stats :: transport_stats

definition transport_new :: "transport_config \<Rightarrow> transport" where
  "transport_new c = \<lparr>tr_stop = False, tr_config = c, tr_listener_addr = None, tr_inbound = [],
     tr_outbound = (\<lambda>_. None), tr_dial_targets = [], tr_active_conns = 0, tr_stats = stats_default\<rparr>"

text \<open>\<open>entry(key).or_default()\<close>\<close>

definition out_queue :: "transport \<Rightarrow> string \<Rightarrow> byte list list" where
  "out_queue t k = (case tr_outbound t k of Some q \<Rightarrow> q | None \<Rightarrow> [])"

text \<open>\<open>add_peer\<close>: the flag says whether the dial thread could be started.\<close>

definition add_peer :: "bool \<Rightarrow> string \<Rightarrow> transport \<Rightarrow> transport" where
  "add_peer spawned key t =
     (if key \<in> set (tr_dial_targets t) then t
      else
        let t1 = t\<lparr>tr_dial_targets := tr_dial_targets t @ [key]\<rparr>;
            t2 = t1\<lparr>tr_outbound := (tr_outbound t1)(key := Some (out_queue t1 key))\<rparr>
        in if spawned then t2 else t2\<lparr>tr_dial_targets := removeAll key (tr_dial_targets t2)\<rparr>)"

text \<open>\<open>start\<close>: the address the bind resolved to, or its failure.\<close>

definition transport_start :: "(string \<Rightarrow> string option) \<Rightarrow> (string \<Rightarrow> bool) \<Rightarrow> transport \<Rightarrow> (string + unit) \<times> transport" where
  "transport_start bind spawned t =
     (case tc_listen (tr_config t) of
        None \<Rightarrow> (Inr (), fold (\<lambda>a. add_peer (spawned a) a) (tc_peers (tr_config t)) t)
      | Some a \<Rightarrow>
          (case bind a of
             None \<Rightarrow> (Inl ''tcp transport bind failed'', t)
           | Some effective \<Rightarrow>
               (Inr (), fold (\<lambda>a. add_peer (spawned a) a) (tc_peers (tr_config t))
                  (t\<lparr>tr_listener_addr := Some effective\<rparr>))))"

definition listen_addr :: "transport \<Rightarrow> string option" where
  "listen_addr t = tr_listener_addr t"

definition transport_stop :: "transport \<Rightarrow> transport" where
  "transport_stop t = t\<lparr>tr_stop := True\<rparr>"

text \<open>Strings are compared byte by byte.\<close>

fun string_le :: "string \<Rightarrow> string \<Rightarrow> bool" where
  "string_le [] _ = True"
| "string_le (c # cs) [] = False"
| "string_le (c # cs) (d # ds) =
     (of_char c < (of_char d :: nat) \<or> c = d \<and> string_le cs ds)"

fun insert_string :: "string \<Rightarrow> string list \<Rightarrow> string list" where
  "insert_string k [] = [k]"
| "insert_string k (x # xs) = (if string_le k x then k # x # xs else x # insert_string k xs)"

definition peer_keys :: "transport \<Rightarrow> string list" where
  "peer_keys t = foldr insert_string (tr_dial_targets t) []"

lemma set_insert_string [simp]: "set (insert_string k xs) = insert k (set xs)"
  by (induction xs) auto

lemma distinct_insert_string [simp]: "distinct (insert_string k xs) = (k \<notin> set xs \<and> distinct xs)"
  by (induction xs) auto

lemma set_peer_keys [simp]: "set (peer_keys t) = set (tr_dial_targets t)"
proof -
  have "set (foldr insert_string ks []) = set ks" for ks by (induction ks) auto
  thus ?thesis by (simp add: peer_keys_def)
qed

lemma distinct_peer_keys: "distinct (tr_dial_targets t) \<Longrightarrow> distinct (peer_keys t)"
proof -
  have "set (foldr insert_string ks []) = set ks" for ks by (induction ks) auto
  hence "distinct ks \<Longrightarrow> distinct (foldr insert_string ks [])" for ks by (induction ks) auto
  thus "distinct (tr_dial_targets t) \<Longrightarrow> distinct (peer_keys t)" by (simp add: peer_keys_def)
qed

text \<open>\<open>while queue.len() >= capacity { queue.pop_front(); dropped += 1 }\<close>. With capacity 0 the
  condition never becomes false, so the result is an option.\<close>

partial_function (option) make_room :: "nat \<Rightarrow> 'a list \<Rightarrow> u64 \<Rightarrow> ('a list \<times> u64) option" where
  "make_room capacity q dropped =
     (if length q \<ge> capacity then make_room capacity (tl q) (dropped + 1) else Some (q, dropped))"

declare make_room.simps [code]

lemma make_room_spec:
  "0 < capacity \<Longrightarrow>
     make_room capacity q d = Some (last_n (capacity - 1) q, d + of_nat (length q + 1 - capacity))"
proof (induction "length q" arbitrary: q d rule: less_induct)
  case less
  show ?case
  proof (cases "length q \<ge> capacity")
    case False
    thus ?thesis by (subst make_room.simps) simp
  next
    case True
    then obtain x xs where q: "q = x # xs" using less.prems by (cases q) auto
    have "length q + 1 - capacity = Suc (length xs + 1 - capacity)"
      using True q less.prems by auto
    moreover have "last_n (capacity - 1) q = last_n (capacity - 1) xs"
      using True q less.prems by (simp add: last_n_def Suc_diff_le)
    ultimately show ?thesis using True less.hyps [of xs "d + 1"] less.prems q
      by (subst make_room.simps) simp
  qed
qed

text \<open>With capacity 0 the loop never ends.\<close>

lemma make_room_some: "make_room c q d = Some y \<Longrightarrow> c \<noteq> 0"
  by (rule make_room.raw_induct [where P = "\<lambda>c q d y. c \<noteq> 0"]) (auto split: if_splits)

lemma make_room_zero: "make_room 0 q d = None"
  using make_room_some [of 0 q d] by (cases "make_room 0 q d") auto

definition enqueue_outbound ::
    "string \<Rightarrow> byte list \<Rightarrow> transport \<Rightarrow> ((tcp_error + unit) \<times> transport) option" where
  "enqueue_outbound key payload t =
     (if length payload > MAX_FRAME_PAYLOAD then Some (Inl (PayloadTooLarge (length payload)), t)
      else
        case make_room (tc_queue_capacity (tr_config t)) (out_queue t key) (ts_dropped_outbound (tr_stats t)) of
          None \<Rightarrow> None
        | Some (q, dropped) \<Rightarrow>
            Some (Inr (), t\<lparr>tr_outbound := (tr_outbound t)(key := Some (q @ [payload])),
                            tr_stats := (tr_stats t)\<lparr>ts_dropped_outbound := dropped\<rparr>\<rparr>))"

definition push_inbound :: "string \<Rightarrow> byte list \<Rightarrow> transport \<Rightarrow> transport option" where
  "push_inbound key payload t =
     (case make_room (tc_queue_capacity (tr_config t)) (tr_inbound t) (ts_dropped_inbound (tr_stats t)) of
        None \<Rightarrow> None
      | Some (q, dropped) \<Rightarrow>
          Some (t\<lparr>tr_inbound := q @ [\<lparr>if_peer_key = key, if_payload = payload\<rparr>],
                  tr_stats := (tr_stats t)\<lparr>ts_dropped_inbound := dropped,
                     ts_frames_received := ts_frames_received (tr_stats t) + 1\<rparr>\<rparr>))"

definition drain_inbound :: "transport \<Rightarrow> inbound_frame list \<times> transport" where
  "drain_inbound t = (tr_inbound t, t\<lparr>tr_inbound := []\<rparr>)"

text \<open>One connection from its first byte to the end of its script: every frame goes into the inbound
  queue, and any \<open>Fatal\<close> counts as a protocol violation.\<close>

fun push_frames :: "string \<Rightarrow> byte list list \<Rightarrow> transport \<Rightarrow> transport option" where
  "push_frames key [] t = Some t"
| "push_frames key (f # fs) t = (case push_inbound key f t of None \<Rightarrow> None | Some t' \<Rightarrow> push_frames key fs t')"

definition serve_connection :: "string \<Rightarrow> sock_event list \<Rightarrow> transport \<Rightarrow> transport option" where
  "serve_connection key s t =
     (if tr_stop t then Some t
      else case read_frames_until_closed s of
        (fs, e) \<Rightarrow>
          (case push_frames key fs t of
             None \<Rightarrow> None
           | Some t' \<Rightarrow>
               Some (case e of
                 ClosedFatal _ \<Rightarrow> t'\<lparr>tr_stats := (tr_stats t')\<lparr>ts_protocol_violations :=
                                     ts_protocol_violations (tr_stats t') + 1\<rparr>\<rparr>
               | _ \<Rightarrow> t')))"

text \<open>The writer of a connection: it takes the front frame under the lock, writes it without the lock,
  and either counts it or puts it back at the front.\<close>

definition writer_pop :: "string \<Rightarrow> transport \<Rightarrow> byte list option \<times> transport" where
  "writer_pop key t =
     (case tr_outbound t key of
        Some (p # q) \<Rightarrow> (Some p, t\<lparr>tr_outbound := (tr_outbound t)(key := Some q)\<rparr>)
      | _ \<Rightarrow> (None, t))"

datatype write_outcome = EncodeFailed | Written "byte list" | Requeued

definition writer_write :: "string \<Rightarrow> byte list \<Rightarrow> bool \<Rightarrow> transport \<Rightarrow> write_outcome \<times> transport" where
  "writer_write key payload write_ok t =
     (case encode_frame payload of
        Inl e \<Rightarrow> (EncodeFailed, t)
      | Inr frame \<Rightarrow>
          if write_ok then
            (Written frame, t\<lparr>tr_stats := (tr_stats t)\<lparr>ts_frames_sent := ts_frames_sent (tr_stats t) + 1\<rparr>\<rparr>)
          else (Requeued, t\<lparr>tr_outbound := (tr_outbound t)(key := Some (payload # out_queue t key))\<rparr>))"

lemma enqueue_spec:
  assumes "0 < tc_queue_capacity (tr_config t)" "length p \<le> MAX_FRAME_PAYLOAD"
  shows "\<exists>t'. enqueue_outbound k p t = Some (Inr (), t')
    \<and> out_queue t' k = last_n (tc_queue_capacity (tr_config t) - 1) (out_queue t k) @ [p]
    \<and> (\<forall>j. j \<noteq> k \<longrightarrow> out_queue t' j = out_queue t j)
    \<and> tr_config t' = tr_config t \<and> tr_dial_targets t' = tr_dial_targets t"
  using assms by (auto simp: enqueue_outbound_def make_room_spec out_queue_def)

lemma enqueue_too_large:
  "length p > MAX_FRAME_PAYLOAD \<Longrightarrow> enqueue_outbound k p t = Some (Inl (PayloadTooLarge (length p)), t)"
  by (simp add: enqueue_outbound_def)

text \<open>Both queues are drop-oldest buffers.\<close>

definition queue_push :: "nat \<Rightarrow> 'a \<Rightarrow> 'a list \<Rightarrow> 'a list" where
  "queue_push cap x q = last_n (cap - 1) q @ [x]"

interpretation tcpq: drop_oldest "queue_push (Suc c)" "\<lambda>q. q" "Suc c" for c
proof
  fix q :: "'a list" and x
  show "length q \<le> Suc c \<Longrightarrow> length (queue_push (Suc c) x q) \<le> Suc c" by (simp add: queue_push_def)
  show "set (queue_push (Suc c) x q) \<subseteq> insert x (set q)" using set_last_n [of c q] by (auto simp: queue_push_def)
  show "length q \<le> Suc c \<Longrightarrow> queue_push (Suc c) x q = last_n (Suc c) (q @ [x])"
    by (auto simp: queue_push_def last_n_def)
qed

lemma push_inbound_spec:
  assumes "0 < tc_queue_capacity (tr_config t)"
  shows "\<exists>t'. push_inbound k p t = Some t'
    \<and> tr_inbound t' = queue_push (tc_queue_capacity (tr_config t)) \<lparr>if_peer_key = k, if_payload = p\<rparr> (tr_inbound t)
    \<and> tr_config t' = tr_config t
    \<and> ts_frames_received (tr_stats t') = ts_frames_received (tr_stats t) + 1
    \<and> ts_protocol_violations (tr_stats t') = ts_protocol_violations (tr_stats t)"
  using assms by (auto simp: push_inbound_def make_room_spec queue_push_def)

lemma push_frames_spec:
  assumes "0 < tc_queue_capacity (tr_config t)"
  shows "\<exists>t'. push_frames k fs t = Some t'
    \<and> tr_inbound t' = fold (queue_push (tc_queue_capacity (tr_config t)))
         (map (\<lambda>p. \<lparr>if_peer_key = k, if_payload = p\<rparr>) fs) (tr_inbound t)
    \<and> tr_config t' = tr_config t
    \<and> ts_frames_received (tr_stats t') = ts_frames_received (tr_stats t) + of_nat (length fs)
    \<and> ts_protocol_violations (tr_stats t') = ts_protocol_violations (tr_stats t)"
  using assms
proof (induction fs arbitrary: t)
  case (Cons f fs)
  obtain t1 where t1: "push_inbound k f t = Some t1"
    "tr_inbound t1 = queue_push (tc_queue_capacity (tr_config t)) \<lparr>if_peer_key = k, if_payload = f\<rparr> (tr_inbound t)"
    "tr_config t1 = tr_config t" "ts_frames_received (tr_stats t1) = ts_frames_received (tr_stats t) + 1"
    "ts_protocol_violations (tr_stats t1) = ts_protocol_violations (tr_stats t)"
    using push_inbound_spec [OF Cons.prems] by blast
  from Cons.IH [of t1] Cons.prems t1 show ?case by auto
qed simp

text \<open>End to end into the inbound queue. A connection on which a peer sends encoded frames and
  closes cleanly leaves in the queue exactly the last \<open>queue_capacity\<close> of what was there followed by
  all its frames in order, tagged with the peer; each frame is counted as received, no violation is
  counted, and draining hands them out and empties the queue.\<close>

theorem tcp_serve_connection:
  assumes "0 < tc_queue_capacity (tr_config t)" "length (tr_inbound t) \<le> tc_queue_capacity (tr_config t)"
    and "\<not> tr_stop t" "map encode_frame fs = map Inr ws" "[] \<notin> set fs"
    and "clean_script True s" "sock_data s = concat ws"
  shows "\<exists>t'. serve_connection k s t = Some t'
    \<and> fst (drain_inbound t') = last_n (tc_queue_capacity (tr_config t))
         (tr_inbound t @ map (\<lambda>p. \<lparr>if_peer_key = k, if_payload = p\<rparr>) fs)
    \<and> tr_inbound (snd (drain_inbound t')) = []
    \<and> ts_frames_received (tr_stats t') = ts_frames_received (tr_stats t) + of_nat (length fs)
    \<and> ts_protocol_violations (tr_stats t') = ts_protocol_violations (tr_stats t)"
proof -
  obtain c where c: "tc_queue_capacity (tr_config t) = Suc c" using assms(1) by (cases "tc_queue_capacity (tr_config t)") auto
  note v = encoded_frames [OF assms(4,5)]
  have r: "read_frames_until_closed s = (fs, ClosedEof)"
    using read_frames_parses [OF assms(6)] assms(7) v parse_frames_complete [of fs True] by simp
  obtain t' where t': "push_frames k fs t = Some t'"
    "tr_inbound t' = fold (queue_push (Suc c)) (map (\<lambda>p. \<lparr>if_peer_key = k, if_payload = p\<rparr>) fs) (tr_inbound t)"
    "ts_frames_received (tr_stats t') = ts_frames_received (tr_stats t) + of_nat (length fs)"
    "ts_protocol_violations (tr_stats t') = ts_protocol_violations (tr_stats t)"
    using push_frames_spec [OF assms(1), of k fs] c by auto
  have "tr_inbound t' = last_n (Suc c) (tr_inbound t @ map (\<lambda>p. \<lparr>if_peer_key = k, if_payload = p\<rparr>) fs)"
    unfolding t'(2) by (rule tcpq.run_last) (use assms(2) c in simp)
  thus ?thesis using r t' assms(3) c by (simp add: serve_connection_def drain_inbound_def)
qed

lemma tcp_serve_connection_witness:
  "\<exists>t'. serve_connection ''p'' [SData [0, 0, 0, 1], SBlock, SData [7], SEof] (transport_new transport_config_default) = Some t'
     \<and> fst (drain_inbound t') = [\<lparr>if_peer_key = ''p'', if_payload = [7]\<rparr>]"
proof -
  let ?t = "transport_new transport_config_default"
  have t: "0 < tc_queue_capacity (tr_config ?t)" "length (tr_inbound ?t) \<le> tc_queue_capacity (tr_config ?t)" "\<not> tr_stop ?t"
    "1 \<le> tc_queue_capacity (tr_config ?t)" "tr_inbound ?t = []"
    by (simp_all add: transport_new_def transport_config_default_def DEFAULT_QUEUE_CAPACITY_def)
  have e: "map encode_frame [[7]] = map Inr [[0, 0, 0, 1, 7]]" by code_simp
  show ?thesis
    using tcp_serve_connection [OF t(1-3) e, of "[SData [0, 0, 0, 1], SBlock, SData [7], SEof]" "''p''"] t(4,5) by auto
qed

subsection \<open>Outbound frames with any number of writers\<close>

text \<open>Payloads are queued for a peer while up to \<open>w\<close> writer threads (an old connection's writer may
  outlive it) pop, write and put back. The run keeps what was accepted for the peer, what the full
  queue dropped, what is in the hands of a writer and the frames written.\<close>

datatype out_op = OEnqueue "byte list" | OPop | OWrite nat bool

record out_run =
  or_t :: transport
  or_accepted :: "byte list list"
  or_dropped :: "byte list list"
  or_inflight :: "byte list list"
  or_written :: "byte list list"

fun out_step :: "nat \<Rightarrow> string \<Rightarrow> out_op \<Rightarrow> out_run \<Rightarrow> out_run" where
  "out_step w k (OEnqueue p) r =
     (case enqueue_outbound k p (or_t r) of
        Some (Inr _, t') \<Rightarrow>
          r\<lparr>or_t := t', or_accepted := or_accepted r @ [p],
            or_dropped := or_dropped r @
              take (length (out_queue (or_t r) k) + 1 - tc_queue_capacity (tr_config (or_t r))) (out_queue (or_t r) k)\<rparr>
      | _ \<Rightarrow> r)"
| "out_step w k OPop r =
     (if length (or_inflight r) < w then
        (case writer_pop k (or_t r) of
           (Some p, t') \<Rightarrow> r\<lparr>or_t := t', or_inflight := or_inflight r @ [p]\<rparr>
         | (None, t') \<Rightarrow> r\<lparr>or_t := t'\<rparr>)
      else r)"
| "out_step w k (OWrite i ok) r =
     (if i < length (or_inflight r) then
        (case writer_write k (or_inflight r ! i) ok (or_t r) of
           (Written f, t') \<Rightarrow> r\<lparr>or_t := t', or_inflight := remove_nth i (or_inflight r), or_written := or_written r @ [f]\<rparr>
         | (_, t') \<Rightarrow> r\<lparr>or_t := t', or_inflight := remove_nth i (or_inflight r)\<rparr>)
      else r)"

definition out_init :: "transport_config \<Rightarrow> out_run" where
  "out_init c = \<lparr>or_t = transport_new c, or_accepted = [], or_dropped = [], or_inflight = [], or_written = []\<rparr>"

definition out_inv :: "nat \<Rightarrow> string \<Rightarrow> transport_config \<Rightarrow> out_run \<Rightarrow> bool" where
  "out_inv w k c r \<longleftrightarrow> tr_config (or_t r) = c
     \<and> mset (map frame_bytes (or_accepted r)) =
         mset (or_written r) + mset (map frame_bytes (or_dropped r @ or_inflight r @ out_queue (or_t r) k))
     \<and> (\<forall>p\<in>set (or_inflight r @ out_queue (or_t r) k). length p \<le> MAX_FRAME_PAYLOAD)
     \<and> length (or_inflight r) \<le> w
     \<and> length (out_queue (or_t r) k) + length (or_inflight r) \<le> tc_queue_capacity c + w
     \<and> (or_dropped r \<noteq> [] \<longrightarrow> length (or_accepted r) > tc_queue_capacity c)
     \<and> ts_dropped_outbound (tr_stats (or_t r)) = of_nat (length (or_dropped r))
     \<and> ts_frames_sent (tr_stats (or_t r)) = of_nat (length (or_written r))
     \<and> (w = 1 \<longrightarrow> subseq (or_written r @ map frame_bytes (or_inflight r @ out_queue (or_t r) k))
                        (map frame_bytes (or_accepted r)))"

lemma out_queue_pop:
  "writer_pop k t = (Some p, t') \<Longrightarrow> out_queue t k = p # out_queue t' k \<and> tr_config t' = tr_config t \<and> tr_stats t' = tr_stats t"
  by (auto simp: writer_pop_def out_queue_def split: option.splits list.splits)

lemma writer_pop_none: "writer_pop k t = (None, t') \<Longrightarrow> t' = t"
  by (auto simp: writer_pop_def split: option.splits list.splits)

lemma enqueue_full_spec:
  assumes "enqueue_outbound k p t = Some (Inr u, t')"
  shows "length p \<le> MAX_FRAME_PAYLOAD \<and> 0 < tc_queue_capacity (tr_config t)
    \<and> out_queue t' k = last_n (tc_queue_capacity (tr_config t) - 1) (out_queue t k) @ [p]
    \<and> tr_config t' = tr_config t
    \<and> tr_stats t' = (tr_stats t)\<lparr>ts_dropped_outbound := ts_dropped_outbound (tr_stats t)
         + of_nat (length (out_queue t k) + 1 - tc_queue_capacity (tr_config t))\<rparr>"
proof -
  obtain q d where m: "make_room (tc_queue_capacity (tr_config t)) (out_queue t k) (ts_dropped_outbound (tr_stats t)) = Some (q, d)"
    and le: "length p \<le> MAX_FRAME_PAYLOAD"
    using assms by (auto simp: enqueue_outbound_def split: if_splits option.splits)
  have pos: "0 < tc_queue_capacity (tr_config t)" using make_room_some [OF m] by simp
  show ?thesis using assms le pos
    by (auto simp: enqueue_outbound_def make_room_spec [OF pos] out_queue_def)
qed

lemma out_inv_enqueue:
  assumes "out_inv w k c r"
  shows "out_inv w k c (out_step w k (OEnqueue p) r)"
proof (cases "\<exists>t'. enqueue_outbound k p (or_t r) = Some (Inr (), t')")
  case False
  hence "out_step w k (OEnqueue p) r = r" by (auto split: option.split prod.split sum.split)
  thus ?thesis using assms by simp
next
  case True
  then obtain t' where t': "enqueue_outbound k p (or_t r) = Some (Inr (), t')" by blast
  let ?q = "out_queue (or_t r) k" and ?cap = "tc_queue_capacity c"
  let ?n = "length ?q + 1 - ?cap"
  have cfg: "tr_config (or_t r) = c" using assms by (simp add: out_inv_def)
  note e = enqueue_full_spec [OF t', unfolded cfg]
  have split: "?q = take ?n ?q @ last_n (?cap - 1) ?q"
  proof -
    have "length ?q - (?cap - 1) = ?n \<or> length ?q < ?cap" using e by auto
    thus ?thesis by (auto simp: last_n_def)
  qed
  have acc: "mset (map frame_bytes (or_accepted r)) =
         mset (or_written r) + mset (map frame_bytes (or_dropped r @ or_inflight r @ ?q))"
    using assms by (simp add: out_inv_def)
  from arg_cong [OF this, of size]
  have "length (or_accepted r) = length (or_written r) + length (or_dropped r) + length (or_inflight r) + length ?q"
    by simp
  moreover have "take ?n ?q \<noteq> [] \<Longrightarrow> length ?q \<ge> ?cap" by (cases "length ?q \<ge> ?cap") auto
  ultimately have drop: "or_dropped r @ take ?n ?q \<noteq> [] \<Longrightarrow> length (or_accepted r @ [p]) > ?cap"
    using assms by (auto simp: out_inv_def)
  have m: "mset (map frame_bytes ?q) = mset (map frame_bytes (take ?n ?q)) + mset (map frame_bytes (last_n (?cap - 1) ?q))"
    by (metis split map_append mset_append)
  have sub: "subseq (or_written r @ map frame_bytes (or_inflight r @ last_n (?cap - 1) ?q))
      (or_written r @ map frame_bytes (or_inflight r @ ?q))"
    unfolding map_append
    by (intro list_emb_append_mono subseq_order.order_refl subseq_map suffix_imp_subseq last_n_suffix)
  have step: "out_step w k (OEnqueue p) r = r\<lparr>or_t := t', or_accepted := or_accepted r @ [p],
      or_dropped := or_dropped r @ take ?n ?q\<rparr>"
    using t' cfg by simp
  have len: "length (out_queue t' k) \<le> ?cap" using e by (auto simp: min_def)
  have nlen: "length (take ?n ?q) = ?n" using e by auto
  have fifo: "subseq (or_written r @ map frame_bytes (or_inflight r @ out_queue t' k)) (map frame_bytes (or_accepted r @ [p]))"
    if "w = 1"
  proof -
    have "subseq (or_written r @ map frame_bytes (or_inflight r @ last_n (?cap - 1) ?q)) (map frame_bytes (or_accepted r))"
      using sub assms that subseq_order.order_trans unfolding out_inv_def by blast
    from list_emb_append_mono [OF this subseq_order.order_refl [of "[frame_bytes p]"]] e show ?thesis by simp
  qed
  have macc: "mset (map frame_bytes (or_accepted r @ [p])) = mset (or_written r)
      + mset (map frame_bytes ((or_dropped r @ take ?n ?q) @ or_inflight r @ out_queue t' k))"
    using acc m e by (simp add: ac_simps)
  have small: "\<forall>x\<in>set (or_inflight r @ out_queue t' k). length x \<le> MAX_FRAME_PAYLOAD"
    using assms e set_last_n [of "?cap - 1" ?q] by (auto simp: out_inv_def)
  have "or_dropped r @ take ?n ?q \<noteq> [] \<longrightarrow> length (or_accepted r @ [p]) > ?cap"
    using drop by blast
  thus ?thesis unfolding step out_inv_def
    using assms e len fifo macc small nlen by (simp add: out_inv_def del: length_take append_is_Nil_conv)
qed

lemma out_inv_pop:
  assumes "out_inv w k c r"
  shows "out_inv w k c (out_step w k OPop r)"
proof (cases "length (or_inflight r) < w")
  case True
  show ?thesis
  proof (cases "writer_pop k (or_t r)")
    case (Pair x t')
    show ?thesis
    proof (cases x)
      case None
      thus ?thesis using Pair assms True writer_pop_none by fastforce
    next
      case (Some p)
      with Pair have "writer_pop k (or_t r) = (Some p, t')" by simp
      note q = out_queue_pop [OF this]
      have step: "out_step w k OPop r = r\<lparr>or_t := t', or_inflight := or_inflight r @ [p]\<rparr>"
        using Pair Some True by simp
      show ?thesis unfolding step
        using assms q True by (auto simp: out_inv_def)
    qed
  qed
qed (use assms in simp)

lemma frame_of_payload: "length p \<le> MAX_FRAME_PAYLOAD \<Longrightarrow> encode_frame p = Inr (frame_bytes p)"
  by (simp add: encode_frame_bytes)

lemma out_inv_write:
  assumes "out_inv w k c r"
  shows "out_inv w k c (out_step w k (OWrite i ok) r)"
proof (cases "i < length (or_inflight r)")
  case True
  let ?p = "or_inflight r ! i" and ?rest = "remove_nth i (or_inflight r)"
  have p: "?p \<in> set (or_inflight r)" using True by simp
  hence enc: "encode_frame ?p = Inr (frame_bytes ?p)"
    using assms by (simp add: out_inv_def frame_of_payload)
  have m: "mset (or_inflight r) = add_mset ?p (mset ?rest)" by (rule mset_remove_nth [OF True, symmetric])
  have l: "length ?rest = length (or_inflight r) - 1" by (rule length_remove_nth [OF True])
  have s: "set ?rest \<subseteq> set (or_inflight r)" by (rule set_remove_nth)
  have one: "map frame_bytes (or_inflight r) = [frame_bytes ?p] \<and> ?rest = []" if "w = Suc 0"
    using that assms True by (cases "or_inflight r") (auto simp: out_inv_def remove_nth_def)
  show ?thesis
  proof (cases ok)
    case True
    have step: "out_step w k (OWrite i ok) r = r\<lparr>or_t := (or_t r)\<lparr>tr_stats := (tr_stats (or_t r))\<lparr>ts_frames_sent :=
        ts_frames_sent (tr_stats (or_t r)) + 1\<rparr>\<rparr>, or_inflight := ?rest, or_written := or_written r @ [frame_bytes ?p]\<rparr>"
      using True \<open>i < _\<close> enc by (simp add: writer_write_def)
    show ?thesis unfolding step
      using assms m l s \<open>i < _\<close> one by (auto simp: out_inv_def out_queue_def)
  next
    case False
    let ?t = "(or_t r)\<lparr>tr_outbound := (tr_outbound (or_t r))(k := Some (?p # out_queue (or_t r) k))\<rparr>"
    have step: "out_step w k (OWrite i ok) r = r\<lparr>or_t := ?t, or_inflight := ?rest\<rparr>"
      using False \<open>i < _\<close> enc by (simp add: writer_write_def)
    have q: "out_queue ?t k = ?p # out_queue (or_t r) k" by (simp add: out_queue_def)
    show ?thesis unfolding step
      using assms m l s \<open>i < _\<close> one p q by (auto simp: out_inv_def)
  qed
qed (use assms in simp)

interpretation outm: guarded_machine "out_step w k" "out_inv w k c" "\<lambda>_. True" for w k c
proof
  fix r i assume "out_inv w k c r"
  thus "out_inv w k c (out_step w k i r)"
    by (cases i) (simp_all only: out_inv_enqueue out_inv_pop out_inv_write)
qed

lemma out_inv_init: "out_inv w k c (out_init c)"
  by (simp add: out_inv_def out_init_def transport_new_def out_queue_def stats_default_def)

text \<open>C17: no frame is lost, duplicated or invented on the way out. In any interleaving of
  \<open>enqueue_outbound\<close> with up to \<open>w\<close> writer threads whose writes succeed or fail, every accepted
  payload is exactly once either written as a frame, dropped by a full queue, in the hands of a writer or
  still queued; the two counters agree with that; nothing is dropped before more than
  \<open>queue_capacity\<close> payloads were accepted; the queue never exceeds the capacity by more than the
  \<open>w\<close> frames writers may put back; and with one writer the frames leave in the order they were
  accepted.\<close>

theorem tcp_outbound_accounting:
  assumes "r = fold (out_step w k) ops (out_init c)"
  shows "mset (map frame_bytes (or_accepted r)) =
      mset (or_written r) + mset (map frame_bytes (or_dropped r @ or_inflight r @ out_queue (or_t r) k))
    \<and> ts_frames_sent (tr_stats (or_t r)) = of_nat (length (or_written r))
    \<and> ts_dropped_outbound (tr_stats (or_t r)) = of_nat (length (or_dropped r))
    \<and> (or_dropped r \<noteq> [] \<longrightarrow> length (or_accepted r) > tc_queue_capacity c)
    \<and> length (out_queue (or_t r) k) \<le> tc_queue_capacity c + w
    \<and> (w = 1 \<longrightarrow> subseq (or_written r) (map frame_bytes (or_accepted r)))"
proof -
  have inv: "out_inv w k c r"
    unfolding assms by (rule outm.run_inv [OF out_inv_init]) (simp add: list_all_iff)
  have "subseq (or_written r) (map frame_bytes (or_accepted r))" if "w = 1"
  proof -
    have "subseq (or_written r @ map frame_bytes (or_inflight r @ out_queue (or_t r) k)) (map frame_bytes (or_accepted r))"
      using inv that by (simp add: out_inv_def)
    moreover have "subseq (or_written r) (or_written r @ map frame_bytes (or_inflight r @ out_queue (or_t r) k))"
      by (intro prefix_imp_subseq) simp
    ultimately show ?thesis using subseq_order.order_trans by blast
  qed
  with inv show ?thesis by (auto simp: out_inv_def)
qed

lemma tcp_outbound_accounting_witness:
  "subseq (or_written (fold (out_step 1 ''p'') [OEnqueue [1], OEnqueue [2], OPop, OWrite 0 False, OPop, OWrite 0 True]
       (out_init transport_config_default)))
     (map frame_bytes (or_accepted (fold (out_step 1 ''p'') [OEnqueue [1], OEnqueue [2], OPop, OWrite 0 False, OPop, OWrite 0 True]
       (out_init transport_config_default))))"
  by (rule tcp_outbound_accounting [OF HOL.refl, THEN conjunct2, THEN conjunct2, THEN conjunct2, THEN conjunct2, THEN conjunct2, THEN mp])
    simp

subsection \<open>Admission of connections\<close>

text \<open>One turn of \<open>accept_loop\<close>. Only this thread increments \<open>active_conns\<close>, before it compares; the
  serving threads only decrement. \<open>ac_serving\<close> counts the connections really being served.\<close>

datatype accept_event = Incoming bool | AcceptWouldBlock | AcceptFailed

record acceptor =
  ac_t :: transport
  ac_errors :: nat
  ac_alive :: bool
  ac_serving :: nat

definition accept_turn :: "accept_event \<Rightarrow> acceptor \<Rightarrow> acceptor" where
  "accept_turn ev a =
     (if \<not> ac_alive a then a
      else if tr_stop (ac_t a) then a\<lparr>ac_alive := False\<rparr>
      else case ev of
        Incoming spawned \<Rightarrow>
          let t = ac_t a in
          if tr_active_conns t \<ge> tc_max_connections (tr_config t) then
            a\<lparr>ac_errors := 0,
              ac_t := t\<lparr>tr_stats := (tr_stats t)\<lparr>ts_refused_busy := ts_refused_busy (tr_stats t) + 1\<rparr>\<rparr>\<rparr>
          else if spawned then
            a\<lparr>ac_errors := 0, ac_t := t\<lparr>tr_active_conns := tr_active_conns t + 1\<rparr>, ac_serving := ac_serving a + 1\<rparr>
          else a\<lparr>ac_errors := 0\<rparr>
      | AcceptWouldBlock \<Rightarrow> a
      | AcceptFailed \<Rightarrow>
          a\<lparr>ac_errors := ac_errors a + 1, ac_alive := ac_errors a + 1 < MAX_CONSECUTIVE_ACCEPT_ERRORS\<rparr>)"

text \<open>A served connection ends: its thread gives the slot back.\<close>

definition serve_end :: "acceptor \<Rightarrow> acceptor" where
  "serve_end a = (if ac_serving a = 0 then a
     else a\<lparr>ac_t := (ac_t a)\<lparr>tr_active_conns := tr_active_conns (ac_t a) - 1\<rparr>, ac_serving := ac_serving a - 1\<rparr>)"

datatype accept_step = AcceptTurn accept_event | ServeEnd

fun acceptor_step :: "accept_step \<Rightarrow> acceptor \<Rightarrow> acceptor" where
  "acceptor_step (AcceptTurn ev) a = accept_turn ev a"
| "acceptor_step ServeEnd a = serve_end a"

definition acceptor_init :: "transport_config \<Rightarrow> acceptor" where
  "acceptor_init c = \<lparr>ac_t = transport_new c, ac_errors = 0, ac_alive = True, ac_serving = 0\<rparr>"

definition acceptor_inv :: "transport_config \<Rightarrow> acceptor \<Rightarrow> bool" where
  "acceptor_inv c a \<longleftrightarrow> tr_config (ac_t a) = c \<and> tr_active_conns (ac_t a) = ac_serving a
     \<and> ac_serving a \<le> tc_max_connections c \<and> (ac_alive a \<longrightarrow> ac_errors a < MAX_CONSECUTIVE_ACCEPT_ERRORS)"

interpretation acceptm: guarded_machine acceptor_step "acceptor_inv c" "\<lambda>_. True" for c
proof
  fix a i assume "acceptor_inv c a"
  thus "acceptor_inv c (acceptor_step i a)"
    by (cases i)
      (auto simp: acceptor_inv_def accept_turn_def serve_end_def Let_def MAX_CONSECUTIVE_ACCEPT_ERRORS_def
        split: accept_event.split)
qed

text \<open>Admission. Whatever connections arrive and end in whatever order, the counter of active
  connections is exactly the number being served and never exceeds \<open>max_connections\<close>; a connection is
  refused, and counted as refused, exactly when the limit is reached; and with a live listener a new
  connection is served as soon as one slot is free.\<close>

theorem tcp_admission:
  assumes "a = fold acceptor_step steps (acceptor_init c)"
  shows "tr_active_conns (ac_t a) = ac_serving a \<and> ac_serving a \<le> tc_max_connections c
    \<and> (ac_alive a \<and> \<not> tr_stop (ac_t a) \<longrightarrow>
         (ac_serving (accept_turn (Incoming True) a) = ac_serving a + 1 \<longleftrightarrow> ac_serving a < tc_max_connections c)
       \<and> (ts_refused_busy (tr_stats (ac_t (accept_turn (Incoming True) a))) = ts_refused_busy (tr_stats (ac_t a)) + 1
            \<longleftrightarrow> ac_serving a = tc_max_connections c))"
proof -
  have "acceptor_inv c a"
    unfolding assms
    by (rule acceptm.run_inv)
      (simp_all add: acceptor_inv_def acceptor_init_def transport_new_def MAX_CONSECUTIVE_ACCEPT_ERRORS_def list_all_iff)
  thus ?thesis by (auto simp: acceptor_inv_def accept_turn_def Let_def)
qed

lemma tcp_admission_witness:
  "ac_serving (fold acceptor_step [AcceptTurn (Incoming True), AcceptTurn (Incoming True), ServeEnd]
     (acceptor_init (transport_config_default\<lparr>tc_max_connections := 1\<rparr>))) \<le> 1"
  using tcp_admission [OF HOL.refl, of "[AcceptTurn (Incoming True), AcceptTurn (Incoming True), ServeEnd]"
      "transport_config_default\<lparr>tc_max_connections := 1\<rparr>"] by simp

section \<open>Pumping the gossip outbox into the queues\<close>

definition PUMP_BATCH_MAX_EVENTS :: nat where "PUMP_BATCH_MAX_EVENTS = 64"

text \<open>The loop over a batch; the list is \<open>delivered_ids\<close>, the number \<open>frames_queued_outbound\<close>. A failed
  enqueue leaves the loop, an event that cannot be encoded is marked all the same.\<close>

fun flush_batch ::
    "crypto_env \<Rightarrow> string \<Rightarrow> mesh_event list \<Rightarrow> transport \<Rightarrow> string list \<Rightarrow> nat
      \<Rightarrow> (transport \<times> string list \<times> nat) option" where
  "flush_batch ce k [] t ids n = Some (t, ids, n)"
| "flush_batch ce k (e # es) t ids n =
     (case to_wire_bytes ce e of
        Inr bytes \<Rightarrow>
          (case enqueue_outbound k bytes t of
             None \<Rightarrow> None
           | Some (Inr _, t') \<Rightarrow> flush_batch ce k es t' (ids @ [ev_id e]) (n + 1)
           | Some (Inl _, t') \<Rightarrow> Some (t', ids, n))
      | Inl _ \<Rightarrow> flush_batch ce k es t (ids @ [ev_id e]) n)"

fun flush_peers ::
    "crypto_env \<Rightarrow> string list \<Rightarrow> gossip \<Rightarrow> transport \<Rightarrow> nat \<Rightarrow> (nat \<times> gossip \<times> transport) option" where
  "flush_peers ce [] g t n = Some (n, g, t)"
| "flush_peers ce (k # ks) g t n =
     (case peek_pending_for_peer k PUMP_BATCH_MAX_EVENTS g of
        (batch, g1) \<Rightarrow>
          if batch = [] then flush_peers ce ks g1 t n
          else case flush_batch ce k batch t [] n of
            None \<Rightarrow> None
          | Some (t', ids, n') \<Rightarrow> flush_peers ce ks (mark_delivered_to_peer k ids g1) t' n')"

definition flush_outbound :: "crypto_env \<Rightarrow> gossip \<Rightarrow> transport \<Rightarrow> (nat \<times> gossip \<times> transport) option" where
  "flush_outbound ce g t = flush_peers ce (peer_keys t) g t 0"

text \<open>What one pass does for one peer, as a function of the outbox.\<close>

definition passes :: "crypto_env \<Rightarrow> mesh_event \<Rightarrow> bool" where
  "passes ce e = (case to_wire_bytes ce e of Inl _ \<Rightarrow> True | Inr w \<Rightarrow> length w \<le> MAX_FRAME_PAYLOAD)"

definition wires :: "crypto_env \<Rightarrow> mesh_event list \<Rightarrow> byte list list" where
  "wires ce es = concat (map (\<lambda>e. case to_wire_bytes ce e of Inl _ \<Rightarrow> [] | Inr w \<Rightarrow> [w]) es)"

definition flushed :: "crypto_env \<Rightarrow> string \<Rightarrow> gossip \<Rightarrow> mesh_event list" where
  "flushed ce k g = takeWhile (passes ce)
     (take PUMP_BATCH_MAX_EVENTS (filter (\<lambda>e. ev_id e \<notin> set (delivered_to g k)) (gp_pending g)))"

lemma flush_batch_spec:
  assumes "0 < tc_queue_capacity (tr_config t)"
  shows "\<exists>t'. flush_batch ce k es t ids n =
      Some (t', ids @ map ev_id (takeWhile (passes ce) es), n + length (wires ce (takeWhile (passes ce) es)))
    \<and> out_queue t' k = fold (queue_push (tc_queue_capacity (tr_config t))) (wires ce (takeWhile (passes ce) es)) (out_queue t k)
    \<and> (\<forall>j. j \<noteq> k \<longrightarrow> out_queue t' j = out_queue t j) \<and> tr_config t' = tr_config t"
  using assms
proof (induction es arbitrary: t ids n)
  case Nil
  thus ?case by (simp add: wires_def)
next
  case (Cons e es)
  show ?case
  proof (cases "to_wire_bytes ce e")
    case (Inl err)
    thus ?thesis using Cons.IH [OF Cons.prems, of "ids @ [ev_id e]" n] by (simp add: wires_def passes_def)
  next
    case (Inr w)
    show ?thesis
    proof (cases "length w \<le> MAX_FRAME_PAYLOAD")
      case True
      obtain t1 where t1: "enqueue_outbound k w t = Some (Inr (), t1)"
        "out_queue t1 k = queue_push (tc_queue_capacity (tr_config t)) w (out_queue t k)"
        "\<forall>j. j \<noteq> k \<longrightarrow> out_queue t1 j = out_queue t j" "tr_config t1 = tr_config t"
        using enqueue_spec [OF Cons.prems True] by (auto simp: queue_push_def)
      with Cons.IH [of t1 "ids @ [ev_id e]" "Suc n"] Cons.prems Inr True show ?thesis
        by (auto simp: wires_def passes_def)
    next
      case False
      thus ?thesis using Inr by (simp add: passes_def wires_def enqueue_too_large)
    qed
  qed
qed

lemma flushed_state_cong:
  assumes "gp_pending g' = gp_pending g" "delivered_to g' k = delivered_to g k"
  shows "flushed ce k g' = flushed ce k g"
  using assms by (simp add: flushed_def)

lemma flush_peers_spec:
  assumes "0 < tc_queue_capacity (tr_config t)" "distinct ks"
  shows "\<exists>n' g' t'. flush_peers ce ks g t n = Some (n', g', t')
    \<and> n' = n + (\<Sum>k\<leftarrow>ks. length (wires ce (flushed ce k g)))
    \<and> (\<forall>k. delivered_to g' k = (if k \<in> set ks then fold push_delivered (map ev_id (flushed ce k g)) (delivered_to g k)
                                 else delivered_to g k))
    \<and> (\<forall>k. out_queue t' k = (if k \<in> set ks then fold (queue_push (tc_queue_capacity (tr_config t))) (wires ce (flushed ce k g)) (out_queue t k)
                              else out_queue t k))
    \<and> gp_pending g' = gp_pending g \<and> gp_known g' = gp_known g \<and> tr_config t' = tr_config t"
  using assms
proof (induction ks arbitrary: g t n)
  case Nil
  thus ?case by simp
next
  case (Cons k ks)
  obtain batch g1 where p: "peek_pending_for_peer k PUMP_BATCH_MAX_EVENTS g = (batch, g1)"
    by (cases "peek_pending_for_peer k PUMP_BATCH_MAX_EVENTS g")
  have batch: "batch = take PUMP_BATCH_MAX_EVENTS (filter (\<lambda>e. ev_id e \<notin> set (delivered_to g k)) (gp_pending g))"
    using peek_eq [of k PUMP_BATCH_MAX_EVENTS g] p by simp
  have g1: "gp_pending g1 = gp_pending g" "gp_known g1 = gp_known g" "delivered_to g1 q = delivered_to g q" for q
    using peek_state [of k PUMP_BATCH_MAX_EVENTS g] p by simp_all
  let ?pre = "takeWhile (passes ce) batch"
  have pre: "?pre = flushed ce k g" by (simp add: flushed_def batch)
  define g2 where "g2 = mark_delivered_to_peer k (map ev_id ?pre) g1"
  obtain t1 where t1: "flush_batch ce k batch t [] n = Some (t1, map ev_id ?pre, n + length (wires ce ?pre))"
    "out_queue t1 k = fold (queue_push (tc_queue_capacity (tr_config t))) (wires ce ?pre) (out_queue t k)"
    "\<forall>j. j \<noteq> k \<longrightarrow> out_queue t1 j = out_queue t j" "tr_config t1 = tr_config t"
    using flush_batch_spec [OF Cons.prems(1), of ce k batch "[]" n] by auto
  have step: "flush_peers ce (k # ks) g t n = flush_peers ce ks g2 t1 (n + length (wires ce ?pre))"
  proof (cases "batch = []")
    case True
    hence "t1 = t" using t1(1) by simp
    thus ?thesis using p True by (simp add: g2_def mark_delivered_to_peer_def wires_def)
  next
    case False
    thus ?thesis using p t1(1) by (simp add: g2_def)
  qed
  have g2: "gp_pending g2 = gp_pending g" "gp_known g2 = gp_known g"
    "delivered_to g2 q = (if q = k then fold push_delivered (map ev_id ?pre) (delivered_to g k) else delivered_to g q)" for q
    by (simp_all add: g2_def g1)
  have other: "flushed ce q g2 = flushed ce q g" if "q \<in> set ks" for q
    using that Cons.prems(2) g2 by (intro flushed_state_cong) auto
  have sum: "(\<Sum>q\<leftarrow>ks. length (wires ce (flushed ce q g2))) = (\<Sum>q\<leftarrow>ks. length (wires ce (flushed ce q g)))"
    using other by (simp cong: map_cong)
  have "0 < tc_queue_capacity (tr_config t1)" "distinct ks" using Cons.prems t1(4) by simp_all
  from Cons.IH [OF this, of g2 "n + length (wires ce ?pre)"] obtain n' g' t' where
    r: "flush_peers ce ks g2 t1 (n + length (wires ce ?pre)) = Some (n', g', t')"
    and n': "n' = n + length (wires ce ?pre) + (\<Sum>q\<leftarrow>ks. length (wires ce (flushed ce q g2)))"
    and d: "\<And>q. delivered_to g' q = (if q \<in> set ks then fold push_delivered (map ev_id (flushed ce q g2)) (delivered_to g2 q)
               else delivered_to g2 q)"
    and o: "\<And>q. out_queue t' q = (if q \<in> set ks then fold (queue_push (tc_queue_capacity (tr_config t1))) (wires ce (flushed ce q g2)) (out_queue t1 q)
               else out_queue t1 q)"
    and rest: "gp_pending g' = gp_pending g2" "gp_known g' = gp_known g2" "tr_config t' = tr_config t1"
    by blast
  have k: "k \<notin> set ks" using Cons.prems(2) by simp
  show ?case
  proof (intro exI conjI allI)
    show "flush_peers ce (k # ks) g t n = Some (n', g', t')" using step r by simp
    show "n' = n + (\<Sum>q\<leftarrow>k # ks. length (wires ce (flushed ce q g)))" using n' sum pre by simp
    show "delivered_to g' q = (if q \<in> set (k # ks) then fold push_delivered (map ev_id (flushed ce q g)) (delivered_to g q)
             else delivered_to g q)" for q
      using d [of q] other [of q] g2(3) [of q] k pre by (cases "q = k") auto
    show "out_queue t' q = (if q \<in> set (k # ks) then fold (queue_push (tc_queue_capacity (tr_config t))) (wires ce (flushed ce q g)) (out_queue t q)
             else out_queue t q)" for q
      using o [of q] other [of q] t1 k pre by (cases "q = k") auto
  qed (use rest g2 t1 in simp_all)
qed

text \<open>One pass of \<open>flush_outbound\<close>. For every dialled peer it takes the first 64 events not yet
  delivered to it, up to the first one whose encoding does not fit a frame, queues exactly their
  encodings in order (a full queue dropping its oldest frames), marks exactly these as delivered,
  and touches no other peer; the count it reports is the number of frames queued.\<close>

theorem tcp_flush_marks_sent:
  assumes "0 < tc_queue_capacity (tr_config t)" "distinct (tr_dial_targets t)"
  shows "\<exists>n g' t'. flush_outbound ce g t = Some (n, g', t')
    \<and> n = (\<Sum>k\<leftarrow>peer_keys t. length (wires ce (flushed ce k g)))
    \<and> (\<forall>k. delivered_to g' k = (if k \<in> set (tr_dial_targets t)
            then fold push_delivered (map ev_id (flushed ce k g)) (delivered_to g k) else delivered_to g k))
    \<and> (\<forall>k. out_queue t' k = (if k \<in> set (tr_dial_targets t)
            then fold (queue_push (tc_queue_capacity (tr_config t))) (wires ce (flushed ce k g)) (out_queue t k)
            else out_queue t k))
    \<and> gp_pending g' = gp_pending g \<and> gp_known g' = gp_known g"
  using flush_peers_spec [OF assms(1) distinct_peer_keys [OF assms(2)], of ce g 0]
  by (auto simp: flush_outbound_def)

lemma tcp_flush_marks_sent_witness:
  "\<exists>n g' t'. flush_outbound demo_env gossip_new (add_peer True ''p'' (transport_new transport_config_default)) = Some (n, g', t')
     \<and> delivered_to g' ''q'' = []"
proof -
  let ?t = "add_peer True ''p'' (transport_new transport_config_default)"
  have t: "0 < tc_queue_capacity (tr_config ?t)" "distinct (tr_dial_targets ?t)" "''q'' \<notin> set (tr_dial_targets ?t)"
    by (simp_all add: add_peer_def transport_new_def transport_config_default_def DEFAULT_QUEUE_CAPACITY_def Let_def)
  have "delivered_to gossip_new ''q'' = []" by (simp add: gossip_new_def delivered_to_def)
  with tcp_flush_marks_sent [OF t(1,2), of demo_env gossip_new] t(3) show ?thesis by fastforce
qed

lemma length_wire_content:
  "length (ev_content e) < length (wire_body e i pk sg)"
  by (simp add: wire_body_def string_bytes_def)

text \<open>An event too large for a frame blocks its peer for good. As soon as the first event pending for
  a peer has content of more than 16384 bytes, a pass of \<open>flush_outbound\<close> queues nothing for that peer
  and marks nothing, whatever else is pending behind it, and the outbox is unchanged, so that the next
  pass is in the same situation.\<close>

theorem tcp_flush_blocked:
  assumes "0 < tc_queue_capacity (tr_config t)" "distinct (tr_dial_targets t)" "hex_laws ce"
    and "filter (\<lambda>e. ev_id e \<notin> set (delivered_to g k)) (gp_pending g) = e # es"
    and "wire_ok ce e i pk sg" "length (ev_content e) > 16384"
  shows "\<exists>n g' t'. flush_outbound ce g t = Some (n, g', t')
    \<and> out_queue t' k = out_queue t k
    \<and> filter (\<lambda>e. ev_id e \<notin> set (delivered_to g' k)) (gp_pending g') = e # es"
proof -
  have w: "to_wire_bytes ce e = Inr (pad (wire_body e i pk sg))"
    by (rule to_wire_ok [OF assms(3,5)])
  have "MAX_FRAME_PAYLOAD < length (pad (wire_body e i pk sg))"
    using length_wire_content [of e i pk sg] assms(6) by (simp add: length_pad MAX_FRAME_PAYLOAD_def)
  hence "\<not> passes ce e" by (simp add: passes_def w)
  hence "flushed ce k g = []" by (simp add: flushed_def assms(4) PUMP_BATCH_MAX_EVENTS_def)
  with flush_peers_spec [OF assms(1) distinct_peer_keys [OF assms(2)], of ce g 0] assms(4)
  show ?thesis by (auto simp: flush_outbound_def wires_def)
qed

lemma wire_ok_content:
  "wire_ok ce e i pk sg \<Longrightarrow> text_ok c \<Longrightarrow> wire_ok ce (e\<lparr>ev_content := c\<rparr>) i pk sg"
  by (simp add: wire_ok_def)

lemma tcp_flush_blocked_witness:
  "\<exists>e n g' t'. flush_outbound demo_env (gossip_new\<lparr>gp_pending := [e, demo_event]\<rparr>)
      (add_peer True ''p'' (transport_new transport_config_default)) = Some (n, g', t')
    \<and> out_queue t' ''p'' = []"
proof -
  let ?t = "add_peer True ''p'' (transport_new transport_config_default)"
  let ?e = "demo_event\<lparr>ev_content := replicate 16385 CHR ''a''\<rparr>"
  let ?g = "gossip_new\<lparr>gp_pending := [?e, demo_event]\<rparr>"
  have t: "0 < tc_queue_capacity (tr_config ?t)" "distinct (tr_dial_targets ?t)" "out_queue ?t ''p'' = []"
    by (simp_all add: add_peer_def transport_new_def transport_config_default_def DEFAULT_QUEUE_CAPACITY_def
        Let_def out_queue_def)
  have "str_bytes (replicate n CHR ''a'') = replicate n 97" for n by (simp add: str_bytes_def)
  moreover have "utf8_valid (replicate n 97)" for n by (rule utf8_valid_ascii) (simp add: list_all_iff)
  ultimately have "text_ok (replicate 16385 CHR ''a'')" by (simp add: text_ok_def)
  note w = wire_ok_content [OF demo_wire_ok this]
  have p: "filter (\<lambda>e. ev_id e \<notin> set (delivered_to ?g ''p'')) (gp_pending ?g) = ?e # [demo_event]"
    by (simp add: gossip_new_def delivered_to_def)
  have l: "length (ev_content ?e) > 16384" by simp
  show ?thesis using tcp_flush_blocked [OF t(1,2) demo_laws(1) p w l] t(3) by auto
qed

end
