(* ===== verification/Metrics.thy ===== *)
theory Metrics
  imports Prelude
begin

text \<open>
  The metrics registry, \<open>core/src/metrics.rs\<close>: \<open>u64\<close> counters and gauges changed by atomic
  operations. Counters wrap like \<open>fetch_add\<close>, gauges go down with a saturating subtraction that
  retries until no other thread interfered.
\<close>

record node_metrics =
  nm_started_at :: u64
  nm_ingested :: u64
  nm_rejected :: u64
  nm_gossiped :: u64
  nm_duplicated :: u64
  nm_peers_known :: u64
  nm_peers_synced :: u64
  nm_storage_events :: u64
  nm_storage_raw :: u64
  nm_storage_stored :: u64
  nm_health_requests :: u64

definition metrics_new :: "u64 \<Rightarrow> node_metrics" where
  "metrics_new now = \<lparr>nm_started_at = now, nm_ingested = 0, nm_rejected = 0, nm_gossiped = 0,
     nm_duplicated = 0, nm_peers_known = 0, nm_peers_synced = 0, nm_storage_events = 0,
     nm_storage_raw = 0, nm_storage_stored = 0, nm_health_requests = 0\<rparr>"

definition u64_saturating_sub :: "u64 \<Rightarrow> u64 \<Rightarrow> u64" where
  "u64_saturating_sub a b = (if b \<le> a then a - b else 0)"

text \<open>The compare-exchange loop. The list holds what the failing exchanges found in the counter; when
  it is over the exchange succeeds.\<close>

fun cas_saturating_sub :: "u64 list \<Rightarrow> u64 \<Rightarrow> u64 \<Rightarrow> u64" where
  "cas_saturating_sub [] current v = u64_saturating_sub current v"
| "cas_saturating_sub (actual # seen) current v = cas_saturating_sub seen actual v"

text \<open>The loop subtracts once, from the value the counter really had.\<close>

lemma cas_saturating_sub_atomic:
  "cas_saturating_sub seen current v = u64_saturating_sub (last (current # seen)) v"
  by (induction seen arbitrary: current) auto

definition record_ingested :: "node_metrics \<Rightarrow> node_metrics" where
  "record_ingested m = m\<lparr>nm_ingested := nm_ingested m + 1\<rparr>"

definition record_rejected :: "node_metrics \<Rightarrow> node_metrics" where
  "record_rejected m = m\<lparr>nm_rejected := nm_rejected m + 1\<rparr>"

definition record_gossiped :: "u64 \<Rightarrow> node_metrics \<Rightarrow> node_metrics" where
  "record_gossiped n m = (if n > 0 then m\<lparr>nm_gossiped := nm_gossiped m + n\<rparr> else m)"

definition record_duplicated :: "node_metrics \<Rightarrow> node_metrics" where
  "record_duplicated m = m\<lparr>nm_duplicated := nm_duplicated m + 1\<rparr>"

definition set_peers :: "u64 \<Rightarrow> u64 \<Rightarrow> node_metrics \<Rightarrow> node_metrics" where
  "set_peers known synced m = m\<lparr>nm_peers_known := known, nm_peers_synced := synced\<rparr>"

definition record_storage_added :: "u64 \<Rightarrow> u64 \<Rightarrow> node_metrics \<Rightarrow> node_metrics" where
  "record_storage_added raw stored m =
     m\<lparr>nm_storage_events := nm_storage_events m + 1,
       nm_storage_raw := nm_storage_raw m + raw,
       nm_storage_stored := nm_storage_stored m + stored\<rparr>"

definition record_storage_removed :: "u64 \<Rightarrow> u64 \<Rightarrow> u64 \<Rightarrow> node_metrics \<Rightarrow> node_metrics" where
  "record_storage_removed cnt raw stored m =
     m\<lparr>nm_storage_events := u64_saturating_sub (nm_storage_events m) cnt,
       nm_storage_raw := u64_saturating_sub (nm_storage_raw m) raw,
       nm_storage_stored := u64_saturating_sub (nm_storage_stored m) stored\<rparr>"

definition record_health_request :: "node_metrics \<Rightarrow> node_metrics" where
  "record_health_request m = m\<lparr>nm_health_requests := nm_health_requests m + 1\<rparr>"

definition uptime_secs :: "u64 \<Rightarrow> node_metrics \<Rightarrow> u64" where
  "uptime_secs now m = u64_saturating_sub now (nm_started_at m)"

definition metrics_peers_known :: "node_metrics \<Rightarrow> u64" where
  "metrics_peers_known m = nm_peers_known m"

definition metrics_peers_synced :: "node_metrics \<Rightarrow> u64" where
  "metrics_peers_synced m = nm_peers_synced m"

record peer_health =
  ph_known :: u64
  ph_synced :: u64

record counter_set =
  cs_ingested :: u64
  cs_rejected :: u64
  cs_gossiped :: u64
  cs_duplicated :: u64
  cs_health_requests :: u64

record storage_health =
  sh_events :: u64
  sh_bytes_raw :: u64
  sh_bytes_stored :: u64

record metrics_snapshot =
  ms_status :: string
  ms_uptime_s :: u64
  ms_peers :: peer_health
  ms_metrics :: counter_set
  ms_storage :: storage_health

definition snapshot :: "u64 \<Rightarrow> node_metrics \<Rightarrow> metrics_snapshot" where
  "snapshot now m =
     \<lparr>ms_status = ''ok'', ms_uptime_s = uptime_secs now m,
      ms_peers = \<lparr>ph_known = metrics_peers_known m, ph_synced = metrics_peers_synced m\<rparr>,
      ms_metrics = \<lparr>cs_ingested = nm_ingested m, cs_rejected = nm_rejected m,
        cs_gossiped = nm_gossiped m, cs_duplicated = nm_duplicated m,
        cs_health_requests = nm_health_requests m\<rparr>,
      ms_storage = \<lparr>sh_events = nm_storage_events m, sh_bytes_raw = nm_storage_raw m,
        sh_bytes_stored = nm_storage_stored m\<rparr>\<rparr>"

section \<open>Facts\<close>

text \<open>Subtracting a part from a sum that fits is exact.\<close>

lemma u64_saturating_sub_part:
  assumes "a + b < 2 ^ 64"
  shows "u64_saturating_sub (of_nat (a + b)) (of_nat b) = of_nat a"
proof -
  have le: "(of_nat b :: u64) \<le> of_nat (a + b)"
    using assms unfolding word_le_nat_alt by (simp only: unat_of_nat take_bit_eq_mod) simp
  thus ?thesis by (simp add: u64_saturating_sub_def)
qed

lemma u64_saturating_sub_le: "u64_saturating_sub a b \<le> a"
proof (cases "b \<le> a")
  case True
  hence "unat (a - b) = unat a - unat b" by (rule unat_sub)
  thus ?thesis using True by (simp add: u64_saturating_sub_def word_le_nat_alt)
qed (simp add: u64_saturating_sub_def)

end
