(* ===== verification/Storage.thy ===== *)
theory Storage
  imports Metrics Bytes F64 "HOL-Library.Multiset"
begin

text \<open>
  Offline storage, \<open>core/src/storage/mod.rs\<close> and \<open>core/src/storage/persistence.rs\<close>: the tiered
  message store with its budget, geographic sharding, gauges and expiry, the SQLite mirror it is
  restored from after a crash, the geohash of a position, the ZIM header reader and the seeder.
  Deflate is a parameter with the law that decompression undoes compression. The tables are lists of
  rows; the statements have the documented meaning of SQL.
\<close>

section \<open>Tiers and policies\<close>

datatype message_tier = Critical | Important | Normal | Low

fun retention_secs :: "message_tier \<Rightarrow> nat" where
  "retention_secs Critical = 7 * 24 * 3600"
| "retention_secs Important = 2 * 24 * 3600"
| "retention_secs Normal = 6 * 3600"
| "retention_secs Low = 3600"

fun tier_label :: "message_tier \<Rightarrow> string" where
  "tier_label Critical = ''critical''"
| "tier_label Important = ''important''"
| "tier_label Normal = ''normal''"
| "tier_label Low = ''low''"

record tiered_message =
  tm_id :: string
  tm_tier :: message_tier
  tm_created_at :: nat
  tm_payload :: "byte list"
  tm_original_size :: nat
  tm_geohash :: string

datatype storage_policy = Mobile | Desktop | Gateway

fun max_bytes :: "storage_policy \<Rightarrow> nat" where
  "max_bytes Mobile = 64 * 1024 * 1024"
| "max_bytes Desktop = 2 * 1024 * 1024 * 1024"
| "max_bytes Gateway = 16 * 1024 * 1024 * 1024"

record tiered_store =
  st_messages :: "tiered_message list"
  st_policy :: storage_policy
  st_delegate_threshold :: nat
  st_my_geohash :: string
  st_metrics :: "node_metrics option"

definition tiered_with_geohash :: "storage_policy \<Rightarrow> string \<Rightarrow> tiered_store" where
  "tiered_with_geohash policy my_geohash =
     \<lparr>st_messages = [], st_policy = policy,
      st_delegate_threshold = (case policy of
        Mobile \<Rightarrow> 64 * 1024 | Desktop \<Rightarrow> 1024 * 1024 | Gateway \<Rightarrow> 16 * 1024 * 1024),
      st_my_geohash = my_geohash, st_metrics = None\<rparr>"

definition tiered_new :: "storage_policy \<Rightarrow> tiered_store" where
  "tiered_new policy = tiered_with_geohash policy ''u09tunq''"

definition set_my_geohash :: "string \<Rightarrow> tiered_store \<Rightarrow> tiered_store" where
  "set_my_geohash g st = st\<lparr>st_my_geohash := g\<rparr>"

definition tiered_set_metrics :: "node_metrics \<Rightarrow> tiered_store \<Rightarrow> tiered_store" where
  "tiered_set_metrics m st = st\<lparr>st_metrics := Some m\<rparr>"

definition shard_prefix_len :: "tiered_store \<Rightarrow> nat" where
  "shard_prefix_len st = (case st_policy st of Mobile \<Rightarrow> 5 | Desktop \<Rightarrow> 4 | Gateway \<Rightarrow> 3)"

section \<open>Storing\<close>

record deflate_env =
  df_compress :: "byte list \<Rightarrow> byte list"
  df_decompress :: "byte list \<Rightarrow> string + byte list"

definition deflate_laws :: "deflate_env \<Rightarrow> bool" where
  "deflate_laws df \<longleftrightarrow> (\<forall>x. df_decompress df (df_compress df x) = Inr x)"

definition should_store_locally :: "string \<Rightarrow> string \<Rightarrow> message_tier \<Rightarrow> nat \<Rightarrow> bool" where
  "should_store_locally geohash my_geohash tier prefix_len =
     (if tier = Critical then True
      else if prefix_len = 0 then False
      else length (takeWhile (\<lambda>(a, b). a = b) (zip (utf8_chars geohash) (utf8_chars my_geohash))) \<ge> prefix_len)"

text \<open>Sums of sizes are computed in \<open>u64\<close>.\<close>

definition used_bytes :: "tiered_store \<Rightarrow> nat" where
  "used_bytes st = (\<Sum>m\<leftarrow>st_messages st. length (tm_payload m)) mod 2 ^ 64"

definition used_raw_bytes :: "tiered_store \<Rightarrow> nat" where
  "used_raw_bytes st = (\<Sum>m\<leftarrow>st_messages st. tm_original_size m) mod 2 ^ 64"

definition tiered_store_msg ::
    "deflate_env \<Rightarrow> string \<Rightarrow> message_tier \<Rightarrow> byte list \<Rightarrow> nat \<Rightarrow> string \<Rightarrow> tiered_store \<Rightarrow> bool \<times> tiered_store" where
  "tiered_store_msg df i tier payload created_at geohash st =
     (if list_ex (\<lambda>m. tm_id m = i) (st_messages st) then (False, st)
      else if (used_raw_bytes st + length payload) mod 2 ^ 64 > max_bytes (st_policy st) then (False, st)
      else if \<not> should_store_locally geohash (st_my_geohash st) tier (shard_prefix_len st) then (False, st)
      else
        let compressed = df_compress df payload;
            m = \<lparr>tm_id = i, tm_tier = tier, tm_created_at = created_at, tm_payload = compressed,
                 tm_original_size = length payload, tm_geohash = geohash\<rparr>
        in (True, st\<lparr>st_messages := st_messages st @ [m],
                     st_metrics := map_option
                       (record_storage_added (of_nat (length payload)) (of_nat (length compressed)))
                       (st_metrics st)\<rparr>))"

definition tiered_get :: "deflate_env \<Rightarrow> string \<Rightarrow> tiered_store \<Rightarrow> (string + byte list) option" where
  "tiered_get df i st =
     map_option (\<lambda>m. df_decompress df (tm_payload m)) (find (\<lambda>m. tm_id m = i) (st_messages st))"

definition all_messages :: "tiered_store \<Rightarrow> tiered_message list" where
  "all_messages st = st_messages st"

definition tiered_restore :: "tiered_message \<Rightarrow> tiered_store \<Rightarrow> bool \<times> tiered_store" where
  "tiered_restore msg st =
     (if list_ex (\<lambda>m. tm_id m = tm_id msg) (st_messages st) then (False, st)
      else if (used_raw_bytes st + tm_original_size msg) mod 2 ^ 64 > max_bytes (st_policy st) then (False, st)
      else (True, st\<lparr>st_metrics := map_option
                       (record_storage_added (of_nat (tm_original_size msg)) (of_nat (length (tm_payload msg))))
                       (st_metrics st),
                     st_messages := st_messages st @ [msg]\<rparr>))"

text \<open>The closure of \<open>retain\<close>.\<close>

definition tier_keeps :: "nat \<Rightarrow> tiered_message \<Rightarrow> bool" where
  "tier_keeps now m \<longleftrightarrow> now - tm_created_at m < retention_secs (tm_tier m)"

definition tiered_sweep :: "nat \<Rightarrow> tiered_store \<Rightarrow> nat \<times> tiered_store" where
  "tiered_sweep now st =
     (let purged = filter (\<lambda>m. \<not> tier_keeps now m) (st_messages st);
          kept = filter (tier_keeps now) (st_messages st)
      in (length (st_messages st) - length kept,
          st\<lparr>st_messages := kept,
             st_metrics := map_option
               (record_storage_removed (of_nat (length purged))
                  (of_nat (\<Sum>m\<leftarrow>purged. tm_original_size m)) (of_nat (\<Sum>m\<leftarrow>purged. length (tm_payload m))))
               (st_metrics st)\<rparr>))"

definition should_delegate :: "nat \<Rightarrow> tiered_store \<Rightarrow> bool" where
  "should_delegate payload_size st \<longleftrightarrow> payload_size > st_delegate_threshold st"

definition count_by_tier :: "tiered_store \<Rightarrow> (message_tier \<times> nat) list" where
  "count_by_tier st =
     map (\<lambda>t. (t, length (filter (\<lambda>m. tm_tier m = t) (st_messages st)))) [Critical, Important, Normal, Low]"

definition total_count :: "tiered_store \<Rightarrow> nat" where
  "total_count st = length (st_messages st)"

definition compression_stats :: "tiered_store \<Rightarrow> nat \<times> nat" where
  "compression_stats st =
     ((\<Sum>m\<leftarrow>st_messages st. tm_original_size m) mod 2 ^ 64, (\<Sum>m\<leftarrow>st_messages st. length (tm_payload m)) mod 2 ^ 64)"

section \<open>Budget, identifiers and gauges\<close>

definition raw_total :: "tiered_store \<Rightarrow> nat" where
  "raw_total st = (\<Sum>m\<leftarrow>st_messages st. tm_original_size m)"

definition stored_total :: "tiered_store \<Rightarrow> nat" where
  "stored_total st = (\<Sum>m\<leftarrow>st_messages st. length (tm_payload m))"

definition gauges_exact :: "tiered_store \<Rightarrow> bool" where
  "gauges_exact st \<longleftrightarrow> (case st_metrics st of None \<Rightarrow> True | Some m \<Rightarrow>
     nm_storage_events m = of_nat (length (st_messages st))
     \<and> nm_storage_raw m = of_nat (raw_total st) \<and> nm_storage_stored m = of_nat (stored_total st))"

definition tiered_inv :: "nat \<Rightarrow> nat \<Rightarrow> storage_policy \<Rightarrow> tiered_store \<Rightarrow> bool" where
  "tiered_inv n b p st \<longleftrightarrow> distinct (map tm_id (st_messages st)) \<and> st_policy st = p
     \<and> raw_total st \<le> max_bytes p \<and> length (st_messages st) \<le> n \<and> stored_total st \<le> b \<and> gauges_exact st"

lemma max_bytes_small: "max_bytes p \<le> 2 ^ 34"
  by (cases p) simp_all

lemma used_raw_exact: "raw_total st \<le> max_bytes p \<Longrightarrow> used_raw_bytes st = raw_total st"
  using max_bytes_small [of p] by (simp add: used_raw_bytes_def raw_total_def)

text \<open>The budget test does not wrap for payloads below \<open>isize::MAX\<close>.\<close>

lemma budget_test:
  assumes "raw_total st \<le> max_bytes p" "k < 2 ^ 63"
  shows "(used_raw_bytes st + k) mod 2 ^ 64 > max_bytes p \<longleftrightarrow> raw_total st + k > max_bytes p"
  using assms max_bytes_small [of p] by (simp add: used_raw_exact)

datatype tiered_op =
    TStore string message_tier "byte list" nat string
  | TRestore tiered_message
  | TSweep nat

fun tiered_step :: "deflate_env \<Rightarrow> tiered_op \<Rightarrow> tiered_store \<Rightarrow> tiered_store" where
  "tiered_step df (TStore i t p ca g) st = snd (tiered_store_msg df i t p ca g st)"
| "tiered_step df (TRestore m) st = snd (tiered_restore m st)"
| "tiered_step df (TSweep now) st = snd (tiered_sweep now st)"

text \<open>Payloads of vectors (below \<open>isize::MAX\<close>) and the bytes an operation may add.\<close>

fun tiered_op_ok :: "tiered_op \<Rightarrow> bool" where
  "tiered_op_ok (TStore i t p ca g) = (length p < 2 ^ 63)"
| "tiered_op_ok (TRestore m) = (tm_original_size m < 2 ^ 63)"
| "tiered_op_ok (TSweep now) = True"

fun tiered_op_bytes :: "deflate_env \<Rightarrow> tiered_op \<Rightarrow> nat" where
  "tiered_op_bytes df (TStore i t p ca g) = length (df_compress df p)"
| "tiered_op_bytes df (TRestore m) = length (tm_payload m)"
| "tiered_op_bytes df (TSweep now) = 0"

text \<open>Adding one message, by either way in.\<close>

definition add_message :: "tiered_message \<Rightarrow> tiered_store \<Rightarrow> tiered_store" where
  "add_message m st = st\<lparr>st_messages := st_messages st @ [m],
     st_metrics := map_option (record_storage_added (of_nat (tm_original_size m)) (of_nat (length (tm_payload m))))
       (st_metrics st)\<rparr>"

lemma store_msg_cases:
  obtains (refused) "tiered_store_msg df i t p ca g st = (False, st)"
  | (stored) "tiered_store_msg df i t p ca g st =
       (True, add_message \<lparr>tm_id = i, tm_tier = t, tm_created_at = ca, tm_payload = df_compress df p,
          tm_original_size = length p, tm_geohash = g\<rparr> st)"
     "i \<notin> tm_id ` set (st_messages st)" "(used_raw_bytes st + length p) mod 2 ^ 64 \<le> max_bytes (st_policy st)"
     "should_store_locally g (st_my_geohash st) t (shard_prefix_len st)"
proof (cases "tiered_store_msg df i t p ca g st = (False, st)")
  case False
  thus ?thesis using stored
    by (auto simp: tiered_store_msg_def add_message_def Let_def list_ex_iff split: if_splits)
qed (rule refused)

lemma restore_cases:
  obtains (refused) "tiered_restore m st = (False, st)"
  | (stored) "tiered_restore m st = (True, add_message m st)"
     "tm_id m \<notin> tm_id ` set (st_messages st)"
     "(used_raw_bytes st + tm_original_size m) mod 2 ^ 64 \<le> max_bytes (st_policy st)"
proof (cases "tiered_restore m st = (False, st)")
  case False
  show ?thesis
    by (rule stored)
      (use False in \<open>auto simp: tiered_restore_def add_message_def list_ex_iff split: if_splits\<close>)
qed (rule refused)

lemma tiered_inv_mono: "tiered_inv n b p st \<Longrightarrow> n \<le> n' \<Longrightarrow> b \<le> b' \<Longrightarrow> tiered_inv n' b' p st"
  by (simp add: tiered_inv_def)

lemma tiered_inv_add:
  assumes "tiered_inv n b p st" "tm_id m \<notin> tm_id ` set (st_messages st)"
    and "(used_raw_bytes st + tm_original_size m) mod 2 ^ 64 \<le> max_bytes (st_policy st)" "tm_original_size m < 2 ^ 63"
  shows "tiered_inv (Suc n) (b + length (tm_payload m)) p (add_message m st)"
proof -
  have "raw_total st + tm_original_size m \<le> max_bytes p"
    using budget_test [of st p "tm_original_size m"] assms by (simp add: tiered_inv_def)
  thus ?thesis using assms(1,2)
    by (auto simp: tiered_inv_def add_message_def raw_total_def stored_total_def gauges_exact_def
        record_storage_added_def split: option.splits)
qed

lemma sum_list_filter_split:
  "(\<Sum>m\<leftarrow>filter P xs. f m) + (\<Sum>m\<leftarrow>filter (\<lambda>m. \<not> P m) xs. f m) = (\<Sum>m\<leftarrow>xs. f m :: nat)"
  by (induction xs) auto

lemma tiered_inv_sweep:
  assumes "tiered_inv n b p st" "n < 2 ^ 64" "b < 2 ^ 64"
  shows "tiered_inv n b p (snd (tiered_sweep now st))"
proof -
  let ?k = "filter (tier_keeps now) (st_messages st)" and ?d = "filter (\<lambda>m. \<not> tier_keeps now m) (st_messages st)"
  have len: "length ?k + length ?d = length (st_messages st)" by (rule sum_length_filter_compl)
  have raw: "(\<Sum>m\<leftarrow>?k. tm_original_size m) + (\<Sum>m\<leftarrow>?d. tm_original_size m) = raw_total st"
    unfolding raw_total_def by (rule sum_list_filter_split)
  have sto: "(\<Sum>m\<leftarrow>?k. length (tm_payload m)) + (\<Sum>m\<leftarrow>?d. length (tm_payload m)) = stored_total st"
    unfolding stored_total_def by (rule sum_list_filter_split)
  have small: "length ?k + length ?d < 2 ^ 64" "raw_total st < 2 ^ 64" "stored_total st < 2 ^ 64"
    using assms len max_bytes_small [of p] by (auto simp: tiered_inv_def)
  note parts = u64_saturating_sub_part [OF small(1)] u64_saturating_sub_part [OF small(2) [folded raw]]
    u64_saturating_sub_part [OF small(3) [folded sto]]
  have "gauges_exact (snd (tiered_sweep now st))"
  proof (cases "st_metrics st")
    case (Some g)
    hence g: "nm_storage_events g = of_nat (length ?k + length ?d)"
      "nm_storage_raw g = of_nat ((\<Sum>m\<leftarrow>?k. tm_original_size m) + (\<Sum>m\<leftarrow>?d. tm_original_size m))"
      "nm_storage_stored g = of_nat ((\<Sum>m\<leftarrow>?k. length (tm_payload m)) + (\<Sum>m\<leftarrow>?d. length (tm_payload m)))"
      using assms(1) len raw sto by (simp_all add: tiered_inv_def gauges_exact_def del: of_nat_add)
    show ?thesis using Some parts
      by (simp add: gauges_exact_def tiered_sweep_def record_storage_removed_def Let_def raw_total_def
          stored_total_def g del: of_nat_add)
  qed (simp add: gauges_exact_def tiered_sweep_def Let_def)
  moreover have "distinct (map tm_id (st_messages st)) \<Longrightarrow> distinct (map tm_id ?k)"
    by (rule distinct_map_filter)
  moreover have "raw_total (snd (tiered_sweep now st)) \<le> raw_total st"
    "stored_total (snd (tiered_sweep now st)) \<le> stored_total st"
    using raw sto by (simp_all add: tiered_sweep_def Let_def raw_total_def [of "st\<lparr>st_messages := _, st_metrics := _\<rparr>"]
        stored_total_def [of "st\<lparr>st_messages := _, st_metrics := _\<rparr>"])
  moreover have "length ?k \<le> n"
    using assms(1) length_filter_le [of "tier_keeps now" "st_messages st"] by (simp add: tiered_inv_def del: length_filter_le)
  ultimately show ?thesis using assms(1) by (simp add: tiered_inv_def tiered_sweep_def Let_def)
qed

lemma tiered_inv_step:
  assumes "tiered_inv n b p st" "n < 2 ^ 64" "b < 2 ^ 64" "tiered_op_ok o'"
  shows "tiered_inv (Suc n) (b + tiered_op_bytes df o') p (tiered_step df o' st)"
proof (cases o')
  case (TStore i t pl ca g)
  show ?thesis
  proof (rule store_msg_cases [of df i t pl ca g st])
    assume "tiered_store_msg df i t pl ca g st = (False, st)"
    thus ?thesis using assms(1) TStore by (auto intro: tiered_inv_mono)
  next
    assume "tiered_store_msg df i t pl ca g st =
       (True, add_message \<lparr>tm_id = i, tm_tier = t, tm_created_at = ca, tm_payload = df_compress df pl,
          tm_original_size = length pl, tm_geohash = g\<rparr> st)"
      "i \<notin> tm_id ` set (st_messages st)" "(used_raw_bytes st + length pl) mod 2 ^ 64 \<le> max_bytes (st_policy st)"
    thus ?thesis using tiered_inv_add [OF assms(1), of "\<lparr>tm_id = i, tm_tier = t, tm_created_at = ca, tm_payload = df_compress df pl,
          tm_original_size = length pl, tm_geohash = g\<rparr>"] assms(4) TStore by simp
  qed
next
  case (TRestore m)
  show ?thesis
  proof (rule restore_cases [of m st])
    assume "tiered_restore m st = (False, st)"
    thus ?thesis using assms(1) TRestore by (auto intro: tiered_inv_mono)
  next
    assume "tiered_restore m st = (True, add_message m st)" "tm_id m \<notin> tm_id ` set (st_messages st)"
      "(used_raw_bytes st + tm_original_size m) mod 2 ^ 64 \<le> max_bytes (st_policy st)"
    thus ?thesis using tiered_inv_add [OF assms(1), of m] assms(4) TRestore by simp
  qed
next
  case (TSweep now)
  thus ?thesis using tiered_inv_sweep [OF assms(1-3), of now] by (auto intro: tiered_inv_mono)
qed

lemma tiered_inv_run:
  assumes "tiered_inv n b p st" "list_all tiered_op_ok ops"
    and "n + length ops < 2 ^ 64" "b + (\<Sum>o'\<leftarrow>ops. tiered_op_bytes df o') < 2 ^ 64"
  shows "tiered_inv (n + length ops) (b + (\<Sum>o'\<leftarrow>ops. tiered_op_bytes df o')) p (fold (tiered_step df) ops st)"
  using assms
proof (induction ops arbitrary: n b st)
  case (Cons x ops)
  have "tiered_inv (Suc n) (b + tiered_op_bytes df x) p (tiered_step df x st)"
    using Cons.prems by (intro tiered_inv_step) auto
  from Cons.IH [OF this] Cons.prems show ?case by (simp add: add.assoc)
qed simp

lemma tiered_inv_init: "tiered_inv 0 0 p (tiered_set_metrics (metrics_new t0) (tiered_with_geohash p g))"
  by (simp add: tiered_inv_def tiered_set_metrics_def tiered_with_geohash_def gauges_exact_def metrics_new_def
      raw_total_def stored_total_def)

text \<open>C25: the store in use. After any sequence of stores, restores and sweeps (payloads below
  \<open>isize::MAX\<close>, fewer than \<open>2^64\<close> bytes ever added) identifiers are unique, the logical size is within
  the budget of the policy and is what \<open>used_raw_bytes\<close> computes, and the three storage gauges are
  exactly the number of messages, their raw and their stored bytes.\<close>

theorem tiered_store_bounded:
  assumes "list_all tiered_op_ok ops" "length ops < 2 ^ 64" "(\<Sum>o'\<leftarrow>ops. tiered_op_bytes df o') < 2 ^ 64"
    and "st = fold (tiered_step df) ops (tiered_set_metrics (metrics_new t0) (tiered_with_geohash p g))"
  shows "distinct (map tm_id (st_messages st)) \<and> raw_total st \<le> max_bytes p \<and> used_raw_bytes st = raw_total st
    \<and> gauges_exact st"
proof -
  have "tiered_inv (length ops) (\<Sum>o'\<leftarrow>ops. tiered_op_bytes df o') p st"
    using tiered_inv_run [OF tiered_inv_init assms(1), of df p t0 g] assms(2,3,4) by simp
  thus ?thesis using used_raw_exact [of st p] by (simp add: tiered_inv_def)
qed

definition demo_deflate :: deflate_env where
  "demo_deflate = \<lparr>df_compress = (\<lambda>x. 0 # x), df_decompress = (\<lambda>y. case y of [] \<Rightarrow> Inl ''eof'' | _ # x \<Rightarrow> Inr x)\<rparr>"

lemma demo_deflate_laws: "deflate_laws demo_deflate"
  by (simp add: deflate_laws_def demo_deflate_def)

lemma tiered_store_bounded_witness:
  "gauges_exact (fold (tiered_step demo_deflate) [TStore ''a'' Low [1, 2] 0 ''u09tunq'', TStore ''b'' Critical [3] 10 ''x'', TSweep 3600]
     (tiered_set_metrics (metrics_new 0) (tiered_with_geohash Mobile ''u09tunq'')))"
  using tiered_store_bounded [OF _ _ _ HOL.refl, of "[TStore ''a'' Low [1, 2] 0 ''u09tunq'', TStore ''b'' Critical [3] 10 ''x'', TSweep 3600]"
      demo_deflate 0 Mobile "''u09tunq''"]
  by (simp add: demo_deflate_def)

section \<open>What a stored message is good for\<close>

definition ids_distinct :: "tiered_store \<Rightarrow> bool" where
  "ids_distinct st \<longleftrightarrow> distinct (map tm_id (st_messages st))"

lemma ids_distinct_add: "ids_distinct st \<Longrightarrow> tm_id m \<notin> tm_id ` set (st_messages st) \<Longrightarrow> ids_distinct (add_message m st)"
  by (simp add: ids_distinct_def add_message_def)

interpretation tierm: guarded_machine "tiered_step df" ids_distinct "\<lambda>_. True" for df
proof
  fix st x assume inv: "ids_distinct st"
  show "ids_distinct (tiered_step df x st)"
  proof (cases x)
    case (TStore i t p ca g)
    show ?thesis by (rule store_msg_cases [of df i t p ca g st]) (use inv TStore in \<open>auto intro!: ids_distinct_add\<close>)
  next
    case (TRestore m)
    show ?thesis by (rule restore_cases [of m st]) (use inv TRestore in \<open>auto intro!: ids_distinct_add\<close>)
  next
    case (TSweep now)
    thus ?thesis using inv by (simp add: ids_distinct_def tiered_sweep_def Let_def distinct_map_filter)
  qed
qed

lemma find_by_id:
  assumes "distinct (map tm_id ms)" "m \<in> set ms"
  shows "find (\<lambda>x. tm_id x = tm_id m) ms = Some m"
  using assms by (induction ms) (auto simp: image_iff)

text \<open>A message leaves the store only through a sweep that finds it expired.\<close>

lemma message_stays:
  assumes "m \<in> set (st_messages st)" "\<And>now. x = TSweep now \<Longrightarrow> tier_keeps now m"
  shows "m \<in> set (st_messages (tiered_step df x st))"
proof (cases x)
  case (TStore i t p ca g)
  show ?thesis by (rule store_msg_cases [of df i t p ca g st]) (use assms TStore in \<open>auto simp: add_message_def\<close>)
next
  case (TRestore m')
  show ?thesis by (rule restore_cases [of m' st]) (use assms TRestore in \<open>auto simp: add_message_def\<close>)
next
  case (TSweep now)
  thus ?thesis using assms by (simp add: tiered_sweep_def Let_def)
qed

lemma message_stays_run:
  assumes "m \<in> set (st_messages st)" "\<forall>now. TSweep now \<in> set ops \<longrightarrow> tier_keeps now m"
  shows "m \<in> set (st_messages (fold (tiered_step df) ops st))"
  using assms
proof (induction ops arbitrary: st)
  case (Cons x ops)
  have "m \<in> set (st_messages (tiered_step df x st))"
    by (rule message_stays) (use Cons.prems in auto)
  with Cons.IH Cons.prems(2) show ?case by simp
qed simp

text \<open>What \<open>store\<close> promises. With unique identifiers it accepts exactly the messages that are new,
  fit the budget and belong here; an accepted message is read back as the very payload through any
  later operations until a sweep at an instant where its age has reached the retention of its tier,
  and that sweep removes it; a refused one changes nothing.\<close>

theorem tiered_store_get:
  assumes "deflate_laws df" "distinct (map tm_id (st_messages st))" "raw_total st \<le> max_bytes (st_policy st)"
    and "length payload < 2 ^ 63" "tiered_store_msg df i tier payload ca g st = (b, st1)"
  shows "(b \<longleftrightarrow> i \<notin> tm_id ` set (st_messages st) \<and> raw_total st + length payload \<le> max_bytes (st_policy st)
            \<and> should_store_locally g (st_my_geohash st) tier (shard_prefix_len st))
    \<and> (b \<longrightarrow>
        (\<forall>ops. (\<forall>now. TSweep now \<in> set ops \<longrightarrow> now - ca < retention_secs tier) \<longrightarrow>
            tiered_get df i (fold (tiered_step df) ops st1) = Some (Inr payload))
        \<and> (\<forall>now. now - ca \<ge> retention_secs tier \<longrightarrow> tiered_get df i (snd (tiered_sweep now st1)) = None))
    \<and> (\<not> b \<longrightarrow> st1 = st)"
proof (intro conjI impI allI)
  note bt = budget_test [OF assms(3,4)]
  show "b \<longleftrightarrow> i \<notin> tm_id ` set (st_messages st) \<and> raw_total st + length payload \<le> max_bytes (st_policy st)
            \<and> should_store_locally g (st_my_geohash st) tier (shard_prefix_len st)"
    using assms(5) bt by (auto simp: tiered_store_msg_def list_ex_iff Let_def not_less split: if_splits)
  show "st1 = st" if "\<not> b"
    using assms(5) that by (auto simp: tiered_store_msg_def Let_def split: if_splits)
  let ?m = "\<lparr>tm_id = i, tm_tier = tier, tm_created_at = ca, tm_payload = df_compress df payload,
     tm_original_size = length payload, tm_geohash = g\<rparr>"
  assume b
  hence st1: "st1 = add_message ?m st" "i \<notin> tm_id ` set (st_messages st)"
    using store_msg_cases [of df i tier payload ca g st] assms(5) by (metis prod.inject)+
  have d1: "ids_distinct st1" using assms(2) st1 by (simp add: ids_distinct_def add_message_def)
  have m1: "?m \<in> set (st_messages st1)" by (simp add: st1 add_message_def)
  { fix ops assume "\<forall>now. TSweep now \<in> set ops \<longrightarrow> now - ca < retention_secs tier"
    hence "?m \<in> set (st_messages (fold (tiered_step df) ops st1))"
      by (intro message_stays_run m1) (simp add: tier_keeps_def)
    moreover have "ids_distinct (fold (tiered_step df) ops st1)"
      by (rule tierm.run_inv [OF d1]) (simp add: list_all_iff)
    ultimately show "tiered_get df i (fold (tiered_step df) ops st1) = Some (Inr payload)"
      using find_by_id [of "st_messages (fold (tiered_step df) ops st1)" ?m] assms(1)
      by (simp add: tiered_get_def ids_distinct_def deflate_laws_def) }
  { fix now assume "now - ca \<ge> retention_secs tier"
    hence "i \<notin> tm_id ` set (st_messages (snd (tiered_sweep now st1)))"
      using st1 by (auto simp: tiered_sweep_def Let_def tier_keeps_def add_message_def)
    thus "tiered_get df i (snd (tiered_sweep now st1)) = None"
      by (auto simp: tiered_get_def find_None_iff) }
qed

lemma tiered_store_get_witness:
  "tiered_get demo_deflate ''a'' (snd (tiered_store_msg demo_deflate ''a'' Critical [7] 5 ''zz'' (tiered_new Mobile))) = Some (Inr [7])"
proof -
  let ?st = "tiered_new Mobile"
  have h: "distinct (map tm_id (st_messages ?st))" "raw_total ?st \<le> max_bytes (st_policy ?st)" "length [7 :: byte] < 2 ^ 63"
    "raw_total ?st + length [7 :: byte] \<le> max_bytes (st_policy ?st)" "st_messages ?st = []"
    by (simp_all add: tiered_new_def tiered_with_geohash_def raw_total_def)
  obtain b st1 where r: "tiered_store_msg demo_deflate ''a'' Critical [7] 5 ''zz'' ?st = (b, st1)"
    by (cases "tiered_store_msg demo_deflate ''a'' Critical [7] 5 ''zz'' ?st")
  from tiered_store_get [OF demo_deflate_laws h(1-3) r] h(4,5)
  have "\<forall>ops. (\<forall>now. TSweep now \<in> set ops \<longrightarrow> now - 5 < retention_secs Critical) \<longrightarrow>
      tiered_get demo_deflate ''a'' (fold (tiered_step demo_deflate) ops st1) = Some (Inr [7])"
    by (simp add: should_store_locally_def)
  from spec [OF this, of "[]"] r show ?thesis by simp
qed

section \<open>The SQLite mirror\<close>

text \<open>Columns of type \<open>INTEGER\<close> are \<open>i64\<close>; the casts of \<open>u64\<close> and \<open>usize\<close> reinterpret the bits.\<close>

definition to_i64 :: "nat \<Rightarrow> int" where
  "to_i64 n = (if n < 2 ^ 63 then int n else int n - 2 ^ 64)"

definition of_i64 :: "int \<Rightarrow> nat" where
  "of_i64 z = nat (z mod 2 ^ 64)"

lemma of_to_i64 [simp]: "n < 2 ^ 64 \<Longrightarrow> of_i64 (to_i64 n) = n"
proof (cases "n < 2 ^ 63")
  case False
  assume "n < 2 ^ 64"
  have "(int n - 2 ^ 64) mod 2 ^ 64 = int n mod 2 ^ 64" by (simp add: mod_diff_right_eq [symmetric])
  thus ?thesis using False \<open>n < 2 ^ 64\<close> by (simp add: of_i64_def to_i64_def)
qed (simp add: of_i64_def to_i64_def)

record sql_row =
  sr_id :: string
  sr_tier :: string
  sr_created_at :: int
  sr_payload :: "byte list"
  sr_original_size :: int
  sr_geohash :: string

record sqlite_store =
  sq_messages :: "sql_row list"
  sq_meta :: "(string \<times> string) list"

definition sql_open :: sqlite_store where
  "sql_open = \<lparr>sq_messages = [], sq_meta = []\<rparr>"

definition parse_tier :: "string \<Rightarrow> message_tier" where
  "parse_tier l =
     (if l = ''critical'' then Critical else if l = ''important'' then Important
      else if l = ''low'' then Low else Normal)"

definition row_of :: "tiered_message \<Rightarrow> sql_row" where
  "row_of m = \<lparr>sr_id = tm_id m, sr_tier = tier_label (tm_tier m), sr_created_at = to_i64 (tm_created_at m),
     sr_payload = tm_payload m, sr_original_size = to_i64 (tm_original_size m), sr_geohash = tm_geohash m\<rparr>"

definition message_of :: "sql_row \<Rightarrow> tiered_message" where
  "message_of r = \<lparr>tm_id = sr_id r, tm_tier = parse_tier (sr_tier r), tm_created_at = of_i64 (sr_created_at r),
     tm_payload = sr_payload r, tm_original_size = of_i64 (sr_original_size r), tm_geohash = sr_geohash r\<rparr>"

text \<open>\<open>INSERT OR REPLACE\<close> on the primary key.\<close>

definition sql_store :: "tiered_message \<Rightarrow> sqlite_store \<Rightarrow> sqlite_store" where
  "sql_store m db = db\<lparr>sq_messages := filter (\<lambda>r. sr_id r \<noteq> tm_id m) (sq_messages db) @ [row_of m]\<rparr>"

definition sql_get :: "string \<Rightarrow> sqlite_store \<Rightarrow> tiered_message option" where
  "sql_get i db = map_option message_of (find (\<lambda>r. sr_id r = i) (sq_messages db))"

definition sql_load_all :: "sqlite_store \<Rightarrow> tiered_message list" where
  "sql_load_all db = map message_of (sq_messages db)"

fun sql_sweep_tiers :: "nat \<Rightarrow> message_tier list \<Rightarrow> nat \<Rightarrow> sql_row list \<Rightarrow> nat \<times> sql_row list" where
  "sql_sweep_tiers now [] purged rows = (purged, rows)"
| "sql_sweep_tiers now (t # ts) purged rows =
     (let cutoff = to_i64 (now - retention_secs t);
          kept = filter (\<lambda>r. \<not> (sr_tier r = tier_label t \<and> sr_created_at r < cutoff)) rows
      in sql_sweep_tiers now ts (purged + (length rows - length kept)) kept)"

definition sql_sweep :: "nat \<Rightarrow> sqlite_store \<Rightarrow> nat \<times> sqlite_store" where
  "sql_sweep now db =
     (case sql_sweep_tiers now [Critical, Important, Normal, Low] 0 (sq_messages db) of
        (n, rows) \<Rightarrow> (n, db\<lparr>sq_messages := rows\<rparr>))"

definition sql_count :: "sqlite_store \<Rightarrow> nat" where
  "sql_count db = length (sq_messages db)"

definition set_meta :: "string \<Rightarrow> string \<Rightarrow> sqlite_store \<Rightarrow> sqlite_store" where
  "set_meta k v db = db\<lparr>sq_meta := filter (\<lambda>(k', _). k' \<noteq> k) (sq_meta db) @ [(k, v)]\<rparr>"

definition get_meta :: "string \<Rightarrow> sqlite_store \<Rightarrow> string option" where
  "get_meta k db = map_of (sq_meta db) k"

lemma get_set_meta: "get_meta k (set_meta k' v db) = (if k = k' then Some v else get_meta k db)"
proof -
  have "map_of (filter (\<lambda>(x, _). x \<noteq> k') xs) k = (if k = k' then None else map_of xs k)" for xs :: "(string \<times> string) list"
    by (induction xs) auto
  thus ?thesis by (simp add: get_meta_def set_meta_def map_add_def split: option.split)
qed

lemma parse_tier_label [simp]: "parse_tier (tier_label t) = t"
  by (cases t) (simp_all add: parse_tier_def)

lemma tier_label_inj [simp]: "tier_label s = tier_label t \<longleftrightarrow> s = t"
  by (metis parse_tier_label)

definition tm_wf :: "tiered_message \<Rightarrow> bool" where
  "tm_wf m \<longleftrightarrow> tm_created_at m < 2 ^ 63 \<and> tm_original_size m < 2 ^ 63"

lemma message_of_row [simp]: "tm_wf m \<Longrightarrow> message_of (row_of m) = m"
  by (simp add: message_of_def row_of_def tm_wf_def)

text \<open>The SQL sweep keeps a message one second longer than the sweep in memory.\<close>

definition sql_keeps :: "nat \<Rightarrow> tiered_message \<Rightarrow> bool" where
  "sql_keeps now m \<longleftrightarrow> now - tm_created_at m \<le> retention_secs (tm_tier m)"

lemma sql_sweep_tiers_rows:
  "snd (sql_sweep_tiers now ts n rows) =
     filter (\<lambda>r. \<forall>t\<in>set ts. \<not> (sr_tier r = tier_label t \<and> sr_created_at r < to_i64 (now - retention_secs t))) rows"
  by (induction now ts n rows rule: sql_sweep_tiers.induct) (auto simp: Let_def intro: filter_cong)

lemma sql_sweep_row:
  assumes "tm_wf m" "now < 2 ^ 63" "\<And>t. t \<in> T"
  shows "(\<forall>t\<in>T. \<not> (sr_tier (row_of m) = tier_label t
      \<and> sr_created_at (row_of m) < to_i64 (now - retention_secs t))) \<longleftrightarrow> sql_keeps now m"
proof -
  have "(\<forall>t\<in>T. \<not> (sr_tier (row_of m) = tier_label t \<and> sr_created_at (row_of m) < to_i64 (now - retention_secs t)))
    \<longleftrightarrow> \<not> to_i64 (tm_created_at m) < to_i64 (now - retention_secs (tm_tier m))"
    using assms(3) by (auto simp: row_of_def)
  also have "\<dots> \<longleftrightarrow> sql_keeps now m"
    using assms(1,2) by (auto simp: to_i64_def tm_wf_def sql_keeps_def)
  finally show ?thesis .
qed

lemma sql_sweep_rows:
  assumes "list_all tm_wf ms" "now < 2 ^ 63" "sq_messages db = map row_of ms"
  shows "sq_messages (snd (sql_sweep now db)) = map row_of (filter (sql_keeps now) ms)"
proof -
  define T where "T = [Critical, Important, Normal, Low]"
  have T: "t \<in> set T" for t by (cases t) (simp_all add: T_def)
  have "filter (\<lambda>r. \<forall>t\<in>set T. \<not> (sr_tier r = tier_label t \<and> sr_created_at r < to_i64 (now - retention_secs t))) (map row_of ms)
    = map row_of (filter (sql_keeps now) ms)"
    unfolding filter_map comp_def
    by (intro arg_cong [of _ _ "map row_of"] filter_cong HOL.refl sql_sweep_row T)
      (use assms in \<open>auto simp: list_all_iff\<close>)
  thus ?thesis
    unfolding sql_sweep_def T_def [symmetric] by (simp add: prod.case_eq_if sql_sweep_tiers_rows assms(3))
qed

section \<open>Memory and mirror together\<close>

text \<open>\<open>Node::persist_message\<close>, called after every accepted store.\<close>

definition persist_message ::
    "string \<Rightarrow> message_tier \<Rightarrow> byte list \<Rightarrow> nat \<Rightarrow> string \<Rightarrow> tiered_store \<Rightarrow> sqlite_store \<Rightarrow> sqlite_store" where
  "persist_message i tier payload ca g st db =
     sql_store (case find (\<lambda>m. tm_id m = i) (all_messages st) of
         Some m \<Rightarrow> m
       | None \<Rightarrow> \<lparr>tm_id = i, tm_tier = tier, tm_created_at = ca, tm_payload = payload,
                  tm_original_size = length payload, tm_geohash = g\<rparr>) db"

text \<open>\<open>Node::load_persisted_messages\<close> and \<open>Node::sweep_message_store\<close>.\<close>

fun load_persisted_messages :: "nat \<Rightarrow> tiered_message list \<Rightarrow> nat \<Rightarrow> tiered_store \<Rightarrow> nat \<times> tiered_store" where
  "load_persisted_messages now [] restored st = (restored, st)"
| "load_persisted_messages now (m # ms) restored st =
     (if now - tm_created_at m < retention_secs (tm_tier m) then
        (case tiered_restore m st of (b, st') \<Rightarrow> load_persisted_messages now ms (if b then restored + 1 else restored) st')
      else load_persisted_messages now ms restored st)"

definition sweep_message_store :: "nat \<Rightarrow> tiered_store \<Rightarrow> sqlite_store \<Rightarrow> nat \<times> tiered_store \<times> sqlite_store" where
  "sweep_message_store now st db =
     (case tiered_sweep now st of (n, st') \<Rightarrow> (n, st', snd (sql_sweep now db)))"

datatype durable_op = DStore string message_tier "byte list" nat string | DSweep nat

fun durable_step :: "deflate_env \<Rightarrow> durable_op \<Rightarrow> tiered_store \<times> sqlite_store \<Rightarrow> tiered_store \<times> sqlite_store" where
  "durable_step df (DStore i t p ca g) (st, db) =
     (case tiered_store_msg df i t p ca g st of
        (True, st') \<Rightarrow> (st', persist_message i t p ca g st' db)
      | (False, st') \<Rightarrow> (st', db))"
| "durable_step df (DSweep now) (st, db) = snd (sweep_message_store now st db)"

fun durable_ok :: "nat \<Rightarrow> durable_op \<Rightarrow> bool" where
  "durable_ok horizon (DStore i t p ca g) = (length p < 2 ^ 63 \<and> ca < 2 ^ 63)"
| "durable_ok horizon (DSweep now) = (now \<le> horizon)"

definition durable_inv :: "nat \<Rightarrow> storage_policy \<Rightarrow> tiered_store \<times> sqlite_store \<Rightarrow> bool" where
  "durable_inv horizon p s \<longleftrightarrow> (case s of (st, db) \<Rightarrow>
     st_policy st = p \<and> distinct (map tm_id (st_messages st)) \<and> raw_total st \<le> max_bytes p
     \<and> (\<exists>ms. sq_messages db = map row_of ms \<and> distinct (map tm_id ms) \<and> list_all tm_wf ms
          \<and> set (st_messages st) \<subseteq> set ms
          \<and> (\<forall>m\<in>set ms - set (st_messages st). \<not> tier_keeps horizon m)))"

lemma tier_keeps_antimono: "\<not> tier_keeps now m \<Longrightarrow> now \<le> later \<Longrightarrow> \<not> tier_keeps later m"
  by (auto simp: tier_keeps_def)

lemma tier_keeps_sql: "tier_keeps now m \<Longrightarrow> sql_keeps now m"
  by (simp add: tier_keeps_def sql_keeps_def)

lemma durable_store:
  assumes "durable_inv h p (st, db)" "length pl < 2 ^ 63" "ca < 2 ^ 63"
  shows "durable_inv h p (durable_step df (DStore i t pl ca g) (st, db))"
proof (rule store_msg_cases [of df i t pl ca g st])
  assume "tiered_store_msg df i t pl ca g st = (False, st)"
  thus ?thesis using assms(1) by simp
next
  let ?m = "\<lparr>tm_id = i, tm_tier = t, tm_created_at = ca, tm_payload = df_compress df pl,
     tm_original_size = length pl, tm_geohash = g\<rparr>"
  assume st: "tiered_store_msg df i t pl ca g st = (True, add_message ?m st)"
    and new: "i \<notin> tm_id ` set (st_messages st)" and "(used_raw_bytes st + length pl) mod 2 ^ 64 \<le> max_bytes (st_policy st)"
  hence raw: "raw_total st + length pl \<le> max_bytes p"
    using budget_test [of st p "length pl"] assms by (simp add: durable_inv_def)
  obtain ms where ms: "sq_messages db = map row_of ms" "distinct (map tm_id ms)" "list_all tm_wf ms"
    "set (st_messages st) \<subseteq> set ms" "\<forall>m\<in>set ms - set (st_messages st). \<not> tier_keeps h m"
    using assms(1) by (auto simp: durable_inv_def)
  let ?ms = "filter (\<lambda>m. tm_id m \<noteq> i) ms @ [?m]"
  have find: "find (\<lambda>m. tm_id m = i) (st_messages st @ [?m]) = Some ?m"
    using find_by_id [of "st_messages st @ [?m]" ?m] assms(1) new by (simp add: durable_inv_def)
  have step: "durable_step df (DStore i t pl ca g) (st, db) = (add_message ?m st, sql_store ?m db)"
    using st find by (simp add: persist_message_def all_messages_def add_message_def)
  have rows: "sq_messages (sql_store ?m db) = map row_of ?ms"
    using ms(1) by (simp add: sql_store_def filter_map comp_def row_of_def [of "_ :: tiered_message"])
  have "distinct (map tm_id ?ms)" using ms(2) by (auto simp: distinct_map_filter)
  moreover have "list_all tm_wf ?ms" using ms(3) assms(2,3) by (auto simp: list_all_iff tm_wf_def)
  moreover have "set (st_messages st @ [?m]) \<subseteq> set ?ms" using ms(4) new by auto
  moreover have "\<forall>m\<in>set ?ms - set (st_messages st @ [?m]). \<not> tier_keeps h m" using ms(5) by auto
  moreover have "raw_total (add_message ?m st) = raw_total st + length pl" by (simp add: raw_total_def add_message_def)
  ultimately show ?thesis
    unfolding step using rows raw assms(1) new
    by (auto simp: durable_inv_def add_message_def intro!: exI [of _ ?ms])
qed

lemma durable_sweep:
  assumes "durable_inv h p (st, db)" "now \<le> h" "h < 2 ^ 63"
  shows "durable_inv h p (durable_step df (DSweep now) (st, db))"
proof -
  obtain ms where ms: "sq_messages db = map row_of ms" "distinct (map tm_id ms)" "list_all tm_wf ms"
    "set (st_messages st) \<subseteq> set ms" "\<forall>m\<in>set ms - set (st_messages st). \<not> tier_keeps h m"
    using assms(1) by (auto simp: durable_inv_def)
  let ?ms = "filter (sql_keeps now) ms" and ?k = "filter (tier_keeps now) (st_messages st)"
  have rows: "sq_messages (snd (sql_sweep now db)) = map row_of ?ms"
    by (rule sql_sweep_rows) (use ms assms in auto)
  have raw: "(\<Sum>m\<leftarrow>?k. tm_original_size m) \<le> raw_total st"
    using sum_list_filter_split [of tm_original_size "tier_keeps now" "st_messages st"] by (simp add: raw_total_def)
  have "set ?k \<subseteq> set ?ms" using ms(4) tier_keeps_sql by auto
  moreover have "\<forall>m\<in>set ?ms - set ?k. \<not> tier_keeps h m"
    using ms(5) tier_keeps_antimono [OF _ assms(2)] by auto
  moreover have "distinct (map tm_id ?ms)" "distinct (map tm_id ?k)" "list_all tm_wf ?ms"
    using ms assms(1) by (auto simp: distinct_map_filter durable_inv_def list_all_iff)
  ultimately show ?thesis using rows raw assms(1)
    by (auto simp: durable_inv_def sweep_message_store_def tiered_sweep_def Let_def raw_total_def intro!: exI [of _ ?ms])
qed

interpretation durablem: guarded_machine "durable_step df" "\<lambda>s. h < 2 ^ 63 \<and> durable_inv h p s" "durable_ok h" for df h p
proof
  fix s :: "tiered_store \<times> sqlite_store" and x
  assume "h < 2 ^ 63 \<and> durable_inv h p s" "durable_ok h x"
  thus "h < 2 ^ 63 \<and> durable_inv h p (durable_step df x s)"
    by (cases s; cases x) (auto simp del: durable_step.simps intro!: durable_store durable_sweep)
qed

text \<open>Loading messages with unique identifiers that fit the budget restores all of them that are not
  expired.\<close>

lemma load_persisted_all:
  assumes "distinct (map tm_id (st_messages st @ ms))" "\<forall>m\<in>set ms. tm_original_size m < 2 ^ 63"
    and "raw_total st + (\<Sum>m\<leftarrow>filter (tier_keeps now) ms. tm_original_size m) \<le> max_bytes (st_policy st)"
  shows "\<exists>st'. load_persisted_messages now ms n st = (n + length (filter (tier_keeps now) ms), st')
    \<and> st_messages st' = st_messages st @ filter (tier_keeps now) ms"
  using assms
proof (induction ms arbitrary: n st)
  case (Cons m ms)
  show ?case
  proof (cases "tier_keeps now m")
    case False
    thus ?thesis using Cons by (simp add: tier_keeps_def)
  next
    case True
    have raw: "raw_total st \<le> max_bytes (st_policy st)" "raw_total st + tm_original_size m \<le> max_bytes (st_policy st)"
      using Cons.prems(3) True by auto
    have "tm_id m \<notin> tm_id ` set (st_messages st)" using Cons.prems(1) by auto
    hence new: "\<not> list_ex (\<lambda>x. tm_id x = tm_id m) (st_messages st)"
      unfolding list_ex_iff by (metis imageI)
    have "\<not> (used_raw_bytes st + tm_original_size m) mod 2 ^ 64 > max_bytes (st_policy st)"
      using budget_test [OF raw(1), of "tm_original_size m"] raw(2) Cons.prems(2) by simp
    with new have r: "tiered_restore m st = (True, add_message m st)"
      unfolding tiered_restore_def add_message_def by (simp only: if_False) simp
    have "raw_total (add_message m st) = raw_total st + tm_original_size m" by (simp add: raw_total_def add_message_def)
    moreover have "st_policy (add_message m st) = st_policy st" "st_messages (add_message m st) = st_messages st @ [m]"
      by (simp_all add: add_message_def)
    ultimately show ?thesis
      using Cons.IH [of "add_message m st" "Suc n"] Cons.prems r True by (simp add: tier_keeps_def)
  qed
qed simp

text \<open>C15: nothing is lost and nothing comes back after a crash. Run any stores (each followed by its
  \<open>persist_message\<close>) and sweeps of memory and SQLite from an empty node, with a clock that is not
  beyond \<open>now\<close>. Loading the rows, in whatever order SQLite returns them, into a new empty store of the
  same policy restores exactly the messages that were in memory and are not expired at \<open>now\<close>, although the SQL sweep keeps a message of exactly the retention age that the
  sweep in memory drops.\<close>

theorem durable_recovery:
  assumes "list_all (durable_ok now) ops" "now < 2 ^ 63"
    and "fold (durable_step df) ops (tiered_with_geohash p g, sql_open) = (st, db)"
    and "mset rows = mset (sql_load_all db)"
  shows "\<exists>st'. load_persisted_messages now rows 0 (tiered_with_geohash p g) =
        (length (filter (tier_keeps now) (st_messages st)), st')
    \<and> mset (st_messages st') = mset (filter (tier_keeps now) (st_messages st))"
proof -
  have "durable_inv now p (tiered_with_geohash p g, sql_open)"
    by (simp add: durable_inv_def tiered_with_geohash_def sql_open_def raw_total_def)
  with durablem.run_inv [of now p "(tiered_with_geohash p g, sql_open)" ops df] assms(1-3)
  have inv: "durable_inv now p (st, db)" by simp
  then obtain ms where ms: "sq_messages db = map row_of ms" "distinct (map tm_id ms)" "list_all tm_wf ms"
    "set (st_messages st) \<subseteq> set ms" "\<forall>m\<in>set ms - set (st_messages st). \<not> tier_keeps now m"
    by (auto simp: durable_inv_def)
  have "sql_load_all db = ms" using ms(1,3) by (auto simp: sql_load_all_def list_all_iff intro: map_idI)
  hence rows: "mset rows = mset ms" using assms(4) by simp
  hence set: "set rows = set ms" by (rule mset_eq_setD)
  have d: "distinct (map tm_id rows)"
    using ms(2) rows by (metis mset_eq_imp_distinct_iff mset_map)
  have "distinct ms" "distinct (st_messages st)" using ms(2) inv by (auto simp: durable_inv_def distinct_map)
  moreover have "set (filter (tier_keeps now) ms) = set (filter (tier_keeps now) (st_messages st))"
    using ms(4,5) by auto
  ultimately have eq: "mset (filter (tier_keeps now) ms) = mset (filter (tier_keeps now) (st_messages st))"
    using set_eq_iff_mset_eq_distinct [of "filter (tier_keeps now) ms" "filter (tier_keeps now) (st_messages st)"]
    by (simp only: distinct_filter)
  hence keep: "mset (filter (tier_keeps now) rows) = mset (filter (tier_keeps now) (st_messages st))"
    using rows by (simp add: mset_filter)
  have "(\<Sum>m\<leftarrow>filter (tier_keeps now) rows. tm_original_size m) = (\<Sum>m\<leftarrow>filter (tier_keeps now) (st_messages st). tm_original_size m)"
    using keep by (metis mset_map sum_mset_sum_list)
  also have "\<dots> \<le> raw_total st"
    using sum_list_filter_split [of tm_original_size "tier_keeps now" "st_messages st"] by (simp add: raw_total_def)
  finally have budget: "(\<Sum>m\<leftarrow>filter (tier_keeps now) rows. tm_original_size m) \<le> max_bytes p"
    using inv by (simp add: durable_inv_def)
  have small: "\<forall>m\<in>set rows. tm_original_size m < 2 ^ 63" using ms(3) set by (auto simp: list_all_iff tm_wf_def)
  have "length (filter (tier_keeps now) rows) = length (filter (tier_keeps now) (st_messages st))"
    using keep by (metis size_mset)
  with load_persisted_all [of "tiered_with_geohash p g" rows now 0] d small budget keep show ?thesis
    by (auto simp: tiered_with_geohash_def raw_total_def)
qed

lemma durable_recovery_witness:
  "\<exists>st db st'. fold (durable_step demo_deflate)
      [DStore ''a'' Critical [7] 5 ''x'', DStore ''b'' Low [8] 5 ''u09tunq'', DSweep 3605]
      (tiered_with_geohash Mobile ''u09tunq'', sql_open) = (st, db)
    \<and> load_persisted_messages 3605 (rev (sql_load_all db)) 0 (tiered_with_geohash Mobile ''u09tunq'')
        = (length (filter (tier_keeps 3605) (st_messages st)), st')"
proof -
  let ?ops = "[DStore ''a'' Critical [7] 5 ''x'', DStore ''b'' Low [8] 5 ''u09tunq'', DSweep 3605]"
  obtain st db where r: "fold (durable_step demo_deflate) ?ops (tiered_with_geohash Mobile ''u09tunq'', sql_open) = (st, db)"
    by (cases "fold (durable_step demo_deflate) ?ops (tiered_with_geohash Mobile ''u09tunq'', sql_open)") simp
  have "list_all (durable_ok 3605) ?ops" by simp
  from durable_recovery [OF this _ r, of "rev (sql_load_all db)"] r show ?thesis by auto
qed

section \<open>Geohash and sharding\<close>

definition base32 :: string where
  "base32 = ''0123456789bcdefghjkmnpqrstuvwxyz''"

record geo_state =
  gh_out :: string
  gh_lat :: "rat \<times> rat"
  gh_lon :: "rat \<times> rat"
  gh_bits :: nat
  gh_acc :: nat
  gh_is_lon :: bool

definition geo_init :: geo_state where
  "geo_init = \<lparr>gh_out = [], gh_lat = (- 90, 90), gh_lon = (- 180, 180), gh_bits = 0, gh_acc = 0, gh_is_lon = True\<rparr>"

text \<open>One halving; \<open>(a + b) / 2\<close> in \<open>f64\<close>.\<close>

definition geo_mid :: "rat \<times> rat \<Rightarrow> rat" where
  "geo_mid r = f64 (f64 (fst r + snd r) / 2)"

definition geo_turn :: "rat \<Rightarrow> rat \<Rightarrow> geo_state \<Rightarrow> geo_state" where
  "geo_turn lat lon s =
     (let s1 =
        (if gh_is_lon s then
           let mid = geo_mid (gh_lon s) in
           if lon \<ge> mid then s\<lparr>gh_acc := gh_acc s * 2 + 1, gh_lon := (mid, snd (gh_lon s))\<rparr>
           else s\<lparr>gh_acc := gh_acc s * 2, gh_lon := (fst (gh_lon s), mid)\<rparr>
         else
           let mid = geo_mid (gh_lat s) in
           if lat \<ge> mid then s\<lparr>gh_acc := gh_acc s * 2 + 1, gh_lat := (mid, snd (gh_lat s))\<rparr>
           else s\<lparr>gh_acc := gh_acc s * 2, gh_lat := (fst (gh_lat s), mid)\<rparr>);
        s2 = s1\<lparr>gh_is_lon := \<not> gh_is_lon s1, gh_bits := gh_bits s1 + 1\<rparr>
      in if gh_bits s2 = 5 then
           s2\<lparr>gh_out := gh_out s2 @ [base32 ! (gh_acc s2 mod 32)], gh_bits := 0, gh_acc := 0\<rparr>
         else s2)"

definition geo_done :: "nat \<Rightarrow> geo_state \<Rightarrow> nat" where
  "geo_done precision s = 5 * (precision - length (gh_out s)) + (5 - gh_bits s)"

lemma geo_turn_out:
  "prefix (gh_out s) (gh_out (geo_turn lat lon s))
   \<and> length (gh_out (geo_turn lat lon s)) = (if gh_bits s = 4 then Suc (length (gh_out s)) else length (gh_out s))
   \<and> gh_bits (geo_turn lat lon s) = (if gh_bits s = 4 then 0 else gh_bits s + 1)"
  by (auto simp: geo_turn_def Let_def)

text \<open>\<open>while geohash.len() < precision\<close>. The counter of bits is below 5 at the head of the loop, since it
  is reset when it reaches 5; the second test only makes the recursion total.\<close>

function geo_loop :: "nat \<Rightarrow> rat \<Rightarrow> rat \<Rightarrow> geo_state \<Rightarrow> string" where
  "geo_loop precision lat lon s =
     (if length (gh_out s) < precision \<and> gh_bits s < 5 then geo_loop precision lat lon (geo_turn lat lon s) else gh_out s)"
  by auto
termination
proof (relation "measure (\<lambda>(p, lat, lon, s). geo_done p s)")
  fix p :: nat and lat lon :: rat and s :: geo_state
  assume "length (gh_out s) < p \<and> gh_bits s < 5"
  thus "((p, lat, lon, geo_turn lat lon s), p, lat, lon, s) \<in> measure (\<lambda>(p, lat, lon, s). geo_done p s)"
    using geo_turn_out [where lat = lat and lon = lon and s = s] by (cases "gh_bits s = 4") (auto simp: geo_done_def)
qed simp

declare geo_loop.simps [simp del]

definition position_to_geohash :: "rat \<Rightarrow> rat \<Rightarrow> nat \<Rightarrow> string" where
  "position_to_geohash lat lon precision = geo_loop precision lat lon geo_init"

lemma base32_nth: "base32 ! (n mod 32) \<in> set base32"
  by (rule nth_mem) (simp add: base32_def)

lemma geo_turn_set: "set (gh_out (geo_turn lat lon s)) \<subseteq> set (gh_out s) \<union> set base32"
  using base32_nth by (auto simp: geo_turn_def Let_def)

lemma geo_loop_spec:
  "gh_bits s < 5 \<Longrightarrow> length (gh_out s) \<le> p \<Longrightarrow>
     prefix (gh_out s) (geo_loop p lat lon s) \<and> length (geo_loop p lat lon s) = p
     \<and> set (geo_loop p lat lon s) \<subseteq> set (gh_out s) \<union> set base32"
proof (induction p lat lon s rule: geo_loop.induct)
  case (1 p lat lon s)
  note t = geo_turn_out [where lat = lat and lon = lon and s = s]
  show ?case
  proof (cases "length (gh_out s) < p")
    case True
    have "gh_bits (geo_turn lat lon s) < 5" "length (gh_out (geo_turn lat lon s)) \<le> p"
      using t "1.prems" True by auto
    with "1.IH" True "1.prems"(1)
    have IH: "prefix (gh_out (geo_turn lat lon s)) (geo_loop p lat lon (geo_turn lat lon s))"
      "length (geo_loop p lat lon (geo_turn lat lon s)) = p"
      "set (geo_loop p lat lon (geo_turn lat lon s)) \<subseteq> set (gh_out (geo_turn lat lon s)) \<union> set base32" by auto
    have step: "geo_loop p lat lon s = geo_loop p lat lon (geo_turn lat lon s)"
      using True "1.prems"(1) by (subst geo_loop.simps) simp
    show ?thesis unfolding step
      using IH t geo_turn_set [of lat lon s] by (meson Un_least order_trans prefix_order.order_trans sup_ge2)
  next
    case False
    thus ?thesis using "1.prems" by (subst (1 2 3) geo_loop.simps) auto
  qed
qed

lemma geo_loop_take:
  "gh_bits s < 5 \<Longrightarrow> length (gh_out s) \<le> q \<Longrightarrow> q \<le> p \<Longrightarrow> geo_loop q lat lon s = take q (geo_loop p lat lon s)"
proof (induction p lat lon s rule: geo_loop.induct)
  case (1 p lat lon s)
  note t = geo_turn_out [where lat = lat and lon = lon and s = s]
  show ?case
  proof (cases "length (gh_out s) < q")
    case True
    hence steps: "geo_loop q lat lon s = geo_loop q lat lon (geo_turn lat lon s)"
      "geo_loop p lat lon s = geo_loop p lat lon (geo_turn lat lon s)"
      using "1.prems" by (subst geo_loop.simps, simp)+
    show ?thesis unfolding steps using "1.IH" "1.prems" True t by (auto split: if_splits)
  next
    case False
    hence "geo_loop q lat lon s = gh_out s" by (subst geo_loop.simps) simp
    moreover have "prefix (gh_out s) (geo_loop p lat lon s)"
      using geo_loop_spec [of s p lat lon] "1.prems" by simp
    ultimately show ?thesis using False "1.prems"(2) by (auto simp: prefix_def)
  qed
qed

lemma geohash_facts:
  "length (position_to_geohash lat lon p) = p"
  "set (position_to_geohash lat lon p) \<subseteq> set base32"
  "q \<le> p \<Longrightarrow> position_to_geohash lat lon q = take q (position_to_geohash lat lon p)"
  using geo_loop_spec [of geo_init p lat lon] geo_loop_take [of geo_init q p lat lon]
  by (simp_all add: position_to_geohash_def geo_init_def)

lemma common_prefix_length:
  assumes "length xs = length ys"
  shows "n \<le> length (takeWhile (\<lambda>(a, b). a = b) (zip xs ys)) \<longleftrightarrow> n \<le> length xs \<and> take n xs = take n ys"
  using assms
proof (induction xs ys arbitrary: n rule: list_induct2)
  case (Cons x xs y ys)
  thus ?case by (cases n) auto
qed simp

lemma base32_ascii: "c \<in> set base32 \<Longrightarrow> \<not> cont_byte (of_char c)"
  by (auto simp: base32_def cont_byte_def)

text \<open>The geohash and the sharding that uses it. A geohash of precision \<open>p\<close> has \<open>p\<close> characters of the
  alphabet, and a lower precision is its prefix; hence a store keeps a message of a position exactly
  when it is critical or the position lies in the node's own cell of 5, 4 or 3 characters, as the
  profile says.\<close>

theorem geohash_sharding:
  assumes "n \<le> 7" "0 < n"
  shows "length (position_to_geohash lat lon p) = p \<and> set (position_to_geohash lat lon p) \<subseteq> set base32
    \<and> (q \<le> p \<longrightarrow> position_to_geohash lat lon q = take q (position_to_geohash lat lon p))
    \<and> (should_store_locally (position_to_geohash lat lon 7) (position_to_geohash lat' lon' 7) tier n
        \<longleftrightarrow> tier = Critical \<or> position_to_geohash lat lon n = position_to_geohash lat' lon' n)"
proof -
  let ?a = "position_to_geohash lat lon 7" and ?b = "position_to_geohash lat' lon' 7"
  have chars: "utf8_chars (position_to_geohash x y 7) = map (\<lambda>c. [c]) (position_to_geohash x y 7)" for x y
    using geohash_facts(2) [of x y 7] base32_ascii by (intro utf8_chars_ascii) auto
  have "map (\<lambda>c. [c]) (take n ?a) = map (\<lambda>c. [c]) (take n ?b) \<longleftrightarrow> take n ?a = take n ?b"
    by (rule inj_map_eq_map) (simp add: inj_def)
  hence "n \<le> length (takeWhile (\<lambda>(a, b). a = b) (zip (utf8_chars ?a) (utf8_chars ?b))) \<longleftrightarrow> take n ?a = take n ?b"
    using common_prefix_length [of "utf8_chars ?a" "utf8_chars ?b" n] assms by (simp add: chars geohash_facts(1) take_map)
  moreover have "position_to_geohash lat lon n = take n ?a" "position_to_geohash lat' lon' n = take n ?b"
    using assms(1) by (rule geohash_facts(3))+
  ultimately have "should_store_locally ?a ?b tier n
      \<longleftrightarrow> tier = Critical \<or> position_to_geohash lat lon n = position_to_geohash lat' lon' n"
    using assms(2) by (simp add: should_store_locally_def)
  thus ?thesis by (intro conjI impI geohash_facts)
qed

lemma geohash_sharding_witness: "length (position_to_geohash 48 2 7) = 7"
  by (rule geohash_sharding [of 5, THEN conjunct1]) simp_all

section \<open>The ZIM header, the tile cache and the seeder\<close>

text \<open>The files are what the file system holds at a path.\<close>

record zim_reader =
  zr_archive_path :: "string option"
  zr_cache :: "(string \<times> byte list) list"
  zr_total :: u64

definition zim_reader_new :: zim_reader where
  "zim_reader_new = \<lparr>zr_archive_path = None, zr_cache = [], zr_total = 0\<rparr>"

datatype zim_error = ZimNotFound | ZimShort | ZimVersion nat

definition parse_zim_header :: "byte list \<Rightarrow> zim_error + u64" where
  "parse_zim_header file =
     (if length file < 70 then Inl ZimShort
      else
        let header = take 70 file; major_version = le_nat (take 2 header)
        in if major_version < 5 then Inl (ZimVersion major_version)
           else Inr (le_u64 (take 8 (drop 14 header))))"

definition load_archive :: "(string \<Rightarrow> byte list option) \<Rightarrow> string \<Rightarrow> zim_reader \<Rightarrow> (zim_error + u64) \<times> zim_reader" where
  "load_archive files path z =
     (case files path of
        None \<Rightarrow> (Inl ZimNotFound, z)
      | Some file \<Rightarrow>
          (case parse_zim_header file of
             Inl e \<Rightarrow> (Inl e, z)
           | Inr n \<Rightarrow> (Inr n, z\<lparr>zr_total := n, zr_archive_path := Some path\<rparr>)))"

definition get_article :: "string \<Rightarrow> zim_reader \<Rightarrow> byte list option" where
  "get_article title z = map_of (zr_cache z) title"

definition zim_total_articles :: "zim_reader \<Rightarrow> u64" where
  "zim_total_articles z = zr_total z"

record mbtiles_renderer =
  mt_tile_cache :: "(string \<times> byte list) list"
  mt_db_path :: "string option"

definition mbtiles_new :: mbtiles_renderer where
  "mbtiles_new = \<lparr>mt_tile_cache = [], mt_db_path = None\<rparr>"

definition mbtiles_load :: "(string \<Rightarrow> byte list option) \<Rightarrow> string \<Rightarrow> mbtiles_renderer \<Rightarrow> (string + unit) \<times> mbtiles_renderer" where
  "mbtiles_load files path r =
     (if files path = None then (Inl (''MBTiles database not found: '' @ path), r)
      else (Inr (), r\<lparr>mt_tile_cache := [], mt_db_path := Some path\<rparr>))"

definition tile_key :: "nat \<Rightarrow> nat \<Rightarrow> nat \<Rightarrow> string" where
  "tile_key z x y = dec_digits z @ ''/'' @ dec_digits x @ ''/'' @ dec_digits y"

definition mbtiles_load_demo :: "byte list \<Rightarrow> mbtiles_renderer \<Rightarrow> mbtiles_renderer" where
  "mbtiles_load_demo png r = r\<lparr>mt_tile_cache :=
     fold (\<lambda>zoom cache. fold (\<lambda>x cache. fold (\<lambda>y cache. (tile_key zoom x y, png) # cache)
        [0..<min (2 ^ zoom) 4] cache) [0..<min (2 ^ zoom) 4] cache) [0..<6] (mt_tile_cache r)\<rparr>"

definition get_tile :: "nat \<Rightarrow> nat \<Rightarrow> nat \<Rightarrow> mbtiles_renderer \<Rightarrow> byte list option" where
  "get_tile zoom x y r = map_of (mt_tile_cache r) (tile_key zoom x y)"

record radar_position =
  rp_latitude :: rat
  rp_longitude :: rat
  rp_geohash :: string
  rp_accuracy_meters :: rat

definition get_radar_position :: "rat \<Rightarrow> rat \<Rightarrow> radar_position" where
  "get_radar_position lat lon = \<lparr>rp_latitude = lat, rp_longitude = lon,
     rp_geohash = position_to_geohash lat lon 7, rp_accuracy_meters = 153\<rparr>"

record seed_info =
  si_cid :: string
  si_file_name :: string
  si_size :: nat
  si_mime :: string
  si_seeding :: bool
  si_peer_count :: nat

record ipfs_seeder =
  is_seeds :: "(string \<times> seed_info) list"
  is_storage_path :: string
  is_total :: nat

text \<open>\<open>max_storage_gb * 1024 * 1024 * 1024\<close> in \<open>u64\<close>; the flag says whether the directory could be
  created.\<close>

definition seeder_new :: "bool \<Rightarrow> string \<Rightarrow> nat \<Rightarrow> string + ipfs_seeder" where
  "seeder_new created path gb =
     (if created then Inr \<lparr>is_seeds = [], is_storage_path = path, is_total = gb * 1024 ^ 3 mod 2 ^ 64\<rparr>
      else Inl ''failed to create IPFS seed directory'')"

definition seeder_disabled :: "nat \<Rightarrow> ipfs_seeder" where
  "seeder_disabled gb = \<lparr>is_seeds = [], is_storage_path = ''/tmp/onde-ipfs'', is_total = gb * 1024 ^ 3 mod 2 ^ 64\<rparr>"

definition used_storage :: "ipfs_seeder \<Rightarrow> nat" where
  "used_storage s = (\<Sum>p\<leftarrow>is_seeds s. si_size (snd p)) mod 2 ^ 64"

definition available_storage :: "ipfs_seeder \<Rightarrow> nat" where
  "available_storage s = is_total s - used_storage s"

definition demo_seeds :: "(string \<times> string \<times> nat \<times> string) list" where
  "demo_seeds =
     [(''QmWikipedia'', ''wikipedia_fr_2024.zim'', 90000000000, ''application/x-zim''),
      (''QmOndeAPK'', ''onde-latest.apk'', 45000000, ''application/vnd.android.package-archive''),
      (''QmQwen08B'', ''qwen2-0_5b-q4_k_m.gguf'', 530000000, ''application/octet-stream''),
      (''QmQwen9B'', ''qwen2-7b-q4_k_m.gguf'', 5600000000, ''application/octet-stream''),
      (''QmMaps'', ''france_tiles.mbtiles'', 2000000000, ''application/x-sqlite'')]"

text \<open>\<open>HashMap::insert\<close> replaces the value of the key.\<close>

definition seed_insert :: "string \<Rightarrow> seed_info \<Rightarrow> (string \<times> seed_info) list \<Rightarrow> (string \<times> seed_info) list" where
  "seed_insert k v m = filter (\<lambda>p. fst p \<noteq> k) m @ [(k, v)]"

definition register_seed :: "string \<times> string \<times> nat \<times> string \<Rightarrow> ipfs_seeder \<Rightarrow> ipfs_seeder" where
  "register_seed d s = (case d of (cid, name, sz, mime) \<Rightarrow>
     if (used_storage s + sz) mod 2 ^ 64 \<le> is_total s then
       s\<lparr>is_seeds := seed_insert cid \<lparr>si_cid = cid, si_file_name = name, si_size = sz, si_mime = mime,
           si_seeding = True, si_peer_count = 0\<rparr> (is_seeds s)\<rparr>
     else s)"

definition register_demo_seeds :: "ipfs_seeder \<Rightarrow> ipfs_seeder" where
  "register_demo_seeds s = fold register_seed demo_seeds s"

definition get_seed :: "string \<Rightarrow> ipfs_seeder \<Rightarrow> seed_info option" where
  "get_seed cid s = map_of (is_seeds s) cid"

text \<open>The seeder never promises more than its budget.\<close>

definition seeder_inv :: "ipfs_seeder \<Rightarrow> bool" where
  "seeder_inv s \<longleftrightarrow> (\<Sum>p\<leftarrow>is_seeds s. si_size (snd p)) \<le> is_total s \<and> is_total s < 2 ^ 63"

lemma seed_insert_sum:
  "(\<Sum>p\<leftarrow>seed_insert k v m. si_size (snd p)) \<le> (\<Sum>p\<leftarrow>m. si_size (snd p)) + si_size v"
  using sum_list_filter_split [of "\<lambda>p. si_size (snd p)" "\<lambda>p. fst p \<noteq> k" m] by (simp add: seed_insert_def)

interpretation seederm: guarded_machine register_seed seeder_inv "\<lambda>d. fst (snd (snd d)) < 2 ^ 63"
proof
  fix s :: ipfs_seeder and d :: "string \<times> string \<times> nat \<times> string"
  assume inv: "seeder_inv s" and small: "fst (snd (snd d)) < 2 ^ 63"
  obtain cid name sz mime where d: "d = (cid, name, sz, mime)" by (cases d)
  let ?v = "\<lparr>si_cid = cid, si_file_name = name, si_size = sz, si_mime = mime, si_seeding = True, si_peer_count = 0\<rparr>"
  have "(used_storage s + sz) mod 2 ^ 64 = (\<Sum>p\<leftarrow>is_seeds s. si_size (snd p)) + sz"
    using inv small d by (simp add: used_storage_def seeder_inv_def)
  thus "seeder_inv (register_seed d s)"
    using inv seed_insert_sum [of cid ?v "is_seeds s"] by (auto simp: seeder_inv_def register_seed_def d)
qed

lemma seeder_within_budget:
  assumes "seeder_inv s"
  shows "seeder_inv (register_demo_seeds s)"
  unfolding register_demo_seeds_def
  by (rule seederm.run_inv [OF assms]) (simp add: demo_seeds_def)

end
