(* ===== verification/Update.thy ===== *)
theory Update
  imports Crypto
begin

text \<open>
  The APK update protocol, \<open>core/src/update/mod.rs\<close>: versions, the root-signed announcement and
  manifest, chunking, and the receiver's state machine from announcement to installation. The
  signature scheme and SHA-256 are the parameters of \<open>Crypto\<close>.
\<close>

section \<open>Versions\<close>

datatype version = Version (v_major: "16 word") (v_minor: "16 word") (v_patch: "16 word")

instantiation version :: linorder
begin

definition less_eq_version :: "version \<Rightarrow> version \<Rightarrow> bool" where
  "less_eq_version a b \<longleftrightarrow>
     v_major a < v_major b \<or> v_major a = v_major b \<and>
       (v_minor a < v_minor b \<or> v_minor a = v_minor b \<and> v_patch a \<le> v_patch b)"

definition less_version :: "version \<Rightarrow> version \<Rightarrow> bool" where
  "less_version a b \<longleftrightarrow>
     v_major a < v_major b \<or> v_major a = v_major b \<and>
       (v_minor a < v_minor b \<or> v_minor a = v_minor b \<and> v_patch a < v_patch b)"

instance
proof
  fix x y z :: version
  show "(x < y) = (x \<le> y \<and> \<not> y \<le> x)" by (auto simp: less_eq_version_def less_version_def)
  show "x \<le> x" by (simp add: less_eq_version_def)
  show "x \<le> y \<Longrightarrow> y \<le> z \<Longrightarrow> x \<le> z" by (auto simp: less_eq_version_def)
  show "x \<le> y \<Longrightarrow> y \<le> x \<Longrightarrow> x = y" by (cases x; cases y) (auto simp: less_eq_version_def)
  show "x \<le> y \<or> y \<le> x" by (auto simp: less_eq_version_def)
qed

end

text \<open>\<open>str::split('.')\<close>\<close>

fun split_on :: "char \<Rightarrow> string \<Rightarrow> string list" where
  "split_on d [] = [[]]"
| "split_on d (c # cs) = (if c = d then [] # split_on d cs
     else case split_on d cs of [] \<Rightarrow> [[c]] | p # ps \<Rightarrow> (c # p) # ps)"

text \<open>\<open>parse::<u16>\<close>: an optional plus sign, then at least one digit, no overflow.\<close>

fun digits_value :: "nat \<Rightarrow> string \<Rightarrow> nat option" where
  "digits_value acc [] = Some acc"
| "digits_value acc (c # cs) =
     (let d = of_char c in
      if 48 \<le> d \<and> d \<le> 57 \<and> 10 * acc + (d - 48) < 2 ^ 16 then digits_value (10 * acc + (d - 48)) cs else None)"

definition parse_u16 :: "string \<Rightarrow> 16 word option" where
  "parse_u16 s =
     (let ds = (case s of c # cs \<Rightarrow> if c = CHR ''+'' then cs else s | [] \<Rightarrow> [])
      in if ds = [] then None else map_option of_nat (digits_value 0 ds))"

definition parse_version :: "string \<Rightarrow> version option" where
  "parse_version s =
     (case split_on CHR ''.'' (trim_ws s) of
        [a, b, c] \<Rightarrow>
          (case (parse_u16 a, parse_u16 b, parse_u16 c) of
             (Some x, Some y, Some z) \<Rightarrow> Some (Version x y z) | _ \<Rightarrow> None)
      | _ \<Rightarrow> None)"

definition show_version :: "version \<Rightarrow> string" where
  "show_version v = dec_digits (unat (v_major v)) @ ''.'' @ dec_digits (unat (v_minor v)) @ ''.''
     @ dec_digits (unat (v_patch v))"

section \<open>Announcements and manifests\<close>

definition ANNOUNCEMENT_MAGIC :: "byte list" where
  "ANNOUNCEMENT_MAGIC = str_bytes ''ONDENEW1''"

definition DEFAULT_CHUNK_SIZE :: nat where "DEFAULT_CHUNK_SIZE = 16 * 1024"
definition MAX_APK_SIZE :: nat where "MAX_APK_SIZE = 200 * 1024 * 1024"
definition MAX_CHUNKS :: nat where "MAX_CHUNKS = 12800"
definition SIGNED_MANIFEST_LEN :: nat where "SIGNED_MANIFEST_LEN = 8 + 32 + 32 + 8"
definition MANIFEST_WIRE_LEN :: nat where "MANIFEST_WIRE_LEN = SIGNED_MANIFEST_LEN + 8 + 4"

record update_announcement =
  ua_version :: version
  ua_apk_sha256 :: "byte list"
  ua_timestamp :: u64

definition announcement_bytes :: "update_announcement \<Rightarrow> byte list" where
  "announcement_bytes a = ANNOUNCEMENT_MAGIC @ nat_le 2 (unat (v_major (ua_version a)))
     @ nat_le 2 (unat (v_minor (ua_version a))) @ nat_le 2 (unat (v_patch (ua_version a)))
     @ ua_apk_sha256 a @ u64_le (ua_timestamp a)"

definition announcement_sign :: "crypto_env \<Rightarrow> update_announcement \<Rightarrow> byte list \<Rightarrow> byte list \<times> byte list" where
  "announcement_sign ce a root_seed = (let b = announcement_bytes a in (ce_sign ce root_seed b, b))"

datatype update_error =
    InvalidSignature string
  | NotNewer version version
  | ManifestMismatch
  | NoPendingTransfer
  | ChunkIndexOutOfBounds nat nat
  | ChunkTooLarge nat nat nat
  | IncompleteTransfer nat nat
  | VerificationFailed apk_error
  | TamperedApk
  | InstallFailed

definition rd_u16 :: "byte list \<Rightarrow> nat \<Rightarrow> 16 word" where
  "rd_u16 data off = of_nat (le_nat (take 2 (drop off data)))"

definition announcement_verify ::
    "crypto_env \<Rightarrow> byte list \<Rightarrow> byte list \<Rightarrow> byte list \<Rightarrow> update_error + update_announcement" where
  "announcement_verify ce rootk data sig =
     (if length data \<noteq> 8 + 6 + 32 + 8 \<or> take 8 data \<noteq> ANNOUNCEMENT_MAGIC then
        Inl (InvalidSignature ''Malformed update announcement'')
      else if \<not> verify_from_pubkey ce rootk data sig then
        Inl (InvalidSignature ''Update announcement signature invalid or untrusted'')
      else Inr \<lparr>ua_version = Version (rd_u16 data 8) (rd_u16 data 10) (rd_u16 data 12),
                ua_apk_sha256 = take 32 (drop 14 data),
                ua_timestamp = le_u64 (take 8 (drop 46 data))\<rparr>)"

record update_manifest =
  um_apk_manifest :: apk_manifest
  um_apk_size :: u64
  um_chunk_size :: u32

definition manifest_wire :: "update_manifest \<Rightarrow> byte list" where
  "manifest_wire m = to_signed_bytes (um_apk_manifest m) @ u64_le (um_apk_size m) @ nat_le 4 (unat (um_chunk_size m))"

definition update_manifest_sign :: "crypto_env \<Rightarrow> update_manifest \<Rightarrow> byte list \<Rightarrow> byte list \<times> byte list" where
  "update_manifest_sign ce m root_seed = (fst (manifest_sign ce (um_apk_manifest m) root_seed), manifest_wire m)"

definition parse_signed_manifest :: "byte list \<Rightarrow> apk_manifest option" where
  "parse_signed_manifest data =
     (if length data \<noteq> SIGNED_MANIFEST_LEN \<or> take 8 data \<noteq> APK_MAGIC then None
      else Some \<lparr>am_apk_hash = take 32 (drop 8 data), am_dev_pubkey = take 32 (drop 40 data),
                 am_timestamp = le_u64 (take 8 (drop 72 data))\<rparr>)"

definition update_manifest_verify ::
    "crypto_env \<Rightarrow> byte list \<Rightarrow> byte list \<Rightarrow> byte list \<Rightarrow> update_error + update_manifest" where
  "update_manifest_verify ce rootk data sig =
     (if length data \<noteq> MANIFEST_WIRE_LEN then Inl (InvalidSignature ''Malformed update manifest'')
      else if \<not> manifest_verify ce rootk (take SIGNED_MANIFEST_LEN data) sig then
        Inl (InvalidSignature ''Update manifest signature invalid or untrusted'')
      else case parse_signed_manifest (take SIGNED_MANIFEST_LEN data) of
        None \<Rightarrow> Inl (InvalidSignature ''Malformed signed manifest'')
      | Some am \<Rightarrow> Inr \<lparr>um_apk_manifest = am,
                       um_apk_size = le_u64 (take 8 (drop SIGNED_MANIFEST_LEN data)),
                       um_chunk_size = of_nat (le_nat (take 4 (drop (SIGNED_MANIFEST_LEN + 8) data)))\<rparr>)"

section \<open>The state machine\<close>

record installed_update =
  iu_version :: version
  iu_sha256 :: "byte list"
  iu_installed_at :: u64
  iu_path :: "string option"

datatype chunk_status = ChunkAccepted | ChunkDuplicate

record pending_update =
  pu_version :: version
  pu_manifest :: update_manifest
  pu_manifest_wire :: "byte list"
  pu_signature :: "byte list"
  pu_peer :: string
  pu_chunks :: "(nat \<times> byte list) list"
  pu_expected :: nat

record verified_state =
  vs_version :: version
  vs_sha256 :: "byte list"

record update_protocol =
  up_root :: "byte list"
  up_current :: version
  up_pending :: "pending_update option"
  up_verified :: "verified_state option"
  up_installed :: "installed_update list"

definition update_new :: "byte list \<Rightarrow> version \<Rightarrow> update_protocol" where
  "update_new rootk v = \<lparr>up_root = rootk, up_current = v, up_pending = None, up_verified = None, up_installed = []\<rparr>"

definition hash_apk :: "crypto_env \<Rightarrow> byte list \<Rightarrow> byte list" where
  "hash_apk ce apk = ce_sha256 ce apk"

definition build_announcement ::
    "crypto_env \<Rightarrow> version \<Rightarrow> byte list \<Rightarrow> byte list \<Rightarrow> u64 \<Rightarrow> update_announcement \<times> byte list \<times> byte list" where
  "build_announcement ce v apk root_seed ts =
     (let a = \<lparr>ua_version = v, ua_apk_sha256 = hash_apk ce apk, ua_timestamp = ts\<rparr>
      in (a, announcement_sign ce a root_seed))"

definition build_manifest ::
    "crypto_env \<Rightarrow> byte list \<Rightarrow> byte list \<Rightarrow> byte list \<Rightarrow> u64 \<Rightarrow> u32 \<Rightarrow> update_manifest \<times> byte list \<times> byte list" where
  "build_manifest ce apk root_seed dev ts cs =
     (let m = \<lparr>um_apk_manifest = from_apk ce apk dev ts, um_apk_size = of_nat (length apk), um_chunk_size = cs\<rparr>
      in (m, update_manifest_sign ce m root_seed))"

definition chunk_count :: "nat \<Rightarrow> nat \<Rightarrow> nat" where
  "chunk_count apk_len cs = (if cs = 0 then 0 else (apk_len + cs - 1) div cs)"

definition apk_chunk :: "byte list \<Rightarrow> nat \<Rightarrow> nat \<Rightarrow> byte list option" where
  "apk_chunk apk i cs = (let start = i * cs in
     if start \<ge> length apk then None else Some (take (min (start + cs) (length apk) - start) (drop start apk)))"

definition handle_announcement ::
    "crypto_env \<Rightarrow> byte list \<Rightarrow> byte list \<Rightarrow> update_protocol \<Rightarrow> update_error + update_announcement" where
  "handle_announcement ce data sig u =
     (case announcement_verify ce (up_root u) data sig of
        Inl e \<Rightarrow> Inl e
      | Inr a \<Rightarrow> if ua_version a \<le> up_current u then Inl (NotNewer (up_current u) (ua_version a)) else Inr a)"

definition handle_manifest ::
    "crypto_env \<Rightarrow> update_announcement \<Rightarrow> byte list \<Rightarrow> byte list \<Rightarrow> string \<Rightarrow> update_protocol
       \<Rightarrow> (update_error + unit) \<times> update_protocol" where
  "handle_manifest ce a data sig peer u =
     (case update_manifest_verify ce (up_root u) data sig of
        Inl e \<Rightarrow> (Inl e, u)
      | Inr m \<Rightarrow>
          if am_apk_hash (um_apk_manifest m) \<noteq> ua_apk_sha256 a then (Inl ManifestMismatch, u)
          else if unat (um_apk_size m) > MAX_APK_SIZE \<or> um_chunk_size m = 0 then
            (Inl (InvalidSignature ''manifest size or chunk size out of bounds''), u)
          else
            let expected = chunk_count (unat (um_apk_size m)) (unat (um_chunk_size m))
            in if expected > MAX_CHUNKS then (Inl (InvalidSignature ''too many chunks''), u)
               else (Inr (), u\<lparr>up_pending := Some \<lparr>pu_version = ua_version a, pu_manifest = m,
                        pu_manifest_wire = data, pu_signature = sig, pu_peer = peer, pu_chunks = [],
                        pu_expected = expected\<rparr>,
                      up_verified := None\<rparr>))"

definition handle_chunk :: "nat \<Rightarrow> byte list \<Rightarrow> update_protocol \<Rightarrow> (update_error + chunk_status) \<times> update_protocol" where
  "handle_chunk i data u =
     (case up_pending u of
        None \<Rightarrow> (Inl NoPendingTransfer, u)
      | Some p \<Rightarrow>
          if i \<ge> pu_expected p then (Inl (ChunkIndexOutOfBounds i (pu_expected p)), u)
          else
            let cs = unat (um_chunk_size (pu_manifest p));
                max_len = (if i = pu_expected p - 1 then unat (um_apk_size (pu_manifest p)) - i * cs else cs)
            in if length data > max_len then (Inl (ChunkTooLarge i (length data) max_len), u)
               else if map_of (pu_chunks p) i \<noteq> None then (Inr ChunkDuplicate, u)
               else (Inr ChunkAccepted, u\<lparr>up_pending := Some (p\<lparr>pu_chunks := (i, data) # pu_chunks p\<rparr>)\<rparr>))"

definition chunks_received :: "update_protocol \<Rightarrow> nat" where
  "chunks_received u = (case up_pending u of None \<Rightarrow> 0 | Some p \<Rightarrow> length (pu_chunks p))"

definition total_chunks :: "update_protocol \<Rightarrow> nat" where
  "total_chunks u = (case up_pending u of None \<Rightarrow> 0 | Some p \<Rightarrow> pu_expected p)"

definition pending_peer :: "update_protocol \<Rightarrow> string option" where
  "pending_peer u = map_option pu_peer (up_pending u)"

text \<open>The loop of \<open>assemble_and_verify\<close> over the indices.\<close>

fun join_chunks :: "(nat \<times> byte list) list \<Rightarrow> nat list \<Rightarrow> byte list option" where
  "join_chunks cs [] = Some []"
| "join_chunks cs (i # is) =
     (case map_of cs i of
        None \<Rightarrow> None
      | Some c \<Rightarrow> map_option (\<lambda>rest. c @ rest) (join_chunks cs is))"

definition assemble_and_verify :: "crypto_env \<Rightarrow> update_protocol \<Rightarrow> (update_error + byte list) \<times> update_protocol" where
  "assemble_and_verify ce u =
     (case up_pending u of
        None \<Rightarrow> (Inl NoPendingTransfer, u)
      | Some p \<Rightarrow>
          if length (pu_chunks p) \<noteq> pu_expected p then
            (Inl (IncompleteTransfer (length (pu_chunks p)) (pu_expected p)), u)
          else case join_chunks (pu_chunks p) [0..<pu_expected p] of
            None \<Rightarrow> (Inl (IncompleteTransfer (length (pu_chunks p)) (pu_expected p)), u)
          | Some apk \<Rightarrow>
              if length apk \<noteq> unat (um_apk_size (pu_manifest p)) then
                (Inl (IncompleteTransfer (length apk) (unat (um_apk_size (pu_manifest p)))), u)
              else
                let u1 = u\<lparr>up_pending := None\<rparr>
                in case verify_apk_signature ce apk (take SIGNED_MANIFEST_LEN (pu_manifest_wire p)) (pu_signature p) (up_root u1) of
                     Inl e \<Rightarrow> (Inl (VerificationFailed e), u1)
                   | Inr _ \<Rightarrow> (Inr apk, u1\<lparr>up_verified := Some \<lparr>vs_version = pu_version p, vs_sha256 = hash_apk ce apk\<rparr>\<rparr>))"

definition add_installed :: "installed_update \<Rightarrow> update_protocol \<Rightarrow> update_protocol" where
  "add_installed iu u =
     (let installed = sort_key iu_version (up_installed u @ [iu])
      in u\<lparr>up_installed := installed,
           up_current := (if installed = [] then up_current u else iu_version (last installed))\<rparr>)"

text \<open>The flag is the outcome of writing the file.\<close>

definition install_verified ::
    "crypto_env \<Rightarrow> bool \<Rightarrow> byte list \<Rightarrow> string \<Rightarrow> u64 \<Rightarrow> update_protocol
       \<Rightarrow> (update_error + installed_update) \<times> update_protocol" where
  "install_verified ce write_ok apk dest now u =
     (case up_verified u of
        None \<Rightarrow> (Inl NoPendingTransfer, u)
      | Some v \<Rightarrow>
          if hash_apk ce apk \<noteq> vs_sha256 v then (Inl TamperedApk, u)
          else if \<not> write_ok then (Inl InstallFailed, u)
          else
            let iu = \<lparr>iu_version = vs_version v, iu_sha256 = vs_sha256 v, iu_installed_at = now, iu_path = Some dest\<rparr>
            in (Inr iu, (add_installed iu u)\<lparr>up_verified := None, up_pending := None\<rparr>))"

definition record_install ::
    "version \<Rightarrow> byte list \<Rightarrow> u64 \<Rightarrow> string option \<Rightarrow> update_protocol \<Rightarrow> update_protocol" where
  "record_install v sha now path u =
     add_installed \<lparr>iu_version = v, iu_sha256 = sha, iu_installed_at = now, iu_path = path\<rparr> u"

definition reject_pending :: "update_protocol \<Rightarrow> update_protocol" where
  "reject_pending u = u\<lparr>up_pending := None, up_verified := None\<rparr>"

definition current_version :: "update_protocol \<Rightarrow> version" where
  "current_version u = up_current u"

definition has_pending :: "update_protocol \<Rightarrow> bool" where
  "has_pending u \<longleftrightarrow> up_pending u \<noteq> None"

definition has_verified :: "update_protocol \<Rightarrow> bool" where
  "has_verified u \<longleftrightarrow> up_verified u \<noteq> None"

definition latest_installed :: "update_protocol \<Rightarrow> installed_update option" where
  "latest_installed u = (if up_installed u = [] then None else Some (last (up_installed u)))"

section \<open>Versions in text\<close>

lemma dec_digit_char:
  assumes "n < 10"
  shows "of_char (char_of (48 + n) :: char) = (48 + n :: nat)"
  using assms by (simp add: of_char_of take_bit_eq_mod)

lemma dec_digits_chars: "c \<in> set (dec_digits n) \<Longrightarrow> 48 \<le> (of_char c :: nat) \<and> of_char c \<le> (57 :: nat)"
proof (induction n rule: dec_digits.induct)
  case (1 n)
  show ?case
  proof (cases "n < 10")
    case True
    hence "c = char_of (48 + n)" using 1(2) by (subst (asm) dec_digits.simps) simp
    thus ?thesis using dec_digit_char [OF True] True by simp
  next
    case False
    hence "c \<in> set (dec_digits (n div 10)) \<or> c = char_of (48 + n mod 10)"
      using 1(2) by (subst (asm) dec_digits.simps) auto
    thus ?thesis using 1(1) [OF False] dec_digit_char [of "n mod 10"] by auto
  qed
qed

lemma dec_digits_nonempty [simp]: "dec_digits n \<noteq> []"
  by (subst dec_digits.simps) simp

lemma digits_value_append:
  "digits_value acc (xs @ ys) = (case digits_value acc xs of None \<Rightarrow> None | Some a \<Rightarrow> digits_value a ys)"
  by (induction acc xs rule: digits_value.induct) (auto simp: Let_def)

lemma digits_value_dec: "n < 2 ^ 16 \<Longrightarrow> digits_value 0 (dec_digits n) = Some n"
proof (induction n rule: dec_digits.induct)
  case (1 n)
  show ?case
  proof (cases "n < 10")
    case True
    thus ?thesis using dec_digit_char [OF True] by (subst dec_digits.simps) (simp add: Let_def)
  next
    case False
    have m: "n mod 10 < 10" by simp
    have "digits_value 0 (dec_digits (n div 10)) = Some (n div 10)" using 1 False by simp
    thus ?thesis using False dec_digit_char [OF m] 1(2)
      by (subst dec_digits.simps) (simp add: digits_value_append Let_def)
  qed
qed

lemma parse_u16_dec: "parse_u16 (dec_digits (unat w)) = Some w" for w :: "16 word"
proof -
  obtain c cs where cs: "dec_digits (unat w) = c # cs" by (cases "dec_digits (unat w)") auto
  have "48 \<le> (of_char c :: nat)" using dec_digits_chars [of c "unat w"] cs by simp
  hence "c \<noteq> CHR ''+''" by auto
  moreover have "unat w < 2 ^ 16" using unsigned_less [of w, where 'a = nat] by simp
  ultimately show ?thesis using digits_value_dec [of "unat w"] cs by (simp add: parse_u16_def)
qed

lemma split_on_append: "d \<notin> set xs \<Longrightarrow> split_on d (xs @ d # ys) = xs # split_on d ys"
  by (induction xs) auto

lemma split_on_last: "d \<notin> set xs \<Longrightarrow> split_on d xs = [xs]"
  by (induction xs) auto

text \<open>Versions survive printing and parsing: \<open>parse\<close> reads back exactly the version that was
  displayed, also with white space around it.\<close>

theorem version_roundtrip: "parse_version (show_version v) = Some v"
proof -
  have digits: "\<forall>c\<in>set (dec_digits n). 33 \<le> (of_char c :: nat) \<and> of_char c < (128 :: nat)" for n
    using dec_digits_chars [of _ n] by fastforce
  have nodot: "CHR ''.'' \<notin> set (dec_digits n)" for n
    using dec_digits_chars [of "CHR ''.''" n] by auto
  have "trim_ws (show_version v) = show_version v"
    using digits by (intro trim_ws_printable) (auto simp: show_version_def)
  moreover have "split_on CHR ''.'' (show_version v) =
      [dec_digits (unat (v_major v)), dec_digits (unat (v_minor v)), dec_digits (unat (v_patch v))]"
    using nodot by (simp add: show_version_def split_on_append split_on_last)
  ultimately show ?thesis by (simp add: parse_version_def parse_u16_dec)
qed

section \<open>Signed messages\<close>

lemma u16_le_roundtrip: "of_nat (le_nat (nat_le 2 (unat w))) = w" for w :: "16 word"
proof -
  have "unat w < 65536" using unsigned_less [of w, where 'a = nat] by simp
  thus ?thesis by (simp add: le_nat_nat_le)
qed

lemma u32_le_roundtrip: "of_nat (le_nat (nat_le 4 (unat w))) = w" for w :: u32
proof -
  have "unat w < 4294967296" using unsigned_less [of w, where 'a = nat] by simp
  thus ?thesis by (simp add: le_nat_nat_le)
qed

lemma u64_le_roundtrip: "le_u64 (u64_le w) = w"
proof -
  have "unat w < 18446744073709551616" using unsigned_less [of w, where 'a = nat] by simp
  thus ?thesis by (simp add: le_u64_def u64_le_def le_nat_nat_le)
qed

lemma announcement_verify_bytes:
  assumes "length (ua_apk_sha256 a) = 32" "verify_from_pubkey ce rootk (announcement_bytes a) sig"
  shows "announcement_verify ce rootk (announcement_bytes a) sig = Inr a"
proof -
  have m: "length ANNOUNCEMENT_MAGIC = 8" by (simp add: ANNOUNCEMENT_MAGIC_def)
  have "rd_u16 (announcement_bytes a) 8 = v_major (ua_version a)"
    "rd_u16 (announcement_bytes a) 10 = v_minor (ua_version a)"
    "rd_u16 (announcement_bytes a) 12 = v_patch (ua_version a)"
    by (simp_all add: rd_u16_def announcement_bytes_def m u16_le_roundtrip)
  moreover have "take 32 (drop 14 (announcement_bytes a)) = ua_apk_sha256 a"
    "take 8 (drop 46 (announcement_bytes a)) = u64_le (ua_timestamp a)"
    "length (announcement_bytes a) = 54" "take 8 (announcement_bytes a) = ANNOUNCEMENT_MAGIC"
    by (simp_all add: announcement_bytes_def m assms(1))
  ultimately show ?thesis using assms(2) by (simp add: announcement_verify_def u64_le_roundtrip)
qed

lemma update_manifest_verify_wire:
  assumes "manifest_ok (um_apk_manifest m)" "verify_from_pubkey ce rootk (to_signed_bytes (um_apk_manifest m)) sig"
  shows "update_manifest_verify ce rootk (manifest_wire m) sig = Inr m"
proof -
  note s = parse_signed_bytes [OF assms(1)]
  have t: "take SIGNED_MANIFEST_LEN (manifest_wire m) = to_signed_bytes (um_apk_manifest m)"
    "drop SIGNED_MANIFEST_LEN (manifest_wire m) = u64_le (um_apk_size m) @ nat_le 4 (unat (um_chunk_size m))"
    "drop (SIGNED_MANIFEST_LEN + 8) (manifest_wire m) = nat_le 4 (unat (um_chunk_size m))"
    by (simp_all add: manifest_wire_def SIGNED_MANIFEST_LEN_def s)
  have l: "length (manifest_wire m) = MANIFEST_WIRE_LEN"
    by (simp add: manifest_wire_def MANIFEST_WIRE_LEN_def SIGNED_MANIFEST_LEN_def s)
  have p: "parse_signed_manifest (to_signed_bytes (um_apk_manifest m)) = Some (um_apk_manifest m)"
    by (simp add: parse_signed_manifest_def SIGNED_MANIFEST_LEN_def s u64_le_roundtrip)
  have v: "manifest_verify ce rootk (to_signed_bytes (um_apk_manifest m)) sig"
    using assms(2) s by (simp add: manifest_verify_def)
  show ?thesis using l t p v by (simp add: update_manifest_verify_def u64_le_roundtrip u32_le_roundtrip)
qed

text \<open>What a verified manifest says about its bytes.\<close>

lemma update_manifest_verify_Inr:
  assumes "update_manifest_verify ce rootk data sig = Inr m"
  shows "take SIGNED_MANIFEST_LEN data = to_signed_bytes (um_apk_manifest m) \<and> manifest_ok (um_apk_manifest m)
    \<and> verify_from_pubkey ce rootk (to_signed_bytes (um_apk_manifest m)) sig"
proof -
  let ?d = "take SIGNED_MANIFEST_LEN data"
  have v: "manifest_verify ce rootk ?d sig"
    and p: "parse_signed_manifest ?d = Some (um_apk_manifest m)"
    using assms by (auto simp: update_manifest_verify_def split: if_splits option.splits)
  from p have d: "length ?d = 80" "take 8 ?d = APK_MAGIC"
    and am: "um_apk_manifest m = \<lparr>am_apk_hash = take 32 (drop 8 ?d), am_dev_pubkey = take 32 (drop 40 ?d),
                 am_timestamp = le_u64 (take 8 (drop 72 ?d))\<rparr>"
    by (auto simp: parse_signed_manifest_def SIGNED_MANIFEST_LEN_def split: if_splits)
  have eq: "?d = to_signed_bytes (um_apk_manifest m)" using signed_bytes_exact [OF d] am by simp
  moreover have "manifest_ok (um_apk_manifest m)" using d(1) unfolding am by (auto simp: manifest_ok_def)
  moreover have "verify_from_pubkey ce rootk (to_signed_bytes (um_apk_manifest m)) sig"
    using v by (simp add: manifest_verify_def eq)
  ultimately show ?thesis by simp
qed

section \<open>What reaches the disk\<close>

text \<open>The calls an adversary can provoke: any announcement, manifest (for any announcement accepted
  before), chunk, assembly, installation, external installation or rejection. The run keeps the
  accepted announcements and the contents written to disk.\<close>

datatype update_op =
    UAnnounce "byte list" "byte list"
  | UManifest nat "byte list" "byte list" string
  | UChunk nat "byte list"
  | UAssemble
  | UInstall bool "byte list" string u64
  | URecord version "byte list" u64 "string option"
  | UReject

record update_run =
  ur_u :: update_protocol
  ur_accepted :: "update_announcement list"
  ur_written :: "byte list list"

fun update_step :: "crypto_env \<Rightarrow> update_op \<Rightarrow> update_run \<Rightarrow> update_run" where
  "update_step ce (UAnnounce data sig) r =
     (case handle_announcement ce data sig (ur_u r) of
        Inr a \<Rightarrow> r\<lparr>ur_accepted := ur_accepted r @ [a]\<rparr> | Inl _ \<Rightarrow> r)"
| "update_step ce (UManifest k data sig peer) r =
     (if k < length (ur_accepted r)
      then r\<lparr>ur_u := snd (handle_manifest ce (ur_accepted r ! k) data sig peer (ur_u r))\<rparr> else r)"
| "update_step ce (UChunk i data) r = r\<lparr>ur_u := snd (handle_chunk i data (ur_u r))\<rparr>"
| "update_step ce UAssemble r = r\<lparr>ur_u := snd (assemble_and_verify ce (ur_u r))\<rparr>"
| "update_step ce (UInstall ok apk dest now) r =
     (case install_verified ce ok apk dest now (ur_u r) of
        (Inr _, u) \<Rightarrow> r\<lparr>ur_u := u, ur_written := ur_written r @ [apk]\<rparr> | (Inl _, u) \<Rightarrow> r\<lparr>ur_u := u\<rparr>)"
| "update_step ce (URecord v sha now path) r = r\<lparr>ur_u := record_install v sha now path (ur_u r)\<rparr>"
| "update_step ce UReject r = r\<lparr>ur_u := reject_pending (ur_u r)\<rparr>"

text \<open>What the root must have signed: the canonical bytes of an announcement with a version and a hash of 32 bytes,
  and the canonical bytes of a manifest for the same hash. Neither predicate mentions the verification routines.\<close>

definition root_announced :: "crypto_env \<Rightarrow> byte list \<Rightarrow> update_announcement \<Rightarrow> bool" where
  "root_announced ce rootk a \<longleftrightarrow>
     length (ua_apk_sha256 a) = 32 \<and> (\<exists>sig. verify_from_pubkey ce rootk (announcement_bytes a) sig)"

definition root_manifested :: "crypto_env \<Rightarrow> byte list \<Rightarrow> byte list \<Rightarrow> bool" where
  "root_manifested ce rootk h \<longleftrightarrow>
     (\<exists>m sig. verify_from_pubkey ce rootk (to_signed_bytes m) sig \<and> manifest_ok m \<and> am_apk_hash m = h)"

definition genuine :: "crypto_env \<Rightarrow> byte list \<Rightarrow> version \<Rightarrow> byte list \<Rightarrow> bool" where
  "genuine ce rootk v h \<longleftrightarrow> (\<exists>a. root_announced ce rootk a \<and> ua_version a = v \<and> ua_apk_sha256 a = h) \<and> root_manifested ce rootk h"

definition update_inv :: "crypto_env \<Rightarrow> byte list \<Rightarrow> update_run \<Rightarrow> bool" where
  "update_inv ce rootk r \<longleftrightarrow> up_root (ur_u r) = rootk
     \<and> (\<forall>a\<in>set (ur_accepted r). root_announced ce rootk a)
     \<and> (\<forall>p. up_pending (ur_u r) = Some p \<longrightarrow>
          update_manifest_verify ce rootk (pu_manifest_wire p) (pu_signature p) = Inr (pu_manifest p)
          \<and> (\<exists>a. root_announced ce rootk a \<and> ua_version a = pu_version p
                \<and> ua_apk_sha256 a = am_apk_hash (um_apk_manifest (pu_manifest p))))
     \<and> (\<forall>v. up_verified (ur_u r) = Some v \<longrightarrow> genuine ce rootk (vs_version v) (vs_sha256 v))
     \<and> (\<forall>w\<in>set (ur_written r). \<exists>v. genuine ce rootk v (ce_sha256 ce w))"

lemma rd_u16_bytes:
  assumes "off + 2 \<le> length b"
  shows "nat_le 2 (unat (rd_u16 b off)) = take 2 (drop off b)"
proof -
  let ?t = "take 2 (drop off b)"
  have "length ?t = 2" using assms by simp
  moreover have "le_nat ?t < 2 ^ 16" using le_nat_less [of ?t] \<open>length ?t = 2\<close> by simp
  ultimately show ?thesis using nat_le_le_nat [of ?t] by (simp add: rd_u16_def unat_of_nat take_bit_eq_mod)
qed

lemma announcement_verify_Inr:
  assumes "announcement_verify ce rootk data sig = Inr a"
  shows "root_announced ce rootk a"
proof -
  have l: "length data = 54" and g: "take 8 data = ANNOUNCEMENT_MAGIC" and v: "verify_from_pubkey ce rootk data sig"
    and a: "a = \<lparr>ua_version = Version (rd_u16 data 8) (rd_u16 data 10) (rd_u16 data 12),
                ua_apk_sha256 = take 32 (drop 14 data), ua_timestamp = le_u64 (take 8 (drop 46 data))\<rparr>"
    using assms by (auto simp: announcement_verify_def split: if_splits)
  have t: "u64_le (le_u64 (take 8 (drop 46 data))) = take 8 (drop 46 data)"
  proof -
    let ?t = "take 8 (drop 46 data)"
    have "length ?t = 8" using l by simp
    moreover have "le_nat ?t < 2 ^ 64" using le_nat_less [of ?t] \<open>length ?t = 8\<close> by simp
    ultimately show ?thesis using nat_le_le_nat [of ?t] by (simp add: u64_le_def le_u64_def unat_of_nat take_bit_eq_mod)
  qed
  have split: "drop k data = take n (drop k data) @ drop (k + n) data" for k n
    using append_take_drop_id [of n "drop k data"] by (simp add: add.commute)
  have "data = take 8 data @ take 2 (drop 8 data) @ take 2 (drop 10 data) @ take 2 (drop 12 data)
      @ take 32 (drop 14 data) @ take 8 (drop 46 data)"
    using split [of 0 8] split [of 8 2] split [of 10 2] split [of 12 2] split [of 14 32] split [of 46 8] l by simp
  then have "announcement_bytes a = data"
    using l g t by (simp add: a announcement_bytes_def rd_u16_bytes)
  then show ?thesis using v l by (auto simp: root_announced_def a)
qed

lemma handle_chunk_pending:
  "up_root (snd (handle_chunk i d u)) = up_root u \<and> up_verified (snd (handle_chunk i d u)) = up_verified u
   \<and> up_current (snd (handle_chunk i d u)) = up_current u \<and> up_installed (snd (handle_chunk i d u)) = up_installed u
   \<and> (case up_pending u of None \<Rightarrow> up_pending (snd (handle_chunk i d u)) = None
      | Some p \<Rightarrow> \<exists>cs. up_pending (snd (handle_chunk i d u)) = Some (p\<lparr>pu_chunks := cs\<rparr>))"
proof (cases "up_pending u")
  case (Some p)
  have "p = p\<lparr>pu_chunks := pu_chunks p\<rparr>" by simp
  hence "\<exists>cs. p = p\<lparr>pu_chunks := cs\<rparr>" by blast
  thus ?thesis using Some by (auto simp: handle_chunk_def Let_def)
qed (simp add: handle_chunk_def)

lemma assemble_verified:
  assumes "assemble_and_verify ce u = (Inr apk, u')" "up_pending u = Some p"
    and "update_manifest_verify ce (up_root u) (pu_manifest_wire p) (pu_signature p) = Inr (pu_manifest p)"
  shows "ce_sha256 ce apk = am_apk_hash (um_apk_manifest (pu_manifest p))
    \<and> u' = u\<lparr>up_pending := None, up_verified := Some \<lparr>vs_version = pu_version p, vs_sha256 = ce_sha256 ce apk\<rparr>\<rparr>"
proof -
  note w = update_manifest_verify_Inr [OF assms(3)]
  obtain m where m: "verify_apk_signature ce apk (take SIGNED_MANIFEST_LEN (pu_manifest_wire p)) (pu_signature p) (up_root u) = Inr m"
    and u': "u' = u\<lparr>up_pending := None, up_verified := Some \<lparr>vs_version = pu_version p, vs_sha256 = ce_sha256 ce apk\<rparr>\<rparr>"
    using assms(1,2) by (auto simp: assemble_and_verify_def hash_apk_def Let_def split: if_splits option.splits sum.splits)
  note p = parse_signed_bytes [OF conjunct1 [OF conjunct2 [OF w]]]
  have "ce_sha256 ce apk = am_apk_hash (um_apk_manifest (pu_manifest p))"
    using m w p by (auto simp: verify_apk_signature_def Let_def split: if_splits)
  with u' show ?thesis by simp
qed

lemma assemble_Inl:
  "assemble_and_verify ce u = (Inl e, u') \<Longrightarrow> u' = u \<or> u' = u\<lparr>up_pending := None\<rparr>"
  by (auto simp: assemble_and_verify_def Let_def split: if_splits option.splits sum.splits)

lemma update_inv_step:
  assumes "update_inv ce rootk r"
  shows "update_inv ce rootk (update_step ce x r)"
proof (cases x)
  case (UAnnounce data sig)
  show ?thesis using assms UAnnounce
    by (auto simp: update_inv_def handle_announcement_def split: sum.splits if_splits dest!: announcement_verify_Inr)
next
  case (UManifest k data sig peer)
  show ?thesis
  proof (cases "k < length (ur_accepted r)")
    case True
    let ?a = "ur_accepted r ! k"
    have a: "root_announced ce rootk ?a" using assms True by (simp add: update_inv_def)
    show ?thesis using assms a True UManifest
      by (auto simp: update_inv_def handle_manifest_def Let_def split: sum.split)
  qed (use assms UManifest in simp)
next
  case (UChunk i d)
  show ?thesis
    using assms UChunk handle_chunk_pending [of i d "ur_u r"]
    by (cases "up_pending (ur_u r)") (auto simp: update_inv_def)
next
  case UAssemble
  show ?thesis
  proof (cases "assemble_and_verify ce (ur_u r)")
    case (Pair res u')
    show ?thesis
    proof (cases res)
      case (Inl e)
      thus ?thesis using assms UAssemble Pair assemble_Inl [of ce "ur_u r" e u'] by (auto simp: update_inv_def)
    next
      case (Inr apk)
      with Pair have as: "assemble_and_verify ce (ur_u r) = (Inr apk, u')" by simp
      then obtain p where p: "up_pending (ur_u r) = Some p" by (auto simp: assemble_and_verify_def split: option.splits)
      have um: "update_manifest_verify ce (up_root (ur_u r)) (pu_manifest_wire p) (pu_signature p) = Inr (pu_manifest p)"
        and ann: "\<exists>a. root_announced ce rootk a \<and> ua_version a = pu_version p
                \<and> ua_apk_sha256 a = am_apk_hash (um_apk_manifest (pu_manifest p))"
        using assms p by (auto simp: update_inv_def)
      note av = assemble_verified [OF as p um]
      have "root_manifested ce rootk (ce_sha256 ce apk)"
        using update_manifest_verify_Inr [OF um] av assms by (auto simp: root_manifested_def update_inv_def)
      hence "genuine ce rootk (pu_version p) (ce_sha256 ce apk)" using ann av by (auto simp: genuine_def)
      thus ?thesis using assms UAssemble as av by (auto simp: update_inv_def)
    qed
  qed
next
  case (UInstall ok apk dest now)
  show ?thesis
  proof (cases "install_verified ce ok apk dest now (ur_u r)")
    case (Pair res u')
    thus ?thesis using assms UInstall
      by (auto simp: update_inv_def install_verified_def add_installed_def hash_apk_def Let_def
          split: option.splits if_splits) blast+
  qed
next
  case (URecord v sha now path)
  thus ?thesis using assms by (auto simp: update_inv_def record_install_def add_installed_def Let_def)
next
  case UReject
  thus ?thesis using assms by (auto simp: update_inv_def reject_pending_def)
qed

interpretation updatem: guarded_machine "update_step ce" "update_inv ce rootk" "\<lambda>_. True" for ce rootk
  by unfold_locales (rule update_inv_step)

definition update_start :: "byte list \<Rightarrow> version \<Rightarrow> update_run" where
  "update_start rootk v = \<lparr>ur_u = update_new rootk v, ur_accepted = [], ur_written = []\<rparr>"

text \<open>C13: only authentic packages reach the disk. Whatever announcements, manifests, chunks,
  assemblies, installations and rejections arrive in whatever order and from whomever, every file the protocol
  writes has a SHA-256 that the pinned root signed twice, in an announcement of some version and in a
  canonical manifest, and the same holds for a verified package waiting for installation.\<close>

theorem update_only_authentic:
  assumes "r = fold (update_step ce) ops (update_start rootk v)"
  shows "(\<forall>w\<in>set (ur_written r). \<exists>v'. genuine ce rootk v' (ce_sha256 ce w))
    \<and> (\<forall>vs. up_verified (ur_u r) = Some vs \<longrightarrow> genuine ce rootk (vs_version vs) (vs_sha256 vs))
    \<and> up_root (ur_u r) = rootk"
proof -
  have "update_inv ce rootk (update_start rootk v)"
    by (simp add: update_inv_def update_start_def update_new_def)
  from updatem.run_inv [OF this, of ops] have "update_inv ce rootk r" by (simp add: assms list_all_iff)
  thus ?thesis by (simp add: update_inv_def)
qed

section \<open>Transfers\<close>

lemma chunk_count_le:
  assumes "0 < cs"
  shows "n \<le> chunk_count n cs * cs" and "0 < n \<Longrightarrow> (chunk_count n cs - 1) * cs < n" and "chunk_count 0 cs = 0"
proof -
  show "chunk_count 0 cs = 0" using assms by (simp add: chunk_count_def)
  have c: "chunk_count n cs = (n + cs - 1) div cs" using assms by (simp add: chunk_count_def)
  have "(n + cs - 1) div cs * cs + (n + cs - 1) mod cs = n + cs - 1" by simp
  moreover have "(n + cs - 1) mod cs < cs" using assms by simp
  ultimately show "n \<le> chunk_count n cs * cs" using assms unfolding c by linarith
  show "(chunk_count n cs - 1) * cs < n" if "0 < n"
  proof -
    have "chunk_count n cs * cs \<le> n + cs - 1" unfolding c by simp
    moreover have "(chunk_count n cs - 1) * cs = chunk_count n cs * cs - cs" by (simp add: diff_mult_distrib)
    ultimately show ?thesis using that assms by linarith
  qed
qed

lemma chunk_start:
  assumes "0 < cs" "i < chunk_count n cs"
  shows "i * cs < n"
proof -
  have n: "0 < n" using assms chunk_count_le(3) [OF assms(1)] by (cases n) auto
  have "i * cs \<le> (chunk_count n cs - 1) * cs" using assms(2) by (intro mult_le_mono1) simp
  also have "\<dots> < n" by (rule chunk_count_le(2) [OF assms(1) n])
  finally show ?thesis .
qed

lemma apk_chunk_eq: "i * cs < length apk \<Longrightarrow> apk_chunk apk i cs = Some (take cs (drop (i * cs) apk))"
  by (auto simp: apk_chunk_def Let_def min_def)

text \<open>The chunks of a package, in the order of their indices, are the package.\<close>

lemma concat_chunks:
  "0 < cs \<Longrightarrow> concat (map (\<lambda>i. take cs (drop (i * cs) apk)) [0..<n]) = take (n * cs) apk"
proof (induction n)
  case (Suc n)
  have "take (n * cs) apk @ take cs (drop (n * cs) apk) = take (n * cs + cs) apk" by (simp add: take_add)
  thus ?case using Suc by (simp add: add.commute)
qed simp

lemma join_chunks_concat:
  assumes "\<forall>i\<in>set is. map_of m i = Some (f i)"
  shows "join_chunks m is = Some (concat (map f is))"
  using assms by (induction "is") auto

definition chunks_of :: "byte list \<Rightarrow> nat \<Rightarrow> (nat \<times> byte list) list \<Rightarrow> nat set \<Rightarrow> bool" where
  "chunks_of apk cs m js \<longleftrightarrow> distinct (map fst m) \<and> set (map fst m) = js
     \<and> (\<forall>i\<in>js. map_of m i = Some (take cs (drop (i * cs) apk)))"

lemma handle_chunk_step:
  assumes "up_pending u = Some p" "um_chunk_size (pu_manifest p) = of_nat cs" "0 < cs" "cs < 2 ^ 32"
    and "unat (um_apk_size (pu_manifest p)) = length apk" "pu_expected p = chunk_count (length apk) cs"
    and "chunks_of apk cs (pu_chunks p) js" "i < pu_expected p" "apk_chunk apk i cs = Some d"
  shows "\<exists>m. snd (handle_chunk i d u) = u\<lparr>up_pending := Some (p\<lparr>pu_chunks := m\<rparr>)\<rparr> \<and> chunks_of apk cs m (insert i js)"
proof -
  have i: "i * cs < length apk" using chunk_start [OF assms(3)] assms(6,8) by simp
  hence d: "d = take cs (drop (i * cs) apk)" using apk_chunk_eq assms(9) by fastforce
  have csw: "unat (of_nat cs :: u32) = cs" using assms(4) by (simp add: unat_of_nat take_bit_eq_mod)
  have fits: "length d \<le> length apk - i * cs" "length d \<le> cs" by (simp_all add: d)
  show ?thesis
  proof (cases "map_of (pu_chunks p) i")
    case None
    have "snd (handle_chunk i d u) = u\<lparr>up_pending := Some (p\<lparr>pu_chunks := (i, d) # pu_chunks p\<rparr>)\<rparr>"
      using assms fits None by (auto simp: handle_chunk_def csw Let_def)
    moreover have "chunks_of apk cs ((i, d) # pu_chunks p) (insert i js)"
      using assms(7) None d by (auto simp: chunks_of_def map_of_eq_None_iff)
    ultimately show ?thesis by blast
  next
    case (Some x)
    hence "i \<in> js" using assms(7) by (force simp: chunks_of_def dest: map_of_SomeD)
    moreover have "snd (handle_chunk i d u) = u" using assms fits Some by (auto simp: handle_chunk_def csw Let_def)
    moreover have "u = u\<lparr>up_pending := Some (p\<lparr>pu_chunks := pu_chunks p\<rparr>)\<rparr>" using assms(1) by simp
    ultimately show ?thesis using assms(7) by (metis insert_absorb)
  qed
qed

text \<open>Delivering the chunks with the given indices, in that order.\<close>

definition deliver_chunks :: "byte list \<Rightarrow> nat \<Rightarrow> nat list \<Rightarrow> update_protocol \<Rightarrow> update_protocol" where
  "deliver_chunks apk cs is u =
     fold (\<lambda>i u. case apk_chunk apk i cs of None \<Rightarrow> u | Some d \<Rightarrow> snd (handle_chunk i d u)) is u"

lemma deliver_chunks_state:
  assumes "up_pending u = Some p" "um_chunk_size (pu_manifest p) = of_nat cs" "0 < cs" "cs < 2 ^ 32"
    and "unat (um_apk_size (pu_manifest p)) = length apk" "pu_expected p = chunk_count (length apk) cs"
    and "chunks_of apk cs (pu_chunks p) js" "\<forall>i\<in>set is. i < pu_expected p"
  shows "\<exists>m. deliver_chunks apk cs is u = u\<lparr>up_pending := Some (p\<lparr>pu_chunks := m\<rparr>)\<rparr> \<and> chunks_of apk cs m (js \<union> set is)"
  using assms
proof (induction "is" arbitrary: u p js)
  case Nil
  have "u = u\<lparr>up_pending := Some (p\<lparr>pu_chunks := pu_chunks p\<rparr>)\<rparr>" using Nil(1) by simp
  thus ?case using Nil(7) by (auto simp: deliver_chunks_def intro!: exI [of _ "pu_chunks p"])
next
  case (Cons i "is")
  have "i * cs < length apk" using chunk_start [OF Cons.prems(3)] Cons.prems(6,8) by simp
  then obtain d where d: "apk_chunk apk i cs = Some d" using apk_chunk_eq by blast
  obtain m where m: "snd (handle_chunk i d u) = u\<lparr>up_pending := Some (p\<lparr>pu_chunks := m\<rparr>)\<rparr>"
    "chunks_of apk cs m (insert i js)"
    using handle_chunk_step [OF Cons.prems(1-7) _ d] Cons.prems(8) by auto
  have "\<exists>m'. deliver_chunks apk cs is (u\<lparr>up_pending := Some (p\<lparr>pu_chunks := m\<rparr>)\<rparr>) =
      u\<lparr>up_pending := Some (p\<lparr>pu_chunks := m'\<rparr>)\<rparr> \<and> chunks_of apk cs m' (insert i js \<union> set is)"
    using Cons.IH [of "u\<lparr>up_pending := Some (p\<lparr>pu_chunks := m\<rparr>)\<rparr>" "p\<lparr>pu_chunks := m\<rparr>" "insert i js"] Cons.prems m(2)
    by simp
  thus ?case using d m(1) by (simp add: deliver_chunks_def)
qed

lemma honest_transfer:
  assumes "sign_laws ce" "sha_laws ce" "length root_seed = 32" "length dev = 32"
    and "up_root u = ce_public_key ce root_seed" "up_current u < v"
    and "length apk \<le> MAX_APK_SIZE" "0 < cs" "cs < 2 ^ 32" "chunk_count (length apk) cs \<le> MAX_CHUNKS"
    and "build_announcement ce v apk root_seed ts = (a, asig, adata)"
    and "build_manifest ce apk root_seed dev ts (of_nat cs) = (m, msig, mdata)"
    and "set is = {0..<chunk_count (length apk) cs}"
  shows "handle_announcement ce adata asig u = Inr a
    \<and> fst (handle_manifest ce a mdata msig peer u) = Inr ()
    \<and> (case assemble_and_verify ce (deliver_chunks apk cs is (snd (handle_manifest ce a mdata msig peer u))) of
         (r, u') \<Rightarrow> r = Inr apk \<and> has_verified u' \<and> \<not> has_pending u')"
proof (intro conjI)
  have sg: "verify_from_pubkey ce (up_root u) x (ce_sign ce root_seed x)" for x
    using assms(1,3,5) by (simp add: sign_laws_def verify_from_pubkey_def)
  have a: "a = \<lparr>ua_version = v, ua_apk_sha256 = ce_sha256 ce apk, ua_timestamp = ts\<rparr>" "adata = announcement_bytes a"
    "asig = ce_sign ce root_seed adata"
    using assms(11) by (auto simp: build_announcement_def announcement_sign_def hash_apk_def Let_def)
  have av: "announcement_verify ce (up_root u) adata asig = Inr a"
    unfolding a(2,3) by (rule announcement_verify_bytes) (use assms(2) sg in \<open>simp_all add: a(1) sha_laws_def\<close>)
  thus "handle_announcement ce adata asig u = Inr a" using assms(6) by (simp add: handle_announcement_def a(1))
  have m: "m = \<lparr>um_apk_manifest = from_apk ce apk dev ts, um_apk_size = of_nat (length apk), um_chunk_size = of_nat cs\<rparr>"
    "mdata = manifest_wire m" "msig = ce_sign ce root_seed (to_signed_bytes (um_apk_manifest m))"
    using assms(12) by (auto simp: build_manifest_def update_manifest_sign_def manifest_sign_def Let_def)
  have mok: "manifest_ok (um_apk_manifest m)"
    using assms(2,4) by (simp add: m(1) manifest_ok_def from_apk_def sha_laws_def)
  have mv: "update_manifest_verify ce (up_root u) mdata msig = Inr m"
    unfolding m(2,3) by (rule update_manifest_verify_wire [OF mok sg])
  have "length apk < 2 ^ 64" using assms(7) by (simp add: MAX_APK_SIZE_def)
  hence sz: "unat (um_apk_size m) = length apk" "unat (um_chunk_size m) = cs"
    using assms(9) by (simp_all add: m(1) unat_of_nat take_bit_eq_mod)
  have cs0: "um_chunk_size m \<noteq> 0" using sz(2) assms(8) by auto
  let ?p = "\<lparr>pu_version = ua_version a, pu_manifest = m, pu_manifest_wire = mdata, pu_signature = msig,
     pu_peer = peer, pu_chunks = [], pu_expected = chunk_count (length apk) cs\<rparr>"
  let ?u1 = "u\<lparr>up_pending := Some ?p, up_verified := None\<rparr>"
  have hm: "handle_manifest ce a mdata msig peer u = (Inr (), ?u1)"
    using mv sz cs0 assms(7,10) by (simp add: handle_manifest_def a(1) m(1) from_apk_def Let_def)
  thus "fst (handle_manifest ce a mdata msig peer u) = Inr ()" by simp
  obtain cm where cm: "deliver_chunks apk cs is ?u1 = ?u1\<lparr>up_pending := Some (?p\<lparr>pu_chunks := cm\<rparr>)\<rparr>"
    "chunks_of apk cs cm ({} \<union> set is)"
    using deliver_chunks_state [of ?u1 ?p cs apk "{}" "is"] sz assms(8,9,13) by (auto simp: m(1) chunks_of_def)
  have len: "length cm = chunk_count (length apk) cs"
    using cm(2) assms(13) distinct_card [of "map fst cm"] by (simp add: chunks_of_def)
  have "join_chunks cm [0..<chunk_count (length apk) cs] =
      Some (concat (map (\<lambda>i. take cs (drop (i * cs) apk)) [0..<chunk_count (length apk) cs]))"
    using cm(2) assms(13) by (intro join_chunks_concat) (auto simp: chunks_of_def)
  also have "concat (map (\<lambda>i. take cs (drop (i * cs) apk)) [0..<chunk_count (length apk) cs]) = apk"
    using chunk_count_le(1) [OF assms(8), of "length apk"] by (simp add: concat_chunks [OF assms(8)])
  finally have join: "join_chunks cm [0..<chunk_count (length apk) cs] = Some apk" .
  have tk: "take SIGNED_MANIFEST_LEN mdata = to_signed_bytes (um_apk_manifest m)"
    using parse_signed_bytes [OF mok] by (simp add: m(2) manifest_wire_def SIGNED_MANIFEST_LEN_def)
  have ver: "verify_apk_signature ce apk (to_signed_bytes (um_apk_manifest m)) msig (up_root u) = Inr (um_apk_manifest m)"
    using mok sg m(3) parse_signed_bytes [OF mok]
    by (simp add: verify_apk_signature_def manifest_verify_def Let_def m(1) from_apk_def u64_le_roundtrip)
  show "case assemble_and_verify ce (deliver_chunks apk cs is (snd (handle_manifest ce a mdata msig peer u))) of
         (r, u') \<Rightarrow> r = Inr apk \<and> has_verified u' \<and> \<not> has_pending u'"
    using cm(1) len join sz tk ver
    by (simp add: hm assemble_and_verify_def Let_def has_verified_def has_pending_def)
qed



text \<open>A run of the whole protocol, from the announcement to the file on disk.\<close>

definition honest_ops :: "crypto_env \<Rightarrow> version \<Rightarrow> byte list \<Rightarrow> byte list \<Rightarrow> byte list \<Rightarrow> nat \<Rightarrow> nat list \<Rightarrow> update_op list" where
  "honest_ops ce v apk root_seed dev cs is =
     (case build_announcement ce v apk root_seed 9 of (a, asig, adata) \<Rightarrow>
      case build_manifest ce apk root_seed dev 9 (of_nat cs) of (m, msig, mdata) \<Rightarrow>
        [UAnnounce adata asig, UManifest 0 mdata msig ''p''] @ map (\<lambda>i. UChunk i (the (apk_chunk apk i cs))) is
          @ [UAssemble, UInstall True apk ''x'' 0])"

lemma deliver_run:
  "\<forall>i\<in>set is. apk_chunk apk i cs \<noteq> None \<Longrightarrow>
     fold (update_step ce) (map (\<lambda>i. UChunk i (the (apk_chunk apk i cs))) is) r = r\<lparr>ur_u := deliver_chunks apk cs is (ur_u r)\<rparr>"
proof (induction "is" arbitrary: r)
  case (Cons i "is")
  then obtain d where "apk_chunk apk i cs = Some d" by auto
  then show ?case using Cons by (simp add: deliver_chunks_def)
qed (simp add: deliver_chunks_def)

lemma honest_run_writes:
  assumes "sign_laws ce" "sha_laws ce" "length root_seed = 32" "length dev = 32" "v0 < v"
    and "length apk \<le> MAX_APK_SIZE" "0 < cs" "cs < 2 ^ 32" "chunk_count (length apk) cs \<le> MAX_CHUNKS"
    and "set is = {0..<chunk_count (length apk) cs}"
  shows "ur_written (fold (update_step ce) (honest_ops ce v apk root_seed dev cs is)
    (update_start (ce_public_key ce root_seed) v0)) = [apk]"
proof -
  obtain a asig adata where a: "build_announcement ce v apk root_seed 9 = (a, asig, adata)"
    by (cases "build_announcement ce v apk root_seed 9")
  obtain m msig mdata where m: "build_manifest ce apk root_seed dev 9 (of_nat cs) = (m, msig, mdata)"
    by (cases "build_manifest ce apk root_seed dev 9 (of_nat cs)")
  let ?u = "update_new (ce_public_key ce root_seed) v0"
  let ?w = "deliver_chunks apk cs is (snd (handle_manifest ce a mdata msig ''p'' ?u))"
  have u: "up_root ?u = ce_public_key ce root_seed" "up_current ?u < v" using assms(5) by (simp_all add: update_new_def)
  note h = honest_transfer [OF assms(1-4) u assms(6-9) a m assms(10), of "''p''"]
  then obtain u' where as: "assemble_and_verify ce ?w = (Inr apk, u')" by (auto split: prod.splits)
  then have "\<exists>v1. up_verified u' = Some \<lparr>vs_version = v1, vs_sha256 = ce_sha256 ce apk\<rparr>"
    by (auto simp: assemble_and_verify_def hash_apk_def Let_def split: option.splits if_splits sum.splits)
  then have "\<exists>iu u2. install_verified ce True apk ''x'' 0 u' = (Inr iu, u2)"
    by (auto simp: install_verified_def hash_apk_def Let_def)
  moreover have "\<forall>i\<in>set is. apk_chunk apk i cs \<noteq> None"
    using chunk_start [OF assms(7)] assms(10) by (auto simp: apk_chunk_eq)
  ultimately show ?thesis
    using h as by (auto simp: honest_ops_def a m update_start_def deliver_run)
qed

lemma update_only_authentic_witness:
  "[1, 2, 3] \<in> set (ur_written (fold (update_step demo_env)
       (honest_ops demo_env (Version 1 1 0) [1, 2, 3] (replicate 32 1) (replicate 32 2) 2 [1, 0]) (update_start (replicate 32 1) (Version 1 0 0))))
    \<and> (\<exists>v'. genuine demo_env (replicate 32 1) v' (ce_sha256 demo_env [1, 2, 3]))"
proof -
  let ?r = "fold (update_step demo_env)
       (honest_ops demo_env (Version 1 1 0) [1, 2, 3] (replicate 32 1) (replicate 32 2) 2 [1, 0]) (update_start (replicate 32 1) (Version 1 0 0))"
  have "ce_public_key demo_env (replicate 32 1) = replicate 32 1" by (simp add: demo_env_def)
  moreover have "{Suc 0, 0} = {0..<Suc (Suc 0)}" by auto
  ultimately have "ur_written ?r = [[1, 2, 3]]"
    using honest_run_writes [OF demo_laws(2,3), of "replicate 32 1" "replicate 32 2" "Version 1 0 0" "Version 1 1 0" "[1, 2, 3]" 2 "[1, 0]"]
    by (auto simp: less_version_def MAX_APK_SIZE_def MAX_CHUNKS_def chunk_count_def)
  then show ?thesis using update_only_authentic [of ?r demo_env _ "replicate 32 1" "Version 1 0 0", OF HOL.refl] by simp
qed

text \<open>One short chunk blocks a transfer. A chunk that is shorter than announced is accepted as long
  as it is not too long; once all indices are taken and the sizes do not add up, no chunk whatsoever
  (not even the right one) and no further assembly changes anything: every assembly reports an
  incomplete transfer until the transfer is rejected or replaced by a new manifest.\<close>

theorem update_short_chunk_blocks:
  assumes "up_pending u = Some p" "\<forall>i<pu_expected p. map_of (pu_chunks p) i \<noteq> None"
    and "join_chunks (pu_chunks p) [0..<pu_expected p] = Some apk"
    and "length apk \<noteq> unat (um_apk_size (pu_manifest p))" "length (pu_chunks p) = pu_expected p"
    and "list_all (\<lambda>x. (\<exists>i d. x = UChunk i d) \<or> x = UAssemble) ops" "ur_u r = u"
  shows "fold (update_step ce) ops r = r
    \<and> assemble_and_verify ce (ur_u (fold (update_step ce) ops r)) =
        (Inl (IncompleteTransfer (length apk) (unat (um_apk_size (pu_manifest p)))), u)"
proof -
  have asm: "assemble_and_verify ce u = (Inl (IncompleteTransfer (length apk) (unat (um_apk_size (pu_manifest p)))), u)"
    using assms(1-5) by (simp add: assemble_and_verify_def)
  have chunk: "snd (handle_chunk i d u) = u" for i d
    using assms(1,2) by (auto simp: handle_chunk_def Let_def)
  have "fold (update_step ce) ops r = r" using assms(6,7)
  proof (induction ops)
    case (Cons x ops)
    have "update_step ce x r = r" using Cons.prems chunk asm by auto
    thus ?case using Cons by simp
  qed simp
  thus ?thesis using asm assms(7) by simp
qed

text \<open>Two chunks of which the first is one byte short.\<close>

definition demo_pending :: pending_update where
  "demo_pending = \<lparr>pu_version = Version 1 1 0,
     pu_manifest = \<lparr>um_apk_manifest = from_apk demo_env [1, 2, 3] (replicate 32 2) 9, um_apk_size = 3, um_chunk_size = 2\<rparr>,
     pu_manifest_wire = [], pu_signature = [], pu_peer = ''p'', pu_chunks = [(1, [3]), (0, [1])], pu_expected = 2\<rparr>"

lemma update_short_chunk_blocks_witness:
  "ur_u (fold (update_step demo_env) [UChunk 0 [1, 2], UAssemble]
      ((update_start [7] (Version 1 0 0))\<lparr>ur_u := (update_new [7] (Version 1 0 0))\<lparr>up_pending := Some demo_pending\<rparr>\<rparr>))
   = (update_new [7] (Version 1 0 0))\<lparr>up_pending := Some demo_pending\<rparr>"
proof -
  let ?u = "(update_new [7] (Version 1 0 0))\<lparr>up_pending := Some demo_pending\<rparr>"
  let ?r = "(update_start [7] (Version 1 0 0))\<lparr>ur_u := ?u\<rparr>"
  have j: "join_chunks (pu_chunks demo_pending) [0..<pu_expected demo_pending] = Some [1, 3]"
    by (simp add: demo_pending_def upt_rec)
  have i: "\<forall>i<pu_expected demo_pending. map_of (pu_chunks demo_pending) i \<noteq> None"
    by (auto simp: demo_pending_def)
  have "fold (update_step demo_env) [UChunk 0 [1, 2], UAssemble] ?r = ?r"
    by (rule update_short_chunk_blocks [OF _ i j, THEN conjunct1]) (simp_all add: demo_pending_def)
  thus ?thesis by simp
qed

text \<open>Recording an external installation of an old version as the first one lowers the version the
  protocol compares announcements with.\<close>

lemma record_install_lowers:
  "up_installed u = [] \<Longrightarrow> current_version (record_install v sha now path u) = v"
  by (simp add: record_install_def add_installed_def current_version_def Let_def)

text \<open>Otherwise it is the highest version installed.\<close>

lemma sorted_map_last: "sorted (map f xs) \<Longrightarrow> x \<in> set xs \<Longrightarrow> f x \<le> f (last xs)"
  by (cases xs rule: rev_cases) (auto simp: sorted_append)

lemma add_installed_max:
  assumes "iu' \<in> set (up_installed (add_installed iu u))"
  shows "iu_version iu' \<le> up_current (add_installed iu u)"
proof -
  let ?s = "sort_key iu_version (up_installed u @ [iu])"
  have mem: "iu' \<in> set ?s" using assms by (simp add: add_installed_def Let_def)
  hence "?s \<noteq> []" by (metis empty_iff list.set(1))
  moreover have "iu_version iu' \<le> iu_version (last ?s)"
    by (rule sorted_map_last [OF _ mem]) (rule sorted_sort_key)
  ultimately show ?thesis by (simp add: add_installed_def Let_def)
qed

end
