(* ===== verification/Identity.thy ===== *)
theory Identity
  imports Event
begin

text \<open>
  The identities of \<open>core/src/crypto/mod.rs\<close>: the key pairs of a node and their restoration from
  the seed, the encrypted envelope, and the session identity that rotates. HKDF, X25519 and
  ChaCha20-Poly1305 are third party crates: they are the fields of \<open>box_env\<close>, and what the code
  relies on is \<open>box_laws\<close>. Random bytes are arguments.
\<close>

unbundle bit_operations_syntax

section \<open>The encryption crates\<close>

record box_env =
  be_hkdf :: "byte list option \<Rightarrow> byte list \<Rightarrow> byte list \<Rightarrow> nat \<Rightarrow> byte list"
  be_x_public :: "byte list \<Rightarrow> byte list"
  be_x_dh :: "byte list \<Rightarrow> byte list \<Rightarrow> byte list"
  be_seal :: "byte list \<Rightarrow> byte list \<Rightarrow> byte list \<Rightarrow> byte list \<Rightarrow> byte list option"
  be_open :: "byte list \<Rightarrow> byte list \<Rightarrow> byte list \<Rightarrow> byte list \<Rightarrow> byte list option"

text \<open>A key exchange gives both sides the same secret, and opening a sealed message with the same
  key, nonce and associated data gives it back; sealing only fails on messages of many gigabytes.\<close>

definition box_laws :: "box_env \<Rightarrow> bool" where
  "box_laws be \<longleftrightarrow>
     (\<forall>a b. be_x_dh be a (be_x_public be b) = be_x_dh be b (be_x_public be a))
     \<and> (\<forall>k n ad msg c. be_seal be k n ad msg = Some c \<longrightarrow> be_open be k n ad c = Some msg)
     \<and> (\<forall>k n ad msg. length msg \<le> 2 ^ 32 \<longrightarrow> be_seal be k n ad msg \<noteq> None)
     \<and> (\<forall>salt ikm info n. length (be_hkdf be salt ikm info n) = n)"

section \<open>Identities\<close>

record identity =
  id_seed :: "byte list"
  id_verifying :: "byte list"
  id_x_secret :: "byte list"
  id_x_public :: "byte list"

text \<open>The clamping of the derived scalar.\<close>

definition x25519_clamp :: "byte list \<Rightarrow> byte list" where
  "x25519_clamp material =
     (let m1 = material[0 := (material ! 0) AND 0xF8]
      in m1[31 := ((m1 ! 31) AND 0x7F) OR 0x40])"

definition derive_x25519 :: "box_env \<Rightarrow> byte list \<Rightarrow> byte list \<times> byte list" where
  "derive_x25519 be seed =
     (let material = be_hkdf be None seed (str_bytes ''onde-x25519-v1'') 32;
          secret = x25519_clamp material
      in (secret, be_x_public be secret))"

definition identity_from_bytes :: "crypto_env \<Rightarrow> box_env \<Rightarrow> byte list \<Rightarrow> identity" where
  "identity_from_bytes ce be bytes =
     (case derive_x25519 be bytes of (secret, public) \<Rightarrow>
        \<lparr>id_seed = bytes, id_verifying = ce_public_key ce bytes, id_x_secret = secret, id_x_public = public\<rparr>)"

text \<open>\<open>generate\<close> draws the seed; the rest is derived in the same way.\<close>

definition identity_generate :: "crypto_env \<Rightarrow> box_env \<Rightarrow> byte list \<Rightarrow> identity" where
  "identity_generate ce be random_seed =
     (case derive_x25519 be random_seed of (secret, public) \<Rightarrow>
        \<lparr>id_seed = random_seed, id_verifying = ce_public_key ce random_seed,
         id_x_secret = secret, id_x_public = public\<rparr>)"

definition id_pubkey_hex :: "crypto_env \<Rightarrow> identity \<Rightarrow> string" where
  "id_pubkey_hex ce i = ce_hex_encode ce (id_verifying i)"

definition x25519_public_key_hex :: "crypto_env \<Rightarrow> identity \<Rightarrow> string" where
  "x25519_public_key_hex ce i = ce_hex_encode ce (id_x_public i)"

definition identity_sign :: "crypto_env \<Rightarrow> identity \<Rightarrow> byte list \<Rightarrow> byte list" where
  "identity_sign ce i data = ce_sign ce (id_seed i) data"

definition identity_verify :: "crypto_env \<Rightarrow> identity \<Rightarrow> byte list \<Rightarrow> byte list \<Rightarrow> bool" where
  "identity_verify ce i data sig = ce_verify ce (id_verifying i) data sig"

definition identity_wf :: "crypto_env \<Rightarrow> identity \<Rightarrow> bool" where
  "identity_wf ce i \<longleftrightarrow> length (id_seed i) = 32 \<and> id_verifying i = ce_public_key ce (id_seed i)"

lemma identity_from_bytes_fields [simp]:
  "id_seed (identity_from_bytes ce be s) = s"
  "id_verifying (identity_from_bytes ce be s) = ce_public_key ce s"
  "id_x_public (identity_from_bytes ce be s) = be_x_public be (id_x_secret (identity_from_bytes ce be s))"
  by (simp_all add: identity_from_bytes_def derive_x25519_def Let_def)

lemma identity_generate_eq: "identity_generate ce be s = identity_from_bytes ce be s"
  by (simp add: identity_generate_def identity_from_bytes_def)

lemma identity_wf_from_bytes: "length s = 32 \<Longrightarrow> identity_wf ce (identity_from_bytes ce be s)"
  by (simp add: identity_wf_def)

lemma id_pubkey_hex_seed: "identity_wf ce i \<Longrightarrow> id_pubkey_hex ce i = pubkey_hex ce (id_seed i)"
  by (simp add: identity_wf_def id_pubkey_hex_def pubkey_hex_def)

lemma identity_signs: "sign_laws ce \<Longrightarrow> identity_wf ce i \<Longrightarrow> identity_verify ce i data (identity_sign ce i data)"
  by (simp add: sign_laws_def identity_wf_def identity_verify_def identity_sign_def)

section \<open>Encrypted envelopes\<close>

record envelope =
  ee_ciphertext :: "byte list"
  ee_nonce :: "byte list"
  ee_sender :: "byte list"
  ee_eph_public :: "byte list"

datatype envelope_error = SealFailed | OpenFailed

definition derive_key :: "box_env \<Rightarrow> byte list \<Rightarrow> byte list" where
  "derive_key be shared = be_hkdf be (Some (replicate 32 0)) shared (str_bytes ''onde-mesh-v1'') 32"

definition envelope_encrypt ::
    "box_env \<Rightarrow> byte list \<Rightarrow> byte list \<Rightarrow> byte list \<Rightarrow> identity \<Rightarrow> byte list \<Rightarrow> envelope_error + envelope" where
  "envelope_encrypt be eph_secret nonce message sender recipient_pub =
     (let eph_public = be_x_public be eph_secret;
          key = derive_key be (be_x_dh be eph_secret recipient_pub);
          sender_pubkey = id_x_public sender
      in case be_seal be key nonce sender_pubkey message of
           None \<Rightarrow> Inl SealFailed
         | Some buf \<Rightarrow> Inr \<lparr>ee_ciphertext = buf, ee_nonce = nonce, ee_sender = sender_pubkey, ee_eph_public = eph_public\<rparr>)"

definition envelope_decrypt :: "box_env \<Rightarrow> envelope \<Rightarrow> identity \<Rightarrow> envelope_error + byte list" where
  "envelope_decrypt be env recipient =
     (let key = derive_key be (be_x_dh be (id_x_secret recipient) (ee_eph_public env))
      in case be_open be key (ee_nonce env) (ee_sender env) (ee_ciphertext env) of
           None \<Rightarrow> Inl OpenFailed
         | Some buf \<Rightarrow> Inr buf)"

text \<open>An envelope sealed for the public key of an identity is opened by every identity restored from
  the same seed, whatever ephemeral key and nonce were drawn, and names its sender.\<close>

theorem envelope_roundtrip:
  assumes "box_laws be" "length message \<le> 2 ^ 32"
  shows "\<exists>env. envelope_encrypt be eph nonce message sender (id_x_public (identity_from_bytes ce be seed)) = Inr env
    \<and> ee_sender env = id_x_public sender
    \<and> envelope_decrypt be env (identity_from_bytes ce' be seed) = Inr message"
proof -
  let ?r = "identity_from_bytes ce be seed" and ?r' = "identity_from_bytes ce' be seed"
  let ?key = "derive_key be (be_x_dh be eph (id_x_public ?r))"
  have same: "id_x_secret ?r' = id_x_secret ?r" by (simp add: identity_from_bytes_def split: prod.splits)
  have dh: "be_x_dh be (id_x_secret ?r') (be_x_public be eph) = be_x_dh be eph (id_x_public ?r)"
    using assms(1) unfolding box_laws_def same identity_from_bytes_fields by blast
  obtain buf where buf: "be_seal be ?key nonce (id_x_public sender) message = Some buf"
    using assms unfolding box_laws_def by blast
  hence "be_open be ?key nonce (id_x_public sender) buf = Some message"
    using assms(1) unfolding box_laws_def by blast
  thus ?thesis using buf dh by (simp add: envelope_encrypt_def envelope_decrypt_def Let_def)
qed

text \<open>Simple functions that satisfy the laws.\<close>

definition demo_box :: box_env where
  "demo_box = \<lparr>be_hkdf = (\<lambda>salt ikm info n. take n (ikm @ replicate n 0)),
     be_x_public = (\<lambda>s. s), be_x_dh = (\<lambda>a b. map2 (XOR) a b),
     be_seal = (\<lambda>k n ad msg. Some (ad @ msg)),
     be_open = (\<lambda>k n ad c. if take (length ad) c = ad then Some (drop (length ad) c) else None)\<rparr>"

lemma map2_xor_comm: "map2 (XOR) a b = map2 (XOR) b (a :: byte list)"
  by (induction a arbitrary: b; case_tac b) (auto simp: xor.commute)

lemma demo_box_laws: "box_laws demo_box"
  by (auto simp: box_laws_def demo_box_def intro: map2_xor_comm)

lemma envelope_roundtrip_witness:
  "\<exists>env. envelope_encrypt demo_box [1] [2] [3, 4] (identity_from_bytes demo_env demo_box (replicate 32 7))
        (id_x_public (identity_from_bytes demo_env demo_box (replicate 32 9))) = Inr env
    \<and> ee_sender env = id_x_public (identity_from_bytes demo_env demo_box (replicate 32 7))
    \<and> envelope_decrypt demo_box env (identity_from_bytes demo_env demo_box (replicate 32 9)) = Inr [3, 4]"
  by (rule envelope_roundtrip [OF demo_box_laws]) simp

section \<open>Rotating identities\<close>

record rotating_identity =
  ri_current :: identity
  ri_previous :: "identity option"
  ri_next :: identity
  ri_interval :: nat
  ri_last_rotation :: nat
  ri_rotations :: nat

text \<open>The two identities drawn at construction are arguments; so is the clock.\<close>

definition rotating_new_with_start :: "identity \<Rightarrow> identity \<Rightarrow> nat \<Rightarrow> nat \<Rightarrow> rotating_identity" where
  "rotating_new_with_start cur nxt interval_secs last_rotation =
     \<lparr>ri_current = cur, ri_previous = None, ri_next = nxt, ri_interval = max interval_secs 60,
      ri_last_rotation = last_rotation, ri_rotations = 0\<rparr>"

definition rotating_new :: "identity \<Rightarrow> identity \<Rightarrow> nat \<Rightarrow> nat \<Rightarrow> rotating_identity" where
  "rotating_new cur nxt interval_secs now = rotating_new_with_start cur nxt interval_secs now"

definition current_pubkey_hex :: "crypto_env \<Rightarrow> rotating_identity \<Rightarrow> string" where
  "current_pubkey_hex ce r = id_pubkey_hex ce (ri_current r)"

definition rotation_count :: "rotating_identity \<Rightarrow> nat" where
  "rotation_count r = ri_rotations r"

definition rotating_sign :: "crypto_env \<Rightarrow> rotating_identity \<Rightarrow> byte list \<Rightarrow> byte list" where
  "rotating_sign ce r data = identity_sign ce (ri_current r) data"

definition verify_with_any :: "crypto_env \<Rightarrow> rotating_identity \<Rightarrow> string \<Rightarrow> byte list \<Rightarrow> byte list \<Rightarrow> bool" where
  "verify_with_any ce r pk data sig =
     (if pk = current_pubkey_hex ce r then identity_verify ce (ri_current r) data sig
      else case ri_previous r of
        None \<Rightarrow> False
      | Some prev \<Rightarrow> pk = id_pubkey_hex ce prev \<and> identity_verify ce prev data sig)"

definition rotating_x25519_hex :: "crypto_env \<Rightarrow> rotating_identity \<Rightarrow> string" where
  "rotating_x25519_hex ce r = x25519_public_key_hex ce (ri_current r)"

definition maybe_rotate :: "identity \<Rightarrow> nat \<Rightarrow> rotating_identity \<Rightarrow> bool \<times> rotating_identity" where
  "maybe_rotate fresh now r =
     (if now - ri_last_rotation r < ri_interval r then (False, r)
      else (True, r\<lparr>ri_previous := Some (ri_current r), ri_current := ri_next r, ri_next := fresh,
                     ri_last_rotation := now, ri_rotations := ri_rotations r + 1\<rparr>))"

text \<open>A run of rotation attempts; the keys drawn are the sequence \<open>gens\<close>, one per rotation.\<close>

definition rotate_attempt :: "(nat \<Rightarrow> identity) \<Rightarrow> nat \<Rightarrow> rotating_identity \<Rightarrow> rotating_identity" where
  "rotate_attempt gens now r = snd (maybe_rotate (gens (ri_rotations r + 2)) now r)"

text \<open>The times of the attempts that rotated\<close>

fun rotation_times :: "(nat \<Rightarrow> identity) \<Rightarrow> nat list \<Rightarrow> rotating_identity \<Rightarrow> nat list" where
  "rotation_times gens [] r = []"
| "rotation_times gens (t # ts) r =
     (if fst (maybe_rotate (gens (ri_rotations r + 2)) t r) then [t] else []) @ rotation_times gens ts (rotate_attempt gens t r)"

lemma rotation_times_apart:
  "0 < ri_interval r \<Longrightarrow> sorted_wrt (\<lambda>s t. s + ri_interval r \<le> t) (ri_last_rotation r # rotation_times gens ts r)
    \<and> ri_rotations (fold (rotate_attempt gens) ts r) = ri_rotations r + length (rotation_times gens ts r)"
proof (induction ts arbitrary: r)
  case (Cons t ts)
  show ?case
  proof (cases "t - ri_last_rotation r < ri_interval r")
    case True
    then have "rotate_attempt gens t r = r" by (simp add: rotate_attempt_def maybe_rotate_def)
    then show ?thesis using Cons.IH [of r] Cons.prems True by (simp add: maybe_rotate_def)
  next
    case False
    let ?r = "rotate_attempt gens t r"
    have r: "ri_last_rotation ?r = t" "ri_interval ?r = ri_interval r" "ri_rotations ?r = ri_rotations r + 1"
      using False by (simp_all add: rotate_attempt_def maybe_rotate_def)
    have ts: "rotation_times gens (t # ts) r = t # rotation_times gens ts ?r" using False by (simp add: maybe_rotate_def)
    have "ri_last_rotation r + ri_interval r \<le> t" using False Cons.prems by linarith
    then show ?thesis using Cons.IH [of ?r] Cons.prems False unfolding ts by (auto simp: r)
  qed
qed simp

definition rotating_inv :: "(nat \<Rightarrow> identity) \<Rightarrow> nat \<Rightarrow> nat \<Rightarrow> rotating_identity \<Rightarrow> bool" where
  "rotating_inv gens start i r \<longleftrightarrow> ri_interval r = max i 60
     \<and> ri_current r = gens (ri_rotations r) \<and> ri_next r = gens (ri_rotations r + 1)
     \<and> ri_previous r = (if ri_rotations r = 0 then None else Some (gens (ri_rotations r - 1)))
     \<and> start + ri_rotations r * max i 60 \<le> ri_last_rotation r"

interpretation rotm: guarded_machine "rotate_attempt gens" "rotating_inv gens start i" "\<lambda>_. True" for gens start i
  by unfold_locales (auto simp: rotate_attempt_def maybe_rotate_def rotating_inv_def algebra_simps)

text \<open>C30: Whatever the times of the rotation attempts, the session identity is the one drawn at the
  last rotation, a signature verifies exactly under it or under the identity just before it, and the
  times of the rotations are at least the configured interval (a minute at least) apart, the first after the start.\<close>

theorem rotation_grace:
  assumes "r = fold (rotate_attempt gens) ts (rotating_new (gens 0) (gens 1) i start)"
    and "\<And>k. id_pubkey_hex ce (gens (Suc k)) \<noteq> id_pubkey_hex ce (gens k)"
  shows "sorted_wrt (\<lambda>s t. s + max i 60 \<le> t) (start # rotation_times gens ts (rotating_new (gens 0) (gens 1) i start))
    \<and> rotation_count r = length (rotation_times gens ts (rotating_new (gens 0) (gens 1) i start))
    \<and> current_pubkey_hex ce r = id_pubkey_hex ce (gens (rotation_count r))
    \<and> (verify_with_any ce r pk data sig \<longleftrightarrow>
        (\<exists>k \<le> rotation_count r. rotation_count r \<le> k + 1 \<and> pk = id_pubkey_hex ce (gens k)
           \<and> identity_verify ce (gens k) data sig))"
proof -
  let ?n = "ri_rotations r"
  have "rotating_inv gens start i (rotating_new (gens 0) (gens 1) i start)"
    by (simp add: rotating_inv_def rotating_new_def rotating_new_with_start_def)
  hence inv: "rotating_inv gens start i r"
    unfolding assms(1) by (rule rotm.run_inv) (simp add: list_all_iff)
  have two: "(\<exists>k\<le>?n. ?n \<le> k + 1 \<and> P k) \<longleftrightarrow> P ?n \<or> ?n > 0 \<and> P (?n - 1)" for P :: "nat \<Rightarrow> bool"
  proof -
    have "k = ?n \<or> ?n > 0 \<and> k = ?n - 1" if "k \<le> ?n" "?n \<le> k + 1" for k using that by linarith
    moreover have "?n - 1 \<le> ?n" "?n \<le> ?n - 1 + 1" by simp_all
    ultimately show ?thesis by (metis le_add1 order_refl)
  qed
  have "id_pubkey_hex ce (gens ?n) \<noteq> id_pubkey_hex ce (gens (?n - 1))" if "?n > 0"
    using assms(2) [of "?n - 1"] that by simp
  hence "verify_with_any ce r pk data sig \<longleftrightarrow>
      pk = id_pubkey_hex ce (gens ?n) \<and> identity_verify ce (gens ?n) data sig
      \<or> ?n > 0 \<and> pk = id_pubkey_hex ce (gens (?n - 1)) \<and> identity_verify ce (gens (?n - 1)) data sig"
    using inv by (auto simp: rotating_inv_def current_pubkey_hex_def verify_with_any_def split: if_splits)
  moreover have "sorted_wrt (\<lambda>s t. s + max i 60 \<le> t) (start # rotation_times gens ts (rotating_new (gens 0) (gens 1) i start))"
    "ri_rotations r = length (rotation_times gens ts (rotating_new (gens 0) (gens 1) i start))"
    using rotation_times_apart [of "rotating_new (gens 0) (gens 1) i start" gens ts] unfolding assms(1)
    by (simp_all add: rotating_new_def rotating_new_with_start_def)
  ultimately show ?thesis
    unfolding rotation_count_def two [of "\<lambda>k. pk = id_pubkey_hex ce (gens k) \<and> identity_verify ce (gens k) data sig"]
    using inv by (simp add: rotating_inv_def current_pubkey_hex_def)
qed

definition demo_gens :: "nat \<Rightarrow> identity" where
  "demo_gens n = identity_from_bytes demo_env demo_box (replicate 32 (of_nat (n mod 2)))"

lemma demo_gens_change: "id_pubkey_hex demo_env (demo_gens (Suc k)) \<noteq> id_pubkey_hex demo_env (demo_gens k)"
proof -
  have "Suc k mod 2 = 1 \<and> k mod 2 = 0 \<or> Suc k mod 2 = 0 \<and> k mod 2 = 1" by presburger
  hence ne: "replicate 32 (of_nat (Suc k mod 2)) \<noteq> replicate 32 (of_nat (k mod 2) :: byte)" by auto
  show ?thesis
  proof
    assume "id_pubkey_hex demo_env (demo_gens (Suc k)) = id_pubkey_hex demo_env (demo_gens k)"
    hence "demo_hex (replicate 32 (of_nat (Suc k mod 2))) = demo_hex (replicate 32 (of_nat (k mod 2)))"
      by (simp add: demo_gens_def id_pubkey_hex_def demo_env_def)
    thus False using ne demo_unhex_hex by (metis option.inject)
  qed
qed

lemma rotation_grace_witness:
  "rotation_times demo_gens [1000, 21600, 21700, 44000] (rotating_new (demo_gens 0) (demo_gens 1) 21600 0) = [21600, 44000]
    \<and> rotation_count (fold (rotate_attempt demo_gens) [1000, 21600, 21700, 44000] (rotating_new (demo_gens 0) (demo_gens 1) 21600 0)) = 2"
proof -
  have "rotation_times demo_gens [1000, 21600, 21700, 44000] (rotating_new (demo_gens 0) (demo_gens 1) 21600 0) = [21600, 44000]"
    by (simp add: rotate_attempt_def maybe_rotate_def rotating_new_def rotating_new_with_start_def)
  then show ?thesis
    using rotation_grace [where gens = demo_gens and ts = "[1000, 21600, 21700, 44000]" and i = 21600 and start = 0, OF refl demo_gens_change]
    by simp
qed

end
