(* ===== verification/Social.thy ===== *)
theory Social
  imports Event
begin

text \<open>
  The social contract of Tuitter and Redit, \<open>core/src/social.rs\<close>: posts and comments, the rules a
  valid one obeys, and the encoding of a post as a signed event. The JSON encoder is an argument.
\<close>

section \<open>Posts\<close>

definition MAX_TUITTER_BODY :: nat where "MAX_TUITTER_BODY = 500"
definition MAX_REDIT_TITLE :: nat where "MAX_REDIT_TITLE = 300"
definition MAX_REDIT_BODY :: nat where "MAX_REDIT_BODY = 40000"
definition MAX_COMMUNITY_SLUG :: nat where "MAX_COMMUNITY_SLUG = 50"
definition MAX_PRIVATE_MESSAGE_BODY :: nat where "MAX_PRIVATE_MESSAGE_BODY = 2000"
definition MAX_MODERATION_REASON :: nat where "MAX_MODERATION_REASON = 500"
definition MAX_SOCIAL_ID :: nat where "MAX_SOCIAL_ID = 128"

datatype social_platform = Tuitter | Redit

record social_post =
  sp_id :: string
  sp_platform :: social_platform
  sp_author :: string
  sp_title :: "string option"
  sp_body :: string
  sp_community :: "string option"
  sp_media :: "string list"

text \<open>The \<open>Err\<close> values, one constructor per message.\<close>

datatype social_error =
    PostBadId | PostBadAuthor | PostEmptyBody | PostTooManyMedia
  | TuitterTitle | TuitterTooLong | TuitterCommunity
  | ReditNoTitle | ReditBadTitle | ReditTooLong | ReditNoCommunity | ReditBadSlug | ReditSlugChars
  | PostNotSigner | PostEncodeFailed | PostPowFailed
  | CommentBadId | CommentBadPost | CommentOwnParent | CommentBadBody | CommentBadAuthor

text \<open>\<open>is_ascii_lowercase\<close>, \<open>is_ascii_digit\<close> or a hyphen\<close>

definition slug_char :: "char \<Rightarrow> bool" where
  "slug_char c = (let n = of_char c :: nat in 97 \<le> n \<and> n \<le> 122 \<or> 48 \<le> n \<and> n \<le> 57 \<or> c = CHR ''-'')"

definition key_malformed :: "crypto_env \<Rightarrow> string \<Rightarrow> bool" where
  "key_malformed ce k \<longleftrightarrow> length k \<noteq> 64 \<or> ce_hex_decode ce k = None"

definition post_validate :: "crypto_env \<Rightarrow> social_post \<Rightarrow> social_error + unit" where
  "post_validate ce p =
     (if sp_id p = [] \<or> chars_count (sp_id p) > 128 then Inl PostBadId
      else if key_malformed ce (sp_author p) then Inl PostBadAuthor
      else if trim_ws (sp_body p) = [] then Inl PostEmptyBody
      else if length (sp_media p) > 4 then Inl PostTooManyMedia
      else case sp_platform p of
        Tuitter \<Rightarrow>
          if sp_title p \<noteq> None then Inl TuitterTitle
          else if chars_count (sp_body p) > MAX_TUITTER_BODY then Inl TuitterTooLong
          else if sp_community p \<noteq> None then Inl TuitterCommunity
          else Inr ()
      | Redit \<Rightarrow>
          (case sp_title p of
             None \<Rightarrow> Inl ReditNoTitle
           | Some title \<Rightarrow>
               if trim_ws title = [] \<or> chars_count title > MAX_REDIT_TITLE then Inl ReditBadTitle
               else if chars_count (sp_body p) > MAX_REDIT_BODY then Inl ReditTooLong
               else case sp_community p of
                 None \<Rightarrow> Inl ReditNoCommunity
               | Some slug \<Rightarrow>
                   if slug = [] \<or> chars_count slug > MAX_COMMUNITY_SLUG then Inl ReditBadSlug
                   else if \<not> list_all slug_char slug then Inl ReditSlugChars
                   else Inr ()))"

text \<open>\<open>{:?}\<close> of a platform\<close>

fun platform_debug :: "social_platform \<Rightarrow> string" where
  "platform_debug Tuitter = ''Tuitter''"
| "platform_debug Redit = ''Redit''"

definition post_tags :: "social_post \<Rightarrow> string list" where
  "post_tags p = [''platform='' @ platform_debug (sp_platform p)]
     @ (case sp_community p of None \<Rightarrow> [] | Some slug \<Rightarrow> [''community='' @ slug])"

text \<open>\<open>encode\<close> is \<open>serde_json::to_string\<close>, \<open>t\<close> the timestamp \<open>new_signed\<close> reads and \<open>seed\<close> the identity.\<close>

definition to_mesh_event ::
    "crypto_env \<Rightarrow> (social_post \<Rightarrow> string option) \<Rightarrow> u64 \<Rightarrow> byte list \<Rightarrow> social_post \<Rightarrow> social_error + mesh_event" where
  "to_mesh_event ce encode t seed p =
     (case post_validate ce p of
        Inl e \<Rightarrow> Inl e
      | Inr _ \<Rightarrow>
          if sp_author p \<noteq> pubkey_hex ce seed then Inl PostNotSigner
          else case encode p of
            None \<Rightarrow> Inl PostEncodeFailed
          | Some content \<Rightarrow>
              (case compute_pow ce 1000000 (new_signed ce t seed SocialPost content (post_tags p)) of
                 (found, event) \<Rightarrow> if found then Inr event else Inl PostPowFailed))"

section \<open>Comments\<close>

record social_comment =
  sc_id :: string
  sc_platform :: social_platform
  sc_author :: string
  sc_post :: string
  sc_parent :: "string option"
  sc_body :: string

definition comment_validate :: "crypto_env \<Rightarrow> social_comment \<Rightarrow> social_error + unit" where
  "comment_validate ce c =
     (if sc_id c = [] \<or> chars_count (sc_id c) > 128 then Inl CommentBadId
      else if sc_post c = [] \<or> chars_count (sc_post c) > 128 then Inl CommentBadPost
      else if sc_parent c = Some (sc_id c) then Inl CommentOwnParent
      else if trim_ws (sc_body c) = [] \<or> chars_count (sc_body c) > MAX_REDIT_BODY then Inl CommentBadBody
      else if key_malformed ce (sc_author c) then Inl CommentBadAuthor
      else Inr ())"

section \<open>What a valid post is\<close>

definition id_ok :: "string \<Rightarrow> bool" where
  "id_ok s \<longleftrightarrow> s \<noteq> [] \<and> chars_count s \<le> MAX_SOCIAL_ID"

definition blank :: "string \<Rightarrow> bool" where
  "blank s \<longleftrightarrow> trim_ws s = []"

text \<open>Validation accepts exactly the posts of the contract: a non-empty identifier of at most 128
  characters, a 32-byte hexadecimal author, a body that is not blank, at most four media, and then
  for Tuitter at most 500 characters without title and community, for Redit at most 40000 with a
  title and a community slug over lower case letters, digits and hyphens.\<close>

theorem post_validate_iff:
  "post_validate ce p = Inr () \<longleftrightarrow>
     id_ok (sp_id p) \<and> \<not> key_malformed ce (sp_author p) \<and> \<not> blank (sp_body p) \<and> length (sp_media p) \<le> 4 \<and>
     (sp_platform p = Tuitter \<and> sp_title p = None \<and> sp_community p = None \<and> chars_count (sp_body p) \<le> 500
      \<or> sp_platform p = Redit \<and> chars_count (sp_body p) \<le> 40000
        \<and> (\<exists>title slug. sp_title p = Some title \<and> sp_community p = Some slug
            \<and> \<not> blank title \<and> chars_count title \<le> 300
            \<and> slug \<noteq> [] \<and> chars_count slug \<le> 50 \<and> (\<forall>c\<in>set slug. slug_char c)))"
proof -
  note defs = post_validate_def id_ok_def blank_def MAX_SOCIAL_ID_def MAX_TUITTER_BODY_def MAX_REDIT_BODY_def
    MAX_REDIT_TITLE_def MAX_COMMUNITY_SLUG_def list_all_iff not_le
  show ?thesis
  proof (cases "sp_platform p")
    case Tuitter
    thus ?thesis by (auto simp: defs)
  next
    case Redit
    thus ?thesis by (cases "sp_title p"; cases "sp_community p") (auto simp: defs)
  qed
qed

text \<open>A post published by its author is an event that validates: its identity is the author, its
  content the encoding of the post and its proof of work meets the network minimum.\<close>

lemma to_mesh_event_fields:
  assumes "to_mesh_event ce encode t seed p = Inr e"
  shows "post_validate ce p = Inr () \<and> ev_pubkey e = sp_author p \<and> ev_kind e = SocialPost
    \<and> encode p = Some (ev_content e)"
proof -
  from assms obtain content found where
    v: "post_validate ce p = Inr ()" "sp_author p = pubkey_hex ce seed" "encode p = Some content"
    and cp: "compute_pow ce 1000000 (new_signed ce t seed SocialPost content (post_tags p)) = (found, e)" "found"
    by (auto simp: to_mesh_event_def split: sum.splits if_splits option.splits prod.splits)
  have "ev_pubkey e = pubkey_hex ce seed" "ev_kind e = SocialPost" "ev_content e = content"
    using cp by (auto simp: compute_pow_def new_signed_def event_new_def Let_def split: option.splits if_splits)
  thus ?thesis using v by simp
qed

end
