(* ===== verification/SocialStore.thy ===== *)
theory SocialStore
  imports Social "HOL-Library.List_Lexorder" "HOL-Library.Char_ord" "HOL-Library.Product_Lexorder"
begin

text \<open>
  The SQLite cache of the social graph, \<open>core/src/social_store.rs\<close>. A table is the list of its rows
  in insertion order, a statement its SQL meaning: primary keys, \<open>OR REPLACE\<close>, \<open>OR IGNORE\<close>, checked
  foreign keys and the cascade of \<open>social_comments.post_id\<close>. The value of \<open>unixepoch()\<close> is an
  argument. Locking and disk errors are not modelled; a statement that violates a constraint fails
  and changes nothing.
\<close>

section \<open>Tables\<close>

definition MAX_ORPHAN_COMMENTS :: nat where "MAX_ORPHAN_COMMENTS = 1024"
definition SOCIAL_SCHEMA_VERSION :: nat where "SOCIAL_SCHEMA_VERSION = 2"

record user_row =
  us_pubkey :: string
  us_name :: string
  us_bio :: string
  us_avatar :: string
  us_created :: int

record post_row =
  pr_id :: string
  pr_platform :: string
  pr_author :: string
  pr_title :: string
  pr_body :: string
  pr_community :: string
  pr_media :: string
  pr_score :: int
  pr_created :: int

record comment_row =
  cr_id :: string
  cr_platform :: string
  cr_author :: string
  cr_post :: string
  cr_parent :: "string option"
  cr_body :: string
  cr_score :: int
  cr_created :: int

record vote_row =
  vt_voter :: string
  vt_target :: string
  vt_direction :: int
  vt_created :: int

record message_row =
  mr_id :: string
  mr_sender :: string
  mr_recipient :: string
  mr_body :: string
  mr_read :: "int option"
  mr_created :: int

record report_row =
  rr_id :: string
  rr_reporter :: string
  rr_target :: string
  rr_reason :: string
  rr_status :: string
  rr_created :: int
  rr_resolved :: "int option"

text \<open>A row of \<open>social_orphan_comments\<close> has the columns of a comment without a score.\<close>

record social_db =
  sd_version :: nat
  sd_users :: "user_row list"
  sd_posts :: "post_row list"
  sd_comments :: "comment_row list"
  sd_orphans :: "comment_row list"
  sd_votes :: "vote_row list"
  sd_follows :: "(string \<times> string \<times> int) list"
  sd_members :: "(string \<times> string \<times> int) list"
  sd_messages :: "message_row list"
  sd_reports :: "report_row list"
  sd_bookmarks :: "(string \<times> string \<times> int) list"

datatype sql_error = ForeignKeyFailed | CheckFailed

definition social_open :: social_db where
  "social_open = \<lparr>sd_version = SOCIAL_SCHEMA_VERSION, sd_users = [], sd_posts = [], sd_comments = [], sd_orphans = [],
     sd_votes = [], sd_follows = [], sd_members = [], sd_messages = [], sd_reports = [], sd_bookmarks = []\<rparr>"

text \<open>\<open>INSERT OR REPLACE\<close> and \<open>INSERT OR IGNORE\<close> on a table whose primary key is \<open>key\<close>\<close>

definition row_exists :: "('r \<Rightarrow> 'k) \<Rightarrow> 'k \<Rightarrow> 'r list \<Rightarrow> bool" where
  "row_exists key k rows \<longleftrightarrow> list_ex (\<lambda>r. key r = k) rows"

definition insert_or_replace :: "('r \<Rightarrow> 'k) \<Rightarrow> 'r \<Rightarrow> 'r list \<Rightarrow> 'r list" where
  "insert_or_replace key row rows = filter (\<lambda>r. key r \<noteq> key row) rows @ [row]"

definition insert_or_ignore :: "('r \<Rightarrow> 'k) \<Rightarrow> 'r \<Rightarrow> 'r list \<Rightarrow> 'r list" where
  "insert_or_ignore key row rows = (if row_exists key (key row) rows then rows else rows @ [row])"

fun platform_label :: "social_platform \<Rightarrow> string" where
  "platform_label Tuitter = ''Tuitter''"
| "platform_label Redit = ''Redit''"

section \<open>Users\<close>

definition ensure_user :: "int \<Rightarrow> string \<Rightarrow> social_db \<Rightarrow> social_db" where
  "ensure_user now pubkey db = db\<lparr>sd_users := insert_or_ignore us_pubkey
     \<lparr>us_pubkey = pubkey, us_name = [], us_bio = [], us_avatar = [], us_created = now\<rparr> (sd_users db)\<rparr>"

definition upsert_user :: "int \<Rightarrow> string \<Rightarrow> string \<Rightarrow> string \<Rightarrow> string \<Rightarrow> social_db \<Rightarrow> social_db" where
  "upsert_user now pubkey name bio avatar db = db\<lparr>sd_users := insert_or_replace us_pubkey
     \<lparr>us_pubkey = pubkey, us_name = name, us_bio = bio, us_avatar = avatar, us_created = now\<rparr> (sd_users db)\<rparr>"

definition get_user :: "string \<Rightarrow> social_db \<Rightarrow> user_row option" where
  "get_user pubkey db = find (\<lambda>u. us_pubkey u = pubkey) (sd_users db)"

section \<open>Comments waiting for their post\<close>

definition parent_ready :: "string option \<Rightarrow> social_db \<Rightarrow> bool" where
  "parent_ready parent db \<longleftrightarrow> (case parent of None \<Rightarrow> True | Some p \<Rightarrow> row_exists cr_id p (sd_comments db))"

definition post_ready :: "string \<Rightarrow> social_db \<Rightarrow> bool" where
  "post_ready pid db \<longleftrightarrow> row_exists pr_id pid (sd_posts db)"

text \<open>One pending row of \<open>promote_orphan_comments\<close>: its author, the copy and the deletion.\<close>

definition promote_one :: "int \<Rightarrow> comment_row \<Rightarrow> social_db \<Rightarrow> social_db" where
  "promote_one now ob db =
     (let db1 = ensure_user now (cr_author ob) db;
          row = ob\<lparr>cr_score := 0, cr_created := now\<rparr>
      in db1\<lparr>sd_comments := insert_or_ignore cr_id row (sd_comments db1),
             sd_orphans := filter (\<lambda>r. cr_id r \<noteq> cr_id ob) (sd_orphans db1)\<rparr>)"

text \<open>The loop over the pending rows; the flag is \<open>progressed\<close>.\<close>

fun promote_pass :: "int \<Rightarrow> comment_row list \<Rightarrow> bool \<times> social_db \<Rightarrow> bool \<times> social_db" where
  "promote_pass now [] acc = acc"
| "promote_pass now (ob # os) (progressed, db) =
     (if \<not> parent_ready (cr_parent ob) db then promote_pass now os (progressed, db)
      else promote_pass now os (True, promote_one now ob db))"

text \<open>The \<open>SELECT\<close>: by creation time and identifier, at most 256 rows.\<close>

definition pending_orphans :: "string \<Rightarrow> social_db \<Rightarrow> comment_row list" where
  "pending_orphans pid db =
     take 256 (sort_key (\<lambda>r. (cr_created r, cr_id r)) (filter (\<lambda>r. cr_post r = pid) (sd_orphans db)))"

lemma promote_pass_orphans:
  "length (sd_orphans (snd (promote_pass now os (b, db)))) \<le> length (sd_orphans db)"
proof (induction os arbitrary: b db)
  case (Cons ob os)
  have "length (sd_orphans (promote_one now ob db)) \<le> length (sd_orphans db)"
    by (simp add: promote_one_def ensure_user_def Let_def)
  thus ?case using Cons.IH [of True "promote_one now ob db"] Cons.IH [of b db] by simp
qed simp

lemma filter_length_less: "x \<in> set xs \<Longrightarrow> \<not> P x \<Longrightarrow> length (filter P xs) < length xs"
  by (metis filter_True le_neq_implies_less length_filter_le length_filter_less)

lemma promote_pass_progress:
  assumes "set os \<subseteq> set (sd_orphans db)" and "fst (promote_pass now os (False, db))"
  shows "length (sd_orphans (snd (promote_pass now os (False, db)))) < length (sd_orphans db)"
  using assms
proof (induction os arbitrary: db)
  case (Cons ob os)
  show ?case
  proof (cases "parent_ready (cr_parent ob) db")
    case False
    thus ?thesis using Cons by simp
  next
    case True
    have "length (sd_orphans (promote_one now ob db)) < length (sd_orphans db)"
      using filter_length_less [of ob "sd_orphans db" "\<lambda>r. cr_id r \<noteq> cr_id ob"] Cons.prems(1)
      by (simp add: promote_one_def ensure_user_def Let_def)
    thus ?thesis using True promote_pass_orphans [of now os True "promote_one now ob db"] by simp
  qed
qed simp

text \<open>The outer loop of \<open>promote_orphan_comments\<close> ends with the first pass that promotes nothing.\<close>

function promote_orphan_comments :: "int \<Rightarrow> string \<Rightarrow> social_db \<Rightarrow> social_db" where
  "promote_orphan_comments now pid db =
     (if pending_orphans pid db = [] then db
      else case promote_pass now (pending_orphans pid db) (False, db) of
        (progressed, db') \<Rightarrow> if \<not> progressed then db' else promote_orphan_comments now pid db')"
  by pat_completeness auto

lemma pending_orphans_subset: "set (pending_orphans pid db) \<subseteq> {r \<in> set (sd_orphans db). cr_post r = pid}"
  by (auto simp: pending_orphans_def dest!: in_set_takeD)

termination promote_orphan_comments
proof (relation "measure (\<lambda>(now, pid, db). length (sd_orphans db))", goal_cases)
  case (2 now pid db progressed db')
  thus ?case
    using promote_pass_progress [of "pending_orphans pid db" db now] pending_orphans_subset [of pid db]
    by (auto simp: prod_eq_iff)
qed simp

declare promote_orphan_comments.simps [simp del]

section \<open>Posts\<close>

text \<open>Deleting a post row: its comments go with it, and the statement fails when a remaining comment
  has its parent among them.\<close>

definition cascade_post :: "string \<Rightarrow> social_db \<Rightarrow> social_db option" where
  "cascade_post pid db =
     (let kept = filter (\<lambda>c. cr_post c \<noteq> pid) (sd_comments db);
          gone = filter (\<lambda>c. cr_post c = pid) (sd_comments db)
      in if list_ex (\<lambda>c. case cr_parent c of None \<Rightarrow> False
                         | Some p \<Rightarrow> row_exists cr_id p gone \<and> \<not> row_exists cr_id p kept) kept
         then None
         else Some (db\<lparr>sd_posts := filter (\<lambda>r. pr_id r \<noteq> pid) (sd_posts db), sd_comments := kept\<rparr>))"

definition post_row_of :: "int \<Rightarrow> (string list \<Rightarrow> string) \<Rightarrow> social_post \<Rightarrow> post_row" where
  "post_row_of now media_json p =
     \<lparr>pr_id = sp_id p, pr_platform = platform_label (sp_platform p), pr_author = sp_author p,
      pr_title = (case sp_title p of None \<Rightarrow> [] | Some t \<Rightarrow> t), pr_body = sp_body p,
      pr_community = (case sp_community p of None \<Rightarrow> [] | Some s \<Rightarrow> s), pr_media = media_json (sp_media p),
      pr_score = 0, pr_created = now\<rparr>"

text \<open>\<open>INSERT OR REPLACE\<close> deletes the row it replaces, with the foreign key actions.\<close>

definition insert_post ::
    "int \<Rightarrow> (string list \<Rightarrow> string) \<Rightarrow> social_post \<Rightarrow> social_db \<Rightarrow> (sql_error + unit) \<times> social_db" where
  "insert_post now media_json p db =
     (if \<not> row_exists us_pubkey (sp_author p) (sd_users db) then (Inl ForeignKeyFailed, db)
      else case (if post_ready (sp_id p) db then cascade_post (sp_id p) db else Some db) of
        None \<Rightarrow> (Inl ForeignKeyFailed, db)
      | Some db1 \<Rightarrow>
          (Inr (), promote_orphan_comments now (sp_id p)
             (db1\<lparr>sd_posts := sd_posts db1 @ [post_row_of now media_json p]\<rparr>)))"

definition get_post :: "string \<Rightarrow> social_db \<Rightarrow> post_row option" where
  "get_post pid db = find (\<lambda>r. pr_id r = pid) (sd_posts db)"

definition delete_post :: "string \<Rightarrow> string \<Rightarrow> social_db \<Rightarrow> (sql_error + bool) \<times> social_db" where
  "delete_post pid author db =
     (if \<not> list_ex (\<lambda>r. pr_id r = pid \<and> pr_author r = author) (sd_posts db) then (Inr False, db)
      else case cascade_post pid db of
        None \<Rightarrow> (Inl ForeignKeyFailed, db)
      | Some db1 \<Rightarrow> (Inr True, db1))"

text \<open>\<open>ORDER BY created_at DESC\<close>; the order of rows created in the same second is the argument \<open>tie\<close>.\<close>

definition list_posts ::
    "(post_row list \<Rightarrow> post_row list) \<Rightarrow> social_platform \<Rightarrow> string option \<Rightarrow> string option \<Rightarrow> nat \<Rightarrow> nat
       \<Rightarrow> social_db \<Rightarrow> post_row list" where
  "list_posts tie platform slug author limit offset db =
     take limit (drop offset (sort_key (\<lambda>r. - pr_created r) (tie (filter (\<lambda>r. pr_platform r = platform_label platform
       \<and> (case slug of Some s \<Rightarrow> pr_community r = s
          | None \<Rightarrow> (case author of Some a \<Rightarrow> pr_author r = a | None \<Rightarrow> True))) (sd_posts db)))))"

section \<open>Comments\<close>

definition comment_row_of :: "int \<Rightarrow> social_comment \<Rightarrow> comment_row" where
  "comment_row_of now c =
     \<lparr>cr_id = sc_id c, cr_platform = platform_label (sc_platform c), cr_author = sc_author c, cr_post = sc_post c,
      cr_parent = (case sc_parent c of Some p \<Rightarrow> (if p = [] then None else Some p) | None \<Rightarrow> None),
      cr_body = sc_body c, cr_score = 0, cr_created = now\<rparr>"

text \<open>The buffer keeps the latest rows.\<close>

definition cap_orphans :: "comment_row list \<Rightarrow> comment_row list" where
  "cap_orphans os =
     (let doomed = drop MAX_ORPHAN_COMMENTS (rev (sort_key (\<lambda>r. (cr_created r, cr_id r)) os))
      in filter (\<lambda>r. \<not> row_exists cr_id (cr_id r) doomed) os)"

definition insert_comment :: "int \<Rightarrow> social_comment \<Rightarrow> social_db \<Rightarrow> bool \<times> social_db" where
  "insert_comment now c db =
     (let row = comment_row_of now c in
      if post_ready (cr_post row) db \<and> parent_ready (cr_parent row) db then
        let db1 = ensure_user now (cr_author row) db;
            db2 = db1\<lparr>sd_comments := insert_or_replace cr_id row (sd_comments db1),
                      sd_orphans := filter (\<lambda>r. cr_id r \<noteq> cr_id row) (sd_orphans db1)\<rparr>
        in (True, promote_orphan_comments now (cr_post row) db2)
      else
        (False, db\<lparr>sd_orphans := cap_orphans (insert_or_replace cr_id row (sd_orphans db))\<rparr>))"

definition orphan_comment_count :: "social_db \<Rightarrow> nat" where
  "orphan_comment_count db = length (sd_orphans db)"

definition list_comments :: "(comment_row list \<Rightarrow> comment_row list) \<Rightarrow> string \<Rightarrow> social_db \<Rightarrow> comment_row list" where
  "list_comments tie pid db = sort_key cr_created (tie (filter (\<lambda>c. cr_post c = pid) (sd_comments db)))"

section \<open>Votes\<close>

definition vote_of :: "string \<Rightarrow> string \<Rightarrow> social_db \<Rightarrow> int option" where
  "vote_of voter target db =
     map_option vt_direction (find (\<lambda>v. vt_voter v = voter \<and> vt_target v = target) (sd_votes db))"

definition add_post_score :: "string \<Rightarrow> int \<Rightarrow> post_row list \<Rightarrow> post_row list" where
  "add_post_score target delta rows =
     map (\<lambda>r. if pr_id r = target then r\<lparr>pr_score := pr_score r + delta\<rparr> else r) rows"

definition add_comment_score :: "string \<Rightarrow> int \<Rightarrow> comment_row list \<Rightarrow> comment_row list" where
  "add_comment_score target delta rows =
     map (\<lambda>r. if cr_id r = target then r\<lparr>cr_score := cr_score r + delta\<rparr> else r) rows"

definition vote :: "int \<Rightarrow> string \<Rightarrow> string \<Rightarrow> int \<Rightarrow> string \<Rightarrow> social_db \<Rightarrow> (sql_error + int) \<times> social_db" where
  "vote now voter target direction table db =
     (let previous = vote_of voter target db;
          delta = direction - (case previous of None \<Rightarrow> 0 | Some d \<Rightarrow> d)
      in if direction \<noteq> -1 \<and> direction \<noteq> 1 then (Inl CheckFailed, db)
         else
           let db1 = db\<lparr>sd_votes := insert_or_replace (\<lambda>v. (vt_voter v, vt_target v))
                 \<lparr>vt_voter = voter, vt_target = target, vt_direction = direction, vt_created = now\<rparr> (sd_votes db)\<rparr>
           in if delta = 0 then (Inr delta, db1)
              else if table = ''posts'' then
                (Inr delta, db1\<lparr>sd_posts := add_post_score target delta (sd_posts db1)\<rparr>)
              else if table = ''comments'' then
                (Inr delta, db1\<lparr>sd_comments := add_comment_score target delta (sd_comments db1)\<rparr>)
              else (Inr 0, db1))"

section \<open>Follows, communities, messages, reports, bookmarks\<close>

definition pair_key :: "string \<times> string \<times> int \<Rightarrow> string \<times> string" where
  "pair_key r = (fst r, fst (snd r))"

definition follow :: "int \<Rightarrow> string \<Rightarrow> string \<Rightarrow> social_db \<Rightarrow> social_db" where
  "follow now a b db = db\<lparr>sd_follows := insert_or_ignore pair_key (a, b, now) (sd_follows db)\<rparr>"

definition unfollow :: "string \<Rightarrow> string \<Rightarrow> social_db \<Rightarrow> social_db" where
  "unfollow a b db = db\<lparr>sd_follows := filter (\<lambda>r. pair_key r \<noteq> (a, b)) (sd_follows db)\<rparr>"

definition is_following :: "string \<Rightarrow> string \<Rightarrow> social_db \<Rightarrow> bool" where
  "is_following a b db \<longleftrightarrow> row_exists pair_key (a, b) (sd_follows db)"

definition join_community :: "int \<Rightarrow> string \<Rightarrow> string \<Rightarrow> social_db \<Rightarrow> social_db" where
  "join_community now a slug db = db\<lparr>sd_members := insert_or_ignore pair_key (a, slug, now) (sd_members db)\<rparr>"

definition leave_community :: "string \<Rightarrow> string \<Rightarrow> social_db \<Rightarrow> social_db" where
  "leave_community a slug db = db\<lparr>sd_members := filter (\<lambda>r. pair_key r \<noteq> (a, slug)) (sd_members db)\<rparr>"

definition insert_message :: "int \<Rightarrow> string \<Rightarrow> string \<Rightarrow> string \<Rightarrow> string \<Rightarrow> social_db \<Rightarrow> social_db" where
  "insert_message now i sender recipient body db = db\<lparr>sd_messages := insert_or_replace mr_id
     \<lparr>mr_id = i, mr_sender = sender, mr_recipient = recipient, mr_body = body, mr_read = None, mr_created = now\<rparr>
     (sd_messages db)\<rparr>"

definition list_messages :: "(message_row list \<Rightarrow> message_row list) \<Rightarrow> string \<Rightarrow> social_db \<Rightarrow> message_row list" where
  "list_messages tie user db = take 500 (sort_key (\<lambda>r. - mr_created r)
     (tie (filter (\<lambda>r. mr_sender r = user \<or> mr_recipient r = user) (sd_messages db))))"

definition submit_report :: "int \<Rightarrow> string \<Rightarrow> string \<Rightarrow> string \<Rightarrow> string \<Rightarrow> social_db \<Rightarrow> social_db" where
  "submit_report now i reporter target reason db = db\<lparr>sd_reports := insert_or_replace rr_id
     \<lparr>rr_id = i, rr_reporter = reporter, rr_target = target, rr_reason = reason, rr_status = ''open'',
      rr_created = now, rr_resolved = None\<rparr> (sd_reports db)\<rparr>"

definition resolve_report :: "int \<Rightarrow> string \<Rightarrow> string \<Rightarrow> social_db \<Rightarrow> (sql_error + unit) \<times> social_db" where
  "resolve_report now i status db =
     (if row_exists rr_id i (sd_reports db) \<and> status \<notin> {''open'', ''resolved'', ''dismissed''} then (Inl CheckFailed, db)
      else (Inr (), db\<lparr>sd_reports := map (\<lambda>r. if rr_id r = i then r\<lparr>rr_status := status, rr_resolved := Some now\<rparr> else r)
              (sd_reports db)\<rparr>))"

definition list_open_reports :: "(report_row list \<Rightarrow> report_row list) \<Rightarrow> social_db \<Rightarrow> report_row list" where
  "list_open_reports tie db = sort_key rr_created (tie (filter (\<lambda>r. rr_status r = ''open'') (sd_reports db)))"

definition add_bookmark :: "int \<Rightarrow> string \<Rightarrow> string \<Rightarrow> social_db \<Rightarrow> social_db" where
  "add_bookmark now a target db = db\<lparr>sd_bookmarks := insert_or_ignore pair_key (a, target, now) (sd_bookmarks db)\<rparr>"

definition remove_bookmark :: "string \<Rightarrow> string \<Rightarrow> social_db \<Rightarrow> social_db" where
  "remove_bookmark a target db = db\<lparr>sd_bookmarks := filter (\<lambda>r. pair_key r \<noteq> (a, target)) (sd_bookmarks db)\<rparr>"

definition is_bookmarked :: "string \<Rightarrow> string \<Rightarrow> social_db \<Rightarrow> bool" where
  "is_bookmarked a target db \<longleftrightarrow> row_exists pair_key (a, target) (sd_bookmarks db)"

definition list_bookmarks ::
    "((string \<times> string \<times> int) list \<Rightarrow> (string \<times> string \<times> int) list) \<Rightarrow> string \<Rightarrow> social_db \<Rightarrow> string list" where
  "list_bookmarks tie a db = map (\<lambda>r. fst (snd r)) (sort_key (\<lambda>r. - snd (snd r)) (tie (filter (\<lambda>r. fst r = a) (sd_bookmarks db))))"

section \<open>Keyed tables\<close>

text \<open>What the two insertion clauses have in common: the keys afterwards, and that they stay distinct.\<close>

locale keyed_table =
  fixes put :: "('r \<Rightarrow> 'k) \<Rightarrow> 'r \<Rightarrow> 'r list \<Rightarrow> 'r list"
  assumes put_keys: "key ` set (put key r rows) = insert (key r) (key ` set rows)"
    and put_distinct: "distinct (map key rows) \<Longrightarrow> distinct (map key (put key r rows))"
    and put_rows: "x \<in> set (put key r rows) \<Longrightarrow> x = r \<or> x \<in> set rows"
    and put_new: "key r \<notin> key ` set rows \<Longrightarrow> put key r rows = rows @ [r]"
begin

lemma put_exists: "row_exists key k (put key r rows) \<longleftrightarrow> k = key r \<or> row_exists key k rows"
proof -
  have "row_exists key k xs \<longleftrightarrow> k \<in> key ` set xs" for xs by (auto simp: row_exists_def list_ex_iff)
  thus ?thesis by (simp add: put_keys)
qed

end

lemma row_exists_iff: "row_exists key k rows \<longleftrightarrow> k \<in> key ` set rows"
  by (auto simp: row_exists_def list_ex_iff)

lemma filter_keys: "k \<notin> key ` set rows \<Longrightarrow> filter (\<lambda>r. key r \<noteq> k) rows = rows"
  by (induction rows) auto

interpretation replaced: keyed_table insert_or_replace
proof
  fix key :: "'a \<Rightarrow> 'b" and r rows x
  show "key ` set (insert_or_replace key r rows) = insert (key r) (key ` set rows)"
    by (auto simp: insert_or_replace_def)
  show "distinct (map key rows) \<Longrightarrow> distinct (map key (insert_or_replace key r rows))"
    by (auto simp: insert_or_replace_def distinct_map_filter)
  show "x \<in> set (insert_or_replace key r rows) \<Longrightarrow> x = r \<or> x \<in> set rows"
    by (auto simp: insert_or_replace_def)
  show "key r \<notin> key ` set rows \<Longrightarrow> insert_or_replace key r rows = rows @ [r]"
    by (simp add: insert_or_replace_def filter_keys)
qed

interpretation ignored: keyed_table insert_or_ignore
proof
  fix key :: "'a \<Rightarrow> 'b" and r rows x
  show "key ` set (insert_or_ignore key r rows) = insert (key r) (key ` set rows)"
    by (auto simp: insert_or_ignore_def row_exists_iff)
  show "distinct (map key rows) \<Longrightarrow> distinct (map key (insert_or_ignore key r rows))"
    by (auto simp: insert_or_ignore_def row_exists_iff)
  show "x \<in> set (insert_or_ignore key r rows) \<Longrightarrow> x = r \<or> x \<in> set rows"
    by (auto simp: insert_or_ignore_def split: if_splits)
  show "key r \<notin> key ` set rows \<Longrightarrow> insert_or_ignore key r rows = rows @ [r]"
    by (simp add: insert_or_ignore_def row_exists_iff)
qed

section \<open>Integrity of the tables\<close>

text \<open>Primary keys are unique, every reference has its target, the buffer is bounded, every vote is
  one way or the other.\<close>

definition comments_ok :: "string set \<Rightarrow> string set \<Rightarrow> comment_row list \<Rightarrow> bool" where
  "comments_ok users posts cs \<longleftrightarrow> distinct (map cr_id cs)
     \<and> (\<forall>c\<in>set cs. cr_author c \<in> users \<and> cr_post c \<in> posts
          \<and> (\<forall>p. cr_parent c = Some p \<longrightarrow> p \<in> cr_id ` set cs))"

definition db_inv :: "social_db \<Rightarrow> bool" where
  "db_inv db \<longleftrightarrow> distinct (map us_pubkey (sd_users db))
     \<and> distinct (map pr_id (sd_posts db)) \<and> pr_author ` set (sd_posts db) \<subseteq> us_pubkey ` set (sd_users db)
     \<and> comments_ok (us_pubkey ` set (sd_users db)) (pr_id ` set (sd_posts db)) (sd_comments db)
     \<and> distinct (map cr_id (sd_orphans db)) \<and> length (sd_orphans db) \<le> MAX_ORPHAN_COMMENTS
     \<and> distinct (map (\<lambda>v. (vt_voter v, vt_target v)) (sd_votes db)) \<and> vt_direction ` set (sd_votes db) \<subseteq> {-1, 1}"

lemma comments_ok_mono: "comments_ok us ps cs \<Longrightarrow> us \<subseteq> us' \<Longrightarrow> ps \<subseteq> ps' \<Longrightarrow> comments_ok us' ps' cs"
  by (auto simp: comments_ok_def)

lemma comments_ok_put:
  assumes "comments_ok us ps cs" "cr_author r \<in> us" "cr_post r \<in> ps"
    and "\<And>p. cr_parent r = Some p \<Longrightarrow> p \<in> cr_id ` set cs" and "put = insert_or_replace \<or> put = insert_or_ignore"
  shows "comments_ok us ps (put cr_id r cs)"
proof -
  have ids: "cr_id ` set (put cr_id r cs) = insert (cr_id r) (cr_id ` set cs)"
    and d: "distinct (map cr_id (put cr_id r cs))"
    and sub: "\<And>x. x \<in> set (put cr_id r cs) \<Longrightarrow> x = r \<or> x \<in> set cs"
    using assms(1,5) replaced.put_keys [of cr_id r cs] ignored.put_keys [of cr_id r cs]
      replaced.put_distinct [of cr_id cs r] ignored.put_distinct [of cr_id cs r]
      replaced.put_rows [of _ cr_id r cs] ignored.put_rows [of _ cr_id r cs]
    by (auto simp: comments_ok_def)
  have "cr_author x \<in> us \<and> cr_post x \<in> ps \<and> (\<forall>p. cr_parent x = Some p \<longrightarrow> p \<in> cr_id ` set (put cr_id r cs))"
    if "x \<in> set (put cr_id r cs)" for x
    using sub [OF that] assms(1-4) unfolding ids comments_ok_def by blast
  thus ?thesis using d by (simp add: comments_ok_def)
qed

lemma db_inv_ensure_user: "db_inv db \<Longrightarrow> db_inv (ensure_user now u db)"
  unfolding db_inv_def ensure_user_def
  by (auto simp: ignored.put_keys ignored.put_distinct elim: comments_ok_mono)

lemma db_inv_promote_one:
  assumes "db_inv db" "post_ready (cr_post ob) db" "parent_ready (cr_parent ob) db"
  shows "db_inv (promote_one now ob db)"
proof -
  let ?db1 = "ensure_user now (cr_author ob) db"
  let ?us = "us_pubkey ` set (sd_users ?db1)" and ?ps = "pr_id ` set (sd_posts ?db1)"
  have inv: "db_inv ?db1" using db_inv_ensure_user assms(1) by simp
  have "comments_ok ?us ?ps (insert_or_ignore cr_id (ob\<lparr>cr_score := 0, cr_created := now\<rparr>) (sd_comments ?db1))"
  proof (rule comments_ok_put [where put = insert_or_ignore])
    show "comments_ok ?us ?ps (sd_comments ?db1)" using inv by (simp add: db_inv_def)
    show "cr_author (ob\<lparr>cr_score := 0, cr_created := now\<rparr>) \<in> ?us"
      by (simp add: ensure_user_def ignored.put_keys)
    show "cr_post (ob\<lparr>cr_score := 0, cr_created := now\<rparr>) \<in> ?ps"
      using assms(2) by (simp add: ensure_user_def post_ready_def row_exists_iff)
    fix p assume "cr_parent (ob\<lparr>cr_score := 0, cr_created := now\<rparr>) = Some p"
    thus "p \<in> cr_id ` set (sd_comments ?db1)"
      using assms(3) by (simp add: ensure_user_def parent_ready_def row_exists_iff)
  qed simp
  moreover have "length (filter (\<lambda>r. cr_id r \<noteq> cr_id ob) (sd_orphans ?db1)) \<le> MAX_ORPHAN_COMMENTS"
    using inv by (meson db_inv_def le_trans length_filter_le)
  ultimately show ?thesis using inv
    by (simp add: promote_one_def Let_def db_inv_def distinct_map_filter)
qed

lemma promote_one_posts [simp]: "sd_posts (promote_one now ob db) = sd_posts db"
  by (simp add: promote_one_def ensure_user_def Let_def)

lemma post_ready_promote_one [simp]: "post_ready pid (promote_one now ob db) = post_ready pid db"
  by (simp add: post_ready_def)

text \<open>What every promotion keeps, the whole loop keeps.\<close>

lemma promote_pass_keeps:
  assumes "P db" "post_ready pid db" "\<forall>ob\<in>set os. cr_post ob = pid"
    and "\<And>ob db. P db \<Longrightarrow> post_ready pid db \<Longrightarrow> cr_post ob = pid \<Longrightarrow> parent_ready (cr_parent ob) db \<Longrightarrow>
       P (promote_one now ob db)"
  shows "P (snd (promote_pass now os (b, db)))"
  using assms(1-3)
proof (induction os arbitrary: b db)
  case (Cons ob os)
  have "P (promote_one now ob db)" if "parent_ready (cr_parent ob) db"
    using Cons.prems that by (intro assms(4)) auto
  thus ?case using Cons.IH [of "promote_one now ob db" True] Cons.IH [of db b] Cons.prems by simp
qed simp

lemma promote_pass_posts [simp]: "sd_posts (snd (promote_pass now os acc)) = sd_posts (snd acc)"
  by (induction os acc rule: promote_pass.induct) simp_all

lemma promote_orphans_keeps:
  assumes "P db" "post_ready pid db"
    and "\<And>ob db. P db \<Longrightarrow> post_ready pid db \<Longrightarrow> cr_post ob = pid \<Longrightarrow> parent_ready (cr_parent ob) db \<Longrightarrow>
       P (promote_one now ob db)"
  shows "P (promote_orphan_comments now pid db)"
  using assms
proof (induction now pid db rule: promote_orphan_comments.induct)
  case (1 now pid db)
  let ?os = "pending_orphans pid db"
  obtain b db' where pass: "promote_pass now ?os (False, db) = (b, db')" by fastforce
  have os: "\<forall>ob\<in>set ?os. cr_post ob = pid" using pending_orphans_subset [of pid db] by auto
  have "P (snd (promote_pass now ?os (False, db)))"
    using 1(2,3) os by (rule promote_pass_keeps) (rule 1(4))
  hence P': "P db'" unfolding pass snd_conv .
  have ready: "post_ready pid db'"
    using promote_pass_posts [of now ?os "(False, db)"] 1(3) pass by (simp add: post_ready_def)
  have "P (promote_orphan_comments now pid db')" if "?os \<noteq> []" b
    using that by (intro 1(1) [OF _ pass [symmetric] _ P' ready 1(4)]) simp_all
  thus ?case using P' 1(2) pass by (subst promote_orphan_comments.simps) simp
qed

lemma db_inv_promote: "db_inv db \<Longrightarrow> post_ready pid db \<Longrightarrow> db_inv (promote_orphan_comments now pid db)"
  by (rule promote_orphans_keeps) (auto intro: db_inv_promote_one)

lemma cascade_post_Some:
  assumes "cascade_post pid db = Some db1"
  shows "db1 = db\<lparr>sd_posts := filter (\<lambda>r. pr_id r \<noteq> pid) (sd_posts db), sd_comments := filter (\<lambda>c. cr_post c \<noteq> pid) (sd_comments db)\<rparr>
    \<and> (\<forall>c\<in>set (sd_comments db1). \<forall>p. cr_parent c = Some p \<longrightarrow> p \<in> cr_id ` set (sd_comments db) \<longrightarrow> p \<in> cr_id ` set (sd_comments db1))"
proof -
  let ?kept = "filter (\<lambda>c. cr_post c \<noteq> pid) (sd_comments db)" and ?gone = "filter (\<lambda>c. cr_post c = pid) (sd_comments db)"
  from assms have e: "db1 = db\<lparr>sd_posts := filter (\<lambda>r. pr_id r \<noteq> pid) (sd_posts db), sd_comments := ?kept\<rparr>"
    and n: "\<not> list_ex (\<lambda>c. case cr_parent c of None \<Rightarrow> False
        | Some p \<Rightarrow> row_exists cr_id p ?gone \<and> \<not> row_exists cr_id p ?kept) ?kept"
    by (simp_all add: cascade_post_def Let_def split: if_splits)
  have "p \<in> cr_id ` set ?kept" if "c \<in> set ?kept" "cr_parent c = Some p" "p \<in> cr_id ` set (sd_comments db)" for c p
  proof -
    have "\<not> (p \<in> cr_id ` set ?gone \<and> p \<notin> cr_id ` set ?kept)"
    proof -
      have "\<not> (case cr_parent c of None \<Rightarrow> False | Some p \<Rightarrow> row_exists cr_id p ?gone \<and> \<not> row_exists cr_id p ?kept)"
        using n that(1) unfolding list_ex_iff by blast
      thus ?thesis unfolding that(2) row_exists_iff by simp
    qed
    moreover have "p \<in> cr_id ` set ?gone \<union> cr_id ` set ?kept" using that(3) by auto
    ultimately show ?thesis by blast
  qed
  thus ?thesis unfolding e by simp
qed

lemma db_inv_cascade:
  assumes "db_inv db" "cascade_post pid db = Some db1"
  shows "db_inv db1 \<and> \<not> post_ready pid db1 \<and> sd_users db1 = sd_users db"
proof -
  note c = cascade_post_Some [OF assms(2)]
  have e: "db1 = db\<lparr>sd_posts := filter (\<lambda>r. pr_id r \<noteq> pid) (sd_posts db), sd_comments := filter (\<lambda>c. cr_post c \<noteq> pid) (sd_comments db)\<rparr>"
    using c by blast
  have "comments_ok (us_pubkey ` set (sd_users db1)) (pr_id ` set (sd_posts db1)) (sd_comments db1)"
    using assms(1) c unfolding db_inv_def comments_ok_def by (auto simp: e distinct_map_filter)
  thus ?thesis using assms(1) by (auto simp: e db_inv_def distinct_map_filter post_ready_def row_exists_iff)
qed

lemma db_inv_insert_post:
  assumes "db_inv db"
  shows "db_inv (snd (insert_post now mj p db))"
proof (cases "insert_post now mj p db")
  case (Pair r db')
  show ?thesis
  proof (cases r)
    case (Inl e)
    thus ?thesis using assms Pair by (auto simp: insert_post_def split: if_splits option.splits)
  next
    case (Inr u)
    then obtain db1 where user: "row_exists us_pubkey (sp_author p) (sd_users db)"
      and c: "(if post_ready (sp_id p) db then cascade_post (sp_id p) db else Some db) = Some db1"
      and db': "db' = promote_orphan_comments now (sp_id p) (db1\<lparr>sd_posts := sd_posts db1 @ [post_row_of now mj p]\<rparr>)"
      using Pair by (auto simp: insert_post_def split: if_splits option.splits)
    have inv: "db_inv db1 \<and> \<not> post_ready (sp_id p) db1 \<and> sd_users db1 = sd_users db"
      using c assms db_inv_cascade [OF assms, of "sp_id p" db1] by (auto split: if_splits)
    let ?db2 = "db1\<lparr>sd_posts := sd_posts db1 @ [post_row_of now mj p]\<rparr>"
    have "comments_ok (us_pubkey ` set (sd_users ?db2)) (pr_id ` set (sd_posts ?db2)) (sd_comments ?db2)"
      using inv by (auto simp: db_inv_def elim: comments_ok_mono)
    hence "db_inv ?db2" using inv user
      by (auto simp: db_inv_def post_ready_def row_exists_iff post_row_of_def)
    moreover have "post_ready (sp_id p) ?db2" by (simp add: post_ready_def row_exists_iff post_row_of_def)
    ultimately show ?thesis using Pair db' db_inv_promote by simp
  qed
qed

lemma cap_orphans_length: "distinct (map cr_id os) \<Longrightarrow> length (cap_orphans os) \<le> MAX_ORPHAN_COMMENTS"
proof -
  assume d: "distinct (map cr_id os)"
  let ?s = "rev (sort_key (\<lambda>r. (cr_created r, cr_id r)) os)"
  let ?doomed = "drop MAX_ORPHAN_COMMENTS ?s"
  have ds: "distinct (map cr_id ?s)"
    using d by (simp add: rev_map [symmetric] distinct_map)
  have "set (cap_orphans os) \<subseteq> set (take MAX_ORPHAN_COMMENTS ?s)"
  proof
    fix r assume "r \<in> set (cap_orphans os)"
    hence "r \<in> set os" "r \<notin> set ?doomed" by (auto simp: cap_orphans_def row_exists_iff Let_def)
    moreover have "set os = set (take MAX_ORPHAN_COMMENTS ?s) \<union> set ?doomed"
      by (metis append_take_drop_id set_append set_rev set_sort)
    ultimately show "r \<in> set (take MAX_ORPHAN_COMMENTS ?s)" by blast
  qed
  moreover have "distinct (cap_orphans os)"
    using d by (auto simp: cap_orphans_def Let_def distinct_map)
  ultimately have "length (cap_orphans os) \<le> card (set (take MAX_ORPHAN_COMMENTS ?s))"
    by (metis List.finite_set card_mono distinct_card)
  also have "\<dots> \<le> MAX_ORPHAN_COMMENTS" by (rule order_trans [OF card_length]) simp
  finally show ?thesis .
qed

lemma cap_orphans_distinct: "distinct (map cr_id os) \<Longrightarrow> distinct (map cr_id (cap_orphans os))"
  by (simp add: cap_orphans_def Let_def distinct_map_filter)

lemma db_inv_insert_comment:
  assumes "db_inv db"
  shows "db_inv (snd (insert_comment now c db))"
proof (cases "post_ready (sc_post c) db \<and> parent_ready (cr_parent (comment_row_of now c)) db")
  case False
  thus ?thesis using assms
    by (auto simp: insert_comment_def Let_def comment_row_of_def db_inv_def
        intro: cap_orphans_length cap_orphans_distinct replaced.put_distinct)
next
  case True
  let ?row = "comment_row_of now c"
  let ?db1 = "ensure_user now (cr_author ?row) db"
  let ?db2 = "?db1\<lparr>sd_comments := insert_or_replace cr_id ?row (sd_comments ?db1),
                  sd_orphans := filter (\<lambda>r. cr_id r \<noteq> cr_id ?row) (sd_orphans ?db1)\<rparr>"
  have inv: "db_inv ?db1" by (rule db_inv_ensure_user [OF assms])
  have "comments_ok (us_pubkey ` set (sd_users ?db1)) (pr_id ` set (sd_posts ?db1))
      (insert_or_replace cr_id ?row (sd_comments ?db1))"
  proof (rule comments_ok_put [where put = insert_or_replace])
    show "comments_ok (us_pubkey ` set (sd_users ?db1)) (pr_id ` set (sd_posts ?db1)) (sd_comments ?db1)"
      using inv by (simp add: db_inv_def)
    show "cr_author ?row \<in> us_pubkey ` set (sd_users ?db1)" by (simp add: ensure_user_def ignored.put_keys)
    show "cr_post ?row \<in> pr_id ` set (sd_posts ?db1)"
      using True by (simp add: ensure_user_def post_ready_def row_exists_iff comment_row_of_def)
    fix p assume "cr_parent ?row = Some p"
    thus "p \<in> cr_id ` set (sd_comments ?db1)"
      using True by (simp add: ensure_user_def parent_ready_def row_exists_iff)
  qed simp
  moreover have "length (filter (\<lambda>r. cr_id r \<noteq> cr_id ?row) (sd_orphans ?db1)) \<le> MAX_ORPHAN_COMMENTS"
    using inv by (meson db_inv_def le_trans length_filter_le)
  ultimately have "db_inv ?db2" using inv by (simp add: db_inv_def distinct_map_filter)
  moreover have "post_ready (cr_post ?row) ?db2"
    using True by (simp add: post_ready_def ensure_user_def comment_row_of_def)
  ultimately have "db_inv (promote_orphan_comments now (cr_post ?row) ?db2)" by (rule db_inv_promote)
  thus ?thesis using True by (simp add: insert_comment_def Let_def comment_row_of_def)
qed

lemma score_rows [simp]:
  "map pr_id (add_post_score t d ps) = map pr_id ps" "map pr_author (add_post_score t d ps) = map pr_author ps"
  "map cr_id (add_comment_score t d cs) = map cr_id cs"
  by (simp_all add: add_post_score_def add_comment_score_def)

lemma comments_ok_score [simp]: "comments_ok us ps (add_comment_score t d cs) \<longleftrightarrow> comments_ok us ps cs"
proof -
  have "cr_id ` set (add_comment_score t d cs) = cr_id ` set cs"
    by (metis list.set_map score_rows(3))
  moreover have "(\<forall>x\<in>set (add_comment_score t d cs). P (cr_author x) (cr_post x) (cr_parent x))
      \<longleftrightarrow> (\<forall>x\<in>set cs. P (cr_author x) (cr_post x) (cr_parent x))" for P :: "string \<Rightarrow> string \<Rightarrow> string option \<Rightarrow> bool"
    unfolding add_comment_score_def set_map Set.ball_simps(9) by (intro ball_cong refl) simp
  note this [of "\<lambda>a q p. a \<in> us \<and> q \<in> ps \<and> (\<forall>x. p = Some x \<longrightarrow> x \<in> cr_id ` set cs)"]
  ultimately show ?thesis unfolding comments_ok_def by simp
qed

lemma post_score_images [simp]:
  "pr_id ` set (add_post_score t d ps) = pr_id ` set ps" "pr_author ` set (add_post_score t d ps) = pr_author ` set ps"
  by (metis list.set_map score_rows(1), metis list.set_map score_rows(2))

lemma db_inv_scores:
  assumes "db_inv db"
  shows "db_inv (db\<lparr>sd_posts := add_post_score t d (sd_posts db)\<rparr>)" "db_inv (db\<lparr>sd_comments := add_comment_score t d (sd_comments db)\<rparr>)"
  using assms by (simp_all add: db_inv_def)

lemma db_inv_vote:
  assumes "db_inv db"
  shows "db_inv (snd (vote now voter target dir table db))"
proof (cases "dir = -1 \<or> dir = 1")
  case True
  let ?v = "\<lparr>vt_voter = voter, vt_target = target, vt_direction = dir, vt_created = now\<rparr>"
  let ?votes = "insert_or_replace (\<lambda>v. (vt_voter v, vt_target v)) ?v (sd_votes db)"
  have d: "distinct (map (\<lambda>v. (vt_voter v, vt_target v)) ?votes)"
    by (rule replaced.put_distinct) (use assms in \<open>simp add: db_inv_def\<close>)
  have dirs: "vt_direction ` set ?votes \<subseteq> {-1, 1}"
    using assms True unfolding db_inv_def insert_or_replace_def by fastforce
  let ?db1 = "db\<lparr>sd_votes := ?votes\<rparr>"
  have "db_inv ?db1" using assms d dirs by (simp add: db_inv_def)
  moreover have "\<exists>delta. snd (vote now voter target dir table db) = ?db1
      \<or> snd (vote now voter target dir table db) = ?db1\<lparr>sd_posts := add_post_score target delta (sd_posts ?db1)\<rparr>
      \<or> snd (vote now voter target dir table db) = ?db1\<lparr>sd_comments := add_comment_score target delta (sd_comments ?db1)\<rparr>"
    using True unfolding vote_def Let_def by auto
  ultimately show ?thesis using db_inv_scores [of ?db1] by (elim exE disjE) (erule ssubst, blast)+
qed (use assms in \<open>auto simp: vote_def Let_def\<close>)

lemma db_inv_upsert:
  assumes "db_inv db"
  shows "db_inv (upsert_user now u n b a db)"
proof -
  let ?u = "\<lparr>us_pubkey = u, us_name = n, us_bio = b, us_avatar = a, us_created = now\<rparr>"
  have "us_pubkey ` set (insert_or_replace us_pubkey ?u (sd_users db)) = insert u (us_pubkey ` set (sd_users db))"
    by (simp add: replaced.put_keys)
  thus ?thesis using assms replaced.put_distinct [of us_pubkey "sd_users db" ?u]
    by (auto simp: db_inv_def upsert_user_def elim: comments_ok_mono)
qed

subsection \<open>Runs of the store\<close>

datatype social_op =
    SEnsure int string
  | SUpsert int string string string string
  | SPost int social_post
  | SDelete string string
  | SComment int social_comment
  | SVote int string string int string
  | SFollow int string string | SUnfollow string string
  | SJoin int string string | SLeave string string
  | SMessage int string string string string
  | SReport int string string string string | SResolve int string string
  | SBookmark int string string | SUnbookmark string string

fun social_step :: "(string list \<Rightarrow> string) \<Rightarrow> social_op \<Rightarrow> social_db \<Rightarrow> social_db" where
  "social_step mj (SEnsure t u) db = ensure_user t u db"
| "social_step mj (SUpsert t u n b a) db = upsert_user t u n b a db"
| "social_step mj (SPost t p) db = snd (insert_post t mj p db)"
| "social_step mj (SDelete i a) db = snd (delete_post i a db)"
| "social_step mj (SComment t c) db = snd (insert_comment t c db)"
| "social_step mj (SVote t v i d tb) db = snd (vote t v i d tb db)"
| "social_step mj (SFollow t a b) db = follow t a b db"
| "social_step mj (SUnfollow a b) db = unfollow a b db"
| "social_step mj (SJoin t a s) db = join_community t a s db"
| "social_step mj (SLeave a s) db = leave_community a s db"
| "social_step mj (SMessage t i a b c) db = insert_message t i a b c db"
| "social_step mj (SReport t i a b c) db = submit_report t i a b c db"
| "social_step mj (SResolve t i s) db = snd (resolve_report t i s db)"
| "social_step mj (SBookmark t a b) db = add_bookmark t a b db"
| "social_step mj (SUnbookmark a b) db = remove_bookmark a b db"

interpretation socialm: guarded_machine "social_step mj" db_inv "\<lambda>_. True" for mj
proof
  fix db i assume inv: "db_inv db"
  have delete: "db_inv (snd (delete_post pid a db))" for pid a
    using inv db_inv_cascade by (auto simp: delete_post_def split: option.splits)
  show "db_inv (social_step mj i db)"
    by (cases i) (use inv delete in \<open>auto simp: db_inv_ensure_user db_inv_upsert db_inv_insert_post db_inv_insert_comment db_inv_vote
      follow_def unfollow_def join_community_def leave_community_def insert_message_def submit_report_def resolve_report_def
      add_bookmark_def remove_bookmark_def db_inv_def [of "_\<lparr>sd_follows := _\<rparr>"] db_inv_def [of "_\<lparr>sd_members := _\<rparr>"]
      db_inv_def [of "_\<lparr>sd_messages := _\<rparr>"] db_inv_def [of "_\<lparr>sd_reports := _\<rparr>"] db_inv_def [of "_\<lparr>sd_bookmarks := _\<rparr>"] db_inv_def [of db]\<close>)
qed

text \<open>C31: In every state reachable by the operations of the store, whatever their arguments and failures,
  posts, comments and votes have unique keys, every post and comment has its author, every comment
  its post and its parent, the buffer of early comments holds at most 1024 rows and every vote is +1 or -1.\<close>

theorem social_integrity:
  assumes "db = fold (social_step mj) ops social_open"
  shows "distinct (map pr_id (sd_posts db)) \<and> distinct (map cr_id (sd_comments db))
    \<and> distinct (map (\<lambda>v. (vt_voter v, vt_target v)) (sd_votes db))
    \<and> (\<forall>p\<in>set (sd_posts db). get_user (pr_author p) db \<noteq> None)
    \<and> (\<forall>c\<in>set (sd_comments db). get_user (cr_author c) db \<noteq> None \<and> get_post (cr_post c) db \<noteq> None
         \<and> parent_ready (cr_parent c) db)
    \<and> orphan_comment_count db \<le> 1024 \<and> (\<forall>v\<in>set (sd_votes db). vt_direction v \<in> {-1, 1})"
proof -
  have "db_inv social_open" by (simp add: db_inv_def social_open_def comments_ok_def)
  hence inv: "db_inv db" unfolding assms by (rule socialm.run_inv) (simp add: list_all_iff)
  have user: "get_user u db \<noteq> None \<longleftrightarrow> u \<in> us_pubkey ` set (sd_users db)" for u
    by (auto simp: get_user_def find_None_iff)
  have post: "get_post i db \<noteq> None \<longleftrightarrow> i \<in> pr_id ` set (sd_posts db)" for i
    by (auto simp: get_post_def find_None_iff)
  have par: "parent_ready q db \<longleftrightarrow> (\<forall>p. q = Some p \<longrightarrow> p \<in> cr_id ` set (sd_comments db))" for q
    by (auto simp: parent_ready_def row_exists_iff split: option.splits)
  show ?thesis using inv unfolding user post par db_inv_def comments_ok_def
    by (auto simp: orphan_comment_count_def MAX_ORPHAN_COMMENTS_def)
qed

lemma social_integrity_witness:
  "orphan_comment_count (fold (social_step concat)
     [SComment 0 \<lparr>sc_id = ''x'', sc_platform = Redit, sc_author = ''ab'', sc_post = ''p'', sc_parent = None, sc_body = ''hi''\<rparr>,
      SVote 1 ''v'' ''p'' 1 ''posts''] social_open) \<le> 1024"
  using social_integrity [OF refl] by blast

end
