(* ===== verification/SocialThreads.thy ===== *)
theory SocialThreads
  imports SocialStore
begin

text \<open>
  What the social cache of \<open>core/src/social_store.rs\<close> shows whatever the order of arrival: comments
  that arrive before their post or their parent, votes that are repeated or reversed, and a post that
  arrives twice.
\<close>

section \<open>Arrival order\<close>

text \<open>A comment row without what depends on the time of its arrival.\<close>

definition core :: "comment_row \<Rightarrow> comment_row" where
  "core r = r\<lparr>cr_score := 0, cr_created := 0\<rparr>"

lemma core_fields [simp]:
  "cr_id (core r) = cr_id r" "cr_post (core r) = cr_post r" "cr_parent (core r) = cr_parent r"
  by (simp_all add: core_def)

lemma core_row [simp]: "core (comment_row_of t c) = comment_row_of 0 c"
  by (simp add: core_def comment_row_of_def)

text \<open>The comments whose post and whole chain of parents are there: \<open>R\<close> are the comments that
  arrived, \<open>P\<close> the identifiers of the posts.\<close>

inductive grounded :: "comment_row set \<Rightarrow> string set \<Rightarrow> comment_row \<Rightarrow> bool" for R P where
  root: "r \<in> R \<Longrightarrow> cr_post r \<in> P \<Longrightarrow> cr_parent r = None \<Longrightarrow> grounded R P r"
| reply: "r \<in> R \<Longrightarrow> cr_post r \<in> P \<Longrightarrow> cr_parent r = Some (cr_id q) \<Longrightarrow> grounded R P q \<Longrightarrow> grounded R P r"

lemma grounded_mono: "grounded R P r \<Longrightarrow> R \<subseteq> R' \<Longrightarrow> P \<subseteq> P' \<Longrightarrow> grounded R' P' r"
  by (induction rule: grounded.induct) (auto intro: grounded.intros)

definition arrived :: "comment_row set \<Rightarrow> string set \<Rightarrow> social_db \<Rightarrow> bool" where
  "arrived R P db \<longleftrightarrow> core ` (set (sd_comments db) \<union> set (sd_orphans db)) = R
     \<and> distinct (map cr_id (sd_comments db @ sd_orphans db))
     \<and> pr_id ` set (sd_posts db) = P \<and> (\<forall>r\<in>set (sd_comments db). grounded R P (core r))"

definition settled :: "social_db \<Rightarrow> bool" where
  "settled db \<longleftrightarrow> (\<forall>r\<in>set (sd_orphans db). post_ready (cr_post r) db \<longrightarrow> \<not> parent_ready (cr_parent r) db)"

lemma ensure_user_tables [simp]:
  "sd_posts (ensure_user t u db) = sd_posts db" "sd_comments (ensure_user t u db) = sd_comments db"
  "sd_orphans (ensure_user t u db) = sd_orphans db"
  by (simp_all add: ensure_user_def)

lemma arrived_ensure_user [simp]: "arrived R P (ensure_user t u db) = arrived R P db"
  by (simp add: arrived_def ensure_user_def)

lemma ready_ensure_user [simp]:
  "post_ready p (ensure_user t u db) = post_ready p db" "parent_ready q (ensure_user t u db) = parent_ready q db"
  by (simp add: post_ready_def ensure_user_def) (cases q; simp add: parent_ready_def ensure_user_def)

lemma settled_ensure_user [simp]: "settled (ensure_user t u db) = settled db"
proof -
  have "sd_orphans (ensure_user t u db) = sd_orphans db" by (simp add: ensure_user_def)
  thus ?thesis unfolding settled_def ready_ensure_user by simp
qed

text \<open>A comment that is ready and becomes stored is grounded.\<close>

lemma arrived_grounded:
  assumes "\<forall>q\<in>set (sd_comments db). grounded R P (core q)" "core r \<in> R" "post_ready (cr_post r) db"
    "parent_ready (cr_parent r) db" "pr_id ` set (sd_posts db) = P"
  shows "grounded R P (core r)"
proof -
  have post: "cr_post (core r) \<in> P" using assms(3,5) by (simp add: post_ready_def row_exists_iff)
  show ?thesis
  proof (cases "cr_parent r")
    case None
    thus ?thesis using grounded.root [OF assms(2) post] by simp
  next
    case (Some p)
    then obtain q where q: "q \<in> set (sd_comments db)" "cr_id q = p"
      using assms(4) by (auto simp: parent_ready_def row_exists_iff)
    have "grounded R P (core q)" using assms(1) q(1) by blast
    thus ?thesis using grounded.reply [OF assms(2) post, of "core q"] Some q(2) by simp
  qed
qed

lemma arrived_promote_one:
  assumes "arrived R P db" "ob \<in> set (sd_orphans db)" "post_ready (cr_post ob) db" "parent_ready (cr_parent ob) db"
  shows "arrived R P (promote_one t ob db)"
proof -
  let ?row = "ob\<lparr>cr_score := 0, cr_created := t\<rparr>"
  have d: "distinct (map cr_id (sd_comments db @ sd_orphans db))"
    and R: "core ` (set (sd_comments db) \<union> set (sd_orphans db)) = R" using assms(1) by (simp_all add: arrived_def)
  have new: "cr_id ob \<notin> cr_id ` set (sd_comments db)" using d assms(2) by auto
  have cs: "sd_comments (promote_one t ob db) = sd_comments db @ [?row]"
    using ignored.put_new [of cr_id ?row "sd_comments db"] new by (simp add: promote_one_def Let_def ensure_user_def)
  have os: "sd_orphans (promote_one t ob db) = filter (\<lambda>r. cr_id r \<noteq> cr_id ob) (sd_orphans db)"
    by (simp add: promote_one_def Let_def ensure_user_def)
  have uniq: "r = ob" if "r \<in> set (sd_orphans db)" "cr_id r = cr_id ob" for r
    using d that assms(2) by (auto simp: distinct_map dest: inj_onD)
  have row: "core ?row = core ob" by (simp add: core_def)
  have "set (sd_orphans db) = insert ob (set (sd_orphans (promote_one t ob db)))"
    using uniq assms(2) by (auto simp: os)
  hence "core ` (set (sd_comments (promote_one t ob db)) \<union> set (sd_orphans (promote_one t ob db))) = R"
    using R row by (auto simp: cs)
  moreover have "distinct (map cr_id (sd_comments (promote_one t ob db) @ sd_orphans (promote_one t ob db)))"
    using d new by (auto simp: cs os distinct_map_filter)
  moreover have "grounded R P (core ob)"
    using assms R by (intro arrived_grounded [where db = db]) (auto simp: arrived_def)
  ultimately show ?thesis using assms(1) row by (auto simp: arrived_def cs)
qed

lemma arrived_pass:
  assumes "arrived R P db" "post_ready pid db" "set os \<subseteq> {r \<in> set (sd_orphans db). cr_post r = pid}" "distinct (map cr_id os)"
  shows "arrived R P (snd (promote_pass t os (b, db)))"
  using assms
proof (induction os arbitrary: b db)
  case (Cons ob os)
  show ?case
  proof (cases "parent_ready (cr_parent ob) db")
    case True
    have "arrived R P (promote_one t ob db)" using Cons.prems True by (intro arrived_promote_one) auto
    moreover have "set os \<subseteq> {r \<in> set (sd_orphans (promote_one t ob db)). cr_post r = pid}"
    proof
      fix x assume x: "x \<in> set os"
      hence "cr_id x \<noteq> cr_id ob" using Cons.prems(4) by (metis distinct.simps(2) image_eqI list.set_map list.simps(9))
      thus "x \<in> {r \<in> set (sd_orphans (promote_one t ob db)). cr_post r = pid}"
        using Cons.prems(3) x by (auto simp: promote_one_def Let_def ensure_user_def)
    qed
    ultimately show ?thesis using Cons.IH [of "promote_one t ob db" True] Cons.prems True by simp
  qed (use Cons in auto)
qed simp

lemma pending_orphans_distinct: "distinct (map cr_id (sd_orphans db)) \<Longrightarrow> distinct (map cr_id (pending_orphans pid db))"
  unfolding pending_orphans_def take_map [symmetric]
  by (rule distinct_take) (simp add: distinct_map inj_on_def)

lemma arrived_promote:
  "arrived R P db \<Longrightarrow> post_ready pid db \<Longrightarrow> arrived R P (promote_orphan_comments t pid db)"
proof (induction t pid db rule: promote_orphan_comments.induct)
  case (1 t pid db)
  let ?os = "pending_orphans pid db"
  obtain b db' where pass: "promote_pass t ?os (False, db) = (b, db')" by fastforce
  have "distinct (map cr_id ?os)" using 1(2) by (intro pending_orphans_distinct) (simp add: arrived_def)
  hence "arrived R P (snd (promote_pass t ?os (False, db)))"
    using 1(2,3) pending_orphans_subset [of pid db] by (intro arrived_pass)
  hence A: "arrived R P db'" unfolding pass snd_conv .
  have ready: "post_ready pid db'"
    using promote_pass_posts [of t ?os "(False, db)"] 1(3) pass by (simp add: post_ready_def)
  have "arrived R P (promote_orphan_comments t pid db')" if "?os \<noteq> []" b
    using that by (intro 1(1) [OF _ pass [symmetric] _ A ready]) simp_all
  thus ?case using A 1(2) pass by (subst promote_orphan_comments.simps) simp
qed

lemma promote_pass_True: "fst (promote_pass t os (True, db))"
  by (induction os arbitrary: db) simp_all

text \<open>When the loop returns, none of the rows it looks at is ready.\<close>

lemma promote_pass_idle:
  "\<not> fst (promote_pass t os (False, db)) \<Longrightarrow>
    snd (promote_pass t os (False, db)) = db \<and> (\<forall>ob\<in>set os. \<not> parent_ready (cr_parent ob) db)"
  by (induction os arbitrary: db) (auto simp: promote_pass_True)

lemma promote_done:
  "ob \<in> set (pending_orphans pid (promote_orphan_comments t pid db)) \<Longrightarrow>
    \<not> parent_ready (cr_parent ob) (promote_orphan_comments t pid db)"
proof (induction t pid db rule: promote_orphan_comments.induct)
  case (1 t pid db)
  let ?os = "pending_orphans pid db"
  obtain b db' where pass: "promote_pass t ?os (False, db) = (b, db')" by fastforce
  consider "?os = []" | "?os \<noteq> []" "\<not> b" | "?os \<noteq> []" b by blast
  thus ?case
  proof cases
    case 1
    hence "promote_orphan_comments t pid db = db" by (subst promote_orphan_comments.simps) simp
    thus ?thesis using 1 \<open>ob \<in> _\<close> by simp
  next
    case 2
    have "db' = db" "\<forall>ob\<in>set ?os. \<not> parent_ready (cr_parent ob) db"
      using promote_pass_idle [of t ?os db] pass 2(2) by auto
    moreover have "promote_orphan_comments t pid db = db'"
      using 2 pass by (subst promote_orphan_comments.simps) simp
    ultimately show ?thesis using \<open>ob \<in> _\<close> by simp
  next
    case 3
    have e: "promote_orphan_comments t pid db = promote_orphan_comments t pid db'"
      using 3 pass by (subst promote_orphan_comments.simps) simp
    show ?thesis using 1(1) [OF 3(1) pass [symmetric]] 3(2) 1(2) unfolding e by simp
  qed
qed

lemma promote_frame:
  assumes "post_ready pid db"
  shows "set (sd_orphans (promote_orphan_comments t pid db)) \<subseteq> set (sd_orphans db)
    \<and> sd_posts (promote_orphan_comments t pid db) = sd_posts db
    \<and> (\<forall>q\<in>set (sd_comments (promote_orphan_comments t pid db)). q \<in> set (sd_comments db) \<or> cr_post q = pid)"
proof (rule promote_orphans_keeps [where P = "\<lambda>d. set (sd_orphans d) \<subseteq> set (sd_orphans db) \<and> sd_posts d = sd_posts db
    \<and> (\<forall>q\<in>set (sd_comments d). q \<in> set (sd_comments db) \<or> cr_post q = pid)"])
  fix ob :: comment_row and d :: social_db assume d: "set (sd_orphans d) \<subseteq> set (sd_orphans db) \<and> sd_posts d = sd_posts db
    \<and> (\<forall>q\<in>set (sd_comments d). q \<in> set (sd_comments db) \<or> cr_post q = pid)" and ob: "cr_post ob = pid"
  have "set (sd_orphans (promote_one t ob d)) \<subseteq> set (sd_orphans d)"
    by (auto simp: promote_one_def Let_def ensure_user_def)
  moreover have "q \<in> set (sd_comments d) \<or> cr_post q = pid" if "q \<in> set (sd_comments (promote_one t ob d))" for q
    using that ob by (auto simp: promote_one_def Let_def ensure_user_def dest: ignored.put_rows)
  ultimately show "set (sd_orphans (promote_one t ob d)) \<subseteq> set (sd_orphans db) \<and> sd_posts (promote_one t ob d) = sd_posts db
    \<and> (\<forall>q\<in>set (sd_comments (promote_one t ob d)). q \<in> set (sd_comments db) \<or> cr_post q = pid)"
    using d by auto
qed (use assms in auto)

text \<open>The threads of the arrivals: a reply has the post of its parent.\<close>

definition same_thread :: "comment_row set \<Rightarrow> bool" where
  "same_thread R \<longleftrightarrow> (\<forall>x\<in>R. \<forall>y\<in>R. cr_parent x = Some (cr_id y) \<longrightarrow> cr_post x = cr_post y)"

lemma orphans_le:
  assumes "arrived R P db" "finite R"
  shows "length (sd_orphans db) \<le> card R"
proof -
  have "distinct (sd_orphans db)" and inj: "inj_on cr_id (set (sd_orphans db))"
    using assms(1) by (auto simp: arrived_def distinct_map)
  hence "length (sd_orphans db) = card (core ` set (sd_orphans db))"
    by (metis card_image comp_inj_on_iff core_fields(1) distinct_card inj_onI inj_on_def)
  also have "\<dots> \<le> card R" using assms by (intro card_mono) (auto simp: arrived_def)
  finally show ?thesis .
qed

text \<open>After the promotion of a post every arrived comment that is ready is stored.\<close>

lemma settled_promote:
  assumes A: "arrived R P db" and "same_thread R" "post_ready pid db" "length (sd_orphans db) \<le> 256"
    and others: "\<forall>r\<in>set (sd_orphans db). post_ready (cr_post r) db \<longrightarrow> cr_post r \<noteq> pid \<longrightarrow> \<not> parent_ready (cr_parent r) db"
  shows "settled (promote_orphan_comments t pid db)"
proof -
  let ?db' = "promote_orphan_comments t pid db"
  note f = promote_frame [OF assms(3), of t]
  have A': "arrived R P ?db'" by (rule arrived_promote [OF A assms(3)])
  have "length (sd_orphans ?db') \<le> length (sd_orphans db)"
  proof -
    have "distinct (sd_orphans ?db')" using A' by (auto simp: arrived_def distinct_map)
    hence "length (sd_orphans ?db') \<le> card (set (sd_orphans db))"
      using f card_mono [of "set (sd_orphans db)"] by (metis List.finite_set distinct_card)
    thus ?thesis using card_length le_trans by blast
  qed
  hence "length (filter (\<lambda>r. cr_post r = pid) (sd_orphans ?db')) \<le> 256"
    using assms(4) by (meson le_trans length_filter_le)
  hence pend: "set (pending_orphans pid ?db') = {r \<in> set (sd_orphans ?db'). cr_post r = pid}"
    by (simp add: pending_orphans_def)
  show ?thesis unfolding settled_def
  proof (intro ballI impI notI)
    fix r assume r: "r \<in> set (sd_orphans ?db')" and pr: "post_ready (cr_post r) ?db'" and pa: "parent_ready (cr_parent r) ?db'"
    have ne: "cr_post r \<noteq> pid" using promote_done [of r pid t db] r pa pend by auto
    have ro: "r \<in> set (sd_orphans db)" using f r by blast
    have "\<not> parent_ready (cr_parent r) db" using others ro pr ne f by (simp add: post_ready_def)
    then obtain p where p: "cr_parent r = Some p" "\<not> row_exists cr_id p (sd_comments db)"
      by (cases "cr_parent r") (auto simp: parent_ready_def)
    then obtain q where q: "q \<in> set (sd_comments ?db')" "cr_id q = p"
      using pa by (auto simp: parent_ready_def row_exists_iff)
    hence "cr_post q = pid" using f p(2) by (auto simp: row_exists_iff)
    moreover have "core r \<in> R" "core q \<in> R" using A' r q(1) by (auto simp: arrived_def)
    ultimately show False using assms(2) p(1) q(2) ne unfolding same_thread_def
      by (metis core_fields)
  qed
qed

text \<open>What the handlers of the node do with an arriving post or comment.\<close>

datatype arrival = APost social_post | AComment social_comment

fun arrive :: "(string list \<Rightarrow> string) \<Rightarrow> int \<times> arrival \<Rightarrow> social_db \<Rightarrow> social_db" where
  "arrive mj (t, APost p) db = snd (insert_post t mj p (ensure_user t (sp_author p) db))"
| "arrive mj (t, AComment c) db = snd (insert_comment t c (ensure_user t (sc_author c) db))"

definition comments_in :: "(int \<times> arrival) list \<Rightarrow> comment_row list" where
  "comments_in as = concat (map (\<lambda>(t, a). case a of APost p \<Rightarrow> [] | AComment c \<Rightarrow> [comment_row_of 0 c]) as)"

definition posts_in :: "(int \<times> arrival) list \<Rightarrow> string list" where
  "posts_in as = concat (map (\<lambda>(t, a). case a of APost p \<Rightarrow> [sp_id p] | AComment c \<Rightarrow> []) as)"

lemma comments_in_length: "length (comments_in as) \<le> length as"
  by (induction as) (auto simp: comments_in_def split: arrival.splits)

lemma arrive_post:
  assumes A: "arrived R P db" "settled db" and "same_thread R" "length (sd_orphans db) \<le> 256" "sp_id p \<notin> P"
  shows "arrived R (insert (sp_id p) P) (arrive mj (t, APost p) db) \<and> settled (arrive mj (t, APost p) db)"
proof -
  let ?db1 = "ensure_user t (sp_author p) db"
  let ?db2 = "?db1\<lparr>sd_posts := sd_posts ?db1 @ [post_row_of t mj p]\<rparr>"
  have user: "row_exists us_pubkey (sp_author p) (sd_users ?db1)"
    by (simp add: ensure_user_def ignored.put_exists)
  have absent: "\<not> post_ready (sp_id p) ?db1"
    using A(1) assms(5) by (simp add: arrived_def post_ready_def row_exists_iff)
  have e: "arrive mj (t, APost p) db = promote_orphan_comments t (sp_id p) ?db2"
    using user absent by (simp add: insert_post_def)
  have fields: "sd_posts ?db2 = sd_posts db @ [post_row_of t mj p]" "sd_comments ?db2 = sd_comments db" "sd_orphans ?db2 = sd_orphans db"
    by simp_all
  have A2: "arrived R (insert (sp_id p) P) ?db2"
    using A(1) grounded_mono [of R P _ R "insert (sp_id p) P"]
    unfolding arrived_def fields by (auto simp: post_row_of_def)
  have ready: "post_ready (sp_id p) ?db2" by (simp add: post_ready_def row_exists_iff post_row_of_def)
  have "\<forall>r\<in>set (sd_orphans ?db2). post_ready (cr_post r) ?db2 \<longrightarrow> cr_post r \<noteq> sp_id p \<longrightarrow> \<not> parent_ready (cr_parent r) ?db2"
    using A(2) unfolding settled_def post_ready_def parent_ready_def fields
    by (auto simp: row_exists_iff post_row_of_def)
  thus ?thesis unfolding e
    using arrived_promote [OF A2 ready] settled_promote [OF A2 assms(3) ready] assms(4) fields(3) by simp
qed

lemma cap_orphans_small: "length os \<le> MAX_ORPHAN_COMMENTS \<Longrightarrow> cap_orphans os = os"
  by (simp add: cap_orphans_def Let_def row_exists_def)

lemma arrive_comment:
  assumes A: "arrived R P db" "settled db" and "same_thread (insert (comment_row_of 0 c) R)"
    "length (sd_orphans db) < 256" "sc_id c \<notin> cr_id ` R"
  shows "arrived (insert (comment_row_of 0 c) R) P (arrive mj (t, AComment c) db) \<and> settled (arrive mj (t, AComment c) db)"
proof -
  let ?row = "comment_row_of t c" and ?R = "insert (comment_row_of 0 c) R"
  let ?db1 = "ensure_user t (sc_author c) db"
  have row: "cr_id ?row = sc_id c" "cr_post ?row = sc_post c" "cr_author ?row = sc_author c" by (simp_all add: comment_row_of_def)
  have ids: "cr_id ` R = cr_id ` set (sd_comments db @ sd_orphans db)"
  proof -
    have "cr_id ` R = cr_id ` core ` (set (sd_comments db) \<union> set (sd_orphans db))" using A(1) by (simp add: arrived_def)
    thus ?thesis by (simp add: image_image)
  qed
  have new: "cr_id ?row \<notin> cr_id ` set (sd_comments db)" "cr_id ?row \<notin> cr_id ` set (sd_orphans db)"
    using assms(5) ids row(1) by auto
  have old: "\<forall>q\<in>set (sd_comments db). grounded ?R P (core q)"
  proof
    fix q assume "q \<in> set (sd_comments db)"
    hence "grounded R P (core q)" using A(1) by (simp add: arrived_def)
    thus "grounded ?R P (core q)" by (rule grounded_mono) auto
  qed
  show ?thesis
  proof (cases "post_ready (sc_post c) db \<and> parent_ready (cr_parent ?row) db")
    case False
    have "length (sd_orphans db @ [?row]) \<le> MAX_ORPHAN_COMMENTS" using assms(4) by (simp add: MAX_ORPHAN_COMMENTS_def)
    hence e: "arrive mj (t, AComment c) db = ?db1\<lparr>sd_orphans := sd_orphans db @ [?row]\<rparr>"
      using False new by (auto simp: insert_comment_def Let_def row replaced.put_new cap_orphans_small)
    have "arrived ?R P (arrive mj (t, AComment c) db)"
      using A(1) new old unfolding e arrived_def by auto
    moreover have "settled (arrive mj (t, AComment c) db)"
    proof -
      have pr: "post_ready x (?db1\<lparr>sd_orphans := os\<rparr>) = post_ready x db"
        "parent_ready y (?db1\<lparr>sd_orphans := os\<rparr>) = parent_ready y db" for x y os
        by (simp add: post_ready_def) (cases y; simp add: parent_ready_def)
      show ?thesis using A(2) False row unfolding e settled_def pr by auto
    qed
    ultimately show ?thesis by simp
  next
    case True
    let ?dbA = "ensure_user t (sc_author c) ?db1"
    let ?db2 = "?dbA\<lparr>sd_comments := insert_or_replace cr_id ?row (sd_comments ?dbA),
                     sd_orphans := filter (\<lambda>r. cr_id r \<noteq> cr_id ?row) (sd_orphans ?dbA)\<rparr>"
    have e: "arrive mj (t, AComment c) db = promote_orphan_comments t (sc_post c) ?db2"
      using True by (simp add: insert_comment_def Let_def row)
    have "filter (\<lambda>r. cr_id r \<noteq> cr_id ?row) (sd_orphans db) = sd_orphans db"
      using new(2) by (rule filter_keys)
    hence f: "sd_posts ?db2 = sd_posts db" "sd_comments ?db2 = sd_comments db @ [?row]" "sd_orphans ?db2 = sd_orphans db"
      using replaced.put_new [OF new(1)] by simp_all
    have "grounded ?R P (core ?row)"
      using True A(1) by (intro arrived_grounded [OF old]) (auto simp: row arrived_def)
    hence A2: "arrived ?R P ?db2" using A(1) new old unfolding arrived_def f by auto
    have ready: "post_ready (sc_post c) ?db2" using True unfolding post_ready_def f by simp
    have "\<forall>r\<in>set (sd_orphans ?db2). post_ready (cr_post r) ?db2 \<longrightarrow> cr_post r \<noteq> sc_post c \<longrightarrow> \<not> parent_ready (cr_parent r) ?db2"
    proof (intro ballI impI)
      fix r assume r: "r \<in> set (sd_orphans ?db2)" and pr: "post_ready (cr_post r) ?db2" and ne: "cr_post r \<noteq> sc_post c"
      have ro: "r \<in> set (sd_orphans db)" using r unfolding f .
      have "\<not> parent_ready (cr_parent r) db"
        using A(2) ro pr unfolding settled_def post_ready_def f by blast
      then obtain p where p: "cr_parent r = Some p" "\<not> row_exists cr_id p (sd_comments db)"
        by (cases "cr_parent r") (auto simp: parent_ready_def)
      have "core r \<in> ?R" "core ?row \<in> ?R" using ro A(1) by (auto simp: arrived_def)
      hence "p \<noteq> cr_id ?row"
        using assms(3) ne p(1) row(2) unfolding same_thread_def by (metis core_fields)
      thus "\<not> parent_ready (cr_parent r) ?db2" using p unfolding parent_ready_def f by (auto simp: row_exists_iff)
    qed
    thus ?thesis unfolding e
      using arrived_promote [OF A2 ready] settled_promote [OF A2 assms(3) ready] assms(4) f(3) by simp
  qed
qed

lemma comments_in_snoc: "comments_in (as @ [x]) = comments_in as @ comments_in [x]"
  by (simp add: comments_in_def)

lemma posts_in_snoc: "posts_in (as @ [x]) = posts_in as @ posts_in [x]"
  by (simp add: posts_in_def)

lemma arrivals:
  assumes "distinct (map cr_id (comments_in as))" "distinct (posts_in as)" "same_thread (set (comments_in as))"
    "length as \<le> 256"
  shows "arrived (set (comments_in as)) (set (posts_in as)) (fold (arrive mj) as social_open)
    \<and> settled (fold (arrive mj) as social_open)"
  using assms
proof (induction as rule: rev_induct)
  case Nil
  show ?case by (simp add: arrived_def settled_def social_open_def comments_in_def posts_in_def)
next
  case (snoc x as)
  let ?db = "fold (arrive mj) as social_open" and ?R = "set (comments_in as)" and ?P = "set (posts_in as)"
  have IH: "arrived ?R ?P ?db" "settled ?db"
    using snoc by (auto simp: comments_in_snoc posts_in_snoc same_thread_def)
  have "length (sd_orphans ?db) \<le> card ?R" by (rule orphans_le [OF IH(1)]) simp
  also have "\<dots> \<le> length as" using card_length [of "comments_in as"] comments_in_length [of as] by simp
  also have "\<dots> < 256" using snoc.prems(4) by simp
  finally have len: "length (sd_orphans ?db) < 256" .
  obtain t a where x: "x = (t, a)" by fastforce
  show ?case
  proof (cases a)
    case (APost p)
    have r: "set (comments_in (as @ [x])) = ?R" "set (posts_in (as @ [x])) = insert (sp_id p) ?P"
      by (simp_all add: x APost comments_in_def posts_in_def)
    have "sp_id p \<notin> ?P" using snoc.prems(2) by (simp add: x APost posts_in_def)
    thus ?thesis using arrive_post [OF IH _ _, of p mj t] snoc.prems(3) len unfolding r by (simp add: x APost)
  next
    case (AComment c)
    have r: "set (comments_in (as @ [x])) = insert (comment_row_of 0 c) ?R" "set (posts_in (as @ [x])) = ?P"
      by (simp_all add: x AComment comments_in_def posts_in_def)
    have "sc_id c \<notin> cr_id ` ?R"
      using snoc.prems(1) by (auto simp: x AComment comments_in_def comment_row_of_def)
    thus ?thesis using arrive_comment [OF IH _ len, of c mj t] snoc.prems(3) unfolding r by (simp add: x AComment)
  qed
qed

text \<open>C24: Comments may arrive before their post and before the comment they answer. For up to 256
  arrivals with distinct identifiers and no reply to a comment of another post, in any order and at any times, the comments stored at the end
  are exactly those whose post and whole chain of parents arrived, all others wait in the buffer:
  the result does not depend on the order.\<close>

theorem comments_any_order:
  assumes "distinct (map cr_id (comments_in as))" "distinct (posts_in as)" "same_thread (set (comments_in as))"
    "length as \<le> 256" and "db = fold (arrive mj) as social_open"
  shows "core ` set (sd_comments db) = {r. grounded (set (comments_in as)) (set (posts_in as)) r}
    \<and> core ` set (sd_orphans db) = {r \<in> set (comments_in as). \<not> grounded (set (comments_in as)) (set (posts_in as)) r}"
proof -
  let ?R = "set (comments_in as)" and ?P = "set (posts_in as)"
  have A: "arrived ?R ?P db" and S: "settled db" using arrivals [OF assms(1-4)] assms(5) by auto
  have all: "core ` set (sd_comments db) \<union> core ` set (sd_orphans db) = ?R" using A by (simp add: arrived_def image_Un)
  have stored: "r \<in> core ` set (sd_comments db)" if "grounded ?R ?P r" for r
    using that
  proof (induction rule: grounded.induct)
    case (root r)
    have "r \<notin> core ` set (sd_orphans db)"
      using S A root by (auto simp: settled_def arrived_def post_ready_def parent_ready_def row_exists_iff)
    thus ?case using all root by blast
  next
    case (reply r q)
    have "r \<notin> core ` set (sd_orphans db)"
    proof
      assume "r \<in> core ` set (sd_orphans db)"
      then obtain o' where o': "o' \<in> set (sd_orphans db)" "r = core o'" by blast
      have "post_ready (cr_post o') db" using A reply(2) o'(2) by (simp add: arrived_def post_ready_def row_exists_iff)
      moreover have "parent_ready (cr_parent o') db"
        using reply(3,5) o'(2) by (auto simp: parent_ready_def row_exists_iff)
      ultimately show False using S o'(1) by (simp add: settled_def)
    qed
    thus ?case using all reply by blast
  qed
  have "grounded ?R ?P r" if "r \<in> core ` set (sd_comments db)" for r using A that by (auto simp: arrived_def)
  moreover have "core ` set (sd_comments db) \<inter> core ` set (sd_orphans db) = {}"
  proof -
    have d: "cr_id ` set (sd_comments db) \<inter> cr_id ` set (sd_orphans db) = {}" using A by (simp add: arrived_def)
    show ?thesis
    proof (rule equals0I)
      fix x assume "x \<in> core ` set (sd_comments db) \<inter> core ` set (sd_orphans db)"
      then obtain a b where ab: "x = core a" "a \<in> set (sd_comments db)" "x = core b" "b \<in> set (sd_orphans db)" by blast
      have "cr_id x = cr_id a" using ab(1) by simp
      moreover have "cr_id x = cr_id b" using ab(3) by simp
      ultimately show False using ab(2,4) d by (metis IntI emptyE imageI)
    qed
  qed
  ultimately have "core ` set (sd_comments db) = {r. grounded ?R ?P r}" "core ` set (sd_comments db) \<inter> core ` set (sd_orphans db) = {}"
    using stored by auto
  thus ?thesis using all by blast
qed

definition demo_comment :: "string \<Rightarrow> string option \<Rightarrow> social_comment" where
  "demo_comment i parent = \<lparr>sc_id = i, sc_platform = Redit, sc_author = ''ab'', sc_post = ''p'', sc_parent = parent, sc_body = ''hi''\<rparr>"

definition demo_post :: social_post where
  "demo_post = \<lparr>sp_id = ''p'', sp_platform = Redit, sp_author = ''ab'', sp_title = Some ''t'', sp_body = ''b'',
     sp_community = Some ''c'', sp_media = []\<rparr>"

definition demo_arrivals :: "(int \<times> arrival) list" where
  "demo_arrivals = [(1, AComment (demo_comment ''y'' (Some ''x''))), (2, AComment (demo_comment ''x'' None)), (3, APost demo_post)]"

lemma comments_any_order_witness:
  "core ` set (sd_comments (fold (arrive concat) demo_arrivals social_open))
     = {r. grounded (set (comments_in demo_arrivals)) (set (posts_in demo_arrivals)) r}"
proof -
  have "distinct (map cr_id (comments_in demo_arrivals))" "distinct (posts_in demo_arrivals)"
    "same_thread (set (comments_in demo_arrivals))" "length demo_arrivals \<le> 256"
    by (simp_all add: demo_arrivals_def comments_in_def posts_in_def demo_comment_def comment_row_of_def same_thread_def)
  from comments_any_order [OF this refl] show ?thesis by blast
qed

section \<open>Votes\<close>

text \<open>The sum of the votes recorded for a target.\<close>

definition tally :: "string \<Rightarrow> social_db \<Rightarrow> int" where
  "tally target db = sum_list (map vt_direction (filter (\<lambda>v. vt_target v = target) (sd_votes db)))"

lemma tally_split:
  assumes "distinct (map (\<lambda>v. (vt_voter v, vt_target v)) vs)"
  shows "sum_list (map vt_direction (filter (\<lambda>v. vt_target v = target) (filter (\<lambda>v. (vt_voter v, vt_target v) \<noteq> (voter, tgt)) vs)))
    = sum_list (map vt_direction (filter (\<lambda>v. vt_target v = target) vs))
      - (if tgt = target then (case find (\<lambda>v. vt_voter v = voter \<and> vt_target v = tgt) vs of None \<Rightarrow> 0 | Some v \<Rightarrow> vt_direction v) else 0)"
  using assms
proof (induction vs)
  case (Cons v vs)
  show ?case
  proof (cases "(vt_voter v, vt_target v) = (voter, tgt)")
    case True
    hence "(voter, tgt) \<notin> (\<lambda>v. (vt_voter v, vt_target v)) ` set vs" using Cons.prems by auto
    hence "filter (\<lambda>v. (vt_voter v, vt_target v) \<noteq> (voter, tgt)) vs = vs" by (rule filter_keys)
    thus ?thesis using True by simp
  qed (use Cons in auto)
qed simp

definition vote_all :: "(int \<times> string \<times> string \<times> int) list \<Rightarrow> social_db \<Rightarrow> social_db" where
  "vote_all vs db = fold (\<lambda>(t, voter, target, d). \<lambda>db. snd (vote t voter target d ''posts'' db)) vs db"

lemma find_post_score:
  "find (\<lambda>r. pr_id r = i) (add_post_score t d ps) =
    map_option (\<lambda>r. if i = t then r\<lparr>pr_score := pr_score r + d\<rparr> else r) (find (\<lambda>r. pr_id r = i) ps)"
  by (induction ps) (auto simp: add_post_score_def)

lemma vote_keeps:
  assumes "db_inv db" "get_post target db = Some r"
  shows "\<exists>r'. get_post target (snd (vote t voter tgt d ''posts'' db)) = Some r'
    \<and> pr_score r' - tally target (snd (vote t voter tgt d ''posts'' db)) = pr_score r - tally target db"
proof (cases "d = -1 \<or> d = 1")
  case True
  let ?v = "\<lparr>vt_voter = voter, vt_target = tgt, vt_direction = d, vt_created = t\<rparr>"
  let ?votes = "insert_or_replace (\<lambda>v. (vt_voter v, vt_target v)) ?v (sd_votes db)"
  define old where "old = (case vote_of voter tgt db of None \<Rightarrow> 0 | Some d \<Rightarrow> d)"
  have dist: "distinct (map (\<lambda>v. (vt_voter v, vt_target v)) (sd_votes db))" using assms(1) by (simp add: db_inv_def)
  have old: "(case find (\<lambda>v. vt_voter v = voter \<and> vt_target v = tgt) (sd_votes db) of None \<Rightarrow> 0 | Some v \<Rightarrow> vt_direction v) = old"
    by (simp add: old_def vote_of_def split: option.splits)
  have tally: "sum_list (map vt_direction (filter (\<lambda>v. vt_target v = target) ?votes)) = tally target db + (if tgt = target then d - old else 0)"
    using tally_split [OF dist, of target voter tgt] unfolding old
    by (simp add: tally_def insert_or_replace_def)
  have "snd (vote t voter tgt d ''posts'' db) = (if d = old then db\<lparr>sd_votes := ?votes\<rparr>
      else db\<lparr>sd_votes := ?votes, sd_posts := add_post_score tgt (d - old) (sd_posts db)\<rparr>)"
  proof -
    have nd: "(d \<noteq> -1 \<and> d \<noteq> 1) = False" using True by blast
    show ?thesis unfolding vote_def Let_def old_def [symmetric] nd by simp
  qed
  thus ?thesis using assms(2) tally by (auto simp: get_post_def tally_def find_post_score)
qed (use assms in \<open>simp add: vote_def Let_def\<close>)

lemma tally_bound:
  assumes "db_inv db"
  shows "\<bar>tally target db\<bar> \<le> int (card {vt_voter v |v. v \<in> set (sd_votes db) \<and> vt_target v = target})"
proof -
  let ?vs = "filter (\<lambda>v. vt_target v = target) (sd_votes db)"
  have "inj_on vt_voter (set ?vs)" "distinct ?vs"
    using assms by (auto simp: db_inv_def distinct_map inj_on_def)
  hence "length ?vs = card (vt_voter ` set ?vs)" by (metis card_image distinct_card)
  moreover have "vt_voter ` set ?vs = {vt_voter v |v. v \<in> set (sd_votes db) \<and> vt_target v = target}" by auto
  moreover have "\<bar>sum_list (map vt_direction vs)\<bar> \<le> int (length vs)" if "vt_direction ` set vs \<subseteq> {-1, 1}" for vs
    using that by (induction vs) auto
  moreover have "vt_direction ` set ?vs \<subseteq> {-1, 1}" using assms by (auto simp: db_inv_def)
  ultimately show ?thesis unfolding tally_def by metis
qed

text \<open>C32: One voter, one vote: from any reachable state, any sequence of votes on posts, repeated,
  reversed or for other targets, changes the score of a stored post by exactly the change of the sum
  of the recorded votes, and a voter counts at most once in that sum, as +1 or -1.\<close>

theorem one_voter_one_vote:
  assumes "db = fold (social_step mj) ops social_open" "get_post target db = Some r" "db' = vote_all vs db"
  shows "\<exists>r'. get_post target db' = Some r' \<and> pr_score r' - pr_score r = tally target db' - tally target db
    \<and> \<bar>tally target db'\<bar> \<le> int (card {vt_voter v |v. v \<in> set (sd_votes db') \<and> vt_target v = target})"
proof -
  have "db_inv social_open" by (simp add: db_inv_def social_open_def comments_ok_def)
  hence inv: "db_inv db" unfolding assms(1) by (rule socialm.run_inv) (simp add: list_all_iff)
  have "db_inv (vote_all vs db) \<and> (\<exists>r'. get_post target (vote_all vs db) = Some r'
      \<and> pr_score r' - tally target (vote_all vs db) = pr_score r - tally target db)"
    using inv assms(2) unfolding vote_all_def
  proof (induction vs arbitrary: db r)
    case (Cons x vs)
    obtain t voter tgt d where x: "x = (t, voter, tgt, d)" by (cases x) auto
    let ?db = "snd (vote t voter tgt d ''posts'' db)"
    obtain r' where r': "get_post target ?db = Some r'" "pr_score r' - tally target ?db = pr_score r - tally target db"
      using vote_keeps [OF Cons.prems] by blast
    show ?case using Cons.IH [OF db_inv_vote [OF Cons.prems(1)] r'(1)] r'(2) by (simp add: x)
  qed auto
  then obtain r' where "db_inv db'" "get_post target db' = Some r'" "pr_score r' - tally target db' = pr_score r - tally target db"
    unfolding assms(3) by blast
  thus ?thesis using tally_bound [of db' target] by (intro exI [of _ r']) linarith
qed

lemma one_voter_one_vote_witness:
  "\<exists>r'. get_post ''p'' (vote_all [(1, ''v'', ''p'', 1), (2, ''v'', ''p'', 1), (3, ''w'', ''p'', -1)]
       (fold (social_step concat) [SEnsure 0 ''ab'', SPost 0 demo_post] social_open)) = Some r'"
proof -
  let ?db = "fold (social_step concat) [SEnsure 0 ''ab'', SPost 0 demo_post] social_open"
  have "get_post ''p'' ?db = Some (post_row_of 0 concat demo_post)"
    by (simp add: demo_post_def insert_post_def ensure_user_def social_open_def insert_or_ignore_def row_exists_def
        post_ready_def promote_orphan_comments.simps pending_orphans_def get_post_def post_row_of_def)
  from one_voter_one_vote [OF refl this refl] show ?thesis by blast
qed

section \<open>A post that arrives again\<close>

text \<open>C33: Receiving a stored post once more is not idempotent. When no buffered comment waits for the post and no stored
  comment replies to a comment of another post (such a reply would block the cascade), the row is replaced, the cascade deletes
  every comment of the post, its score goes back to 0 although the votes are kept, and repeating one
  of these votes does not bring it back.\<close>

theorem post_again_wipes:
  assumes "post_ready (sp_id p) db" "row_exists us_pubkey (sp_author p) (sd_users db)"
    and "\<forall>r\<in>set (sd_orphans db). cr_post r \<noteq> sp_id p"
    and "\<forall>c\<in>set (sd_comments db). \<forall>d\<in>set (sd_comments db). cr_parent c = Some (cr_id d) \<longrightarrow> cr_post c = cr_post d"
    and "vote_of voter (sp_id p) db = Some d" "d = -1 \<or> d = 1"
    and "insert_post t mj p db = (res, db')"
  shows "res = Inr () \<and> (\<forall>c\<in>set (sd_comments db'). cr_post c \<noteq> sp_id p)
    \<and> get_post (sp_id p) db' = Some (post_row_of t mj p) \<and> sd_votes db' = sd_votes db
    \<and> fst (vote t' voter (sp_id p) d ''posts'' db') = Inr 0
    \<and> get_post (sp_id p) (snd (vote t' voter (sp_id p) d ''posts'' db')) = Some (post_row_of t mj p)"
proof -
  let ?kept = "filter (\<lambda>c. cr_post c \<noteq> sp_id p) (sd_comments db)"
  let ?db1 = "db\<lparr>sd_comments := ?kept, sd_posts := filter (\<lambda>r. pr_id r \<noteq> sp_id p) (sd_posts db) @ [post_row_of t mj p]\<rparr>"
  have "cascade_post (sp_id p) db = Some (db\<lparr>sd_posts := filter (\<lambda>r. pr_id r \<noteq> sp_id p) (sd_posts db), sd_comments := ?kept\<rparr>)"
  proof -
    have "\<not> row_exists cr_id q (filter (\<lambda>c. cr_post c = sp_id p) (sd_comments db))"
      if "c \<in> set ?kept" "cr_parent c = Some q" for c q
    proof
      assume "row_exists cr_id q (filter (\<lambda>c. cr_post c = sp_id p) (sd_comments db))"
      then obtain d where "d \<in> set (sd_comments db)" "cr_post d = sp_id p" "cr_id d = q" by (auto simp: row_exists_iff)
      thus False using assms(4) that by auto
    qed
    hence "\<not> list_ex (\<lambda>c. case cr_parent c of None \<Rightarrow> False
        | Some q \<Rightarrow> row_exists cr_id q (filter (\<lambda>c. cr_post c = sp_id p) (sd_comments db)) \<and> \<not> row_exists cr_id q ?kept) ?kept"
      unfolding list_ex_iff by (auto split: option.splits)
    thus ?thesis unfolding cascade_post_def Let_def by (simp only: if_False)
  qed
  hence e: "insert_post t mj p db = (Inr (), promote_orphan_comments t (sp_id p) ?db1)"
    using assms(1,2) by (simp add: insert_post_def)
  have "filter (\<lambda>r. cr_post r = sp_id p) (sd_orphans db) = []" using assms(3) by (simp add: filter_empty_conv)
  hence "promote_orphan_comments t (sp_id p) ?db1 = ?db1"
    by (subst promote_orphan_comments.simps) (simp add: pending_orphans_def)
  hence d: "res = Inr ()" "db' = ?db1" using e assms(7) by simp_all
  have g: "get_post (sp_id p) (?db1\<lparr>sd_votes := vs\<rparr>) = Some (post_row_of t mj p)" for vs
  proof -
    have "find (\<lambda>r. pr_id r = i) (filter (\<lambda>r. pr_id r \<noteq> i) ps @ [x]) = find (\<lambda>r. pr_id r = i) [x]" for i and ps :: "post_row list" and x
      by (induction ps) auto
    thus ?thesis by (simp add: get_post_def post_row_of_def)
  qed
  have v: "vote_of voter (sp_id p) ?db1 = Some d" using assms(5) by (simp add: vote_of_def)
  have "vote t' voter (sp_id p) d ''posts'' ?db1 = (Inr 0, ?db1\<lparr>sd_votes := insert_or_replace (\<lambda>v. (vt_voter v, vt_target v))
      \<lparr>vt_voter = voter, vt_target = sp_id p, vt_direction = d, vt_created = t'\<rparr> (sd_votes db)\<rparr>)"
    using assms(6) v by (simp add: vote_def Let_def)
  thus ?thesis using d g [of "sd_votes db"] g by simp
qed

definition demo_db :: social_db where
  "demo_db = social_open\<lparr>
     sd_users := [\<lparr>us_pubkey = ''ab'', us_name = [], us_bio = [], us_avatar = [], us_created = 0\<rparr>],
     sd_posts := [(post_row_of 0 concat demo_post)\<lparr>pr_score := 1\<rparr>],
     sd_comments := [comment_row_of 0 (demo_comment ''x'' None), comment_row_of 0 (demo_comment ''y'' (Some ''x''))],
     sd_votes := [\<lparr>vt_voter = ''v'', vt_target = ''p'', vt_direction = 1, vt_created = 0\<rparr>]\<rparr>"

lemma post_again_wipes_witness:
  "length (sd_comments demo_db) = 2
    \<and> filter (\<lambda>c. cr_post c = ''p'') (sd_comments (snd (insert_post 9 concat demo_post demo_db))) = []"
proof -
  have pre: "post_ready (sp_id demo_post) demo_db" "row_exists us_pubkey (sp_author demo_post) (sd_users demo_db)"
    "\<forall>r\<in>set (sd_orphans demo_db). cr_post r \<noteq> sp_id demo_post"
    "\<forall>c\<in>set (sd_comments demo_db). \<forall>d\<in>set (sd_comments demo_db). cr_parent c = Some (cr_id d) \<longrightarrow> cr_post c = cr_post d"
    "vote_of ''v'' (sp_id demo_post) demo_db = Some 1" "(1 :: int) = -1 \<or> (1 :: int) = 1"
    by (simp_all add: demo_db_def demo_post_def demo_comment_def comment_row_of_def post_row_of_def social_open_def
        post_ready_def row_exists_def vote_of_def)
  from post_again_wipes [OF pre prod.collapse [symmetric], of 9 concat]
  show ?thesis by (simp add: demo_db_def demo_post_def filter_empty_conv)
qed

end
