(* ===== verification/Network.thy ===== *)
theory Network
  imports Crypto
begin

text \<open>
  The transport layer of \<open>core/src/network/mod.rs\<close>: the transport technologies, sending over the first
  transport that works, and the Yggdrasil addresses derived from a node's key. Printing and reading an
  address follow \<open>std::net::Ipv6Addr\<close>.
\<close>

unbundle bit_operations_syntax

section \<open>Transports\<close>

datatype net_error = NoTransport | InvalidIpv6 string

datatype transport_type = WifiAware | BluetoothLe | Lora | EthernetBridge

fun range_meters :: "transport_type \<Rightarrow> rat" where
  "range_meters WifiAware = 200"
| "range_meters BluetoothLe = 50"
| "range_meters Lora = 5000"
| "range_meters EthernetBridge = 1000"

fun bandwidth_bps :: "transport_type \<Rightarrow> rat" where
  "bandwidth_bps WifiAware = 50000000"
| "bandwidth_bps BluetoothLe = 2000000"
| "bandwidth_bps Lora = 50000"
| "bandwidth_bps EthernetBridge = 1000000000"

text \<open>A transport is its \<open>send\<close>: the outcome for a peer and the data.\<close>

type_synonym mesh_transport = "string \<Rightarrow> byte list \<Rightarrow> string + unit"

definition multi_transport_new :: "mesh_transport list" where
  "multi_transport_new = []"

definition add_transport :: "mesh_transport \<Rightarrow> mesh_transport list \<Rightarrow> mesh_transport list" where
  "add_transport t ts = ts @ [t]"

text \<open>The second component is the number of transports that were tried.\<close>

fun send_best :: "string \<Rightarrow> byte list \<Rightarrow> mesh_transport list \<Rightarrow> (net_error + unit) \<times> nat" where
  "send_best p d [] = (Inl NoTransport, 0)"
| "send_best p d (t # ts) =
     (case t p d of
        Inr _ \<Rightarrow> (Inr (), 1)
      | Inl _ \<Rightarrow> (case send_best p d ts of (r, n) \<Rightarrow> (r, n + 1)))"

text \<open>The data goes out once, over the first transport that accepts it, and every transport is tried
  before the send fails.\<close>

lemma send_best_first:
  "send_best p d ts =
     (let failing = takeWhile (\<lambda>t. isl (t p d)) ts
      in if length failing = length ts then (Inl NoTransport, length ts)
         else (Inr (), length failing + 1))"
  by (induction ts) (auto simp: Let_def split: sum.splits)

section \<open>Addresses\<close>

record yggdrasil =
  yg_node_id :: string

definition yggdrasil_new :: "string \<Rightarrow> yggdrasil" where
  "yggdrasil_new node_id = \<lparr>yg_node_id = node_id\<rparr>"

definition generate_octets :: "crypto_env \<Rightarrow> yggdrasil \<Rightarrow> byte list" where
  "generate_octets ce y =
     (let h = ce_sha256 ce (str_bytes (''ygg:'' @ yg_node_id y))
      in [0xFD, (h ! 7) AND 0x7F] @ take 7 h @ replicate 7 0)"

text \<open>The rendering of an address: eight groups in hexadecimal, the longest run of at least two zero
  groups as \<open>::\<close>, and the dotted form for an embedded IPv4 address.\<close>

fun segments :: "byte list \<Rightarrow> nat list" where
  "segments (a # b # rest) = (unat a * 256 + unat b) # segments rest"
| "segments _ = []"

fun hex_nat :: "nat \<Rightarrow> string" where
  "hex_nat n = (if n < 16 then [hex_digit n] else hex_nat (n div 16) @ [hex_digit (n mod 16)])"

fun longest_zeros :: "nat \<Rightarrow> nat \<times> nat \<Rightarrow> nat \<times> nat \<Rightarrow> nat list \<Rightarrow> nat \<times> nat" where
  "longest_zeros i current longest [] = longest"
| "longest_zeros i (cs, cl) longest (s # ss) =
     (if s = 0 then
        (let current = (if cl = 0 then i else cs, cl + 1)
         in longest_zeros (i + 1) current (if snd current > snd longest then current else longest) ss)
      else longest_zeros (i + 1) (0, 0) longest ss)"

fun colon_join :: "nat list \<Rightarrow> string" where
  "colon_join [] = []"
| "colon_join [s] = hex_nat s"
| "colon_join (s # ss) = hex_nat s @ '':'' @ colon_join ss"

definition show_ipv4 :: "byte list \<Rightarrow> string" where
  "show_ipv4 b = dec_digits (unat (b ! 0)) @ ''.'' @ dec_digits (unat (b ! 1)) @ ''.''
     @ dec_digits (unat (b ! 2)) @ ''.'' @ dec_digits (unat (b ! 3))"

definition show_ipv6 :: "byte list \<Rightarrow> string" where
  "show_ipv6 octets =
     (let seg = segments octets in
      if take 6 seg = [0, 0, 0, 0, 0, 0xFFFF] then ''::ffff:'' @ show_ipv4 (drop 12 octets)
      else case longest_zeros 0 (0, 0) (0, 0) seg of
        (start, len) \<Rightarrow>
          if len > 1 then colon_join (take start seg) @ ''::'' @ colon_join (drop (start + len) seg)
          else colon_join seg)"

definition generate_ipv6 :: "crypto_env \<Rightarrow> yggdrasil \<Rightarrow> string" where
  "generate_ipv6 ce y = show_ipv6 (generate_octets ce y)"

section \<open>Reading an address\<close>

definition digit_value :: "nat \<Rightarrow> char \<Rightarrow> nat option" where
  "digit_value radix c = (case hex_value c of Some v \<Rightarrow> if v < radix then Some v else None | None \<Rightarrow> None)"

definition digits_number :: "nat \<Rightarrow> string \<Rightarrow> nat" where
  "digits_number radix s = foldl (\<lambda>n c. n * radix + the (digit_value radix c)) 0 s"

definition read_number :: "nat \<Rightarrow> nat \<Rightarrow> bool \<Rightarrow> nat \<Rightarrow> string \<Rightarrow> (nat \<times> string) option" where
  "read_number radix max_digits allow_zero_prefix bound s =
     (let ds = takeWhile (\<lambda>c. digit_value radix c \<noteq> None) s; n = digits_number radix ds in
      if ds = [] \<or> length ds > max_digits then None
      else if \<not> allow_zero_prefix \<and> hd ds = CHR ''0'' \<and> length ds > 1 then None
      else if n > bound then None
      else Some (n, drop (length ds) s))"

definition read_separator :: "char \<Rightarrow> nat \<Rightarrow> (string \<Rightarrow> ('a \<times> string) option) \<Rightarrow> string \<Rightarrow> ('a \<times> string) option" where
  "read_separator sep i inner s =
     (if i = 0 then inner s
      else case s of [] \<Rightarrow> None | c # rest \<Rightarrow> if c = sep then inner rest else None)"

fun read_dotted :: "nat \<Rightarrow> nat \<Rightarrow> string \<Rightarrow> (nat list \<times> string) option" where
  "read_dotted 0 i s = Some ([], s)"
| "read_dotted (Suc k) i s =
     (case read_separator (CHR ''.'') i (read_number 10 3 False 255) s of
        None \<Rightarrow> None
      | Some (n, rest) \<Rightarrow> map_option (\<lambda>(ns, rest'). (n # ns, rest')) (read_dotted k (Suc i) rest))"

fun read_groups :: "nat \<Rightarrow> nat \<Rightarrow> string \<Rightarrow> nat list \<times> bool \<times> string" where
  "read_groups 0 i s = ([], False, s)"
| "read_groups (Suc k) i s =
     (case (if k > 0 then read_separator (CHR '':'') i (read_dotted 4 0) s else None) of
        Some (v4, rest) \<Rightarrow> ([v4 ! 0 * 256 + v4 ! 1, v4 ! 2 * 256 + v4 ! 3], True, rest)
      | None \<Rightarrow>
          (case read_separator (CHR '':'') i (read_number 16 4 True 65535) s of
             Some (g, rest) \<Rightarrow> (case read_groups k (Suc i) rest of (gs, v4, rest') \<Rightarrow> (g # gs, v4, rest'))
           | None \<Rightarrow> ([], False, s)))"

definition parse_ipv6 :: "string \<Rightarrow> nat list option" where
  "parse_ipv6 s =
     (case read_groups 8 0 s of
        (gs, v4, rest) \<Rightarrow>
          if length gs = 8 then (if rest = [] then Some gs else None)
          else if v4 then None
          else if take 2 rest \<noteq> ''::'' then None
          else case read_groups (8 - (length gs + 1)) 0 (drop 2 rest) of
            (tl_groups, _, rest') \<Rightarrow>
              if rest' = [] then Some (gs @ replicate (8 - length gs - length tl_groups) 0 @ tl_groups)
              else None)"

definition group_octets :: "nat list \<Rightarrow> byte list" where
  "group_octets gs = concat (map (\<lambda>g. [of_nat (g div 256), of_nat (g mod 256)]) gs)"

section \<open>Distance\<close>

definition u8_leading_zeros :: "byte \<Rightarrow> nat" where
  "u8_leading_zeros x = length (takeWhile (\<lambda>i. \<not> bit x i) [7, 6, 5, 4, 3, 2, 1, 0])"

definition common_msb_bits :: "byte \<Rightarrow> byte \<Rightarrow> nat" where
  "common_msb_bits x y = u8_leading_zeros (x XOR y)"

fun prefix_loop :: "nat \<Rightarrow> byte list \<Rightarrow> byte list \<Rightarrow> nat" where
  "prefix_loop i (a # as) (b # bs) = (if a \<noteq> b then i * 8 + common_msb_bits a b else prefix_loop (i + 1) as bs)"
| "prefix_loop i _ _ = 128"

definition common_prefix_bits :: "byte list \<Rightarrow> byte list \<Rightarrow> nat" where
  "common_prefix_bits a b = prefix_loop 0 a b"

definition tree_distance :: "string \<Rightarrow> string \<Rightarrow> net_error + nat" where
  "tree_distance addr_a addr_b =
     (case parse_ipv6 addr_a of
        None \<Rightarrow> Inl (InvalidIpv6 addr_a)
      | Some a \<Rightarrow>
          (case parse_ipv6 addr_b of
             None \<Rightarrow> Inl (InvalidIpv6 addr_b)
           | Some b \<Rightarrow> Inr (common_prefix_bits (group_octets a) (group_octets b))))"

text \<open>The distance is the length of the longest common prefix of the two addresses as bit strings.\<close>

definition byte_bits :: "byte \<Rightarrow> bool list" where
  "byte_bits x = map (bit x) [7, 6, 5, 4, 3, 2, 1, 0]"

definition address_bits :: "byte list \<Rightarrow> bool list" where
  "address_bits b = concat (map byte_bits b)"

fun common_prefix :: "'a list \<Rightarrow> 'a list \<Rightarrow> nat" where
  "common_prefix (x # xs) (y # ys) = (if x = y then Suc (common_prefix xs ys) else 0)"
| "common_prefix _ _ = 0"

lemma length_byte_bits [simp]: "length (byte_bits x) = 8"
  by (simp add: byte_bits_def)

lemma byte_bits_inject [simp]: "byte_bits x = byte_bits y \<longleftrightarrow> x = y"
proof
  assume "byte_bits x = byte_bits y"
  then have eq: "bit x n = bit y n" if "n \<in> set [7, 6, 5, 4, 3, 2, 1, 0]" for n
    using that by (simp add: byte_bits_def) blast
  have "bit x n \<longleftrightarrow> bit y n" if "n < LENGTH(8)" for n
  proof -
    have "n \<in> set [7, 6, 5, 4, 3, 2, 1, 0]" using that by (simp, linarith)
    then show ?thesis by (rule eq)
  qed
  then show "x = y" by (rule bit_word_eqI)
qed simp

lemma common_prefix_same_append:
  "common_prefix (xs @ us) (xs @ vs) = length xs + common_prefix us vs"
  by (induction xs) auto

lemma common_prefix_differ:
  "length xs = length ys \<Longrightarrow> xs \<noteq> ys \<Longrightarrow> common_prefix (xs @ us) (ys @ vs) = common_prefix xs ys"
  by (induction xs ys rule: list_induct2) auto

lemma common_prefix_zip:
  "common_prefix xs ys = length (takeWhile (\<lambda>(a, b). a = b) (zip xs ys))"
  by (induction xs ys rule: common_prefix.induct) auto

lemma common_msb_bits_prefix: "common_msb_bits x y = common_prefix (byte_bits x) (byte_bits y)"
proof -
  have *: "length (takeWhile (\<lambda>i. \<not> bit (x XOR y) i) ns) = common_prefix (map (bit x) ns) (map (bit y) ns)" for ns
    by (induction ns) (auto simp: bit_xor_iff)
  show ?thesis by (simp only: common_msb_bits_def u8_leading_zeros_def byte_bits_def *)
qed

lemma prefix_loop_bits:
  "length a = length b \<Longrightarrow> i + length a = 16
   \<Longrightarrow> prefix_loop i a b = i * 8 + common_prefix (address_bits a) (address_bits b)"
proof (induction i a b rule: prefix_loop.induct)
  case (1 i x xs y ys)
  show ?case
  proof (cases "x = y")
    case True
    with 1 show ?thesis
      by (simp add: address_bits_def common_prefix_same_append)
  next
    case False
    then show ?thesis
      by (simp add: address_bits_def common_msb_bits_prefix common_prefix_differ)
  qed
qed (auto simp: address_bits_def)

text \<open>\<open>tree_distance\<close> counts the common leading bits of the two addresses, and it is an ultrametric
  closeness: 128 exactly for equal addresses, symmetric, and two addresses are at least as close as
  both are to a third.\<close>

lemma common_prefix_ultra: "min (common_prefix a b) (common_prefix b c) \<le> common_prefix a c"
  by (induction a c arbitrary: b rule: common_prefix.induct; case_tac b) auto

lemma common_prefix_sym: "common_prefix a b = common_prefix b a"
  by (induction a b rule: common_prefix.induct) auto

lemma common_prefix_full: "length a = length b \<Longrightarrow> common_prefix a b = length a \<longleftrightarrow> a = b"
  by (induction a b rule: list_induct2) auto

lemma length_address_bits: "length (address_bits a) = 8 * length a"
  by (induction a) (auto simp: address_bits_def)

lemma address_bits_inject: "length a = length b \<Longrightarrow> address_bits a = address_bits b \<longleftrightarrow> a = b"
  by (induction a b rule: list_induct2) (auto simp: address_bits_def)

lemma common_prefix_bits_ultrametric:
  assumes "length a = 16" "length b = 16" "length c = 16"
  shows "common_prefix_bits a b = length (takeWhile (\<lambda>(x, y). x = y) (zip (address_bits a) (address_bits b)))
    \<and> (common_prefix_bits a b = 128 \<longleftrightarrow> a = b)
    \<and> common_prefix_bits a b = common_prefix_bits b a
    \<and> min (common_prefix_bits a b) (common_prefix_bits b c) \<le> common_prefix_bits a c"
proof -
  have cpb: "common_prefix_bits x y = common_prefix (address_bits x) (address_bits y)"
    if "length x = 16" "length y = 16" for x y
    using that by (simp add: common_prefix_bits_def prefix_loop_bits)
  have "common_prefix (address_bits a) (address_bits b) = 128 \<longleftrightarrow> a = b"
    using common_prefix_full [of "address_bits a" "address_bits b"] assms
    by (simp add: length_address_bits address_bits_inject)
  then show ?thesis
    using assms by (simp only: cpb common_prefix_zip [symmetric] common_prefix_ultra common_prefix_sym)
qed

end
