(* ===== verification/Ai.thy ===== *)
theory Ai
  imports F64 Bytes
begin

text \<open>
  The inference engine: \<open>core/crates/llm-inference/src/lib.rs\<close>, the choice of a quantised model by the
  memory of the device, and \<open>core/src/ai/mod.rs\<close>, the manager in front of it. Inference itself is
  simulated by the code. The elapsed times are arguments.
\<close>

section \<open>Models\<close>

datatype model_size = Qwen0_8B | Qwen1_8B | Qwen4B | Qwen9B | Llama70B

fun ram_mb :: "model_size \<Rightarrow> nat" where
  "ram_mb Qwen0_8B = 512"
| "ram_mb Qwen1_8B = 1200"
| "ram_mb Qwen4B = 2560"
| "ram_mb Qwen9B = 5600"
| "ram_mb Llama70B = 40960"

fun model_debug :: "model_size \<Rightarrow> string" where
  "model_debug Qwen0_8B = ''Qwen0_8B''"
| "model_debug Qwen1_8B = ''Qwen1_8B''"
| "model_debug Qwen4B = ''Qwen4B''"
| "model_debug Qwen9B = ''Qwen9B''"
| "model_debug Llama70B = ''Llama70B''"

definition fits_in_ram :: "nat \<Rightarrow> model_size \<Rightarrow> bool" where
  "fits_in_ram available_mb m \<longleftrightarrow> ram_mb m < nat \<lfloor>f64 (f64 (of_nat available_mb) * f64 (8 / 10))\<rfloor>"

section \<open>Requests and answers\<close>

record inference_request =
  iq_id :: string
  iq_prompt :: string
  iq_max_tokens :: nat
  iq_temperature :: rat
  iq_model :: model_size
  iq_priority :: u8
  iq_from_mobile :: "string option"

record inference_response =
  ir_request_id :: string
  ir_text :: string
  ir_tokens :: nat
  ir_latency_ms :: nat
  ir_model :: model_size
  ir_error :: "string option"

definition first_chars :: "nat \<Rightarrow> string \<Rightarrow> string" where
  "first_chars n s = concat (take n (utf8_chars s))"

record oracle_server =
  or_port :: nat
  or_loaded :: "model_size list"

definition oracle_new :: "nat \<Rightarrow> oracle_server" where
  "oracle_new port = \<lparr>or_port = port, or_loaded = [Llama70B]\<rparr>"

definition oracle_process :: "nat \<Rightarrow> inference_request \<Rightarrow> inference_response" where
  "oracle_process elapsed_ms req =
     \<lparr>ir_request_id = iq_id req,
      ir_text = ''[Oracle response using '' @ model_debug (iq_model req) @ ''] Processing: ''
        @ first_chars 50 (iq_prompt req),
      ir_tokens = min (iq_max_tokens req) 256, ir_latency_ms = max elapsed_ms 1,
      ir_model = iq_model req, ir_error = None\<rparr>"

section \<open>The local engine\<close>

record pocket_pal =
  pp_available_ram_mb :: nat
  pp_current_model :: "model_size option"

definition MOBILE_MODELS :: "model_size list" where
  "MOBILE_MODELS = [Qwen9B, Qwen4B, Qwen1_8B, Qwen0_8B]"

definition pocket_pal_new :: "nat \<Rightarrow> pocket_pal" where
  "pocket_pal_new available_ram_mb =
     \<lparr>pp_available_ram_mb = available_ram_mb,
      pp_current_model = find (fits_in_ram available_ram_mb) MOBILE_MODELS\<rparr>"

definition pocket_pal_infer :: "nat \<Rightarrow> nat \<Rightarrow> string \<Rightarrow> nat \<Rightarrow> pocket_pal \<Rightarrow> inference_response" where
  "pocket_pal_infer elapsed_ms elapsed_ns prompt max_tokens e =
     (let model = (case pp_current_model e of Some m \<Rightarrow> m | None \<Rightarrow> Qwen0_8B)
      in \<lparr>ir_request_id = ''local-'' @ dec_digits elapsed_ns,
          ir_text = ''[PocketPal '' @ model_debug model @ ''] '' @ first_chars 50 prompt,
          ir_tokens = min max_tokens 128, ir_latency_ms = max elapsed_ms 1,
          ir_model = model, ir_error = None\<rparr>)"

definition get_model :: "pocket_pal \<Rightarrow> model_size option" where
  "get_model e = pp_current_model e"

definition can_offload_to_oracle :: "pocket_pal \<Rightarrow> bool" where
  "can_offload_to_oracle e = (case pp_current_model e of Some m \<Rightarrow> ram_mb m < 6000 | None \<Rightarrow> True)"

definition transcribe :: "byte list \<Rightarrow> string" where
  "transcribe opus_data = ''[Transcription not available in simulation]''"

section \<open>The manager\<close>

record ai_engine =
  ae_local :: pocket_pal
  ae_oracle :: "string option"

definition ai_engine_new :: "nat \<Rightarrow> ai_engine" where
  "ai_engine_new available_ram_mb = \<lparr>ae_local = pocket_pal_new available_ram_mb, ae_oracle = None\<rparr>"

definition ai_infer :: "nat \<Rightarrow> nat \<Rightarrow> string \<Rightarrow> nat \<Rightarrow> ai_engine \<Rightarrow> inference_response" where
  "ai_infer elapsed_ms elapsed_ns prompt max_tokens e =
     pocket_pal_infer elapsed_ms elapsed_ns prompt max_tokens (ae_local e)"

definition set_oracle :: "string \<Rightarrow> ai_engine \<Rightarrow> ai_engine" where
  "set_oracle address e = e\<lparr>ae_oracle := Some address\<rparr>"

definition get_local_model :: "ai_engine \<Rightarrow> model_size option" where
  "get_local_model e = get_model (ae_local e)"

section \<open>The choice of a model\<close>

lemma fits_mono:
  assumes "a \<le> b" "fits_in_ram a m"
  shows "fits_in_ram b m"
proof -
  have "f64 (f64 (of_nat a) * f64 (8 / 10)) \<le> f64 (f64 (of_nat b) * f64 (8 / 10))"
    using assms(1) by (intro f64_mono mult_right_mono) (auto intro: f64_nonneg)
  then have "nat \<lfloor>f64 (f64 (of_nat a) * f64 (8 / 10))\<rfloor> \<le> nat \<lfloor>f64 (f64 (of_nat b) * f64 (8 / 10))\<rfloor>"
    by (intro nat_mono floor_mono)
  with assms(2) show ?thesis by (simp add: fits_in_ram_def)
qed

text \<open>The engine takes the largest mobile model that fits, and a device with more memory never gets a
  smaller one. The engine can always hand a query to the oracle.\<close>

lemma pocket_pal_choice:
  "case pp_current_model (pocket_pal_new ram) of
     None \<Rightarrow> filter (fits_in_ram ram) MOBILE_MODELS = []
   | Some m \<Rightarrow> m \<in> set MOBILE_MODELS \<and> fits_in_ram ram m
       \<and> filter (\<lambda>m'. fits_in_ram ram m' \<and> ram_mb m < ram_mb m') MOBILE_MODELS = []"
  by (auto simp: pocket_pal_new_def MOBILE_MODELS_def)

lemma pocket_pal_monotone:
  assumes "a \<le> b" "pp_current_model (pocket_pal_new a) = Some m"
  shows "\<exists>m'. pp_current_model (pocket_pal_new b) = Some m' \<and> ram_mb m \<le> ram_mb m'"
  using assms(2) fits_mono [OF assms(1)]
  by (auto simp: pocket_pal_new_def MOBILE_MODELS_def split: if_splits)

lemma offload_always: "can_offload_to_oracle (pocket_pal_new ram)"
  by (auto simp: can_offload_to_oracle_def pocket_pal_new_def MOBILE_MODELS_def)

end
