(* ===== verification/Node.thy ===== *)
theory Node
  imports Network Ai Tcp Storage Update Identity SocialThreads "HOL-Library.AList"
begin

text \<open>
  The node of \<open>core/src/node/mod.rs\<close>: its state, its construction, the throttled publication of its
  own events, persistence and transactions. What arrives from peers is in \<open>NodeGate\<close>, the update
  and rotation handlers are in \<open>NodeUpdate\<close>. Every reading of the system clock is an argument, as are
  random identifiers. Base64, JSON and float rendering are fields of \<open>codec_env\<close>.
\<close>

section \<open>The environment\<close>

text \<open>The fields of an announcement of a new X25519 key, and of the social payloads that the code reads
  field by field out of a JSON value: a field is \<open>None\<close> when it is missing or has another type.\<close>

record rotation_payload =
  rn_x25519 :: "string option"
  rn_rotation :: "nat option"

record vote_payload =
  vp_target :: "string option"
  vp_direction :: "int option"
  vp_table :: "string option"

record follow_payload =
  fp_followed :: "string option"
  fp_unfollow :: "bool option"

record message_payload =
  mp_recipient :: "string option"
  mp_body :: "string option"

record moderation_payload =
  op_target :: "string option"
  op_reason :: "string option"

text \<open>A decoder that fails returns the text of its error.\<close>

record codec_env =
  cd_b64_encode :: "byte list \<Rightarrow> string"
  cd_b64_decode :: "string \<Rightarrow> string + byte list"
  cd_endorsement_encode :: "endorsement \<Rightarrow> byte list"
  cd_endorsement_decode :: "byte list \<Rightarrow> string + endorsement"
  cd_report_encode :: "abuse_report \<Rightarrow> byte list"
  cd_report_decode :: "byte list \<Rightarrow> string + abuse_report"
  cd_rotation_encode :: "string \<Rightarrow> string \<Rightarrow> nat \<Rightarrow> byte list"
  cd_rotation_decode :: "byte list \<Rightarrow> string + rotation_payload"
  cd_post_encode :: "social_post \<Rightarrow> string option"
  cd_post_decode :: "string \<Rightarrow> string + social_post"
  cd_comment_encode :: "social_comment \<Rightarrow> string option"
  cd_comment_decode :: "string \<Rightarrow> string + social_comment"
  cd_vote_decode :: "string \<Rightarrow> string + vote_payload"
  cd_follow_decode :: "string \<Rightarrow> string + follow_payload"
  cd_message_decode :: "string \<Rightarrow> string + message_payload"
  cd_moderation_decode :: "string \<Rightarrow> string + moderation_payload"
  cd_media_json :: "string list \<Rightarrow> string"
  cd_show_float :: "rat \<Rightarrow> string"
  cd_show_fixed2 :: "rat \<Rightarrow> string"

record node_env =
  nv_crypto :: crypto_env
  nv_box :: box_env
  nv_deflate :: deflate_env
  nv_codec :: codec_env
  nv_known_order :: "string set \<Rightarrow> string list"
  nv_window_order :: "windows \<Rightarrow> string list"
  nv_scores_order :: "(string, rat) mapping \<Rightarrow> string list"

section \<open>Error texts\<close>

text \<open>The \<open>Err(String)\<close> values: the dispatcher classifies some failures by what their text contains.\<close>

fun validation_text :: "validation_error \<Rightarrow> string" where
  "validation_text VAlertTooLong = ''Alert exceeds '' @ dec_digits MAX_ALERT_SIZE @ '' character limit''"
| "validation_text VFuture = ''Event created_at is too far in the future''"
| "validation_text VIdMismatch = ''Event ID does not match canonical serialization''"
| "validation_text VMissingSignature = ''Missing signature''"
| "validation_text VBadPubkeyEncoding = ''Invalid pubkey encoding''"
| "validation_text VBadSignatureEncoding = ''Invalid signature encoding''"
| "validation_text VInvalidSignature = ''Invalid signature''"
| "validation_text (VPowTooLow d m) = ''PoW difficulty '' @ dec_digits d @ '' is below network minimum (required ''
     @ dec_digits m @ '')''"
| "validation_text VInvalidPow = ''Invalid PoW''"

fun rep_text :: "(rat \<Rightarrow> string) \<Rightarrow> rep_error \<Rightarrow> string" where
  "rep_text sh CannotEndorseItself = ''A node cannot endorse itself''"
| "rep_text sh (EndorserNotTrusted k s) = ''Endorser '' @ k @ '' is not trusted enough (score '' @ sh s @ '')''"
| "rep_text sh DuplicateEndorsement = ''Duplicate endorsement''"
| "rep_text sh EndorsementUnverified = ''Endorsement signature could not be verified''"
| "rep_text sh ReportUnverified = ''Abuse report signature could not be verified''"
| "rep_text sh CannotReportItself = ''A node cannot report itself''"
| "rep_text sh (UnknownReasonCode c) = ''Unknown abuse reason code '' @ dec_digits (unat c)"
| "rep_text sh (ReporterNotTrusted k s) = ''Abuse reporter '' @ k @ '' is not trusted enough (score '' @ sh s @ '')''"
| "rep_text sh DuplicateReport = ''Duplicate abuse report''"

fun social_text :: "social_error \<Rightarrow> string" where
  "social_text PostBadId = ''social post id must contain 1..=128 characters''"
| "social_text PostBadAuthor = ''social post author_pubkey must be a 32-byte hex key''"
| "social_text PostEmptyBody = ''social post body cannot be empty''"
| "social_text PostTooManyMedia = ''social post cannot contain more than 4 media URLs''"
| "social_text TuitterTitle = ''Tuitter posts cannot have a title''"
| "social_text TuitterTooLong = ''Tuitter body exceeds 500 characters''"
| "social_text TuitterCommunity = ''Tuitter posts cannot target a Redit community''"
| "social_text ReditNoTitle = ''Redit posts require a title''"
| "social_text ReditBadTitle = ''Redit title must contain 1..=300 characters''"
| "social_text ReditTooLong = ''Redit body exceeds 40000 characters''"
| "social_text ReditNoCommunity = ''Redit posts require a community''"
| "social_text ReditBadSlug = ''community slug must contain 1..=50 characters''"
| "social_text ReditSlugChars = ''community slug contains invalid characters''"
| "social_text PostNotSigner = ''social post author does not match signing identity''"
| "social_text PostEncodeFailed = ''failed to encode social post''"
| "social_text PostPowFailed = ''failed to compute proof of work for social post''"
| "social_text CommentBadId = ''comment id must contain 1..=128 characters''"
| "social_text CommentBadPost = ''comment post_id must contain 1..=128 characters''"
| "social_text CommentOwnParent = ''comment cannot be its own parent''"
| "social_text CommentBadBody = ''comment body must contain 1..=40000 characters''"
| "social_text CommentBadAuthor = ''comment author_pubkey must be a 32-byte hex key''"

fun tx_text :: "tx_error \<Rightarrow> string" where
  "tx_text TxInvalidProof = ''Invalid ZK proof''"
| "tx_text TxDuplicateNonce = ''Duplicate nonce''"
| "tx_text TxStaleNonce = ''Stale nonce''"

declare validation_text.simps [simp del] rep_text.simps [simp del] social_text.simps [simp del] tx_text.simps [simp del]

section \<open>Configuration and state\<close>

datatype node_type = MobileNode | DesktopBridge

record node_config =
  nc_node_type :: node_type
  nc_display_name :: string
  nc_ram_mb :: nat
  nc_storage_gb :: nat
  nc_ai_model :: "string option"
  nc_max_peers :: nat
  nc_sqlite_path :: "string option"
  nc_social_path :: "string option"
  nc_geohash :: string
  nc_battery_saver :: bool
  nc_identity_seed :: "byte list option"
  nc_update_root :: "byte list option"
  nc_update_seed :: "byte list option"
  nc_update_version :: string

definition DEFAULT_UPDATE_VERSION :: string where "DEFAULT_UPDATE_VERSION = ''1.0.0''"
definition DEFAULT_UPDATE_ROOT_PUBKEY :: "byte list" where "DEFAULT_UPDATE_ROOT_PUBKEY = replicate 32 0"

definition default_update_version :: string where
  "default_update_version = DEFAULT_UPDATE_VERSION"

definition default_my_geohash :: string where
  "default_my_geohash = ''u09tunq''"

definition node_config_default :: node_config where
  "node_config_default = \<lparr>nc_node_type = MobileNode, nc_display_name = ''Unknown'', nc_ram_mb = 4096,
     nc_storage_gb = 64, nc_ai_model = None, nc_max_peers = 20, nc_sqlite_path = None, nc_social_path = None,
     nc_geohash = default_my_geohash, nc_battery_saver = False, nc_identity_seed = None, nc_update_root = None,
     nc_update_seed = None, nc_update_version = default_update_version\<rparr>"

definition BATTERY_SAVER_SWEEP_INTERVAL_SECS :: nat where "BATTERY_SAVER_SWEEP_INTERVAL_SECS = 300"
definition PUBLISH_INTERVAL_TRUSTED_SECS :: nat where "PUBLISH_INTERVAL_TRUSTED_SECS = 10"
definition PUBLISH_INTERVAL_UNTRUSTED_SECS :: nat where "PUBLISH_INTERVAL_UNTRUSTED_SECS = 120"
definition PUBLISH_BATTERY_MULTIPLIER :: nat where "PUBLISH_BATTERY_MULTIPLIER = 6"
definition PARTITION_SILENCE_THRESHOLD_SECS :: nat where "PARTITION_SILENCE_THRESHOLD_SECS = 300"
definition HEAL_GRACE_SECS :: nat where "HEAL_GRACE_SECS = 120"
definition HEAL_WINDOW_BUDGET_FACTOR :: nat where "HEAL_WINDOW_BUDGET_FACTOR = 4"
definition HEAL_BATCH_MAX_EVENTS :: nat where "HEAL_BATCH_MAX_EVENTS = 32"

definition parse_update_version :: "string \<Rightarrow> version" where
  "parse_update_version s = (case parse_version s of Some v \<Rightarrow> v | None \<Rightarrow> Version 1 0 0)"

definition build_tags :: "(string \<times> string) list \<Rightarrow> string list" where
  "build_tags pairs = map (\<lambda>(k, v). k @ ''='' @ v) pairs"

fun tag_get :: "string list \<Rightarrow> string \<Rightarrow> string option" where
  "tag_get [] key = None"
| "tag_get (t # ts) key =
     (if starts_with t (key @ ''='') then Some (drop (length (key @ ''='')) t) else tag_get ts key)"

record update_offer =
  uo_version :: version
  uo_apk :: "byte list"
  uo_manifest_wire :: "byte list"
  uo_manifest_signature :: "byte list"
  uo_chunk_size :: nat

text \<open>The maps keyed by a peer are association lists; their order is not observable. The shared metrics
  registry has one part in each of its three writers (\<open>node_counters\<close>).\<close>

record node =
  nd_config :: node_config
  nd_identity :: identity
  nd_rotator :: rotating_identity
  nd_reputation :: reputation
  nd_store :: tiered_store
  nd_persistence :: "sqlite_store option"
  nd_mesh :: yggdrasil
  nd_gossip :: gossip
  nd_tx_pool :: tx_pool
  nd_ai :: ai_engine
  nd_zim :: zim_reader
  nd_maps :: mbtiles_renderer
  nd_seeder :: ipfs_seeder
  nd_running :: bool
  nd_last_publish :: nat
  nd_update :: update_protocol
  nd_update_root :: "identity option"
  nd_pending_announcement :: "update_announcement option"
  nd_update_offer :: "update_offer option"
  nd_peer_x25519 :: "(string \<times> string) list"
  nd_peer_grace :: "(string \<times> string) list"
  nd_peer_rotations :: "(string \<times> nat) list"
  nd_spam :: spam_guard
  nd_social :: "social_db option"
  nd_last_seen :: "(string \<times> nat) list"
  nd_heal_until :: nat
  nd_metrics :: node_metrics

definition own_key :: "node_env \<Rightarrow> node \<Rightarrow> string" where
  "own_key nv nd = id_pubkey_hex (nv_crypto nv) (nd_identity nd)"

definition node_counters :: "node \<Rightarrow> node_metrics" where
  "node_counters nd =
     (let m = (case gp_metrics (nd_gossip nd) of None \<Rightarrow> nd_metrics nd
               | Some n \<Rightarrow> (nd_metrics nd)\<lparr>nm_gossiped := of_nat n\<rparr>)
      in case st_metrics (nd_store nd) of None \<Rightarrow> m
         | Some s \<Rightarrow> m\<lparr>nm_storage_events := nm_storage_events s, nm_storage_raw := nm_storage_raw s,
                         nm_storage_stored := nm_storage_stored s\<rparr>)"

section \<open>Construction\<close>

text \<open>What \<open>new\<close> finds outside: the databases at the configured paths (\<open>None\<close> when they cannot be opened),
  random keys, the clock and whether the seed directory could be made.\<close>

record boot_env =
  bt_sqlite :: "string \<Rightarrow> sqlite_store option"
  bt_social :: "string \<Rightarrow> social_db option"
  bt_random_seed :: "byte list"
  bt_session :: identity
  bt_session_next :: identity
  bt_now :: nat
  bt_started_at :: u64
  bt_seed_dir :: bool

definition IDENTITY_SEED_META_KEY :: string where "IDENTITY_SEED_META_KEY = ''identity_seed''"

definition load_persisted_identity_seed :: "node_env \<Rightarrow> sqlite_store option \<Rightarrow> byte list option" where
  "load_persisted_identity_seed nv persistence =
     (case persistence of None \<Rightarrow> None
      | Some db \<Rightarrow>
          (case get_meta IDENTITY_SEED_META_KEY db of None \<Rightarrow> None
           | Some hex_seed \<Rightarrow> decode_hex_32 (nv_crypto nv) hex_seed))"

definition boot_identity ::
    "node_env \<Rightarrow> boot_env \<Rightarrow> node_config \<Rightarrow> sqlite_store option \<Rightarrow> identity \<times> sqlite_store option" where
  "boot_identity nv bt cfg persistence =
     (case nc_identity_seed cfg of
        Some seed \<Rightarrow> (identity_from_bytes (nv_crypto nv) (nv_box nv) seed, persistence)
      | None \<Rightarrow>
          (case load_persisted_identity_seed nv persistence of
             Some seed \<Rightarrow> (identity_from_bytes (nv_crypto nv) (nv_box nv) seed, persistence)
           | None \<Rightarrow>
               (let i = identity_generate (nv_crypto nv) (nv_box nv) (bt_random_seed bt)
                in (i, map_option (set_meta IDENTITY_SEED_META_KEY
                         (ce_hex_encode (nv_crypto nv) (id_seed i))) persistence))))"

definition node_new :: "node_env \<Rightarrow> boot_env \<Rightarrow> node_config \<Rightarrow> node" where
  "node_new nv bt cfg =
     (let opened = (case nc_sqlite_path cfg of Some path \<Rightarrow> bt_sqlite bt path | None \<Rightarrow> None);
          (i, persistence) = boot_identity nv bt cfg opened;
          pubkey = id_pubkey_hex (nv_crypto nv) i;
          policy = (case nc_node_type cfg of MobileNode \<Rightarrow> Mobile | DesktopBridge \<Rightarrow> Desktop);
          metrics = metrics_new (bt_started_at bt)
      in \<lparr>nd_config = cfg, nd_identity = i,
          nd_rotator = rotating_new (bt_session bt) (bt_session_next bt) (6 * 3600) (bt_now bt),
          nd_reputation = bootstrap [pubkey] reputation_new,
          nd_store = tiered_set_metrics metrics (set_my_geohash (nc_geohash cfg) (tiered_new policy)),
          nd_persistence = persistence,
          nd_mesh = yggdrasil_new pubkey,
          nd_gossip = set_metrics 0 gossip_new,
          nd_tx_pool = tx_pool_new,
          nd_ai = ai_engine_new (nc_ram_mb cfg),
          nd_zim = zim_reader_new, nd_maps = mbtiles_new,
          nd_seeder = (case seeder_new (bt_seed_dir bt) ''/tmp/onde-ipfs'' (nc_storage_gb cfg) of
                         Inr s \<Rightarrow> s | Inl _ \<Rightarrow> seeder_disabled (nc_storage_gb cfg)),
          nd_running = False, nd_last_publish = 0,
          nd_update = update_new
            (case nc_update_root cfg of Some k \<Rightarrow> k | None \<Rightarrow> DEFAULT_UPDATE_ROOT_PUBKEY)
            (parse_update_version (nc_update_version cfg)),
          nd_update_root = map_option (identity_from_bytes (nv_crypto nv) (nv_box nv)) (nc_update_seed cfg),
          nd_pending_announcement = None, nd_update_offer = None,
          nd_peer_x25519 = [], nd_peer_grace = [], nd_peer_rotations = [],
          nd_spam = spam_guard_new SPAM_WINDOW_SECS SPAM_BUDGET_PER_WINDOW,
          nd_social = (case nc_social_path cfg of Some path \<Rightarrow> bt_social bt path | None \<Rightarrow> None),
          nd_last_seen = [], nd_heal_until = 0, nd_metrics = metrics\<rparr>)"

text \<open>The rotation draws the next session identity, the argument \<open>fresh\<close>.\<close>

definition node_maybe_rotate :: "identity \<Rightarrow> nat \<Rightarrow> node \<Rightarrow> bool \<times> node" where
  "node_maybe_rotate fresh now nd =
     (case maybe_rotate fresh now (nd_rotator nd) of (b, r) \<Rightarrow> (b, nd\<lparr>nd_rotator := r\<rparr>))"

definition node_start :: "identity \<Rightarrow> nat \<Rightarrow> node \<Rightarrow> node" where
  "node_start fresh now nd = (snd (node_maybe_rotate fresh now nd))\<lparr>nd_running := True\<rparr>"

definition node_stop :: "node \<Rightarrow> node" where
  "node_stop nd = nd\<lparr>nd_running := False\<rparr>"

section \<open>Persistence and transactions\<close>

definition node_persist_message ::
    "string \<Rightarrow> message_tier \<Rightarrow> byte list \<Rightarrow> nat \<Rightarrow> string \<Rightarrow> node \<Rightarrow> node" where
  "node_persist_message i tier payload created_at geohash nd =
     nd\<lparr>nd_persistence := map_option (persist_message i tier payload created_at geohash (nd_store nd)) (nd_persistence nd)\<rparr>"

definition node_load_persisted :: "nat \<Rightarrow> node \<Rightarrow> nat \<times> node" where
  "node_load_persisted now nd =
     (case nd_persistence nd of
        None \<Rightarrow> (0, nd)
      | Some db \<Rightarrow> (case load_persisted_messages now (sql_load_all db) 0 (nd_store nd) of
                      (restored, st) \<Rightarrow> (restored, nd\<lparr>nd_store := st\<rparr>)))"

definition restore_from_persistence :: "nat \<Rightarrow> node \<Rightarrow> nat \<times> node" where
  "restore_from_persistence now nd = node_load_persisted now nd"

definition node_sweep :: "nat \<Rightarrow> node \<Rightarrow> nat \<times> node" where
  "node_sweep now nd =
     (case tiered_sweep now (nd_store nd) of
        (in_memory, st) \<Rightarrow>
          (in_memory, nd\<lparr>nd_store := st,
                          nd_persistence := map_option (\<lambda>db. snd (sql_sweep now db)) (nd_persistence nd)\<rparr>))"

definition send_transaction :: "node_env \<Rightarrow> u64 \<Rightarrow> string \<Rightarrow> u64 \<Rightarrow> node \<Rightarrow> (string + zk_transaction) \<times> node" where
  "send_transaction nv now receiver amount_micro nd =
     (let nonce = next_expected_nonce (nd_tx_pool nd) (own_key nv nd);
          tx = tx_new (nv_crypto nv) now (own_key nv nd) receiver amount_micro nonce
      in case tx_submit (nv_crypto nv) tx (nd_tx_pool nd) of
           (Inl e, _) \<Rightarrow> (Inl (tx_text e), nd)
         | (Inr _, pool) \<Rightarrow> (Inr tx, nd\<lparr>nd_tx_pool := pool\<rparr>))"

definition commit_transactions :: "node_env \<Rightarrow> nat \<Rightarrow> node \<Rightarrow> zk_transaction list \<times> node" where
  "commit_transactions nv max_batch nd =
     (case commit_pending (nv_crypto nv) max_batch (nd_tx_pool nd) of (txs, pool) \<Rightarrow> (txs, nd\<lparr>nd_tx_pool := pool\<rparr>))"

section \<open>Throttled publication\<close>

definition publish_interval_secs :: "node_env \<Rightarrow> node \<Rightarrow> nat" where
  "publish_interval_secs nv nd =
     (let base = (if score (nd_reputation nd) (own_key nv nd) \<ge> TRUSTED_THRESHOLD
                  then PUBLISH_INTERVAL_TRUSTED_SECS else PUBLISH_INTERVAL_UNTRUSTED_SECS)
      in if nc_battery_saver (nd_config nd) then base * PUBLISH_BATTERY_MULTIPLIER else base)"

definition publish_allowed :: "node_env \<Rightarrow> nat \<Rightarrow> node \<Rightarrow> bool" where
  "publish_allowed nv now nd \<longleftrightarrow> now - nd_last_publish nd \<ge> publish_interval_secs nv nd"

definition enforce_publish_throttle :: "node_env \<Rightarrow> nat \<Rightarrow> node \<Rightarrow> string + unit" where
  "enforce_publish_throttle nv now nd =
     (if \<not> publish_allowed nv now nd then
        Inl (''Rate limited: wait '' @ dec_digits (publish_interval_secs nv nd) @ ''s before the next publication'')
      else Inr ())"

definition record_publish :: "nat \<Rightarrow> node \<Rightarrow> node" where
  "record_publish now nd = nd\<lparr>nd_last_publish := now\<rparr>"

text \<open>The readings of the clock during one publication, in the order in which they happen; the timestamp
  of the event is the fuzzy one.\<close>

record publish_clock =
  ck_throttle :: nat
  ck_stamp :: u64
  ck_validate :: nat
  ck_gossip :: nat
  ck_publish :: nat
  ck_store :: int
  ck_store2 :: int

text \<open>Proof of work by the difficulty that our own reputation asks for, validation, and the gossip outbox:
  the steps that every publication shares (\<open>publish_gossip_event\<close>, and the same lines of the others).
  Only \<open>nd_gossip\<close> changes.\<close>

definition diffuse :: "node_env \<Rightarrow> publish_clock \<Rightarrow> string \<Rightarrow> mesh_event \<Rightarrow> node \<Rightarrow> (string + mesh_event) \<times> node" where
  "diffuse nv ck pow_failed event0 nd =
     (let difficulty = required_pow_difficulty (nd_reputation nd) (own_key nv nd);
          event1 = with_pow_difficulty (of_nat difficulty) event0;
          (found, event) = (if difficulty > 0 then compute_pow (nv_crypto nv) 2000000 event1 else (True, event1))
      in if \<not> found then (Inl pow_failed, nd)
         else case validate_with_reputation (nv_crypto nv) (ck_validate ck) (nd_reputation nd) event of
           Inl e \<Rightarrow> (Inl (validation_text e), nd)
         | Inr _ \<Rightarrow>
             (case add_event_with_reputation (nv_crypto nv) (ck_gossip ck) (nv_known_order nv) (nd_reputation nd) event
                     (nd_gossip nd) of
                (Inl e, _) \<Rightarrow> (Inl (validation_text e), nd)
              | (Inr _, g) \<Rightarrow> (Inr event, nd\<lparr>nd_gossip := g\<rparr>)))"

definition publish_gossip_event :: "node_env \<Rightarrow> publish_clock \<Rightarrow> mesh_event \<Rightarrow> node \<Rightarrow> (string + mesh_event) \<times> node" where
  "publish_gossip_event nv ck event nd = diffuse nv ck ''PoW computation failed'' event nd"

text \<open>The hierarchical store and its mirror, after the outbox.\<close>

definition store_and_persist :: "node_env \<Rightarrow> message_tier \<Rightarrow> mesh_event \<Rightarrow> node \<Rightarrow> bool \<times> node" where
  "store_and_persist nv tier event nd =
     (let geohash = nc_geohash (nd_config nd);
          payload = str_bytes (ev_content event);
          created_at = unat (ev_created_at event)
      in case tiered_store_msg (nv_deflate nv) (ev_id event) tier payload created_at geohash (nd_store nd) of
           (stored, st) \<Rightarrow>
             (stored, if stored then node_persist_message (ev_id event) tier payload created_at geohash (nd\<lparr>nd_store := st\<rparr>)
                      else nd\<lparr>nd_store := st\<rparr>))"

definition publish_stored ::
    "node_env \<Rightarrow> publish_clock \<Rightarrow> onde_message_type \<Rightarrow> message_tier \<Rightarrow> string \<Rightarrow> string \<Rightarrow> node \<Rightarrow> (string + mesh_event) \<times> node" where
  "publish_stored nv ck kind tier too_long content nd =
     (if chars_count content > 280 then (Inl too_long, nd)
      else case enforce_publish_throttle nv (ck_throttle ck) nd of
        Inl e \<Rightarrow> (Inl e, nd)
      | Inr _ \<Rightarrow>
          (case diffuse nv ck ''PoW computation failed''
                  (new_signed (nv_crypto nv) (ck_stamp ck) (id_seed (nd_identity nd)) kind content []) nd of
             (Inl e, _) \<Rightarrow> (Inl e, nd)
           | (Inr event, nd1) \<Rightarrow>
               (Inr event, record_publish (ck_publish ck) (snd (store_and_persist nv tier event nd1)))))"

definition publish_alert :: "node_env \<Rightarrow> publish_clock \<Rightarrow> string \<Rightarrow> node \<Rightarrow> (string + mesh_event) \<times> node" where
  "publish_alert nv ck content nd =
     publish_stored nv ck Alert Critical ''Alert must be <= 280 characters'' content nd"

definition publish_mutual_aid :: "node_env \<Rightarrow> publish_clock \<Rightarrow> string \<Rightarrow> node \<Rightarrow> (string + mesh_event) \<times> node" where
  "publish_mutual_aid nv ck content nd =
     publish_stored nv ck MutualAid Important ''Mutual aid request must be <= 280 characters'' content nd"

section \<open>Signed statements about peers and keys\<close>

definition TAG_ROOT_SIG :: string where "TAG_ROOT_SIG = ''root_sig''"
definition TAG_PEER :: string where "TAG_PEER = ''peer''"
definition TAG_TO :: string where "TAG_TO = ''to''"
definition TAG_VERSION :: string where "TAG_VERSION = ''version''"
definition TAG_INDEX :: string where "TAG_INDEX = ''index''"
definition TAG_TOTAL :: string where "TAG_TOTAL = ''total''"
definition TAG_REQ_TYPE :: string where "TAG_REQ_TYPE = ''req_type''"
definition TAG_IDENTITY_ROTATION :: string where "TAG_IDENTITY_ROTATION = ''identity_rotation''"

definition node_endorse :: "node_env \<Rightarrow> publish_clock \<Rightarrow> u64 \<Rightarrow> string \<Rightarrow> node \<Rightarrow> (string + mesh_event) \<times> node" where
  "node_endorse nv ck timestamp peer nd =
     (case endorse (own_key nv nd) peer timestamp (nd_reputation nd) of
        (Inl e, _) \<Rightarrow> (Inl (rep_text (cd_show_float (nv_codec nv)) e), nd)
      | (Inr _, rep) \<Rightarrow>
          (let payload = cd_endorsement_encode (nv_codec nv)
                 \<lparr>en_endorser = own_key nv nd, en_endorsed = peer, en_timestamp = timestamp\<rparr>;
               content = cd_b64_encode (nv_codec nv) payload
           in publish_gossip_event nv ck
                (new_signed (nv_crypto nv) (ck_stamp ck) (id_seed (nd_identity nd)) Endorsement content [])
                (nd\<lparr>nd_reputation := rep\<rparr>)))"

definition report_abuse ::
    "node_env \<Rightarrow> publish_clock \<Rightarrow> string \<Rightarrow> abuse_reason \<Rightarrow> nat \<Rightarrow> node \<Rightarrow> (string + mesh_event) \<times> node" where
  "report_abuse nv ck offender reason timestamp nd =
     (if offender = own_key nv nd then (Inl ''A node cannot report itself'', nd)
      else
        let payload = cd_report_encode (nv_codec nv)
              \<lparr>rp_reporter = own_key nv nd, rp_offender = offender, rp_reason = reason_code reason, rp_timestamp = timestamp\<rparr>;
            content = cd_b64_encode (nv_codec nv) payload
        in publish_gossip_event nv ck
             (new_signed (nv_crypto nv) (ck_stamp ck) (id_seed (nd_identity nd)) AbuseReport content []) nd)"

definition build_rotation_announcement ::
    "node_env \<Rightarrow> u64 \<Rightarrow> identity \<Rightarrow> rotating_identity \<Rightarrow> string \<Rightarrow> mesh_event" where
  "build_rotation_announcement nv stamp i rotator prev_x25519 =
     (let new_x25519 = rotating_x25519_hex (nv_crypto nv) rotator;
          cnt = rotation_count rotator;
          content = cd_b64_encode (nv_codec nv) (cd_rotation_encode (nv_codec nv) new_x25519 prev_x25519 cnt);
          tags = build_tags [(TAG_IDENTITY_ROTATION, new_x25519), (''rotation_count'', dec_digits cnt)]
      in new_signed (nv_crypto nv) stamp (id_seed i) IdentityRotation content tags)"

definition announce_identity_rotation ::
    "node_env \<Rightarrow> publish_clock \<Rightarrow> identity \<Rightarrow> nat \<Rightarrow> node \<Rightarrow> (string + mesh_event) \<times> node" where
  "announce_identity_rotation nv ck fresh now nd =
     (let nd1 = snd (node_maybe_rotate fresh now nd);
          prev = (case map_of (nd_peer_x25519 nd1) (own_key nv nd1) of Some k \<Rightarrow> k | None \<Rightarrow> [])
      in publish_gossip_event nv ck
           (build_rotation_announcement nv (ck_stamp ck) (nd_identity nd1) (nd_rotator nd1) prev) nd1)"

section \<open>Social publication\<close>

fun hex_fixed :: "nat \<Rightarrow> nat \<Rightarrow> string" where
  "hex_fixed 0 n = []"
| "hex_fixed (Suc w) n = hex_fixed w (n div 16) @ [hex_digit (n mod 16)]"

text \<open>Four random numbers of 32, 16, 16 and 64 bits. Each field has the width its padding asks for.\<close>

definition generate_social_id :: "u32 \<Rightarrow> 16 word \<Rightarrow> 16 word \<Rightarrow> u64 \<Rightarrow> string" where
  "generate_social_id a b c d =
     hex_fixed 8 (unat a) @ ''-'' @ hex_fixed 4 (unat b mod 0x1000) @ ''-4'' @ hex_fixed 3 (unat c mod 0x1000) @ ''-''
       @ hex_fixed 4 (unat d mod 0x4000 + 0x8000) @ ''-'' @ hex_fixed 12 (unat d div 2 ^ 16)"

definition parse_social_platform :: "string \<Rightarrow> string + social_platform" where
  "parse_social_platform platform =
     (if platform = ''Tuitter'' \<or> platform = ''tuitter'' then Inr Tuitter
      else if platform = ''Redit'' \<or> platform = ''redit'' then Inr Redit
      else Inl (''unknown social platform: '' @ platform))"

definition publish_social_post ::
    "node_env \<Rightarrow> publish_clock \<Rightarrow> string \<Rightarrow> string \<Rightarrow> string option \<Rightarrow> string \<Rightarrow> string option \<Rightarrow> node
       \<Rightarrow> (string + mesh_event) \<times> node" where
  "publish_social_post nv ck sid platform title body community_slug nd =
     (case parse_social_platform platform of
        Inl e \<Rightarrow> (Inl e, nd)
      | Inr pf \<Rightarrow>
          (let pubkey = own_key nv nd;
               post = \<lparr>sp_id = sid, sp_platform = pf, sp_author = pubkey, sp_title = title, sp_body = body,
                       sp_community = community_slug, sp_media = []\<rparr>
           in case post_validate (nv_crypto nv) post of
             Inl e \<Rightarrow> (Inl (social_text e), nd)
           | Inr _ \<Rightarrow>
               (case to_mesh_event (nv_crypto nv) (cd_post_encode (nv_codec nv)) (ck_stamp ck) (id_seed (nd_identity nd)) post of
                  Inl e \<Rightarrow> (Inl (social_text e), nd)
                | Inr event0 \<Rightarrow>
                    (case diffuse nv ck ''PoW computation failed for social post'' event0 nd of
                       (Inl e, _) \<Rightarrow> (Inl e, nd)
                     | (Inr event, nd1) \<Rightarrow>
                         (Inr event, record_publish (ck_publish ck)
                            (nd1\<lparr>nd_social := map_option
                               (\<lambda>db. snd (insert_post (ck_store2 ck) (cd_media_json (nv_codec nv)) post
                                            (ensure_user (ck_store ck) pubkey db))) (nd_social nd1)\<rparr>))))))"

definition publish_social_comment ::
    "node_env \<Rightarrow> publish_clock \<Rightarrow> string \<Rightarrow> string \<Rightarrow> string \<Rightarrow> string option \<Rightarrow> string \<Rightarrow> node
       \<Rightarrow> (string + mesh_event) \<times> node" where
  "publish_social_comment nv ck sid platform post_id parent_id body nd =
     (case parse_social_platform platform of
        Inl e \<Rightarrow> (Inl e, nd)
      | Inr pf \<Rightarrow>
          (let comment = \<lparr>sc_id = sid, sc_platform = pf, sc_author = own_key nv nd, sc_post = post_id,
                          sc_parent = parent_id, sc_body = body\<rparr>
           in case comment_validate (nv_crypto nv) comment of
             Inl e \<Rightarrow> (Inl (social_text e), nd)
           | Inr _ \<Rightarrow>
               (case cd_comment_encode (nv_codec nv) comment of
                  None \<Rightarrow> (Inl ''social comment serialization'', nd)
                | Some content \<Rightarrow>
                    (case diffuse nv ck ''PoW computation failed for comment''
                            (new_signed (nv_crypto nv) (ck_stamp ck) (id_seed (nd_identity nd)) SocialComment content
                               [''platform='' @ platform_debug pf]) nd of
                       (Inl e, _) \<Rightarrow> (Inl e, nd)
                     | (Inr event, nd1) \<Rightarrow>
                         (Inr event, nd1\<lparr>nd_social := map_option
                            (\<lambda>db. snd (insert_comment (ck_store ck) comment db)) (nd_social nd1)\<rparr>)))))"

section \<open>Battery and presence\<close>

definition battery_saver_enabled :: "node \<Rightarrow> bool" where
  "battery_saver_enabled nd = nc_battery_saver (nd_config nd)"

definition set_battery_saver :: "bool \<Rightarrow> node \<Rightarrow> node" where
  "set_battery_saver enabled nd =
     (if nc_battery_saver (nd_config nd) \<noteq> enabled
      then nd\<lparr>nd_config := (nd_config nd)\<lparr>nc_battery_saver := enabled\<rparr>\<rparr> else nd)"

definition throttle_sweep_secs :: "node \<Rightarrow> nat" where
  "throttle_sweep_secs nd = (if nc_battery_saver (nd_config nd) then BATTERY_SAVER_SWEEP_INTERVAL_SECS else 0)"

definition should_defer_heavy_work :: "node \<Rightarrow> bool" where
  "should_defer_heavy_work nd = nc_battery_saver (nd_config nd)"

definition partition_suspected :: "nat \<Rightarrow> node \<Rightarrow> bool" where
  "partition_suspected now nd \<longleftrightarrow> nd_last_seen nd \<noteq> []
     \<and> list_all (\<lambda>(_, last). now - last \<ge> PARTITION_SILENCE_THRESHOLD_SECS) (nd_last_seen nd)"

definition heal_grace_active :: "nat \<Rightarrow> node \<Rightarrow> bool" where
  "heal_grace_active now nd \<longleftrightarrow> now < nd_heal_until nd"

definition tracked_peers :: "node \<Rightarrow> nat" where
  "tracked_peers nd = length (nd_last_seen nd)"

definition note_peer_traffic :: "string \<Rightarrow> nat \<Rightarrow> node \<Rightarrow> node" where
  "note_peer_traffic peer now nd =
     (let partition_ended = partition_suspected now nd;
          seen = AList.update peer now (nd_last_seen nd);
          heal = (if partition_ended then sat_add64 now HEAL_GRACE_SECS else nd_heal_until nd);
          known = length seen;
          synced = length (filter (\<lambda>(_, last). now - last < PARTITION_SILENCE_THRESHOLD_SECS) seen)
      in nd\<lparr>nd_last_seen := seen, nd_heal_until := heal,
            nd_metrics := set_peers (of_nat known) (of_nat synced) (nd_metrics nd)\<rparr>)"

definition take_heal_batch :: "string \<Rightarrow> node \<Rightarrow> mesh_event list \<times> node" where
  "take_heal_batch peer nd =
     (case peek_pending_for_peer peer HEAL_BATCH_MAX_EVENTS (nd_gossip nd) of
        (batch, g) \<Rightarrow>
          if batch = [] then (batch, nd\<lparr>nd_gossip := g\<rparr>)
          else (batch, nd\<lparr>nd_gossip := mark_delivered_to_peer peer (map ev_id batch) g\<rparr>))"

section \<open>Status\<close>

record node_status =
  ns_is_running :: bool
  ns_node_type :: node_type
  ns_pubkey :: string
  ns_mesh_address :: string
  ns_gossip_known :: nat
  ns_pending_tx :: nat
  ns_committed_tx :: nat
  ns_ipfs_seeds :: nat
  ns_local_model :: "string option"
  ns_identity_rotations :: nat
  ns_trusted_peers :: nat
  ns_stored_messages :: nat
  ns_stored_compressed :: nat
  ns_stored_raw :: nat
  ns_battery_saver :: bool
  ns_throttle_sweep :: nat
  ns_publish_interval :: nat
  ns_partition_suspected :: bool
  ns_heal_grace :: bool

text \<open>The two clock readings are those of the last two fields.\<close>

definition node_status_of :: "node_env \<Rightarrow> nat \<Rightarrow> nat \<Rightarrow> node \<Rightarrow> node_status" where
  "node_status_of nv now1 now2 nd =
     (case compression_stats (nd_store nd) of (raw_bytes, stored_bytes) \<Rightarrow>
       \<lparr>ns_is_running = nd_running nd, ns_node_type = nc_node_type (nd_config nd), ns_pubkey = own_key nv nd,
        ns_mesh_address = generate_ipv6 (nv_crypto nv) (nd_mesh nd),
        ns_gossip_known = known_event_count (nd_gossip nd),
        ns_pending_tx = length (tp_pending (nd_tx_pool nd)), ns_committed_tx = length (tp_committed (nd_tx_pool nd)),
        ns_ipfs_seeds = length (is_seeds (nd_seeder nd)),
        ns_local_model = map_option model_debug (get_local_model (nd_ai nd)),
        ns_identity_rotations = rotation_count (nd_rotator nd),
        ns_trusted_peers = length (filter (\<lambda>(_, s, _). s \<ge> TRUSTED_THRESHOLD)
          (summary (nv_scores_order nv) (nd_reputation nd))),
        ns_stored_messages = total_count (nd_store nd), ns_stored_compressed = stored_bytes, ns_stored_raw = raw_bytes,
        ns_battery_saver = nc_battery_saver (nd_config nd), ns_throttle_sweep = throttle_sweep_secs nd,
        ns_publish_interval = publish_interval_secs nv nd,
        ns_partition_suspected = partition_suspected now1 nd, ns_heal_grace = heal_grace_active now2 nd\<rparr>)"

section \<open>A concrete environment\<close>

text \<open>Simple codecs with fixed-width fields, and a node on the defaults.\<close>

definition demo_codec :: codec_env where
  "demo_codec = \<lparr>cd_b64_encode = bytes_str, cd_b64_decode = (\<lambda>s. Inr (str_bytes s)),
     cd_endorsement_encode = (\<lambda>en. str_bytes (en_endorser en @ en_endorsed en) @ u64_le (en_timestamp en)),
     cd_endorsement_decode = (\<lambda>b. if length b = 136
       then Inr \<lparr>en_endorser = bytes_str (take 64 b), en_endorsed = bytes_str (take 64 (drop 64 b)),
                 en_timestamp = le_u64 (drop 128 b)\<rparr> else Inl ''eof''),
     cd_report_encode = (\<lambda>rp. str_bytes (rp_reporter rp @ rp_offender rp) @ [rp_reason rp] @ u64_le (of_nat (rp_timestamp rp))),
     cd_report_decode = (\<lambda>b. if length b = 137
       then Inr \<lparr>rp_reporter = bytes_str (take 64 b), rp_offender = bytes_str (take 64 (drop 64 b)), rp_reason = b ! 128,
                 rp_timestamp = unat (le_u64 (drop 129 b))\<rparr> else Inl ''eof''),
     cd_rotation_encode = (\<lambda>x prev n. str_bytes x @ u64_le (of_nat n)),
     cd_rotation_decode = (\<lambda>b. if length b = 72
       then Inr \<lparr>rn_x25519 = Some (bytes_str (take 64 b)), rn_rotation = Some (unat (le_u64 (drop 64 b)))\<rparr> else Inl ''eof''),
     cd_post_encode = (\<lambda>p. Some (sp_body p)),
     cd_post_decode = (\<lambda>s. Inl ''eof''),
     cd_comment_encode = (\<lambda>c. Some (sc_body c)),
     cd_comment_decode = (\<lambda>s. Inl ''eof''),
     cd_vote_decode = (\<lambda>s. Inr \<lparr>vp_target = Some s, vp_direction = Some 1, vp_table = None\<rparr>),
     cd_follow_decode = (\<lambda>s. Inr \<lparr>fp_followed = Some s, fp_unfollow = None\<rparr>),
     cd_message_decode = (\<lambda>s. Inr \<lparr>mp_recipient = Some (replicate 64 (CHR ''a'')), mp_body = Some s\<rparr>),
     cd_moderation_decode = (\<lambda>s. Inr \<lparr>op_target = Some s, op_reason = Some s\<rparr>),
     cd_media_json = concat, cd_show_float = (\<lambda>x. []), cd_show_fixed2 = (\<lambda>x. [])\<rparr>"

definition demo_nv :: node_env where
  "demo_nv = \<lparr>nv_crypto = demo_env, nv_box = demo_box, nv_deflate = demo_deflate, nv_codec = demo_codec,
     nv_known_order = sorted_list_of_set, nv_window_order = (\<lambda>m. sorted_list_of_set (Mapping.keys m)),
     nv_scores_order = (\<lambda>m. sorted_list_of_set (Mapping.keys m))\<rparr>"

definition demo_boot :: "byte \<Rightarrow> boot_env" where
  "demo_boot k = \<lparr>bt_sqlite = (\<lambda>_. Some sql_open), bt_social = (\<lambda>_. Some social_open), bt_random_seed = replicate 32 k,
     bt_session = demo_gens 0, bt_session_next = demo_gens 1, bt_now = 0, bt_started_at = 0, bt_seed_dir = True\<rparr>"

definition demo_node :: "byte \<Rightarrow> node" where
  "demo_node k = node_new demo_nv (demo_boot k)
     (node_config_default\<lparr>nc_sqlite_path := Some ''db'', nc_social_path := Some ''social''\<rparr>)"

definition demo_key :: "byte \<Rightarrow> string" where
  "demo_key k = demo_hex (replicate 32 k)"

lemma demo_key_eq [simp]: "demo_key j = demo_key k \<longleftrightarrow> j = k"
proof
  assume "demo_key j = demo_key k"
  then have "demo_unhex (demo_key j) = demo_unhex (demo_key k)" by simp
  then show "j = k" by (simp add: demo_key_def demo_unhex_hex)
qed simp

lemma demo_hex_length [simp]: "length (demo_hex b) = 2 * length b"
  using demo_unhex_length [OF demo_unhex_hex] by simp

lemma demo_id_length [simp]: "length (compute_id demo_env pk t k tags c) = 64"
  by (simp add: compute_id_def demo_env_def)

lemma demo_nv_fields [simp]:
  "nv_crypto demo_nv = demo_env" "nv_deflate demo_nv = demo_deflate" "nv_codec demo_nv = demo_codec" "nv_box demo_nv = demo_box"
  by (simp_all add: demo_nv_def)

lemma demo_orders: "lists_set (nv_known_order demo_nv)" "lists_keys (nv_window_order demo_nv)"
  by (simp_all add: demo_nv_def sorted_lists_set lists_keys_def)

lemma demo_pubkey: "pubkey_hex demo_env (replicate 32 k) = demo_key k"
  by (simp add: pubkey_hex_def demo_env_def demo_key_def)

lemma get_meta_open [simp]: "get_meta k sql_open = None"
  by (simp add: get_meta_def sql_open_def)

lemma demo_node_fields:
  "own_key demo_nv (demo_node k) = demo_key k"
  "nd_reputation (demo_node k) = bootstrap [demo_key k] reputation_new"
  "nd_gossip (demo_node k) = set_metrics 0 gossip_new"
  "id_seed (nd_identity (demo_node k)) = replicate 32 k"
  "nd_social (demo_node k) = Some social_open"
  "nd_last_seen (demo_node k) = []" "nd_heal_until (demo_node k) = 0" "nd_last_publish (demo_node k) = 0"
  "nd_spam (demo_node k) = spam_guard_new SPAM_WINDOW_SECS SPAM_BUDGET_PER_WINDOW"
  by (simp_all add: demo_node_def node_new_def boot_identity_def node_config_default_def demo_boot_def Let_def
      load_persisted_identity_seed_def identity_generate_def own_key_def id_pubkey_hex_def demo_key_def demo_env_def
      split: prod.splits)

text \<open>What an identity signs verifies.\<close>

lemma new_signed_signature:
  assumes "hex_laws ce" "sign_laws ce" "length seed = 32"
  shows "signature_valid ce (new_signed ce t seed kind content tags)"
  using assms
  by (simp add: signature_valid_def decode_hex_32_def decode_hex_64_def decode_hex_n_def new_signed_def pubkey_hex_def
      verify_from_pubkey_def hex_laws_def sign_laws_def Let_def)

lemma new_signed_fields [simp]:
  "ev_pubkey (new_signed ce t seed kind content tags) = pubkey_hex ce seed"
  "ev_kind (new_signed ce t seed kind content tags) = kind"
  "ev_content (new_signed ce t seed kind content tags) = content"
  "ev_created_at (new_signed ce t seed kind content tags) = t"
  "ev_tags (new_signed ce t seed kind content tags) = tags"
  by (simp_all add: new_signed_def Let_def)

end
