(* ===== verification/NodeGate.thy ===== *)
theory NodeGate
  imports Node
begin

text \<open>
  What a node does with an event from a peer (\<open>core/src/node/mod.rs\<close>): the admission gate, the handlers of
  each kind with their classification of violations, the dispatcher with its counters, and
  \<open>process_inbound\<close> of \<open>core/src/network/tcp.rs\<close>, which feeds it the frames of the transport.
\<close>

section \<open>The readings and draws of one event\<close>

text \<open>The handlers read the clock when they validate and when the outbox validates again, the database reads
  it for each row, and a message or report row has a random identifier.\<close>

record handler_env =
  hv_validate :: nat
  hv_gossip :: nat
  hv_store :: int
  hv_store2 :: int
  hv_id :: string

section \<open>Admission\<close>

datatype admission = Admitted | Refused string

definition em_dash :: string where
  "em_dash = bytes_str [0xE2, 0x80, 0x94]"

definition admit_peer_event :: "node_env \<Rightarrow> nat \<Rightarrow> mesh_event \<Rightarrow> node \<Rightarrow> admission \<times> node" where
  "admit_peer_event nv now e nd =
     (if \<not> signature_valid (nv_crypto nv) e then
        (Refused (''invalid signature '' @ em_dash @ '' dropped without penalty (author not attributable)''), nd)
      else if ev_pubkey e = own_key nv nd then (Admitted, nd)
      else if is_known (nd_gossip nd) (ev_id e) then
        (Admitted, nd\<lparr>nd_metrics := record_duplicated (nd_metrics nd)\<rparr>)
      else if action_for (nd_reputation nd) (ev_pubkey e) now = Ignore then
        (Refused (''author ignored (abuse level ''
           @ cd_show_fixed2 (nv_codec nv) (abuse_level (nd_reputation nd) (ev_pubkey e) now) @ '')''), nd)
      else
        let budget = (if heal_grace_active now nd then SPAM_BUDGET_PER_WINDOW * HEAL_WINDOW_BUDGET_FACTOR
                      else SPAM_BUDGET_PER_WINDOW)
        in case admit_with_budget (nv_window_order nv) (ev_pubkey e) now budget (nd_spam nd) of
             (True, g) \<Rightarrow> (Admitted, nd\<lparr>nd_spam := g\<rparr>)
           | (False, g) \<Rightarrow>
               (Refused ''rate limited: sliding-window budget exceeded for this author'',
                nd\<lparr>nd_spam := g,
                   nd_reputation := snd (record_violation (ev_pubkey e) ExcessiveRate now (nd_reputation nd))\<rparr>))"

section \<open>Alerts\<close>

text \<open>Validation, then the outbox, which validates again.\<close>

definition relay_event :: "node_env \<Rightarrow> handler_env \<Rightarrow> mesh_event \<Rightarrow> node \<Rightarrow> (string + unit) \<times> node" where
  "relay_event nv hv e nd =
     (case validate_with_reputation (nv_crypto nv) (hv_validate hv) (nd_reputation nd) e of
        Inl err \<Rightarrow> (Inl (validation_text err), nd)
      | Inr _ \<Rightarrow>
          (case add_event_with_reputation (nv_crypto nv) (hv_gossip hv) (nv_known_order nv) (nd_reputation nd) e (nd_gossip nd) of
             (Inl err, _) \<Rightarrow> (Inl (validation_text err), nd)
           | (Inr _, g) \<Rightarrow> (Inr (), nd\<lparr>nd_gossip := g\<rparr>)))"

definition handle_incoming_alert :: "node_env \<Rightarrow> handler_env \<Rightarrow> mesh_event \<Rightarrow> node \<Rightarrow> (string + bool) \<times> node" where
  "handle_incoming_alert nv hv e nd =
     (if ev_kind e \<noteq> Alert then (Inr False, nd)
      else case relay_event nv hv e nd of
        (Inl err, nd1) \<Rightarrow> (Inl err, nd1)
      | (Inr _, nd1) \<Rightarrow> (case store_and_persist nv Critical e nd1 of (stored, nd2) \<Rightarrow> (Inr stored, nd2)))"

section \<open>Endorsements and abuse reports\<close>

datatype endorsement_outcome = EoIgnored | EoApplied | EoRejected string

text \<open>The relay of an accepted statement: a validation failure is discarded.\<close>

definition relay_quietly :: "node_env \<Rightarrow> handler_env \<Rightarrow> mesh_event \<Rightarrow> node \<Rightarrow> node" where
  "relay_quietly nv hv e nd =
     nd\<lparr>nd_gossip := snd (add_event_with_reputation (nv_crypto nv) (hv_gossip hv) (nv_known_order nv)
                           (nd_reputation nd) e (nd_gossip nd))\<rparr>"

text \<open>The author is the one who signed: key and signature decode and the signature verifies.\<close>

definition handle_incoming_endorsement ::
    "node_env \<Rightarrow> handler_env \<Rightarrow> mesh_event \<Rightarrow> node \<Rightarrow> endorsement_outcome \<times> node" where
  "handle_incoming_endorsement nv hv e nd =
     (if ev_kind e \<noteq> Endorsement then (EoIgnored, nd)
      else if length (ev_content e) > 1024 then (EoRejected ''endorsement payload too large (max 1024 bytes)'', nd)
      else case cd_b64_decode (nv_codec nv) (ev_content e) of
        Inl err \<Rightarrow> (EoRejected (''endorsement payload is not valid base64: '' @ err), nd)
      | Inr data \<Rightarrow>
          (case cd_endorsement_decode (nv_codec nv) data of
             Inl err \<Rightarrow> (EoRejected (''endorsement payload is not valid JSON: '' @ err), nd)
           | Inr en \<Rightarrow>
               if en_endorser en \<noteq> ev_pubkey e then
                 (EoRejected ''endorsement endorser does not match the event signer'', nd)
               else if \<not> signature_valid (nv_crypto nv) e then
                 (EoRejected ''endorsement signature could not be verified'', nd)
               else case apply_remote_endorsement en True (nd_reputation nd) of
                 (Inl err, rep) \<Rightarrow> (EoRejected (rep_text (cd_show_float (nv_codec nv)) err), nd\<lparr>nd_reputation := rep\<rparr>)
               | (Inr _, rep) \<Rightarrow> (EoApplied, relay_quietly nv hv e (nd\<lparr>nd_reputation := rep\<rparr>))))"

datatype report_outcome = RoIgnored | RoApplied rat | RoRejected string

definition handle_incoming_abuse_report ::
    "node_env \<Rightarrow> handler_env \<Rightarrow> mesh_event \<Rightarrow> node \<Rightarrow> report_outcome \<times> node" where
  "handle_incoming_abuse_report nv hv e nd =
     (if ev_kind e \<noteq> AbuseReport then (RoIgnored, nd)
      else if length (ev_content e) > 1024 then (RoRejected ''abuse report payload too large (max 1024 bytes)'', nd)
      else case cd_b64_decode (nv_codec nv) (ev_content e) of
        Inl err \<Rightarrow> (RoRejected (''abuse report payload is not valid base64: '' @ err), nd)
      | Inr data \<Rightarrow>
          (case cd_report_decode (nv_codec nv) data of
             Inl err \<Rightarrow> (RoRejected (''abuse report payload is not valid JSON: '' @ err), nd)
           | Inr rp \<Rightarrow>
               if rp_reporter rp \<noteq> ev_pubkey e then
                 (RoRejected ''abuse reporter does not match the event signer'', nd)
               else if \<not> signature_valid (nv_crypto nv) e then
                 (RoRejected ''abuse report signature could not be verified'', nd)
               else case apply_remote_abuse_report rp True (nd_reputation nd) of
                 (Inl err, rep) \<Rightarrow> (RoRejected (rep_text (cd_show_float (nv_codec nv)) err), nd\<lparr>nd_reputation := rep\<rparr>)
               | (Inr level, rep) \<Rightarrow> (RoApplied level, relay_quietly nv hv e (nd\<lparr>nd_reputation := rep\<rparr>))))"

section \<open>Social events\<close>

definition SOCIAL_POST_MAX_BYTES :: nat where "SOCIAL_POST_MAX_BYTES = 512 * 1024"
definition SOCIAL_COMMENT_MAX_BYTES :: nat where "SOCIAL_COMMENT_MAX_BYTES = 512 * 1024"
definition SOCIAL_VOTE_MAX_BYTES :: nat where "SOCIAL_VOTE_MAX_BYTES = 4 * 1024"
definition SOCIAL_FOLLOW_MAX_BYTES :: nat where "SOCIAL_FOLLOW_MAX_BYTES = 4 * 1024"
definition SOCIAL_MESSAGE_MAX_BYTES :: nat where "SOCIAL_MESSAGE_MAX_BYTES = 16 * 1024"
definition SOCIAL_MODERATION_MAX_BYTES :: nat where "SOCIAL_MODERATION_MAX_BYTES = 8 * 1024"

datatype social_outcome =
    SoIgnored | PostStored string | CommentStored string | VoteApplied | FollowApplied
  | MessageStored | ModerationApplied

definition check_social_payload_size :: "string \<Rightarrow> string \<Rightarrow> nat \<Rightarrow> string + unit" where
  "check_social_payload_size kind content mx =
     (if length content > mx then Inl (kind @ '' payload too large (max '' @ dec_digits mx @ '' bytes)'') else Inr ())"

definition validate_social_target_ref :: "string \<Rightarrow> string \<Rightarrow> string + unit" where
  "validate_social_target_ref value field =
     (if value = [] \<or> chars_count value > MAX_SOCIAL_ID
      then Inl (field @ '' must contain 1..='' @ dec_digits MAX_SOCIAL_ID @ '' characters'') else Inr ())"

definition validate_social_pubkey_ref :: "string \<Rightarrow> string \<Rightarrow> string + unit" where
  "validate_social_pubkey_ref value field =
     (if length value \<noteq> 64 \<or> \<not> list_all is_hexdigit value then Inl (field @ '' must be a 32-byte hex pubkey'') else Inr ())"

text \<open>\<open>?\<close> on a result: stop with its error, or go on.\<close>

definition attempt :: "string + 'a \<Rightarrow> ('a \<Rightarrow> (string + 'b) \<times> node) \<Rightarrow> node \<Rightarrow> (string + 'b) \<times> node" where
  "attempt r k nd = (case r of Inl err \<Rightarrow> (Inl err, nd) | Inr x \<Rightarrow> k x)"

definition text_error :: "(string \<Rightarrow> string) \<Rightarrow> string + 'a \<Rightarrow> string + 'a" where
  "text_error f r = (case r of Inl err \<Rightarrow> Inl (f err) | Inr x \<Rightarrow> Inr x)"

text \<open>Relay, then the best-effort write into the cache, then the outcome.\<close>

definition relay_then :: "node_env \<Rightarrow> handler_env \<Rightarrow> mesh_event \<Rightarrow> (social_db \<Rightarrow> social_db) \<Rightarrow> 'a \<Rightarrow> node \<Rightarrow> (string + 'a) \<times> node" where
  "relay_then nv hv e write outcome nd =
     (case relay_event nv hv e nd of
        (Inl err, nd1) \<Rightarrow> (Inl err, nd1)
      | (Inr _, nd1) \<Rightarrow> (Inr outcome, nd1\<lparr>nd_social := map_option write (nd_social nd1)\<rparr>))"

definition on_social_post :: "node_env \<Rightarrow> handler_env \<Rightarrow> mesh_event \<Rightarrow> node \<Rightarrow> (string + social_outcome) \<times> node" where
  "on_social_post nv hv e nd =
     attempt (check_social_payload_size ''social post'' (ev_content e) SOCIAL_POST_MAX_BYTES) (\<lambda>_.
     attempt (text_error (\<lambda>x. ''social post decode: '' @ x) (cd_post_decode (nv_codec nv) (ev_content e))) (\<lambda>post.
     case post_validate (nv_crypto nv) post of
       Inl err \<Rightarrow> (Inl (social_text err), nd)
     | Inr _ \<Rightarrow> relay_then nv hv e
         (\<lambda>db. snd (insert_post (hv_store2 hv) (cd_media_json (nv_codec nv)) post (ensure_user (hv_store hv) (sp_author post) db)))
         (PostStored (sp_id post)) nd) nd) nd"

definition on_social_comment :: "node_env \<Rightarrow> handler_env \<Rightarrow> mesh_event \<Rightarrow> node \<Rightarrow> (string + social_outcome) \<times> node" where
  "on_social_comment nv hv e nd =
     attempt (check_social_payload_size ''social comment'' (ev_content e) SOCIAL_COMMENT_MAX_BYTES) (\<lambda>_.
     attempt (text_error (\<lambda>x. ''social comment decode: '' @ x) (cd_comment_decode (nv_codec nv) (ev_content e))) (\<lambda>comment.
     case comment_validate (nv_crypto nv) comment of
       Inl err \<Rightarrow> (Inl (social_text err), nd)
     | Inr _ \<Rightarrow> relay_then nv hv e
         (\<lambda>db. snd (insert_comment (hv_store2 hv) comment (ensure_user (hv_store hv) (sc_author comment) db)))
         (CommentStored (sc_id comment)) nd) nd) nd"

definition or_default :: "'a \<Rightarrow> 'a option \<Rightarrow> 'a" where
  "or_default d x = (case x of Some v \<Rightarrow> v | None \<Rightarrow> d)"

definition on_social_vote :: "node_env \<Rightarrow> handler_env \<Rightarrow> mesh_event \<Rightarrow> node \<Rightarrow> (string + social_outcome) \<times> node" where
  "on_social_vote nv hv e nd =
     attempt (check_social_payload_size ''vote'' (ev_content e) SOCIAL_VOTE_MAX_BYTES) (\<lambda>_.
     attempt (text_error (\<lambda>x. ''vote payload decode: '' @ x) (cd_vote_decode (nv_codec nv) (ev_content e))) (\<lambda>payload.
     let target_id = or_default [] (vp_target payload);
         direction = or_default 1 (vp_direction payload);
         target_table = or_default ''posts'' (vp_table payload)
     in attempt (validate_social_target_ref target_id ''vote target_id'') (\<lambda>_.
        if direction < -1 \<or> direction > 1 then (Inl ''vote direction must be -1 or 1'', nd)
        else if target_table \<noteq> ''posts'' \<and> target_table \<noteq> ''comments'' then
          (Inl (''unknown vote target table: '' @ target_table), nd)
        else relay_then nv hv e
          (\<lambda>db. snd (vote (hv_store hv) (ev_pubkey e) target_id direction target_table db)) VoteApplied nd) nd) nd) nd"

definition on_social_follow :: "node_env \<Rightarrow> handler_env \<Rightarrow> mesh_event \<Rightarrow> node \<Rightarrow> (string + social_outcome) \<times> node" where
  "on_social_follow nv hv e nd =
     attempt (check_social_payload_size ''follow'' (ev_content e) SOCIAL_FOLLOW_MAX_BYTES) (\<lambda>_.
     attempt (text_error (\<lambda>x. ''follow payload decode: '' @ x) (cd_follow_decode (nv_codec nv) (ev_content e))) (\<lambda>payload.
     let followed = or_default [] (fp_followed payload);
         unfollowing = or_default False (fp_unfollow payload)
     in attempt (validate_social_pubkey_ref followed ''follow target'') (\<lambda>_.
        relay_then nv hv e
          (\<lambda>db. if unfollowing then unfollow (ev_pubkey e) followed db
                else follow (hv_store hv) (ev_pubkey e) followed db) FollowApplied nd) nd) nd) nd"

definition on_social_message :: "node_env \<Rightarrow> handler_env \<Rightarrow> mesh_event \<Rightarrow> node \<Rightarrow> (string + social_outcome) \<times> node" where
  "on_social_message nv hv e nd =
     attempt (check_social_payload_size ''private message'' (ev_content e) SOCIAL_MESSAGE_MAX_BYTES) (\<lambda>_.
     attempt (text_error (\<lambda>x. ''message payload decode: '' @ x) (cd_message_decode (nv_codec nv) (ev_content e))) (\<lambda>payload.
     let recipient = or_default [] (mp_recipient payload);
         body = or_default [] (mp_body payload)
     in attempt (validate_social_pubkey_ref recipient ''message recipient'') (\<lambda>_.
        if trim_ws body = [] then (Inl ''message body cannot be empty'', nd)
        else if chars_count body > MAX_PRIVATE_MESSAGE_BODY then
          (Inl (''message body exceeds '' @ dec_digits MAX_PRIVATE_MESSAGE_BODY @ '' characters''), nd)
        else relay_then nv hv e
          (\<lambda>db. insert_message (hv_store hv) (hv_id hv) (ev_pubkey e) recipient body db) MessageStored nd) nd) nd) nd"

definition on_social_moderation :: "node_env \<Rightarrow> handler_env \<Rightarrow> mesh_event \<Rightarrow> node \<Rightarrow> (string + social_outcome) \<times> node" where
  "on_social_moderation nv hv e nd =
     attempt (check_social_payload_size ''moderation report'' (ev_content e) SOCIAL_MODERATION_MAX_BYTES) (\<lambda>_.
     attempt (text_error (\<lambda>x. ''moderation payload decode: '' @ x) (cd_moderation_decode (nv_codec nv) (ev_content e))) (\<lambda>payload.
     let target_id = or_default [] (op_target payload);
         reason = or_default [] (op_reason payload)
     in attempt (validate_social_target_ref target_id ''moderation target_id'') (\<lambda>_.
        if trim_ws reason = [] then (Inl ''moderation reason cannot be empty'', nd)
        else if chars_count reason > MAX_MODERATION_REASON then
          (Inl (''moderation reason exceeds '' @ dec_digits MAX_MODERATION_REASON @ '' characters''), nd)
        else relay_then nv hv e
          (\<lambda>db. submit_report (hv_store hv) (hv_id hv) (ev_pubkey e) target_id reason db) ModerationApplied nd) nd) nd) nd"

definition handle_incoming_social :: "node_env \<Rightarrow> handler_env \<Rightarrow> mesh_event \<Rightarrow> node \<Rightarrow> (string + social_outcome) \<times> node" where
  "handle_incoming_social nv hv e nd =
     (case ev_kind e of
        SocialPost \<Rightarrow> on_social_post nv hv e nd
      | SocialComment \<Rightarrow> on_social_comment nv hv e nd
      | SocialVote \<Rightarrow> on_social_vote nv hv e nd
      | SocialFollow \<Rightarrow> on_social_follow nv hv e nd
      | SocialMessage \<Rightarrow> on_social_message nv hv e nd
      | SocialModeration \<Rightarrow> on_social_moderation nv hv e nd
      | _ \<Rightarrow> (Inr SoIgnored, nd))"

section \<open>The dispatcher\<close>

datatype peer_outcome =
    PoRejected string | AlertStored | AlertNotStored | EndorsementApplied | EndorsementRejected string
  | AbuseReportApplied rat | AbuseReportRejected string | PoSocial social_outcome | PoOther

definition penalize_author :: "mesh_event \<Rightarrow> abuse_reason \<Rightarrow> nat \<Rightarrow> node \<Rightarrow> node" where
  "penalize_author e reason now nd =
     nd\<lparr>nd_reputation := snd (record_violation (ev_pubkey e) reason now (nd_reputation nd))\<rparr>"

definition failure_reason :: "string \<Rightarrow> abuse_reason" where
  "failure_reason err = (if contains err ''PoW'' then InsufficientPow else InvalidEvent)"

definition political_noise :: "string \<Rightarrow> bool" where
  "political_noise err \<longleftrightarrow>
     contains err ''Duplicate'' \<or> contains err ''not trusted'' \<or> contains err ''cannot endorse itself''"

definition route_event :: "node_env \<Rightarrow> handler_env \<Rightarrow> nat \<Rightarrow> mesh_event \<Rightarrow> node \<Rightarrow> peer_outcome \<times> node" where
  "route_event nv hv now e nd =
     (if ev_kind e = Alert then
        (case handle_incoming_alert nv hv e nd of
           (Inr stored, nd1) \<Rightarrow> (if stored then AlertStored else AlertNotStored, nd1)
         | (Inl err, nd1) \<Rightarrow>
             (PoRejected (''invalid signed event: '' @ err), penalize_author e (failure_reason err) now nd1))
      else if ev_kind e = Endorsement then
        (case handle_incoming_endorsement nv hv e nd of
           (EoApplied, nd1) \<Rightarrow> (EndorsementApplied, nd1)
         | (EoIgnored, nd1) \<Rightarrow> (PoOther, nd1)
         | (EoRejected err, nd1) \<Rightarrow>
             (EndorsementRejected err, if political_noise err then nd1 else penalize_author e InvalidEvent now nd1))
      else if ev_kind e = AbuseReport then
        (case handle_incoming_abuse_report nv hv e nd of
           (RoApplied level, nd1) \<Rightarrow> (AbuseReportApplied level, nd1)
         | (RoIgnored, nd1) \<Rightarrow> (PoOther, nd1)
         | (RoRejected err, nd1) \<Rightarrow> (AbuseReportRejected err, nd1))
      else if ev_kind e \<in> {SocialPost, SocialComment, SocialVote, SocialFollow, SocialMessage, SocialModeration} then
        (case handle_incoming_social nv hv e nd of
           (Inr outcome, nd1) \<Rightarrow> (PoSocial outcome, nd1)
         | (Inl err, nd1) \<Rightarrow>
             (PoRejected (''invalid social event: '' @ err), penalize_author e (failure_reason err) now nd1))
      else (PoOther, nd))"

definition receive_peer_event_inner :: "node_env \<Rightarrow> handler_env \<Rightarrow> nat \<Rightarrow> mesh_event \<Rightarrow> node \<Rightarrow> peer_outcome \<times> node" where
  "receive_peer_event_inner nv hv now e nd =
     (case admit_peer_event nv now e nd of
        (Refused reason, nd1) \<Rightarrow> (PoRejected reason, nd1)
      | (Admitted, nd1) \<Rightarrow>
          route_event nv hv now e
            (if ev_pubkey e \<noteq> own_key nv nd1 then note_peer_traffic (ev_pubkey e) now nd1 else nd1))"

fun ingests :: "peer_outcome \<Rightarrow> bool" where
  "ingests AlertStored = True"
| "ingests EndorsementApplied = True"
| "ingests (AbuseReportApplied _) = True"
| "ingests (PoSocial so) = (so \<noteq> SoIgnored)"
| "ingests _ = False"

fun rejects :: "peer_outcome \<Rightarrow> bool" where
  "rejects (PoRejected _) = True"
| "rejects (EndorsementRejected _) = True"
| "rejects (AbuseReportRejected _) = True"
| "rejects _ = False"

definition receive_peer_event :: "node_env \<Rightarrow> handler_env \<Rightarrow> nat \<Rightarrow> mesh_event \<Rightarrow> node \<Rightarrow> peer_outcome \<times> node" where
  "receive_peer_event nv hv now e nd =
     (case receive_peer_event_inner nv hv now e nd of
        (outcome, nd1) \<Rightarrow>
          (outcome, if ingests outcome then nd1\<lparr>nd_metrics := record_ingested (nd_metrics nd1)\<rparr>
                    else if rejects outcome then nd1\<lparr>nd_metrics := record_rejected (nd_metrics nd1)\<rparr>
                    else nd1))"

section \<open>From the transport\<close>

record pump_report =
  pm_frames :: nat
  pm_ingested :: nat
  pm_rejected :: nat
  pm_neutral :: nat
  pm_decode_errors :: nat
  pm_queued_outbound :: nat

definition pump_zero :: pump_report where
  "pump_zero = \<lparr>pm_frames = 0, pm_ingested = 0, pm_rejected = 0, pm_neutral = 0, pm_decode_errors = 0,
     pm_queued_outbound = 0\<rparr>"

text \<open>One frame; the readings are those of its event.\<close>

definition process_frame ::
    "node_env \<Rightarrow> handler_env \<times> nat \<Rightarrow> inbound_frame \<Rightarrow> pump_report \<times> node \<Rightarrow> pump_report \<times> node" where
  "process_frame nv reading frame acc =
     (case acc of (rep, nd) \<Rightarrow>
       (let rep1 = rep\<lparr>pm_frames := pm_frames rep + 1\<rparr>
        in case from_wire_bytes (nv_crypto nv) (if_payload frame) of
             Inl _ \<Rightarrow> (rep1\<lparr>pm_decode_errors := pm_decode_errors rep1 + 1\<rparr>, nd)
           | Inr e \<Rightarrow>
               (case receive_peer_event nv (fst reading) (snd reading) e nd of
                  (outcome, nd1) \<Rightarrow>
                    (if ingests outcome then rep1\<lparr>pm_ingested := pm_ingested rep1 + 1\<rparr>
                     else if rejects outcome then rep1\<lparr>pm_rejected := pm_rejected rep1 + 1\<rparr>
                     else rep1\<lparr>pm_neutral := pm_neutral rep1 + 1\<rparr>, nd1))))"

fun process_frames ::
    "node_env \<Rightarrow> (nat \<Rightarrow> handler_env \<times> nat) \<Rightarrow> nat \<Rightarrow> inbound_frame list \<Rightarrow> pump_report \<times> node \<Rightarrow> pump_report \<times> node" where
  "process_frames nv readings i [] acc = acc"
| "process_frames nv readings i (f # fs) acc =
     process_frames nv readings (i + 1) fs (process_frame nv (readings i) f acc)"

definition process_inbound ::
    "node_env \<Rightarrow> (nat \<Rightarrow> handler_env \<times> nat) \<Rightarrow> node \<Rightarrow> transport \<Rightarrow> pump_report \<times> node \<times> transport" where
  "process_inbound nv readings nd tp =
     (case drain_inbound tp of
        (frames, tp1) \<Rightarrow>
          (case process_frames nv readings 0 frames (pump_zero, nd) of (rep, nd1) \<Rightarrow> (rep, nd1, tp1)))"

end
