(* ===== verification/NodeSafety.thy ===== *)
theory NodeSafety
  imports NodeGate
begin

text \<open>
  What a received event can and cannot do to a node: the fields each handler leaves alone, who can
  change the reputation, the counters of \<open>process_inbound\<close>, and how a replayed event harms its author.
\<close>

section \<open>What an event can change\<close>

definition demo_hv :: handler_env where
  "demo_hv = \<lparr>hv_validate = 7, hv_gossip = 7, hv_store = 7, hv_store2 = 7, hv_id = ''id''\<rparr>"

text \<open>What receiving leaves alone.\<close>

lemma own_key_cong: "nd_identity nd' = nd_identity nd \<Longrightarrow> own_key nv nd' = own_key nv nd"
  by (simp add: own_key_def)

lemma note_peer_fields [simp]:
  "nd_reputation (note_peer_traffic p now nd) = nd_reputation nd"
  "nd_gossip (note_peer_traffic p now nd) = nd_gossip nd"
  "nd_identity (note_peer_traffic p now nd) = nd_identity nd"
  "nd_store (note_peer_traffic p now nd) = nd_store nd"
  "nd_social (note_peer_traffic p now nd) = nd_social nd"
  "nd_config (note_peer_traffic p now nd) = nd_config nd"
  "nd_spam (note_peer_traffic p now nd) = nd_spam nd"
  "nd_persistence (note_peer_traffic p now nd) = nd_persistence nd"
  by (simp_all add: note_peer_traffic_def Let_def)

definition untouched :: "node \<Rightarrow> node \<Rightarrow> bool" where
  "untouched nd nd' \<longleftrightarrow>
     nd_config nd' = nd_config nd \<and> nd_identity nd' = nd_identity nd \<and> nd_rotator nd' = nd_rotator nd
   \<and> nd_mesh nd' = nd_mesh nd \<and> nd_tx_pool nd' = nd_tx_pool nd \<and> nd_ai nd' = nd_ai nd
   \<and> nd_zim nd' = nd_zim nd \<and> nd_maps nd' = nd_maps nd \<and> nd_seeder nd' = nd_seeder nd
   \<and> nd_running nd' = nd_running nd \<and> nd_last_publish nd' = nd_last_publish nd
   \<and> nd_update nd' = nd_update nd \<and> nd_update_root nd' = nd_update_root nd
   \<and> nd_pending_announcement nd' = nd_pending_announcement nd \<and> nd_update_offer nd' = nd_update_offer nd
   \<and> nd_peer_x25519 nd' = nd_peer_x25519 nd \<and> nd_peer_grace nd' = nd_peer_grace nd
   \<and> nd_peer_rotations nd' = nd_peer_rotations nd"

lemma untouched_refl [simp]: "untouched nd nd"
  by (simp add: untouched_def)

lemma untouched_trans: "untouched a b \<Longrightarrow> untouched b c \<Longrightarrow> untouched a c"
  by (simp add: untouched_def)

lemma untouched_update [simp]:
  "untouched nd (nd'\<lparr>nd_reputation := r\<rparr>) = untouched nd nd'"
  "untouched nd (nd'\<lparr>nd_spam := g\<rparr>) = untouched nd nd'"
  "untouched nd (nd'\<lparr>nd_gossip := go\<rparr>) = untouched nd nd'"
  "untouched nd (nd'\<lparr>nd_metrics := m\<rparr>) = untouched nd nd'"
  "untouched nd (nd'\<lparr>nd_store := st\<rparr>) = untouched nd nd'"
  "untouched nd (nd'\<lparr>nd_persistence := db\<rparr>) = untouched nd nd'"
  "untouched nd (nd'\<lparr>nd_social := sd\<rparr>) = untouched nd nd'"
  "untouched nd (nd'\<lparr>nd_last_seen := ls\<rparr>) = untouched nd nd'"
  "untouched nd (nd'\<lparr>nd_heal_until := h\<rparr>) = untouched nd nd'"
  by (simp_all add: untouched_def)

text \<open>Handlers also leave the presence book, the spam windows and the counters alone.\<close>

definition handled :: "node \<Rightarrow> node \<Rightarrow> bool" where
  "handled nd nd' \<longleftrightarrow> untouched nd nd' \<and> nd_metrics nd' = nd_metrics nd \<and> nd_spam nd' = nd_spam nd
     \<and> nd_last_seen nd' = nd_last_seen nd \<and> nd_heal_until nd' = nd_heal_until nd"

lemma handled_refl [simp]: "handled nd nd"
  by (simp add: handled_def)

lemma handled_trans: "handled a b \<Longrightarrow> handled b c \<Longrightarrow> handled a c"
  by (auto simp: handled_def intro: untouched_trans)

lemma handled_update [simp]:
  "handled nd (nd'\<lparr>nd_reputation := r\<rparr>) = handled nd nd'"
  "handled nd (nd'\<lparr>nd_gossip := go\<rparr>) = handled nd nd'"
  "handled nd (nd'\<lparr>nd_store := st\<rparr>) = handled nd nd'"
  "handled nd (nd'\<lparr>nd_persistence := db\<rparr>) = handled nd nd'"
  "handled nd (nd'\<lparr>nd_social := sd\<rparr>) = handled nd nd'"
  by (simp_all add: handled_def)

lemma relay_event_frame [simp]:
  "handled nd (snd (relay_event nv hv e nd))"
  "nd_reputation (snd (relay_event nv hv e nd)) = nd_reputation nd"
  by (simp_all add: relay_event_def split: sum.split prod.split)

lemma store_and_persist_frame [simp]:
  "handled nd (snd (store_and_persist nv tier e nd))"
  "nd_reputation (snd (store_and_persist nv tier e nd)) = nd_reputation nd"
  "nd_gossip (snd (store_and_persist nv tier e nd)) = nd_gossip nd"
  by (simp_all add: store_and_persist_def node_persist_message_def Let_def split: prod.split)

lemma relay_quietly_frame [simp]:
  "handled nd' (relay_quietly nv hv e nd) = handled nd' nd"
  "nd_reputation (relay_quietly nv hv e nd) = nd_reputation nd"
  by (simp_all add: relay_quietly_def)

lemma relay_then_frame [simp]:
  "handled nd (snd (relay_then nv hv e w oc nd))"
  "nd_reputation (snd (relay_then nv hv e w oc nd)) = nd_reputation nd"
  using relay_event_frame(1) [where nv = nv and hv = hv and e = e and nd = nd]
    relay_event_frame(2) [where nv = nv and hv = hv and e = e and nd = nd]
  by (auto simp: relay_then_def simp del: relay_event_frame split: prod.splits sum.splits)


lemma handle_social_frame [simp]:
  "handled nd (snd (handle_incoming_social nv hv e nd))
   \<and> nd_reputation (snd (handle_incoming_social nv hv e nd)) = nd_reputation nd"
proof -
  have a: "handled nd (snd (attempt r k nd)) \<and> nd_reputation (snd (attempt r k nd)) = nd_reputation nd"
    if "\<And>x. handled nd (snd (k x)) \<and> nd_reputation (snd (k x)) = nd_reputation nd"
    for r :: "string + 'x" and k :: "'x \<Rightarrow> (string + social_outcome) \<times> node"
    using that by (cases r) (auto simp: attempt_def)
  show ?thesis
    unfolding handle_incoming_social_def
    by (cases "ev_kind e")
      (simp_all add: on_social_post_def on_social_comment_def on_social_vote_def on_social_follow_def
        on_social_message_def on_social_moderation_def a Let_def split: sum.split)
qed

lemma endorse_effect:
  "rs_abuse (snd (endorse a b ts r)) = rs_abuse r"
  "\<not> score r a \<ge> ENDORSEMENT_THRESHOLD \<Longrightarrow> snd (endorse a b ts r) = r"
  by (auto simp: endorse_def Let_def not_le)

lemma remote_endorse_effect:
  "rs_abuse (snd (apply_remote_endorsement en v r)) = rs_abuse r"
  "\<not> score r (en_endorser en) \<ge> ENDORSEMENT_THRESHOLD \<Longrightarrow> snd (apply_remote_endorsement en v r) = r"
  using endorse_effect(1) [of "en_endorser en" "en_endorsed en" "en_timestamp en" r]
    endorse_effect(2) [of r "en_endorser en" "en_endorsed en" "en_timestamp en"]
  by (auto simp: apply_remote_endorsement_def split: prod.splits sum.splits)

lemma remote_report_effect:
  "rs_scores (snd (apply_remote_abuse_report rp v r)) = rs_scores r"
  "\<not> score r (rp_reporter rp) \<ge> ENDORSEMENT_THRESHOLD \<Longrightarrow> snd (apply_remote_abuse_report rp v r) = r"
  by (auto simp: apply_remote_abuse_report_def Let_def not_le split: prod.splits)

lemma violation_effect:
  "rs_scores (snd (record_violation k reason t r)) = rs_scores r"
  "a \<noteq> k \<Longrightarrow> Mapping.lookup (rs_abuse (snd (record_violation k reason t r))) a = Mapping.lookup (rs_abuse r) a"
  by (simp_all add: record_violation_def Mapping.lookup_update_neq split: prod.split)

text \<open>\<open>fair e r r'\<close>: what the event \<open>e\<close> may do to the reputation.\<close>

definition fair :: "mesh_event \<Rightarrow> reputation \<Rightarrow> reputation \<Rightarrow> bool" where
  "fair e r r' \<longleftrightarrow>
     (rs_scores r' \<noteq> rs_scores r \<longrightarrow> ev_kind e = Endorsement \<and> is_trusted r (ev_pubkey e))
   \<and> (\<forall>a. Mapping.lookup (rs_abuse r') a \<noteq> Mapping.lookup (rs_abuse r) a \<longrightarrow>
         a = ev_pubkey e \<or> ev_kind e = AbuseReport \<and> is_trusted r (ev_pubkey e))"

lemma fair_refl [simp]: "fair e r r"
  by (simp add: fair_def)

lemma fair_violation: "fair e r r' \<Longrightarrow> fair e r (snd (record_violation (ev_pubkey e) reason t r'))"
  by (auto simp: fair_def violation_effect)

lemma handle_endorsement_frame [simp]:
  "handled nd (snd (handle_incoming_endorsement nv hv e nd))"
  by (simp add: handle_incoming_endorsement_def split: sum.split prod.split)

lemma handle_report_frame [simp]:
  "handled nd (snd (handle_incoming_abuse_report nv hv e nd))"
  by (simp add: handle_incoming_abuse_report_def split: sum.split prod.split)

lemma handle_endorsement_fair:
  "fair e (nd_reputation nd) (nd_reputation (snd (handle_incoming_endorsement nv hv e nd)))"
proof -
  have f: "fair e (nd_reputation nd) rep"
    if "apply_remote_endorsement en True (nd_reputation nd) = (res, rep)" "en_endorser en = ev_pubkey e" "ev_kind e = Endorsement"
    for en res rep
    using remote_endorse_effect(1) [of en True "nd_reputation nd"]
      remote_endorse_effect(2) [of "nd_reputation nd" en True] that
    by (auto simp: fair_def is_trusted_def threshold_eq)
  show ?thesis
    by (auto simp: handle_incoming_endorsement_def split: sum.split prod.split intro: f)
qed

lemma handle_report_fair:
  "fair e (nd_reputation nd) (nd_reputation (snd (handle_incoming_abuse_report nv hv e nd)))"
proof -
  have f: "fair e (nd_reputation nd) rep"
    if "apply_remote_abuse_report rp True (nd_reputation nd) = (res, rep)" "rp_reporter rp = ev_pubkey e" "ev_kind e = AbuseReport"
    for rp res rep
    using remote_report_effect(1) [of rp True "nd_reputation nd"]
      remote_report_effect(2) [of "nd_reputation nd" rp True] that
    by (auto simp: fair_def is_trusted_def threshold_eq)
  show ?thesis
    by (auto simp: handle_incoming_abuse_report_def split: sum.split prod.split intro: f)
qed

lemma handle_alert_frame:
  "handled nd (snd (handle_incoming_alert nv hv e nd))
   \<and> nd_reputation (snd (handle_incoming_alert nv hv e nd)) = nd_reputation nd"
proof -
  have r: "handled nd (snd (relay_event nv hv e nd))"
    "nd_reputation (snd (relay_event nv hv e nd)) = nd_reputation nd" by simp_all
  have s: "handled nd' (snd (store_and_persist nv Critical e nd'))"
    "nd_reputation (snd (store_and_persist nv Critical e nd')) = nd_reputation nd'" for nd' by simp_all
  show ?thesis
  proof (cases "relay_event nv hv e nd")
    case (Pair res nd1)
    then have 1: "handled nd nd1" "nd_reputation nd1 = nd_reputation nd" using r by simp_all
    show ?thesis
    proof (cases "store_and_persist nv Critical e nd1")
      case (Pair st nd2)
      then have "handled nd1 nd2" "nd_reputation nd2 = nd_reputation nd1" using s [of nd1] by simp_all
      with 1 Pair \<open>relay_event nv hv e nd = (res, nd1)\<close> show ?thesis
        by (auto simp: handle_incoming_alert_def intro: handled_trans split: sum.split)
    qed
  qed
qed

lemma penalize_frame [simp]:
  "handled nd' (penalize_author e reason now nd) = handled nd' nd"
  "nd_reputation (penalize_author e reason now nd) = snd (record_violation (ev_pubkey e) reason now (nd_reputation nd))"
  by (simp_all add: penalize_author_def)

definition fair_handled :: "mesh_event \<Rightarrow> node \<Rightarrow> node \<Rightarrow> bool" where
  "fair_handled e nd nd' \<longleftrightarrow> handled nd nd' \<and> fair e (nd_reputation nd) (nd_reputation nd')"

lemma fair_handled_penalize: "fair_handled e nd nd' \<Longrightarrow> fair_handled e nd (penalize_author e reason now nd')"
  by (simp add: fair_handled_def fair_violation)

lemma route_fair: "fair_handled e nd (snd (route_event nv hv now e nd))"
proof -
  note pen = fair_handled_penalize [where e = e and nd = nd and now = now]
  consider (alert) "ev_kind e = Alert" | (endorsement) "ev_kind e = Endorsement" | (report) "ev_kind e = AbuseReport"
    | (social) "ev_kind e \<in> {SocialPost, SocialComment, SocialVote, SocialFollow, SocialMessage, SocialModeration}"
    | (other) "ev_kind e \<notin> {Alert, Endorsement, AbuseReport, SocialPost, SocialComment, SocialVote, SocialFollow,
        SocialMessage, SocialModeration}"
    by blast
  then show ?thesis
  proof cases
    case alert
    obtain res nd1 where h: "handle_incoming_alert nv hv e nd = (res, nd1)" by (cases "handle_incoming_alert nv hv e nd")
    then have "fair_handled e nd nd1" using handle_alert_frame [of nd nv hv e] by (simp add: fair_handled_def)
    with h alert show ?thesis by (cases res) (simp_all add: route_event_def pen)
  next
    case endorsement
    obtain res nd1 where h: "handle_incoming_endorsement nv hv e nd = (res, nd1)"
      by (cases "handle_incoming_endorsement nv hv e nd")
    then have "fair_handled e nd nd1"
      using handle_endorsement_frame [of nd nv hv e] handle_endorsement_fair [of e nd nv hv] by (simp add: fair_handled_def)
    with h endorsement show ?thesis by (cases res) (simp_all add: route_event_def pen)
  next
    case report
    obtain res nd1 where h: "handle_incoming_abuse_report nv hv e nd = (res, nd1)"
      by (cases "handle_incoming_abuse_report nv hv e nd")
    then have "fair_handled e nd nd1"
      using handle_report_frame [of nd nv hv e] handle_report_fair [of e nd nv hv] by (simp add: fair_handled_def)
    with h report show ?thesis by (cases res) (simp_all add: route_event_def)
  next
    case social
    obtain res nd1 where h: "handle_incoming_social nv hv e nd = (res, nd1)" by (cases "handle_incoming_social nv hv e nd")
    then have "fair_handled e nd nd1"
      using handle_social_frame [where nv = nv and hv = hv and e = e and nd = nd] by (simp add: fair_handled_def)
    with h social show ?thesis by (cases res) (auto simp: route_event_def pen)
  next
    case other
    then show ?thesis by (auto simp: route_event_def fair_handled_def)
  qed
qed

definition fair_step :: "mesh_event \<Rightarrow> node \<Rightarrow> node \<Rightarrow> bool" where
  "fair_step e nd nd' \<longleftrightarrow> untouched nd nd' \<and> fair e (nd_reputation nd) (nd_reputation nd')"

lemma fair_handled_step: "fair_handled e nd nd' \<Longrightarrow> fair_step e nd nd'"
  by (simp add: fair_handled_def fair_step_def handled_def)

lemma admit_fair: "fair_step e nd (snd (admit_peer_event nv now e nd))"
  by (auto simp: admit_peer_event_def fair_step_def fair_violation Let_def split: prod.split bool.split)

lemma fair_step_trans: "fair_step e a b \<Longrightarrow> nd_reputation b = nd_reputation a \<Longrightarrow> fair_step e b c \<Longrightarrow> fair_step e a c"
  by (auto simp: fair_step_def intro: untouched_trans)

lemma admitted_reputation:
  "admit_peer_event nv now e nd = (Admitted, nd') \<Longrightarrow> nd_reputation nd' = nd_reputation nd"
  by (auto simp: admit_peer_event_def Let_def split: if_splits prod.splits bool.splits)

lemma note_peer_untouched [simp]: "untouched nd' (note_peer_traffic p now nd) = untouched nd' nd"
  by (simp add: note_peer_traffic_def Let_def)

lemma receive_inner_fair: "fair_step e nd (snd (receive_peer_event_inner nv hv now e nd))"
proof -
  obtain ad nd1 where a: "admit_peer_event nv now e nd = (ad, nd1)" by (cases "admit_peer_event nv now e nd")
  show ?thesis
  proof (cases ad)
    case (Refused reason)
    then show ?thesis using admit_fair [of e nd nv now] a by (simp add: receive_peer_event_inner_def)
  next
    case Admitted
    let ?nd2 = "if ev_pubkey e \<noteq> own_key nv nd1 then note_peer_traffic (ev_pubkey e) now nd1 else nd1"
    have r1: "nd_reputation nd1 = nd_reputation nd" using a Admitted by (simp add: admitted_reputation)
    have "fair_step e nd nd1" using admit_fair [of e nd nv now] a by simp
    then have "fair_step e nd ?nd2" by (simp add: fair_step_def)
    moreover have "nd_reputation ?nd2 = nd_reputation nd" using r1 by simp
    ultimately have "fair_step e nd (snd (route_event nv hv now e ?nd2))"
      using fair_handled_step [OF route_fair [of e ?nd2 nv hv now]] fair_step_trans by blast
    then show ?thesis using a Admitted by (simp add: receive_peer_event_inner_def)
  qed
qed

lemma receive_fair: "fair_step e nd (snd (receive_peer_event nv hv now e nd))"
  using receive_inner_fair [of e nd nv hv now]
  by (auto simp: receive_peer_event_def fair_step_def split: prod.split)

text \<open>C2: Whatever event arrives, the node's identity, configuration, transactions, updates and peer keys stay
  as they are; scores change only by an endorsement from an author trusted here, the abuse record of
  somebody other than the author only by a report from an author trusted here; and an event without a
  valid signature changes nothing but the count of rejected messages.\<close>

theorem trust_changes_need_trust:
  assumes "receive_peer_event nv hv now e nd = (outcome, nd')"
  shows "untouched nd nd'
    \<and> (rs_scores (nd_reputation nd') \<noteq> rs_scores (nd_reputation nd)
        \<longrightarrow> ev_kind e = Endorsement \<and> is_trusted (nd_reputation nd) (ev_pubkey e))
    \<and> (\<forall>a. Mapping.lookup (rs_abuse (nd_reputation nd')) a \<noteq> Mapping.lookup (rs_abuse (nd_reputation nd)) a
        \<longrightarrow> a = ev_pubkey e \<or> ev_kind e = AbuseReport \<and> is_trusted (nd_reputation nd) (ev_pubkey e))
    \<and> (\<not> signature_valid (nv_crypto nv) e
        \<longrightarrow> rejects outcome \<and> nd' = nd\<lparr>nd_metrics := record_rejected (nd_metrics nd)\<rparr>)"
proof -
  have "rejects outcome \<and> nd' = nd\<lparr>nd_metrics := record_rejected (nd_metrics nd)\<rparr>"
    if "\<not> signature_valid (nv_crypto nv) e"
    using assms that by (auto simp: receive_peer_event_def receive_peer_event_inner_def admit_peer_event_def)
  then show ?thesis
    using receive_fair [of e nd nv hv now] unfolding assms by (auto simp: fair_step_def fair_def)
qed

lemma trust_changes_need_trust_witness:
  "snd (receive_peer_event demo_nv demo_hv 7 (new_signed demo_env 0 (replicate 32 1) Alert ''hi'' []\<lparr>ev_sig := []\<rparr>) (demo_node 2))
     = demo_node 2\<lparr>nd_metrics := record_rejected (nd_metrics (demo_node 2))\<rparr>"
proof -
  let ?e = "new_signed demo_env 0 (replicate 32 1) Alert ''hi'' []\<lparr>ev_sig := []\<rparr>"
  have "\<not> signature_valid demo_env ?e"
    by (auto simp: signature_valid_iff demo_env_def)
  then show ?thesis
    using trust_changes_need_trust [OF prod.collapse [symmetric], where nv = demo_nv and e = ?e and nd = "demo_node 2"] by simp
qed

section \<open>A pass over the inbound queue\<close>

definition receive_all :: "node_env \<Rightarrow> (handler_env \<times> nat \<times> mesh_event) list \<Rightarrow> node \<Rightarrow> node" where
  "receive_all nv evs nd = fold (\<lambda>(hv, now, e) nd. snd (receive_peer_event nv hv now e nd)) evs nd"

lemma inner_counters:
  "nm_ingested (nd_metrics (snd (receive_peer_event_inner nv hv now e nd))) = nm_ingested (nd_metrics nd)
   \<and> nm_rejected (nd_metrics (snd (receive_peer_event_inner nv hv now e nd))) = nm_rejected (nd_metrics nd)"
proof -
  obtain ad nd1 where a: "admit_peer_event nv now e nd = (ad, nd1)" by (cases "admit_peer_event nv now e nd")
  then have 1: "nm_ingested (nd_metrics nd1) = nm_ingested (nd_metrics nd)" "nm_rejected (nd_metrics nd1) = nm_rejected (nd_metrics nd)"
    by (auto simp: admit_peer_event_def Let_def record_duplicated_def split: if_splits prod.splits bool.splits)
  have 2: "nd_metrics (snd (route_event nv hv now e nd')) = nd_metrics nd'" for nd'
    using route_fair [of e nd' nv hv now] by (simp add: fair_handled_def handled_def)
  show ?thesis
    using 1 by (auto simp: receive_peer_event_inner_def a 2 note_peer_traffic_def Let_def set_peers_def split: admission.split)
qed

lemma receive_counters:
  assumes "receive_peer_event nv hv now e nd = (outcome, nd')"
  shows "nm_ingested (nd_metrics nd') = nm_ingested (nd_metrics nd) + of_bool (ingests outcome)
    \<and> nm_rejected (nd_metrics nd') = nm_rejected (nd_metrics nd) + of_bool (rejects outcome)"
proof -
  have "\<not> (ingests outcome \<and> rejects outcome)" by (cases outcome) simp_all
  then show ?thesis
    using inner_counters [of nv hv now e nd] assms
    by (auto simp: receive_peer_event_def record_ingested_def record_rejected_def split: prod.splits if_splits)
qed

lemma process_frame_counts:
  assumes "process_frame nv rd f (rep, nd) = (rep', nd')"
  shows "pm_frames rep' = pm_frames rep + 1
    \<and> pm_ingested rep' + pm_rejected rep' + pm_neutral rep' + pm_decode_errors rep'
        = pm_ingested rep + pm_rejected rep + pm_neutral rep + pm_decode_errors rep + 1
    \<and> nm_ingested (nd_metrics nd') - of_nat (pm_ingested rep') = nm_ingested (nd_metrics nd) - of_nat (pm_ingested rep)
    \<and> nm_rejected (nd_metrics nd') - of_nat (pm_rejected rep') = nm_rejected (nd_metrics nd) - of_nat (pm_rejected rep)"
proof (cases "from_wire_bytes (nv_crypto nv) (if_payload f)")
  case (Inl err)
  with assms show ?thesis by (auto simp: process_frame_def Let_def)
next
  case (Inr e)
  obtain outcome nd1 where r: "receive_peer_event nv (fst rd) (snd rd) e nd = (outcome, nd1)"
    by (cases "receive_peer_event nv (fst rd) (snd rd) e nd")
  have "\<not> (ingests outcome \<and> rejects outcome)" by (cases outcome) simp_all
  with assms Inr r receive_counters [OF r] show ?thesis
    by (auto simp: process_frame_def Let_def split: if_splits)
qed

lemma process_frames_counts:
  assumes "process_frames nv rds i fs (rep, nd) = (rep', nd')"
  shows "pm_frames rep' = pm_frames rep + length fs
    \<and> pm_ingested rep' + pm_rejected rep' + pm_neutral rep' + pm_decode_errors rep'
        = pm_ingested rep + pm_rejected rep + pm_neutral rep + pm_decode_errors rep + length fs
    \<and> nm_ingested (nd_metrics nd') - of_nat (pm_ingested rep') = nm_ingested (nd_metrics nd) - of_nat (pm_ingested rep)
    \<and> nm_rejected (nd_metrics nd') - of_nat (pm_rejected rep') = nm_rejected (nd_metrics nd) - of_nat (pm_rejected rep)"
  using assms
proof (induction fs arbitrary: i rep nd)
  case (Cons f fs)
  obtain rep1 nd1 where f: "process_frame nv (rds i) f (rep, nd) = (rep1, nd1)"
    by (cases "process_frame nv (rds i) f (rep, nd)")
  with Cons.prems have "process_frames nv rds (i + 1) fs (rep1, nd1) = (rep', nd')" by simp
  from Cons.IH [OF this] process_frame_counts [OF f] show ?case by simp
qed simp

text \<open>The events of the frames that decode, with their readings.\<close>

definition decoded_events ::
    "node_env \<Rightarrow> (nat \<Rightarrow> handler_env \<times> nat) \<Rightarrow> nat \<Rightarrow> inbound_frame list \<Rightarrow> (handler_env \<times> nat \<times> mesh_event) list" where
  "decoded_events nv readings i fs =
     concat (map (\<lambda>(j, f). case from_wire_bytes (nv_crypto nv) (if_payload f) of
        Inl _ \<Rightarrow> [] | Inr e \<Rightarrow> [(fst (readings j), snd (readings j), e)]) (enumerate i fs))"

lemma receive_all_simps [simp]:
  "receive_all nv [] nd = nd"
  "receive_all nv ((hv, now, e) # evs) nd = receive_all nv evs (snd (receive_peer_event nv hv now e nd))"
  by (simp_all add: receive_all_def)

lemma process_frames_state:
  "snd (process_frames nv readings i fs (rep, nd)) = receive_all nv (decoded_events nv readings i fs) nd"
proof (induction fs arbitrary: i rep nd)
  case (Cons f fs)
  show ?case
  proof (cases "from_wire_bytes (nv_crypto nv) (if_payload f)")
    case (Inl err)
    then show ?thesis using Cons by (simp add: process_frame_def Let_def decoded_events_def)
  next
    case (Inr e)
    obtain outcome nd1 where "receive_peer_event nv (fst (readings i)) (snd (readings i)) e nd = (outcome, nd1)"
      by (cases "receive_peer_event nv (fst (readings i)) (snd (readings i)) e nd")
    with Inr show ?thesis using Cons by (simp add: process_frame_def Let_def decoded_events_def)
  qed
qed (simp add: decoded_events_def)

text \<open>C8: A pass over the inbound queue empties it, accounts for each frame exactly once (ingested, rejected, neutral
  or undecodable), changes the node exactly as receiving the decoded events one after the other does,
  so that a frame has no privilege over a gossip event, and the metrics of the node move by the
  numbers reported.\<close>

theorem process_inbound_accounts:
  assumes "process_inbound nv readings nd tp = (rep, nd', tp')"
  shows "nd' = receive_all nv (decoded_events nv readings 0 (tr_inbound tp)) nd
    \<and> tr_inbound tp' = [] \<and> pm_frames rep = length (tr_inbound tp)
    \<and> pm_frames rep = pm_ingested rep + pm_rejected rep + pm_neutral rep + pm_decode_errors rep
    \<and> nm_ingested (nd_metrics nd') = nm_ingested (nd_metrics nd) + of_nat (pm_ingested rep)
    \<and> nm_rejected (nd_metrics nd') = nm_rejected (nd_metrics nd) + of_nat (pm_rejected rep)"
proof -
  have f: "process_frames nv readings 0 (tr_inbound tp) (pump_zero, nd) = (rep, nd')" and tp: "tp' = tp\<lparr>tr_inbound := []\<rparr>"
    using assms by (auto simp: process_inbound_def drain_inbound_def split: prod.splits)
  have st: "nd' = receive_all nv (decoded_events nv readings 0 (tr_inbound tp)) nd"
    using process_frames_state [of nv readings 0 "tr_inbound tp" pump_zero nd] f by simp
  show ?thesis
    using process_frames_counts [OF f] by (simp add: st [symmetric] tp pump_zero_def) (simp add: algebra_simps)
qed

lemma process_inbound_accounts_witness:
  "\<exists>rep nd' tp'. process_inbound demo_nv (\<lambda>_. (demo_hv, 7)) (demo_node 2)
       ((transport_new transport_config_default)\<lparr>tr_inbound := [\<lparr>if_peer_key = ''p'', if_payload = []\<rparr>]\<rparr>) = (rep, nd', tp')
     \<and> pm_frames rep = 1 \<and> tr_inbound tp' = []"
proof -
  let ?tp = "(transport_new transport_config_default)\<lparr>tr_inbound := [\<lparr>if_peer_key = ''p'', if_payload = []\<rparr>]\<rparr>"
  obtain rep nd' tp' where p: "process_inbound demo_nv (\<lambda>_. (demo_hv, 7)) (demo_node 2) ?tp = (rep, nd', tp')"
    by (cases "process_inbound demo_nv (\<lambda>_. (demo_hv, 7)) (demo_node 2) ?tp")
  from process_inbound_accounts [OF this] p show ?thesis by simp
qed

section \<open>Framing an author\<close>


lemma too_long_reason: "failure_reason (validation_text VAlertTooLong) = InvalidEvent"
  by code_simp

definition tampered :: "mesh_event \<Rightarrow> mesh_event" where
  "tampered e = e\<lparr>ev_kind := Alert, ev_content := replicate 281 (CHR ''x'')\<rparr>"

lemma tampered_fields [simp]:
  "ev_pubkey (tampered e) = ev_pubkey e" "ev_id (tampered e) = ev_id e" "ev_sig (tampered e) = ev_sig e"
  "ev_kind (tampered e) = Alert"
  by (simp_all add: tampered_def)

lemma tampered_signature [simp]: "signature_valid ce (tampered e) = signature_valid ce e"
  by (simp add: signature_valid_iff)

lemma tampered_invalid: "validate_with_reputation ce now rep (tampered e) = Inl VAlertTooLong"
proof -
  have "chars_count (replicate 281 (CHR ''x'')) = 281" by code_simp
  then show ?thesis
    by (simp add: validate_with_reputation_def validate_with_pow_min_def tampered_def MAX_ALERT_SIZE_def)
qed

lemma tampered_received:
  fixes hv now
  assumes "signature_valid (nv_crypto nv) e" "ev_pubkey e \<noteq> own_key nv nd" "is_known (nd_gossip nd) (ev_id e)"
  defines "r \<equiv> receive_peer_event nv hv now (tampered e) nd"
  shows "rejects (fst r)"
    and "nd_reputation (snd r) = snd (record_violation (ev_pubkey e) InvalidEvent now (nd_reputation nd))"
    and "nd_gossip (snd r) = nd_gossip nd" and "nd_identity (snd r) = nd_identity nd"
  using assms(1-3)
  by (simp_all add: r_def receive_peer_event_def receive_peer_event_inner_def admit_peer_event_def route_event_def
      handle_incoming_alert_def relay_event_def tampered_invalid too_long_reason penalize_author_def own_key_def)

lemma invalid_event_ge: "6 / 64 \<le> PENALTY_INVALID_EVENT"
proof -
  have "f64 (of_int 6 / 2 ^ 6) \<le> f64 (10 / 100)" by (rule f64_mono) simp
  thus ?thesis using f64_dyadic [of 6 6] by (simp add: PENALTY_INVALID_EVENT_def)
qed

lemma ignore_le_54: "ABUSE_IGNORE_THRESHOLD \<le> 54 / 64"
proof -
  have "f64 (80 / 100) \<le> f64 (of_int 54 / 2 ^ 6)" by (rule f64_mono) simp
  thus ?thesis using f64_dyadic [of 54 6] by (simp add: ABUSE_IGNORE_THRESHOLD_def)
qed

lemma framing_levels:
  fixes hv now
  assumes sig: "signature_valid (nv_crypto nv) e" and inv: "rep_inv (nd_reputation nd)"
    and other: "ev_pubkey e \<noteq> own_key nv nd" and known: "is_known (nd_gossip nd) (ev_id e)"
    and n: "n \<le> 9"
  defines "nd' \<equiv> receive_all nv (replicate n (hv, now, tampered e)) nd"
  shows "rep_inv (nd_reputation nd') \<and> own_key nv nd' = own_key nv nd \<and> nd_gossip nd' = nd_gossip nd
    \<and> of_int (6 * int n) / 64 \<le> abuse_level (nd_reputation nd') (ev_pubkey e) now"
  using n unfolding nd'_def
proof (induction n)
  case 0
  then show ?case using inv rep_inv_level [OF inv] by (simp add: receive_all_def)
next
  case (Suc n)
  let ?m = "receive_all nv (replicate n (hv, now, tampered e)) nd"
  let ?r = "receive_peer_event nv hv now (tampered e) ?m"
  have step: "receive_all nv (replicate (Suc n) (hv, now, tampered e)) nd = snd ?r"
    by (simp only: receive_all_def replicate_append_same [symmetric] replicate_Suc fold_append comp_apply) simp
  have IH: "rep_inv (nd_reputation ?m)" "own_key nv ?m = own_key nv nd" "nd_gossip ?m = nd_gossip nd"
    "of_int (6 * int n) / 64 \<le> abuse_level (nd_reputation ?m) (ev_pubkey e) now"
    using Suc by auto
  have pre: "ev_pubkey e \<noteq> own_key nv ?m" "is_known (nd_gossip ?m) (ev_id e)"
    using IH other known by auto
  note rec = tampered_received [OF sig pre, of hv now]
  have "of_int (6 * int (Suc n)) / 64 \<le> abuse_level (nd_reputation (snd ?r)) (ev_pubkey e) now"
    unfolding rec(2) using IH(4) invalid_event_ge Suc.prems
    by (intro record_violation_raises [OF IH(1), where j = "6 * int n"]) (auto simp: SECS_PER_HOUR_def)
  moreover have "rep_inv (nd_reputation (snd ?r))"
    unfolding rec(2) by (rule rep_inv_record_violation [OF IH(1)])
  ultimately show ?case
    using rec(3,4) IH(2,3) own_key_cong [OF rec(4)] by (simp only: step)
qed

text \<open>C1: Nothing but the identifier of an event is signed, and the gate checks nothing but the signature:
  whoever holds any one event of an author can replay it with other content, and every copy counts as
  a violation of the author. Nine copies of an event that the node already knows, altered into an alert of 281
  characters, put its author (other than the node itself), however trusted, in the \<open>Ignore\<close> regime, and then every
  event of his that the node does not know yet is refused.\<close>

theorem replay_frames_author:
  assumes "signature_valid (nv_crypto nv) e" "rep_inv (nd_reputation nd)"
    and "ev_pubkey e \<noteq> own_key nv nd" "is_known (nd_gossip nd) (ev_id e)"
    and "ev_pubkey x = ev_pubkey e" "\<not> is_known (nd_gossip nd) (ev_id x)"
    and "nd' = receive_all nv (replicate 9 (hv, now, tampered e)) nd"
  shows "action_for (nd_reputation nd') (ev_pubkey e) now = Ignore
    \<and> (\<exists>reason. admit_peer_event nv now x nd' = (Refused reason, nd'))"
proof -
  note f = framing_levels [OF assms(1-4), of 9 hv now, folded assms(7), simplified]
  then have "54 / 64 \<le> abuse_level (nd_reputation nd') (ev_pubkey e) now" by simp
  then have a: "action_for (nd_reputation nd') (ev_pubkey e) now = Ignore"
    using ignore_le_54 by (simp add: action_for_def action_for_abuse_def)
  then show ?thesis
    using f assms(3,5,6) by (auto simp: admit_peer_event_def)
qed

lemma replay_frames_author_witness:
  "\<exists>e nd. ev_content e = ''hi'' \<and> own_key demo_nv nd = demo_key 2
     \<and> action_for (nd_reputation nd) (demo_key 1) 7 = Accept
     \<and> action_for (nd_reputation (receive_all demo_nv (replicate 9 (demo_hv, 7, tampered e)) nd)) (demo_key 1) 7 = Ignore"
proof -
  let ?e = "new_signed demo_env 0 (replicate 32 1) Alert ''hi'' []"
  let ?nd = "demo_node 2\<lparr>nd_gossip := gossip_new\<lparr>gp_known := {ev_id ?e}\<rparr>\<rparr>"
  let ?x = "?e\<lparr>ev_id := []\<rparr>"
  have "length (ev_id ?e) = 64" by (simp add: new_signed_def Let_def)
  then have "\<not> is_known (nd_gossip ?nd) (ev_id ?x)" by (auto simp: is_known_def)
  moreover have "signature_valid (nv_crypto demo_nv) ?e" by (simp add: new_signed_signature demo_laws)
  moreover have own: "own_key demo_nv ?nd = demo_key 2"
    using demo_node_fields(1) [of 2] by (simp add: own_key_def)
  moreover have "rep_inv (nd_reputation ?nd)" by (simp add: demo_node_fields rep_inv_bootstrap)
  moreover have "ev_pubkey ?e = demo_key 1" by (simp add: demo_pubkey)
  ultimately have "action_for (nd_reputation (receive_all demo_nv (replicate 9 (demo_hv, 7, tampered ?e)) ?nd)) (demo_key 1) 7 = Ignore"
    using replay_frames_author [where e = ?e and nd = ?nd and x = ?x and nv = demo_nv, OF _ _ _ _ _ _ HOL.refl, of demo_hv 7]
    by (simp add: is_known_def)
  moreover have "action_for (nd_reputation ?nd) (demo_key 1) 7 = Accept"
    by (simp add: demo_node_fields action_for_def abuse_level_def bootstrap_def set_trusted_def reputation_new_def Mapping.lookup_empty)
  ultimately show ?thesis using own by (intro exI [of _ ?e] exI [of _ ?nd]) simp
qed

end
