(* ===== verification/NodeUpdate.thy ===== *)
theory NodeUpdate
  imports Node
begin

text \<open>
  The update protocol and the rotation of encryption keys as the node speaks them over the gossip
  (\<open>core/src/node/mod.rs\<close>): the announcer signs and serves, the receiver asks for the manifest and then for
  chunk after chunk, verifies and installs. Verification itself is in \<open>Update\<close>.
\<close>

section \<open>Outcomes\<close>

datatype update_outcome =
    UhIgnored | AnnouncementRequested | ManifestRequested | ChunkRequested nat | Installed version
  | ManifestServed | ChunkServed nat | UhRejected update_error

text \<open>The \<open>Err\<close> of a handler: a text, or the text of an update error.\<close>

datatype handler_error = UeText string | UeUpdate update_error

datatype rotation_outcome = RhIgnored | RhApplied | RhRejected string

section \<open>Announcing\<close>

text \<open>The timestamp is the caller's; chunk sizes are \<open>u32\<close>.\<close>

definition announce_update ::
    "node_env \<Rightarrow> publish_clock \<Rightarrow> version \<Rightarrow> byte list \<Rightarrow> u64 \<Rightarrow> node \<Rightarrow> (string + mesh_event) \<times> node" where
  "announce_update nv ck v apk timestamp nd =
     (case nd_update_root nd of
        None \<Rightarrow> (Inl ''node is not configured as an update distributor (missing update_root_seed)'', nd)
      | Some rootid \<Rightarrow>
          if length apk > MAX_APK_SIZE then
            (Inl (''APK exceeds the '' @ dec_digits MAX_APK_SIZE @ '' bytes limit''), nd)
          else
            let ce = nv_crypto nv;
                (_, ann_sig, ann_bytes) = build_announcement ce v apk (id_seed rootid) timestamp;
                (_, man_sig, man_bytes) = build_manifest ce apk (id_seed rootid) (id_verifying rootid) timestamp
                                             (of_nat DEFAULT_CHUNK_SIZE);
                content = cd_b64_encode (nv_codec nv) ann_bytes;
                tags = build_tags [(TAG_ROOT_SIG, ce_hex_encode ce ann_sig), (TAG_VERSION, show_version v),
                                   (TAG_PEER, own_key nv nd)];
                event = new_signed ce (ck_stamp ck) (id_seed (nd_identity nd)) UpdateAnnounce content tags
            in case publish_gossip_event nv ck event nd of
                 (Inl e, nd1) \<Rightarrow> (Inl e, nd1)
               | (Inr published, nd1) \<Rightarrow>
                   (Inr published, nd1\<lparr>nd_update_offer := Some \<lparr>uo_version = v, uo_apk = apk,
                      uo_manifest_wire = man_bytes, uo_manifest_signature = man_sig,
                      uo_chunk_size = DEFAULT_CHUNK_SIZE\<rparr>\<rparr>))"

section \<open>Receiving\<close>

definition decode_update_payload :: "node_env \<Rightarrow> mesh_event \<Rightarrow> string + byte list \<times> byte list" where
  "decode_update_payload nv e =
     (case cd_b64_decode (nv_codec nv) (ev_content e) of
        Inl _ \<Rightarrow> Inl ''update payload is not valid base64''
      | Inr data \<Rightarrow>
          (case tag_get (ev_tags e) TAG_ROOT_SIG of
             None \<Rightarrow> Inl ''update payload missing root_sig tag''
           | Some sig_hex \<Rightarrow>
               (case ce_hex_decode (nv_crypto nv) sig_hex of
                  None \<Rightarrow> Inl ''root_sig tag is not valid hex''
                | Some sig \<Rightarrow> if length sig \<noteq> 64 then Inl ''root_sig must be 64 bytes'' else Inr (data, sig))))"

text \<open>A request to the announcer, signed by this node.\<close>

definition publish_request ::
    "node_env \<Rightarrow> publish_clock \<Rightarrow> (string \<times> string) list \<Rightarrow> update_outcome \<Rightarrow> node
       \<Rightarrow> (handler_error + update_outcome) \<times> node" where
  "publish_request nv ck tags outcome nd =
     (case publish_gossip_event nv ck
             (new_signed (nv_crypto nv) (ck_stamp ck) (id_seed (nd_identity nd)) UpdateRequest [] (build_tags tags)) nd of
        (Inl e, nd1) \<Rightarrow> (Inl (UeText e), nd1)
      | (Inr _, nd1) \<Rightarrow> (Inr outcome, nd1))"

definition on_update_announce ::
    "node_env \<Rightarrow> publish_clock \<Rightarrow> mesh_event \<Rightarrow> node \<Rightarrow> (handler_error + update_outcome) \<times> node" where
  "on_update_announce nv ck e nd =
     (case decode_update_payload nv e of
        Inl err \<Rightarrow> (Inl (UeText err), nd)
      | Inr (data, sig) \<Rightarrow>
          (case handle_announcement (nv_crypto nv) data sig (nd_update nd) of
             Inl err \<Rightarrow> (Inr (UhRejected err), nd)
           | Inr announcement \<Rightarrow>
               publish_request nv ck [(TAG_REQ_TYPE, ''manifest''), (TAG_TO, ev_pubkey e)] AnnouncementRequested
                 (nd\<lparr>nd_pending_announcement := Some announcement\<rparr>)))"

definition on_update_manifest ::
    "node_env \<Rightarrow> publish_clock \<Rightarrow> mesh_event \<Rightarrow> node \<Rightarrow> (handler_error + update_outcome) \<times> node" where
  "on_update_manifest nv ck e nd =
     (case nd_pending_announcement nd of
        None \<Rightarrow> (Inl (UeText ''update manifest received without a prior accepted announcement''), nd)
      | Some announcement \<Rightarrow>
          (case decode_update_payload nv e of
             Inl err \<Rightarrow> (Inl (UeText err), nd)
           | Inr (data, sig) \<Rightarrow>
               (case handle_manifest (nv_crypto nv) announcement data sig (ev_pubkey e) (nd_update nd) of
                  (Inl err, u) \<Rightarrow> (Inr (UhRejected err), nd\<lparr>nd_update := u\<rparr>)
                | (Inr _, u) \<Rightarrow>
                    publish_request nv ck [(TAG_REQ_TYPE, ''chunk''), (TAG_TO, ev_pubkey e), (TAG_INDEX, ''0''),
                        (TAG_VERSION, show_version (ua_version announcement))] ManifestRequested
                      (nd\<lparr>nd_update := u\<rparr>))))"

text \<open>\<open>parse::<u32>\<close>\<close>

fun digits_u32 :: "nat \<Rightarrow> string \<Rightarrow> nat option" where
  "digits_u32 acc [] = Some acc"
| "digits_u32 acc (c # cs) =
     (let d = of_char c in
      if 48 \<le> d \<and> d \<le> 57 \<and> 10 * acc + (d - 48) < 2 ^ 32 then digits_u32 (10 * acc + (d - 48)) cs else None)"

definition parse_u32 :: "string \<Rightarrow> nat option" where
  "parse_u32 s =
     (let ds = (case s of c # cs \<Rightarrow> if c = CHR ''+'' then cs else s | [] \<Rightarrow> [])
      in if ds = [] then None else digits_u32 0 ds)"

definition update_install_path :: "node_env \<Rightarrow> string \<Rightarrow> node \<Rightarrow> string" where
  "update_install_path nv temp_dir nd =
     temp_dir @ ''/onde-installed-'' @ take 8 (own_key nv nd) @ ''.apk''"

text \<open>The outcome of writing the file, the temporary directory and the clock of the installation.\<close>

record install_env =
  iv_write_ok :: bool
  iv_temp_dir :: string
  iv_now :: u64

definition finish_update :: "node_env \<Rightarrow> install_env \<Rightarrow> node \<Rightarrow> (handler_error + update_outcome) \<times> node" where
  "finish_update nv iv nd =
     (case assemble_and_verify (nv_crypto nv) (nd_update nd) of
        (Inl err, u) \<Rightarrow> (Inr (UhRejected err), nd\<lparr>nd_update := u, nd_pending_announcement := None\<rparr>)
      | (Inr apk, u) \<Rightarrow>
          (case install_verified (nv_crypto nv) (iv_write_ok iv) apk
                  (update_install_path nv (iv_temp_dir iv) nd) (iv_now iv) u of
             (Inl err, u1) \<Rightarrow> (Inl (UeUpdate err), nd\<lparr>nd_update := u1\<rparr>)
           | (Inr installed, u1) \<Rightarrow>
               (Inr (Installed (iu_version installed)), nd\<lparr>nd_update := u1, nd_pending_announcement := None\<rparr>)))"

definition on_update_chunk ::
    "node_env \<Rightarrow> publish_clock \<Rightarrow> install_env \<Rightarrow> mesh_event \<Rightarrow> node \<Rightarrow> (handler_error + update_outcome) \<times> node" where
  "on_update_chunk nv ck iv e nd =
     (case tag_get (ev_tags e) TAG_INDEX of
        None \<Rightarrow> (Inl (UeText ''update chunk missing index tag''), nd)
      | Some index_tag \<Rightarrow>
          (case parse_u32 index_tag of
             None \<Rightarrow> (Inl (UeText ''invalid update chunk index tag''), nd)
           | Some index \<Rightarrow>
               (case cd_b64_decode (nv_codec nv) (ev_content e) of
                  Inl _ \<Rightarrow> (Inl (UeText ''update chunk is not valid base64''), nd)
                | Inr data \<Rightarrow>
                    (case handle_chunk index data (nd_update nd) of
                       (Inl err, u) \<Rightarrow> (Inr (UhRejected err), nd\<lparr>nd_update := u\<rparr>)
                     | (Inr _, u) \<Rightarrow>
                         (let nd1 = nd\<lparr>nd_update := u\<rparr> in
                          if chunks_received u < total_chunks u then
                            publish_request nv ck [(TAG_REQ_TYPE, ''chunk''), (TAG_TO, ev_pubkey e),
                              (TAG_INDEX, dec_digits (index + 1))] (ChunkRequested (index + 1)) nd1
                          else finish_update nv iv nd1)))))"

section \<open>Serving\<close>

definition serve ::
    "node_env \<Rightarrow> publish_clock \<Rightarrow> onde_message_type \<Rightarrow> string \<Rightarrow> (string \<times> string) list \<Rightarrow> update_outcome \<Rightarrow> node
       \<Rightarrow> (handler_error + update_outcome) \<times> node" where
  "serve nv ck kind content tags outcome nd =
     (case publish_gossip_event nv ck
             (new_signed (nv_crypto nv) (ck_stamp ck) (id_seed (nd_identity nd)) kind content (build_tags tags)) nd of
        (Inl e, nd1) \<Rightarrow> (Inl (UeText e), nd1)
      | (Inr _, nd1) \<Rightarrow> (Inr outcome, nd1))"

definition on_update_request ::
    "node_env \<Rightarrow> publish_clock \<Rightarrow> mesh_event \<Rightarrow> node \<Rightarrow> (handler_error + update_outcome) \<times> node" where
  "on_update_request nv ck e nd =
     (let target = (case tag_get (ev_tags e) TAG_TO of Some t \<Rightarrow> t | None \<Rightarrow> []) in
      if target \<noteq> [] \<and> target \<noteq> own_key nv nd then (Inr UhIgnored, nd)
      else case nd_update_offer nd of
        None \<Rightarrow> (Inl (UeText ''update request received but no update offer is held''), nd)
      | Some offer \<Rightarrow>
          (let req = (case tag_get (ev_tags e) TAG_REQ_TYPE of Some t \<Rightarrow> t | None \<Rightarrow> []) in
           if req = ''manifest'' then
             serve nv ck UpdateManifest (cd_b64_encode (nv_codec nv) (uo_manifest_wire offer))
               [(TAG_ROOT_SIG, ce_hex_encode (nv_crypto nv) (uo_manifest_signature offer)),
                (TAG_VERSION, show_version (uo_version offer)), (TAG_PEER, own_key nv nd)]
               ManifestServed nd
           else if req = ''chunk'' then
             (case tag_get (ev_tags e) TAG_INDEX of
                None \<Rightarrow> (Inl (UeText ''chunk request missing index tag''), nd)
              | Some index_tag \<Rightarrow>
                  (case parse_u32 index_tag of
                     None \<Rightarrow> (Inl (UeText ''invalid chunk request index''), nd)
                   | Some index \<Rightarrow>
                       (case apk_chunk (uo_apk offer) index (uo_chunk_size offer) of
                          None \<Rightarrow> (Inl (UeText (''chunk index '' @ dec_digits index @ '' out of bounds'')), nd)
                        | Some data \<Rightarrow>
                            serve nv ck UpdateChunk (cd_b64_encode (nv_codec nv) data)
                              [(TAG_INDEX, dec_digits index),
                               (TAG_TOTAL, dec_digits (chunk_count (length (uo_apk offer)) (uo_chunk_size offer))),
                               (TAG_PEER, own_key nv nd)]
                              (ChunkServed index) nd)))
           else (Inl (UeText (''unknown update request type: '' @ req)), nd)))"

definition handle_incoming_update ::
    "node_env \<Rightarrow> publish_clock \<Rightarrow> install_env \<Rightarrow> mesh_event \<Rightarrow> node \<Rightarrow> (handler_error + update_outcome) \<times> node" where
  "handle_incoming_update nv ck iv e nd =
     (case ev_kind e of
        UpdateAnnounce \<Rightarrow> on_update_announce nv ck e nd
      | UpdateManifest \<Rightarrow> on_update_manifest nv ck e nd
      | UpdateChunk \<Rightarrow> on_update_chunk nv ck iv e nd
      | UpdateRequest \<Rightarrow> on_update_request nv ck e nd
      | _ \<Rightarrow> (Inr UhIgnored, nd))"

section \<open>Rotation of encryption keys\<close>

definition quoted :: "string \<Rightarrow> string" where
  "quoted s = CHR 0x27 # s @ [CHR 0x27]"

definition handle_incoming_rotation :: "node_env \<Rightarrow> nat \<Rightarrow> mesh_event \<Rightarrow> node \<Rightarrow> rotation_outcome \<times> node" where
  "handle_incoming_rotation nv now e nd =
     (if ev_kind e \<noteq> IdentityRotation then (RhIgnored, nd)
      else case cd_b64_decode (nv_codec nv) (ev_content e) of
        Inl err \<Rightarrow> (RhRejected (''rotation payload is not valid base64: '' @ err), nd)
      | Inr data \<Rightarrow>
          (case cd_rotation_decode (nv_codec nv) data of
             Inl err \<Rightarrow> (RhRejected (''rotation payload is not valid JSON: '' @ err), nd)
           | Inr payload \<Rightarrow>
               (case (case rn_x25519 payload of
                        Some k \<Rightarrow> if length k = 64 \<and> list_all is_hexdigit k then Some k else None
                      | None \<Rightarrow> None) of
                  None \<Rightarrow> (RhRejected (''rotation payload missing valid '' @ quoted ''x25519'' @ '' (64 hex)''), nd)
                | Some new_x25519 \<Rightarrow>
                    (let cnt = (case rn_rotation payload of Some n \<Rightarrow> n | None \<Rightarrow> 0);
                         announcer = ev_pubkey e
                     in if \<not> signature_valid (nv_crypto nv) e then
                          (RhRejected ''rotation signature could not be verified (forged or invalid)'', nd)
                        else if \<not> is_trusted (nd_reputation nd) announcer then
                          (RhRejected (''rotation announced by untrusted peer '' @ announcer), nd)
                        else if (case map_of (nd_peer_rotations nd) announcer of Some accepted \<Rightarrow> cnt \<le> accepted | None \<Rightarrow> False) then
                          (RhRejected (''rotation replay/stale (count '' @ dec_digits cnt @ '' not > last accepted ''
                             @ dec_digits (the (map_of (nd_peer_rotations nd) announcer)) @ '')''), nd)
                        else if map_of (nd_peer_x25519 nd) announcer = Some new_x25519 then
                          (RhRejected ''rotation already applied (duplicate key)'', nd)
                        else
                          let prev = (case map_of (nd_peer_x25519 nd) announcer of Some k \<Rightarrow> k | None \<Rightarrow> []);
                              nd1 = nd\<lparr>nd_peer_grace := (if prev \<noteq> [] then AList.update announcer prev (nd_peer_grace nd)
                                                          else nd_peer_grace nd),
                                       nd_peer_x25519 := AList.update announcer new_x25519 (nd_peer_x25519 nd),
                                       nd_peer_rotations := AList.update announcer cnt (nd_peer_rotations nd)\<rparr>
                          in (RhApplied, nd1\<lparr>nd_gossip := snd (add_event_with_reputation (nv_crypto nv) now
                                 (nv_known_order nv) (nd_reputation nd1) e (nd_gossip nd1))\<rparr>)))))"

definition peer_x25519_key :: "string \<Rightarrow> node \<Rightarrow> string option" where
  "peer_x25519_key peer nd = map_of (nd_peer_x25519 nd) peer"

definition peer_x25519_grace_key :: "string \<Rightarrow> node \<Rightarrow> string option" where
  "peer_x25519_grace_key peer nd = map_of (nd_peer_grace nd) peer"

end
