(* ===== verification/NodeMachine.thy ===== *)
theory NodeMachine
  imports NodeSafety NodeUpdate
begin

text \<open>
  The node as one state machine: every public operation of \<open>node/mod.rs\<close> that changes its state is a
  step, and the invariants of its parts (gossip, reputation, rate window, message store, SQLite mirror,
  social cache, maps of the peers' keys) hold together after every sequence of steps from boot.
\<close>

section \<open>The invariant\<close>

definition store_ok :: "tiered_store \<Rightarrow> bool" where
  "store_ok st \<longleftrightarrow> distinct (map tm_id (st_messages st)) \<and> raw_total st \<le> max_bytes (st_policy st)"

lemma store_ok_add:
  assumes "store_ok st" "tm_id m \<notin> tm_id ` set (st_messages st)" "tm_original_size m < 2 ^ 63"
    and "(used_raw_bytes st + tm_original_size m) mod 2 ^ 64 \<le> max_bytes (st_policy st)"
  shows "store_ok (add_message m st)"
  using assms budget_test [of st "st_policy st" "tm_original_size m"]
  by (auto simp: store_ok_def add_message_def raw_total_def)

lemma store_ok_store:
  assumes "store_ok st" "length p < 2 ^ 63"
  shows "store_ok (snd (tiered_store_msg df i t p ca g st))"
  using assms by (cases rule: store_msg_cases [of df i t p ca g st]) (auto intro: store_ok_add)

lemma store_ok_restore:
  assumes "store_ok st" "tm_original_size m < 2 ^ 63"
  shows "store_ok (snd (tiered_restore m st))"
  using assms by (cases rule: restore_cases [of m st]) (auto intro: store_ok_add)

lemma store_ok_sweep: "store_ok st \<Longrightarrow> store_ok (snd (tiered_sweep now st))"
  using sum_list_filter_split [of tm_original_size "tier_keeps now" "st_messages st"]
  by (auto simp: store_ok_def tiered_sweep_def Let_def raw_total_def distinct_map_filter)

lemma store_ok_load:
  "store_ok st \<Longrightarrow> list_all (\<lambda>m. tm_original_size m < 2 ^ 63) ms
   \<Longrightarrow> store_ok (snd (load_persisted_messages now ms n st))"
proof (induction ms arbitrary: n st)
  case (Cons m ms)
  then show ?case using store_ok_restore [of st m] by (auto split: prod.split)
qed simp

definition node_inv :: "node_env \<Rightarrow> node \<Rightarrow> bool" where
  "node_inv nv nd \<longleftrightarrow>
     gossip_inv (nd_gossip nd) \<and> outbox_valid (nv_crypto nv) (nd_gossip nd)
   \<and> rep_inv (nd_reputation nd) \<and> is_trusted (nd_reputation nd) (own_key nv nd)
   \<and> guard_inv (SPAM_BUDGET_PER_WINDOW * HEAL_WINDOW_BUDGET_FACTOR) (nd_spam nd)
   \<and> store_ok (nd_store nd)
   \<and> (case nd_persistence nd of None \<Rightarrow> True | Some db \<Rightarrow> list_all (\<lambda>m. tm_original_size m < 2 ^ 63) (sql_load_all db))
   \<and> (case nd_social nd of None \<Rightarrow> True | Some db \<Rightarrow> db_inv db)
   \<and> distinct (map fst (nd_last_seen nd))
   \<and> distinct (map fst (nd_peer_x25519 nd)) \<and> distinct (map fst (nd_peer_grace nd)) \<and> distinct (map fst (nd_peer_rotations nd))"

lemma own_key_update [simp]:
  "own_key nv (nd\<lparr>nd_gossip := g\<rparr>) = own_key nv nd" "own_key nv (nd\<lparr>nd_reputation := r\<rparr>) = own_key nv nd"
  "own_key nv (nd\<lparr>nd_spam := s\<rparr>) = own_key nv nd" "own_key nv (nd\<lparr>nd_store := st\<rparr>) = own_key nv nd"
  "own_key nv (nd\<lparr>nd_persistence := db\<rparr>) = own_key nv nd" "own_key nv (nd\<lparr>nd_social := sd\<rparr>) = own_key nv nd"
  "own_key nv (nd\<lparr>nd_metrics := m\<rparr>) = own_key nv nd" "own_key nv (nd\<lparr>nd_last_seen := ls\<rparr>) = own_key nv nd"
  "own_key nv (nd\<lparr>nd_heal_until := h\<rparr>) = own_key nv nd" "own_key nv (nd\<lparr>nd_last_publish := p\<rparr>) = own_key nv nd"
  "own_key nv (nd\<lparr>nd_rotator := ro\<rparr>) = own_key nv nd" "own_key nv (nd\<lparr>nd_running := b\<rparr>) = own_key nv nd"
  "own_key nv (nd\<lparr>nd_config := c\<rparr>) = own_key nv nd" "own_key nv (nd\<lparr>nd_tx_pool := tp\<rparr>) = own_key nv nd"
  "own_key nv (nd\<lparr>nd_update := u\<rparr>) = own_key nv nd" "own_key nv (nd\<lparr>nd_update_offer := uo\<rparr>) = own_key nv nd"
  "own_key nv (nd\<lparr>nd_pending_announcement := pa\<rparr>) = own_key nv nd"
  "own_key nv (nd\<lparr>nd_peer_x25519 := k1\<rparr>) = own_key nv nd" "own_key nv (nd\<lparr>nd_peer_grace := k2\<rparr>) = own_key nv nd"
  "own_key nv (nd\<lparr>nd_peer_rotations := k3\<rparr>) = own_key nv nd"
  by (simp_all add: own_key_def)

text \<open>Fields the invariant does not speak of.\<close>

lemma node_inv_other [simp]:
  "node_inv nv (nd\<lparr>nd_metrics := m\<rparr>) = node_inv nv nd" "node_inv nv (nd\<lparr>nd_heal_until := h\<rparr>) = node_inv nv nd"
  "node_inv nv (nd\<lparr>nd_last_publish := p\<rparr>) = node_inv nv nd" "node_inv nv (nd\<lparr>nd_rotator := ro\<rparr>) = node_inv nv nd"
  "node_inv nv (nd\<lparr>nd_running := b\<rparr>) = node_inv nv nd" "node_inv nv (nd\<lparr>nd_config := c\<rparr>) = node_inv nv nd"
  "node_inv nv (nd\<lparr>nd_tx_pool := tp\<rparr>) = node_inv nv nd" "node_inv nv (nd\<lparr>nd_update := u\<rparr>) = node_inv nv nd"
  "node_inv nv (nd\<lparr>nd_update_offer := uo\<rparr>) = node_inv nv nd"
  "node_inv nv (nd\<lparr>nd_pending_announcement := pa\<rparr>) = node_inv nv nd"
  by (simp_all add: node_inv_def)

text \<open>The parts it speaks of, one at a time.\<close>

lemma node_inv_gossip:
  "node_inv nv nd \<Longrightarrow> gossip_inv g \<Longrightarrow> outbox_valid (nv_crypto nv) g \<Longrightarrow> node_inv nv (nd\<lparr>nd_gossip := g\<rparr>)"
  by (simp add: node_inv_def)

lemma node_inv_reputation:
  "node_inv nv nd \<Longrightarrow> rep_inv r \<Longrightarrow> score (nd_reputation nd) (own_key nv nd) \<le> score r (own_key nv nd)
   \<Longrightarrow> node_inv nv (nd\<lparr>nd_reputation := r\<rparr>)"
  by (auto simp: node_inv_def is_trusted_def)

lemma node_inv_social:
  "node_inv nv nd \<Longrightarrow> (\<And>db. db_inv db \<Longrightarrow> db_inv (w db)) \<Longrightarrow> node_inv nv (nd\<lparr>nd_social := map_option w (nd_social nd)\<rparr>)"
  by (auto simp: node_inv_def split: option.splits)

lemma node_inv_store: "node_inv nv nd \<Longrightarrow> store_ok st \<Longrightarrow> node_inv nv (nd\<lparr>nd_store := st\<rparr>)"
  by (simp add: node_inv_def)

locale steady_env =
  fixes nv :: node_env
  assumes known_order: "lists_set (nv_known_order nv)" and window_order: "lists_keys (nv_window_order nv)"
begin

lemma add_event_inv:
  assumes "node_inv nv nd"
  shows "gossip_inv (snd (add_event_with_reputation (nv_crypto nv) now (nv_known_order nv) rep e (nd_gossip nd)))
    \<and> outbox_valid (nv_crypto nv) (snd (add_event_with_reputation (nv_crypto nv) now (nv_known_order nv) rep e (nd_gossip nd)))"
  using assms gossip_inv_insert [OF known_order, of "nd_gossip nd" e]
    outbox_valid_insert [of "nv_crypto nv" "nd_gossip nd" now "required_pow_difficulty rep (ev_pubkey e)" e "nv_known_order nv"]
  by (auto simp: add_event_with_reputation_def validate_with_reputation_def node_inv_def split: sum.split prod.split)

lemma relay_event_inv: "node_inv nv nd \<Longrightarrow> node_inv nv (snd (relay_event nv hv e nd))"
  using add_event_inv [of nd "hv_gossip hv" "nd_reputation nd" e]
  by (auto simp: relay_event_def intro!: node_inv_gossip split: sum.split prod.split)

lemma relay_quietly_inv: "node_inv nv nd \<Longrightarrow> node_inv nv (relay_quietly nv hv e nd)"
  using add_event_inv [of nd "hv_gossip hv" "nd_reputation nd" e]
  by (simp add: relay_quietly_def node_inv_gossip)

lemma diffuse_inv: "node_inv nv nd \<Longrightarrow> node_inv nv (snd (diffuse nv ck msg e nd))"
  using add_event_inv
  by (auto simp: diffuse_def Let_def split: sum.split prod.split intro!: node_inv_gossip) (metis snd_conv)+

lemma relay_then_inv:
  "node_inv nv nd \<Longrightarrow> (\<And>db. db_inv db \<Longrightarrow> db_inv (w db)) \<Longrightarrow> node_inv nv (snd (relay_then nv hv e w oc nd))"
  using relay_event_inv [of nd hv e]
  by (auto simp: relay_then_def intro: node_inv_social split: sum.split prod.split)

end

lemma store_ok_small: "store_ok st \<Longrightarrow> m \<in> set (st_messages st) \<Longrightarrow> tm_original_size m < 2 ^ 63"
proof -
  assume "store_ok st" "m \<in> set (st_messages st)"
  then have "tm_original_size m \<le> raw_total st"
    unfolding raw_total_def by (intro member_le_sum_list) auto
  also have "\<dots> \<le> 2 ^ 34" using \<open>store_ok st\<close> max_bytes_small [of "st_policy st"] by (simp add: store_ok_def)
  finally show ?thesis by simp
qed

lemma small_row: "tm_original_size m < 2 ^ 63 \<Longrightarrow> tm_original_size (message_of (row_of m)) < 2 ^ 63"
  by (simp add: message_of_def row_of_def)

lemmas small_row' = small_row [simplified]

lemma small_persist:
  assumes "list_all (\<lambda>m. tm_original_size m < 2 ^ 63) (sql_load_all db)" "store_ok st" "length p < 2 ^ 63"
  shows "list_all (\<lambda>m. tm_original_size m < 2 ^ 63) (sql_load_all (persist_message i t p ca g st db))"
proof -
  have "tm_original_size m < 2 ^ 63" if "find (\<lambda>m. tm_id m = i) (st_messages st) = Some m" for m
    using that store_ok_small [OF assms(2)] by (auto simp: find_Some_iff)
  then show ?thesis
    using assms(1,3)
    by (auto simp: persist_message_def sql_store_def sql_load_all_def all_messages_def list_all_iff small_row' split: option.split)
qed

lemma small_sweep:
  "list_all (\<lambda>m. tm_original_size m < 2 ^ 63) (sql_load_all db)
   \<Longrightarrow> list_all (\<lambda>m. tm_original_size m < 2 ^ 63) (sql_load_all (snd (sql_sweep now db)))"
  using sql_sweep_tiers_rows [of now "[Critical, Important, Normal, Low]" 0 "sq_messages db"]
  by (auto simp: sql_sweep_def sql_load_all_def list_all_iff split: prod.split)

lemma store_and_persist_inv:
  assumes "node_inv nv nd" "length (ev_content e) < 2 ^ 63"
  shows "node_inv nv (snd (store_and_persist nv tier e nd))"
proof -
  let ?p = "str_bytes (ev_content e)"
  obtain b st where s: "tiered_store_msg (nv_deflate nv) (ev_id e) tier ?p (unat (ev_created_at e)) (nc_geohash (nd_config nd)) (nd_store nd) = (b, st)"
    by (cases "tiered_store_msg (nv_deflate nv) (ev_id e) tier ?p (unat (ev_created_at e)) (nc_geohash (nd_config nd)) (nd_store nd)")
  have len: "length ?p < 2 ^ 63" using assms(2) by (simp add: str_bytes_def)
  have st: "store_ok st"
    using store_ok_store [OF _ len, of "nd_store nd" "nv_deflate nv" "ev_id e" tier "unat (ev_created_at e)" "nc_geohash (nd_config nd)"]
      assms(1) s by (simp add: node_inv_def)
  have "node_inv nv (nd\<lparr>nd_store := st\<rparr>)" by (rule node_inv_store [OF assms(1) st])
  moreover from this have "node_inv nv (node_persist_message (ev_id e) tier ?p (unat (ev_created_at e))
      (nc_geohash (nd_config nd)) (nd\<lparr>nd_store := st\<rparr>))"
    using small_persist [OF _ st len] by (auto simp: node_inv_def node_persist_message_def split: option.splits)
  ultimately show ?thesis by (simp add: store_and_persist_def s Let_def)
qed

lemma score_mono_update: "score r b \<le> s \<Longrightarrow> score r k \<le> score (r\<lparr>rs_scores := Mapping.update b s (rs_scores r)\<rparr>) k"
  by (auto simp: score_def lookup_default_update)

lemma endorse_score_mono: "score r k \<le> score (snd (endorse a b ts r)) k"
proof (cases "endorse_ok a b r")
  case True
  let ?r2 = "endorse_list a b ts r"
  have 2: "score r k \<le> score ?r2 k" and b: "score ?r2 b = gained_score r a b"
    by (simp_all add: endorse_list_def score_def lookup_default_update gained_score_def)
  then show ?thesis
    using score_mono_update [of ?r2 b TRUSTED_THRESHOLD k] by (auto simp: endorse_accepted [OF True] Let_def intro: order_trans)
next
  case False
  then show ?thesis using endorse_refused [OF False, of ts] by auto
qed

lemma remote_endorse_score_mono: "score r k \<le> score (snd (apply_remote_endorsement en v r)) k"
  using endorse_score_mono [of r k "en_endorser en" "en_endorsed en" "en_timestamp en"]
  by (auto simp: apply_remote_endorsement_def split: prod.split sum.split)

lemma violation_inv: "node_inv nv nd \<Longrightarrow> node_inv nv (nd\<lparr>nd_reputation := snd (record_violation k reason t (nd_reputation nd))\<rparr>)"
  by (intro node_inv_reputation rep_inv_record_violation)
    (auto simp: node_inv_def score_cong [OF violation_effect(1)])

lemma penalize_inv: "node_inv nv nd \<Longrightarrow> node_inv nv (penalize_author e reason now nd)"
  unfolding penalize_author_def by (rule violation_inv)

lemma note_peer_inv: "node_inv nv nd \<Longrightarrow> node_inv nv (note_peer_traffic p now nd)"
  by (simp add: note_peer_traffic_def Let_def node_inv_def distinct_update own_key_def)

lemma attempt_inv: "node_inv nv nd \<Longrightarrow> (\<And>x. node_inv nv (snd (k x))) \<Longrightarrow> node_inv nv (snd (attempt r k nd))"
  by (cases r) (simp_all add: attempt_def)

context steady_env begin

lemma admit_inv_node:
  assumes "node_inv nv nd" "now < u64_max"
  shows "node_inv nv (snd (admit_peer_event nv now e nd))"
proof -
  let ?b = "if heal_grace_active now nd then SPAM_BUDGET_PER_WINDOW * HEAL_WINDOW_BUDGET_FACTOR else SPAM_BUDGET_PER_WINDOW"
  obtain ok g where a: "admit_with_budget (nv_window_order nv) (ev_pubkey e) now ?b (nd_spam nd) = (ok, g)"
    by (cases "admit_with_budget (nv_window_order nv) (ev_pubkey e) now ?b (nd_spam nd)")
  have "?b \<le> SPAM_BUDGET_PER_WINDOW * HEAL_WINDOW_BUDGET_FACTOR" by (simp add: HEAL_WINDOW_BUDGET_FACTOR_def)
  from admit_inv [OF window_order _ this assms(2), of "nd_spam nd" "ev_pubkey e"]
  have "guard_inv (SPAM_BUDGET_PER_WINDOW * HEAL_WINDOW_BUDGET_FACTOR) g" using assms(1) a by (simp add: node_inv_def)
  then have 1: "node_inv nv (nd\<lparr>nd_spam := g\<rparr>)" using assms(1) by (simp add: node_inv_def)
  from violation_inv [OF this, of "ev_pubkey e" ExcessiveRate now]
  have 2: "node_inv nv (nd\<lparr>nd_spam := g, nd_reputation := snd (record_violation (ev_pubkey e) ExcessiveRate now (nd_reputation nd))\<rparr>)"
    by simp
  have "node_inv nv (snd (admit_peer_event nv now e nd))
    \<or> snd (admit_peer_event nv now e nd) = nd\<lparr>nd_metrics := record_duplicated (nd_metrics nd)\<rparr>"
    using assms(1) 1 2 a by (cases ok) (auto simp: admit_peer_event_def Let_def)
  then show ?thesis using assms(1) by auto
qed

lemma alert_inv:
  assumes "node_inv nv nd" "length (ev_content e) < 2 ^ 63"
  shows "node_inv nv (snd (handle_incoming_alert nv hv e nd))"
proof -
  obtain res nd1 where r: "relay_event nv hv e nd = (res, nd1)" by (cases "relay_event nv hv e nd")
  then have "node_inv nv nd1" using relay_event_inv [OF assms(1), of hv e] by simp
  with r assms store_and_persist_inv [of nv nd1 e Critical] show ?thesis
    by (auto simp: handle_incoming_alert_def split: sum.split prod.split)
qed

lemma endorsement_inv: "node_inv nv nd \<Longrightarrow> node_inv nv (snd (handle_incoming_endorsement nv hv e nd))"
proof -
  assume inv: "node_inv nv nd"
  have "node_inv nv (nd\<lparr>nd_reputation := rep\<rparr>)"
    if "apply_remote_endorsement en True (nd_reputation nd) = (res, rep)" for en res rep
    using that rep_inv_remote_endorse [of "nd_reputation nd" en True] inv
      remote_endorse_score_mono [of "nd_reputation nd" "own_key nv nd" en True]
    by (intro node_inv_reputation) (simp_all add: node_inv_def)
  then show ?thesis using inv relay_quietly_inv
    by (auto simp: handle_incoming_endorsement_def split: sum.split prod.split)
qed

lemma report_inv: "node_inv nv nd \<Longrightarrow> node_inv nv (snd (handle_incoming_abuse_report nv hv e nd))"
proof -
  assume inv: "node_inv nv nd"
  have "node_inv nv (nd\<lparr>nd_reputation := rep\<rparr>)"
    if "apply_remote_abuse_report rp True (nd_reputation nd) = (res, rep)" for rp res rep
    using that rep_inv_report [of "nd_reputation nd" rp True] inv
      score_cong [OF remote_report_effect(1) [of rp True "nd_reputation nd"]]
    by (intro node_inv_reputation) (simp_all add: node_inv_def)
  then show ?thesis using inv relay_quietly_inv
    by (auto simp: handle_incoming_abuse_report_def split: sum.split prod.split)
qed

lemma social_writes:
  "db_inv db \<Longrightarrow> db_inv (snd (insert_post t2 mj p (ensure_user t u db)))"
  "db_inv db \<Longrightarrow> db_inv (snd (insert_comment t2 c (ensure_user t u db)))"
  "db_inv db \<Longrightarrow> db_inv (snd (insert_comment t c db))"
  "db_inv db \<Longrightarrow> db_inv (ensure_user t u db)"
  "db_inv db \<Longrightarrow> db_inv (snd (vote t v tg d tb db))"
  "db_inv db \<Longrightarrow> db_inv (if b then unfollow x y db else follow t x y db)"
  "db_inv db \<Longrightarrow> db_inv (insert_message t i x y bd db)"
  "db_inv db \<Longrightarrow> db_inv (submit_report t i x y bd db)"
  using socialm.step_inv [where i = "SFollow t x y"] socialm.step_inv [where i = "SUnfollow x y"]
    socialm.step_inv [where i = "SMessage t i x y bd"] socialm.step_inv [where i = "SReport t i x y bd"]
  by (simp_all add: db_inv_insert_post db_inv_insert_comment db_inv_ensure_user db_inv_vote)

lemma social_inv: "node_inv nv nd \<Longrightarrow> node_inv nv (snd (handle_incoming_social nv hv e nd))"
  unfolding handle_incoming_social_def on_social_post_def on_social_comment_def on_social_vote_def on_social_follow_def
    on_social_message_def on_social_moderation_def Let_def
  by (cases "ev_kind e") (auto intro!: attempt_inv relay_then_inv social_writes split: sum.split)

lemma route_inv:
  assumes "node_inv nv nd" "length (ev_content e) < 2 ^ 63"
  shows "node_inv nv (snd (route_event nv hv now e nd))"
proof -
  obtain r1 n1 r2 n2 r3 n3 r4 n4 where h: "handle_incoming_alert nv hv e nd = (r1, n1)" "handle_incoming_endorsement nv hv e nd = (r2, n2)"
    "handle_incoming_abuse_report nv hv e nd = (r3, n3)" "handle_incoming_social nv hv e nd = (r4, n4)"
    by (meson surj_pair)
  have "node_inv nv n1" "node_inv nv n2" "node_inv nv n3" "node_inv nv n4"
    using alert_inv [OF assms, of hv] endorsement_inv [OF assms(1), of hv e] report_inv [OF assms(1), of hv e]
      social_inv [OF assms(1), of hv e] by (simp_all add: h)
  then show ?thesis using assms(1)
    by (simp add: route_event_def h penalize_inv split: sum.split endorsement_outcome.split report_outcome.split)
qed

lemma receive_inv:
  assumes "node_inv nv nd" "now < u64_max" "length (ev_content e) < 2 ^ 63"
  shows "node_inv nv (snd (receive_peer_event nv hv now e nd))"
proof -
  obtain ad nd1 where a: "admit_peer_event nv now e nd = (ad, nd1)" by (cases "admit_peer_event nv now e nd")
  then have 1: "node_inv nv nd1" using admit_inv_node [OF assms(1,2), of e] by simp
  then have "node_inv nv (snd (receive_peer_event_inner nv hv now e nd))"
    using route_inv [OF _ assms(3)] note_peer_inv [OF 1] by (simp add: receive_peer_event_inner_def a split: admission.split)
  then show ?thesis by (auto simp: receive_peer_event_def split: prod.split)
qed

end

section \<open>Every operation\<close>

datatype node_op =
    OpReceive handler_env nat mesh_event
  | OpAlert publish_clock string | OpMutualAid publish_clock string
  | OpEndorse publish_clock u64 string | OpReport publish_clock string abuse_reason nat
  | OpPost publish_clock string string "string option" string "string option"
  | OpComment publish_clock string string string "string option" string
  | OpSend u64 string u64 | OpCommit nat | OpRestore nat | OpSweep nat | OpHeal string
  | OpStart identity nat | OpStop | OpRotate identity nat | OpBattery bool
  | OpAnnounceRotation publish_clock identity nat | OpRotation nat mesh_event
  | OpAnnounceUpdate publish_clock version "byte list" u64 | OpUpdate publish_clock install_env mesh_event

fun node_step :: "node_env \<Rightarrow> node_op \<Rightarrow> node \<Rightarrow> node" where
  "node_step nv (OpReceive hv now e) nd = snd (receive_peer_event nv hv now e nd)"
| "node_step nv (OpAlert ck c) nd = snd (publish_alert nv ck c nd)"
| "node_step nv (OpMutualAid ck c) nd = snd (publish_mutual_aid nv ck c nd)"
| "node_step nv (OpEndorse ck ts p) nd = snd (node_endorse nv ck ts p nd)"
| "node_step nv (OpReport ck p reason ts) nd = snd (report_abuse nv ck p reason ts nd)"
| "node_step nv (OpPost ck sid pf t b s) nd = snd (publish_social_post nv ck sid pf t b s nd)"
| "node_step nv (OpComment ck sid pf pid par b) nd = snd (publish_social_comment nv ck sid pf pid par b nd)"
| "node_step nv (OpSend now r a) nd = snd (send_transaction nv now r a nd)"
| "node_step nv (OpCommit n) nd = snd (commit_transactions nv n nd)"
| "node_step nv (OpRestore now) nd = snd (restore_from_persistence now nd)"
| "node_step nv (OpSweep now) nd = snd (node_sweep now nd)"
| "node_step nv (OpHeal p) nd = snd (take_heal_batch p nd)"
| "node_step nv (OpStart f now) nd = node_start f now nd"
| "node_step nv OpStop nd = node_stop nd"
| "node_step nv (OpRotate f now) nd = snd (node_maybe_rotate f now nd)"
| "node_step nv (OpBattery b) nd = set_battery_saver b nd"
| "node_step nv (OpAnnounceRotation ck f now) nd = snd (announce_identity_rotation nv ck f now nd)"
| "node_step nv (OpRotation now e) nd = snd (handle_incoming_rotation nv now e nd)"
| "node_step nv (OpAnnounceUpdate ck v apk ts) nd = snd (announce_update nv ck v apk ts nd)"
| "node_step nv (OpUpdate ck iv e) nd = snd (handle_incoming_update nv ck iv e nd)"

fun node_op_ok :: "node_op \<Rightarrow> bool" where
  "node_op_ok (OpReceive hv now e) = (now < u64_max \<and> length (ev_content e) < 2 ^ 63)"
| "node_op_ok (OpAlert ck c) = (length c < 2 ^ 63)"
| "node_op_ok (OpMutualAid ck c) = (length c < 2 ^ 63)"
| "node_op_ok _ = True"

lemma diffuse_event:
  assumes "diffuse nv ck msg e0 nd = (Inr e, nd')"
  shows "ev_content e = ev_content e0" "ev_id e = ev_id e0" "ev_kind e = ev_kind e0" "ev_pubkey e = ev_pubkey e0"
  using assms
  by (auto simp: diffuse_def Let_def with_pow_difficulty_def compute_pow_def
      split: prod.splits sum.splits if_splits option.splits)

context steady_env begin

lemma publish_stored_inv:
  assumes "node_inv nv nd" "length c < 2 ^ 63"
  shows "node_inv nv (snd (publish_stored nv ck kind tier too_long c nd))"
proof -
  let ?e0 = "new_signed (nv_crypto nv) (ck_stamp ck) (id_seed (nd_identity nd)) kind c []"
  obtain res nd1 where d: "diffuse nv ck ''PoW computation failed'' ?e0 nd = (res, nd1)"
    by (cases "diffuse nv ck ''PoW computation failed'' ?e0 nd")
  then have 1: "node_inv nv nd1" using diffuse_inv [OF assms(1), of ck "''PoW computation failed''" ?e0] by simp
  show ?thesis
  proof (cases res)
    case (Inr e)
    then have "length (ev_content e) < 2 ^ 63" using diffuse_event(1) d assms(2) by fastforce
    from store_and_persist_inv [OF 1 this, of tier] show ?thesis
      using assms(1) Inr d by (auto simp: publish_stored_def record_publish_def split: sum.split)
  qed (use assms(1) d in \<open>auto simp: publish_stored_def split: sum.split\<close>)
qed

lemma publish_gossip_inv: "node_inv nv nd \<Longrightarrow> node_inv nv (snd (publish_gossip_event nv ck e nd))"
  by (simp add: publish_gossip_event_def diffuse_inv)

lemma endorse_inv: "node_inv nv nd \<Longrightarrow> node_inv nv (snd (node_endorse nv ck ts p nd))"
  using rep_inv_endorse [of "nd_reputation nd" "own_key nv nd" p ts]
    endorse_score_mono [of "nd_reputation nd" "own_key nv nd" "own_key nv nd" p ts]
  by (auto simp: node_endorse_def Let_def split: prod.split sum.split
      intro!: publish_gossip_inv node_inv_reputation) (auto simp: node_inv_def)

lemma post_inv: "node_inv nv nd \<Longrightarrow> node_inv nv (snd (publish_social_post nv ck sid pf t b s nd))"
proof -
  assume inv: "node_inv nv nd"
  have d: "node_inv nv nd1" if "diffuse nv ck m e nd = (res, nd1)" for m e res nd1
    using diffuse_inv [OF inv, of ck m e] that by simp
  show ?thesis
    unfolding publish_social_post_def Let_def
    by (auto simp: record_publish_def inv split: sum.split prod.split intro!: node_inv_social social_writes dest: d)
qed

lemma comment_inv: "node_inv nv nd \<Longrightarrow> node_inv nv (snd (publish_social_comment nv ck sid pf pid par b nd))"
proof -
  assume inv: "node_inv nv nd"
  have d: "node_inv nv nd1" if "diffuse nv ck m e nd = (res, nd1)" for m e res nd1
    using diffuse_inv [OF inv, of ck m e] that by simp
  show ?thesis
    unfolding publish_social_comment_def Let_def
    by (auto simp: inv split: sum.split prod.split option.split intro!: node_inv_social social_writes dest: d)
qed

lemma restore_inv: "node_inv nv nd \<Longrightarrow> node_inv nv (snd (restore_from_persistence now nd))"
proof (cases "nd_persistence nd")
  case (Some db)
  assume inv: "node_inv nv nd"
  obtain n st where l: "load_persisted_messages now (sql_load_all db) 0 (nd_store nd) = (n, st)"
    by (cases "load_persisted_messages now (sql_load_all db) 0 (nd_store nd)")
  have "store_ok st" using store_ok_load [of "nd_store nd" "sql_load_all db" now 0] inv Some l by (simp add: node_inv_def)
  then show ?thesis
    using inv Some l by (simp add: restore_from_persistence_def node_load_persisted_def node_inv_store)
qed (simp add: restore_from_persistence_def node_load_persisted_def)

lemma heal_inv: "node_inv nv nd \<Longrightarrow> node_inv nv (snd (take_heal_batch p nd))"
proof -
  assume inv: "node_inv nv nd"
  obtain b g where p: "peek_pending_for_peer p HEAL_BATCH_MAX_EVENTS (nd_gossip nd) = (b, g)"
    by (cases "peek_pending_for_peer p HEAL_BATCH_MAX_EVENTS (nd_gossip nd)")
  have gi: "gossip_inv (nd_gossip nd)" and ov: "outbox_valid (nv_crypto nv) (nd_gossip nd)" using inv by (simp_all add: node_inv_def)
  have 1: "gossip_inv g" using gossip_inv_peek [OF gi, of p HEAL_BATCH_MAX_EVENTS] p by simp
  have "gp_pending g = gp_pending (nd_gossip nd)" using peek_state(2) [of p HEAL_BATCH_MAX_EVENTS "nd_gossip nd"] p by simp
  then have "node_inv nv (nd\<lparr>nd_gossip := mark_delivered_to_peer p (map ev_id b) g\<rparr>)" "node_inv nv (nd\<lparr>nd_gossip := g\<rparr>)"
    using ov 1 gossip_inv_mark [OF 1] by (auto intro!: node_inv_gossip [OF inv] simp: outbox_valid_def)
  then show ?thesis using p by (simp add: take_heal_batch_def)
qed

lemma sweep_inv: "node_inv nv nd \<Longrightarrow> node_inv nv (snd (node_sweep now nd))"
  using store_ok_sweep [of "nd_store nd" now] small_sweep
  by (auto simp: node_sweep_def node_inv_def own_key_def split: option.splits prod.splits)


lemma rotation_inv:
  assumes "node_inv nv nd"
  shows "node_inv nv (snd (handle_incoming_rotation nv now e nd))"
proof -
  have keys: "node_inv nv (nd\<lparr>nd_peer_grace := AList.update a k1 (nd_peer_grace nd),
      nd_peer_x25519 := AList.update a k2 (nd_peer_x25519 nd), nd_peer_rotations := AList.update a n (nd_peer_rotations nd)\<rparr>)"
    "node_inv nv (nd\<lparr>nd_peer_x25519 := AList.update a k2 (nd_peer_x25519 nd), nd_peer_rotations := AList.update a n (nd_peer_rotations nd)\<rparr>)"
    for a k1 k2 n
    using assms by (auto simp: node_inv_def distinct_update own_key_def)
  have "node_inv nv (nd1\<lparr>nd_gossip := snd (add_event_with_reputation (nv_crypto nv) now (nv_known_order nv) (nd_reputation nd) e (nd_gossip nd))\<rparr>)"
    if "node_inv nv nd1" for nd1
    using add_event_inv [OF assms] that by (auto intro: node_inv_gossip)
  note this [OF keys(1)] this [OF keys(2)]
  then show ?thesis using assms unfolding handle_incoming_rotation_def Let_def
    by (auto split: sum.split option.split)
qed

lemma announce_rotation_inv: "node_inv nv nd \<Longrightarrow> node_inv nv (snd (announce_identity_rotation nv ck f now nd))"
  by (auto simp: announce_identity_rotation_def Let_def node_maybe_rotate_def intro!: publish_gossip_inv split: prod.split)

lemma announce_update_inv: "node_inv nv nd \<Longrightarrow> node_inv nv (snd (announce_update nv ck v apk ts nd))"
proof -
  assume inv: "node_inv nv nd"
  have "node_inv nv nd1" if "publish_gossip_event nv ck e nd = (res, nd1)" for e res nd1
    using publish_gossip_inv [OF inv, of ck e] that by simp
  then show ?thesis using inv unfolding announce_update_def Let_def
    by (auto split: sum.split prod.split option.split)
qed

lemma publish_request_inv: "node_inv nv nd \<Longrightarrow> node_inv nv (snd (publish_request nv ck tags oc nd))"
  using publish_gossip_inv [of nd ck "new_signed (nv_crypto nv) (ck_stamp ck) (id_seed (nd_identity nd)) UpdateRequest [] (build_tags tags)"]
  by (auto simp: publish_request_def split: sum.split prod.split)

lemma serve_inv: "node_inv nv nd \<Longrightarrow> node_inv nv (snd (serve nv ck k c tags oc nd))"
  using publish_gossip_inv [of nd ck "new_signed (nv_crypto nv) (ck_stamp ck) (id_seed (nd_identity nd)) k c (build_tags tags)"]
  by (auto simp: serve_def split: sum.split prod.split)

lemma finish_update_inv: "node_inv nv nd \<Longrightarrow> node_inv nv (snd (finish_update nv iv nd))"
  by (auto simp: finish_update_def split: sum.split prod.split)

lemma update_inv: "node_inv nv nd \<Longrightarrow> node_inv nv (snd (handle_incoming_update nv ck iv e nd))"
proof -
  assume inv: "node_inv nv nd"
  have "node_inv nv (snd (on_update_announce nv ck e nd))"
    using inv by (auto simp: on_update_announce_def intro!: publish_request_inv split: sum.split prod.split)
  moreover have "node_inv nv (snd (on_update_manifest nv ck e nd))"
    using inv by (auto simp: on_update_manifest_def intro!: publish_request_inv split: sum.split prod.split option.split)
  moreover have "node_inv nv (snd (on_update_chunk nv ck iv e nd))"
    using inv by (auto simp: on_update_chunk_def Let_def intro!: publish_request_inv finish_update_inv split: sum.split prod.split option.split)
  moreover have "node_inv nv (snd (on_update_request nv ck e nd))"
    using inv unfolding on_update_request_def Let_def by (auto intro!: serve_inv split: option.split)
  ultimately show ?thesis using inv by (simp add: handle_incoming_update_def split: onde_message_type.split)
qed

lemma report_abuse_inv: "node_inv nv nd \<Longrightarrow> node_inv nv (snd (report_abuse nv ck p reason ts nd))"
  by (simp add: report_abuse_def Let_def publish_gossip_inv)

lemma publish_inv:
  assumes "node_inv nv nd" "length c < 2 ^ 63"
  shows "node_inv nv (snd (publish_alert nv ck c nd))" "node_inv nv (snd (publish_mutual_aid nv ck c nd))"
  using assms by (simp_all add: publish_alert_def publish_mutual_aid_def publish_stored_inv)

lemma upkeep_inv:
  assumes "node_inv nv nd"
  shows "node_inv nv (snd (send_transaction nv s r a nd))" "node_inv nv (snd (commit_transactions nv n nd))"
    "node_inv nv (node_start f now nd)" "node_inv nv (node_stop nd)" "node_inv nv (snd (node_maybe_rotate f now nd))"
    "node_inv nv (set_battery_saver b nd)"
  using assms by (auto simp: send_transaction_def Let_def commit_transactions_def node_start_def node_stop_def
      node_maybe_rotate_def set_battery_saver_def split: sum.split prod.split)

lemma node_step_inv: "node_inv nv nd \<Longrightarrow> node_op_ok op \<Longrightarrow> node_inv nv (node_step nv op nd)"
  by (cases op)
    (simp_all add: receive_inv publish_inv endorse_inv report_abuse_inv post_inv comment_inv upkeep_inv restore_inv
      sweep_inv heal_inv announce_rotation_inv rotation_inv announce_update_inv update_inv)

end

interpretation steady: steady_env "nv\<lparr>nv_known_order := sorted_list_of_set, nv_window_order := (\<lambda>m. sorted_list_of_set (Mapping.keys m))\<rparr>" for nv
  by unfold_locales (simp_all add: sorted_lists_set lists_keys_def)

interpretation nodem: guarded_machine "node_step nv"
    "\<lambda>nd. lists_set (nv_known_order nv) \<and> lists_keys (nv_window_order nv) \<and> node_inv nv nd" node_op_ok for nv
  by unfold_locales (simp add: steady_env.node_step_inv steady_env.intro)

lemma bootstrap_trusts: "is_trusted (bootstrap [p] r) p"
proof -
  have "TRUSTED_THRESHOLD \<le> clamp01 GENESIS_TRUST"
    using f64_mono [of "7 / 10" "8 / 10"] f64_le_repr [of 1 "7 / 10"] is_f64_1 f64_nonneg [of "8 / 10"]
    by (simp add: GENESIS_TRUST_def TRUSTED_THRESHOLD_def clamp01_def)
  then show ?thesis by (simp add: bootstrap_def set_trusted_def is_trusted_def score_def lookup_default_update)
qed

lemma boot_parts:
  "gossip_inv (set_metrics n gossip_new)" "outbox_valid ce (set_metrics n gossip_new)"
  "store_ok (tiered_set_metrics m (set_my_geohash h (tiered_new pol)))"
  by (simp_all add: gossip_inv_def outbox_valid_def store_ok_def set_metrics_def gossip_new_def delivered_to_def
      tiered_set_metrics_def set_my_geohash_def tiered_new_def tiered_with_geohash_def raw_total_def)

lemma small_meta: "sql_load_all (set_meta k v db) = sql_load_all db"
  by (simp add: set_meta_def sql_load_all_def)

lemma node_new_inv:
  assumes "\<And>path db. bt_sqlite bt path = Some db \<Longrightarrow> list_all (\<lambda>m. tm_original_size m < 2 ^ 63) (sql_load_all db)"
    and "\<And>path db. bt_social bt path = Some db \<Longrightarrow> db_inv db"
  shows "node_inv nv (node_new nv bt cfg)"
proof -
  let ?opened = "case nc_sqlite_path cfg of Some path \<Rightarrow> bt_sqlite bt path | None \<Rightarrow> None"
  obtain i p where b: "boot_identity nv bt cfg ?opened = (i, p)" by (cases "boot_identity nv bt cfg ?opened")
  have "case ?opened of None \<Rightarrow> True | Some db \<Rightarrow> list_all (\<lambda>m. tm_original_size m < 2 ^ 63) (sql_load_all db)"
    using assms(1) by (auto split: option.split)
  then have sql: "case p of None \<Rightarrow> True | Some db \<Rightarrow> list_all (\<lambda>m. tm_original_size m < 2 ^ 63) (sql_load_all db)"
    using b by (auto simp: boot_identity_def Let_def small_meta split: option.splits)
  have soc: "case (case nc_social_path cfg of Some path \<Rightarrow> bt_social bt path | None \<Rightarrow> None) of None \<Rightarrow> True | Some db \<Rightarrow> db_inv db"
    using assms(2) by (auto split: option.split)
  show ?thesis
    unfolding node_inv_def node_new_def own_key_def using b sql soc
    by (simp add: Let_def rep_inv_bootstrap bootstrap_trusts boot_parts)
qed

definition demo_ck :: publish_clock where
  "demo_ck = \<lparr>ck_throttle = 7, ck_stamp = 7, ck_validate = 7, ck_gossip = 7, ck_publish = 7, ck_store = 7, ck_store2 = 7\<rparr>"

definition demo_ops :: "node_op list" where
  "demo_ops = [OpAlert demo_ck ''hi'', OpReceive demo_hv 7 (new_signed demo_env 0 (replicate 32 1) Alert ''hi'' []), OpHeal ''p'', OpSweep 9]"

text \<open>C6: Whatever peers send and the owner does, from boot on: the gossip stays within its bounds and offers
  only events that passed validation, every score is a number between 0 and 1 and the node trusts its
  own key, no author has more than 48 stamps in the rate window, the message store stays within its
  budget without a duplicate, and the social cache keeps its keys, references and bounds.\<close>

theorem node_integrity:
  assumes "lists_set (nv_known_order nv)" "lists_keys (nv_window_order nv)"
    and "\<And>path db m. bt_sqlite bt path = Some db \<Longrightarrow> m \<in> set (sql_load_all db) \<Longrightarrow> tm_original_size m < 2 ^ 63"
    and "\<And>path db. bt_social bt path = Some db \<Longrightarrow> \<exists>mj ops. db = fold (social_step mj) ops social_open"
    and "list_all node_op_ok ops" "nd = fold (node_step nv) ops (node_new nv bt cfg)"
  shows "known_event_count (nd_gossip nd) \<le> MAX_KNOWN_EVENTS
    \<and> length (get_pending_broadcasts (nd_gossip nd)) \<le> MAX_PENDING_BROADCASTS
    \<and> outbox_valid (nv_crypto nv) (nd_gossip nd)
    \<and> (\<forall>k. is_f64 (score (nd_reputation nd) k) \<and> 0 \<le> score (nd_reputation nd) k \<and> score (nd_reputation nd) k \<le> 1)
    \<and> is_trusted (nd_reputation nd) (own_key nv nd)
    \<and> (\<forall>a. length (Mapping.lookup_default [] (sg_entries (nd_spam nd)) a) \<le> 48)
    \<and> distinct (map tm_id (st_messages (nd_store nd))) \<and> raw_total (nd_store nd) \<le> max_bytes (st_policy (nd_store nd))
    \<and> pred_option (\<lambda>db. db_inv db \<and> orphan_comment_count db \<le> 1024) (nd_social nd)"
proof -
  have "db_inv (fold (social_step mj) ops social_open)" for mj ops
    by (rule socialm.run_inv) (simp_all add: db_inv_def social_open_def comments_ok_def list_all_iff)
  then have "node_inv nv (node_new nv bt cfg)"
    using assms(3,4) by (intro node_new_inv) (simp add: list_all_iff, metis)
  then have "node_inv nv nd"
    using nodem.run_inv [of nv "node_new nv bt cfg" ops] assms(1,2,5,6) by simp
  moreover from this have "pred_option (\<lambda>db. db_inv db \<and> orphan_comment_count db \<le> 1024) (nd_social nd)"
    by (cases "nd_social nd") (simp_all add: node_inv_def db_inv_def orphan_comment_count_def MAX_ORPHAN_COMMENTS_def)
  ultimately show ?thesis
    by (simp add: node_inv_def gossip_inv_def known_event_count_def get_pending_broadcasts_def rep_inv_def guard_inv_def
        store_ok_def SPAM_BUDGET_PER_WINDOW_def HEAL_WINDOW_BUDGET_FACTOR_def)
qed

lemma node_integrity_witness:
  "let nd = fold (node_step demo_nv) demo_ops (demo_node 2)
   in known_event_count (nd_gossip nd) \<le> MAX_KNOWN_EVENTS \<and> is_trusted (nd_reputation nd) (own_key demo_nv nd)
    \<and> raw_total (nd_store nd) \<le> max_bytes (st_policy (nd_store nd))"
proof -
  have "list_all node_op_ok demo_ops" by (simp add: demo_ops_def u64_max_def new_signed_def Let_def)
  moreover have "\<exists>mj ops. social_open = fold (social_step mj) ops social_open" by (intro exI [of _ "[]"] exI) simp
  moreover have "bt_sqlite (demo_boot 2) path = Some db \<Longrightarrow> m \<in> set (sql_load_all db) \<Longrightarrow> tm_original_size m < 2 ^ 63" for path db m
    by (auto simp: demo_boot_def sql_load_all_def sql_open_def)
  moreover have "bt_social (demo_boot 2) path = Some db \<Longrightarrow> db = social_open" for path db
    by (simp add: demo_boot_def)
  ultimately show ?thesis
    using node_integrity [OF demo_orders, where bt = "demo_boot 2" and ops = demo_ops, OF _ _ _ HOL.refl,
        of "node_config_default\<lparr>nc_sqlite_path := Some ''db'', nc_social_path := Some ''social''\<rparr>", folded demo_node_def]
    unfolding Let_def by blast
qed

end
