(* ===== verification/NodeTrust.thy ===== *)
theory NodeTrust
  imports NodeMachine
begin

text \<open>
  How trust moves in a running node: the changes that operations make to the reputation store, the
  frame of every operation on identity, trust and announced keys, and the closure of the set of
  trusted keys. \<open>with_trust\<close> is the option \<open>--trust\<close> of \<open>bin/node.rs\<close>.
\<close>

section \<open>Who becomes trusted\<close>

lemma newly_trusted:
  assumes "rep_inv r" "\<not> is_trusted r b" "is_trusted (snd (endorse a b ts r)) b"
    and "finite T" "\<And>k. is_trusted r k \<Longrightarrow> k \<in> T"
  shows "REQUIRED_ENDORSEMENTS \<le> card T"
proof -
  have ok: "endorse_ok a b r" using assms(2,3) endorse_refused [of a b r ts] by (cases "endorse_ok a b r") auto
  let ?two = "endorse_list a b ts r"
  let ?es = "filter (\<lambda>e. score ?two (en_endorser e) \<ge> ENDORSEMENT_THRESHOLD) (endorsements_of ?two b)"
  have "gained_score r a b < TRUSTED_THRESHOLD" by (rule gained_untrusted [OF assms(1,2)])
  moreover have "score ?two b = gained_score r a b" by (simp add: endorse_list_def score_def lookup_default_update)
  ultimately have cnt: "REQUIRED_ENDORSEMENTS \<le> length ?es"
    using assms(3) by (auto simp: endorse_accepted [OF ok] Let_def is_trusted_def endorsement_count_def split: if_splits)
  have eok: "endorsements_ok b (endorsements_of ?two b)"
    using rep_inv_endorse_list [OF assms(1) ok, of ts] by (simp add: rep_inv_def)
  have "en_endorser ` set ?es \<subseteq> T"
  proof
    fix k assume "k \<in> en_endorser ` set ?es"
    then have "k \<noteq> b" "score ?two k \<ge> TRUSTED_THRESHOLD" using eok by (auto simp: endorsements_ok_def threshold_eq)
    then have "is_trusted r k" by (simp add: is_trusted_def endorse_list_def score_def lookup_default_update)
    then show "k \<in> T" by (rule assms(5))
  qed
  moreover have "distinct (map en_endorser ?es)" using eok by (simp add: endorsements_ok_def distinct_map_filter)
  ultimately show ?thesis
    using card_mono [OF assms(4), of "en_endorser ` set ?es"] cnt distinct_card [of "map en_endorser ?es"] by simp
qed

lemma endorse_other_score: "k \<noteq> b \<Longrightarrow> score (snd (endorse a b ts r)) k = score r k"
  by (cases "endorse_ok a b r")
    (use endorse_refused [of a b r ts] in \<open>auto simp: endorse_accepted Let_def endorse_list_def score_def lookup_default_update\<close>)

text \<open>The changes that the operations of a node make to its reputation store.\<close>

inductive rep_move :: "reputation \<Rightarrow> reputation \<Rightarrow> bool" where
  moved_violation: "rep_move r (snd (record_violation k reason t r))"
| moved_endorse: "rep_move r (snd (endorse a b ts r))"
| moved_report: "rep_move r (snd (apply_remote_abuse_report rp v r))"

abbreviation evolves :: "reputation \<Rightarrow> reputation \<Rightarrow> bool" where
  "evolves \<equiv> rep_move\<^sup>*\<^sup>*"

definition trusts_just :: "string set \<Rightarrow> reputation \<Rightarrow> bool" where
  "trusts_just T r \<longleftrightarrow> rep_inv r \<and> (\<forall>k. is_trusted r k \<longleftrightarrow> k \<in> T)"

lemma trusts_move:
  assumes "rep_move r r'" "trusts_just T r" "finite T" "card T < REQUIRED_ENDORSEMENTS"
  shows "trusts_just T r'"
  using assms
proof (cases rule: rep_move.cases)
  case (moved_endorse a b ts)
  have "is_trusted r' k \<longleftrightarrow> is_trusted r k" for k
  proof
    show "is_trusted r k \<Longrightarrow> is_trusted r' k"
      using endorse_score_mono [of r k a b ts] moved_endorse by (simp add: is_trusted_def)
    show "is_trusted r' k \<Longrightarrow> is_trusted r k"
      using newly_trusted [of r b a ts T] endorse_other_score [of k b a ts r] moved_endorse assms(2-4)
      by (cases "k = b") (auto simp: trusts_just_def is_trusted_def)
  qed
  then show ?thesis using assms(2) moved_endorse rep_inv_endorse by (simp add: trusts_just_def)
qed (auto simp: trusts_just_def is_trusted_def rep_inv_record_violation rep_inv_report
      score_cong [OF violation_effect(1)] score_cong [OF remote_report_effect(1)])

lemma trusts_evolves:
  assumes "evolves r r'" "trusts_just T r" "finite T" "card T < REQUIRED_ENDORSEMENTS"
  shows "trusts_just T r'"
  using assms(1,2) by (induction rule: rtranclp_induct) (auto intro: trusts_move [OF _ _ assms(3,4)])

lemma evolves_remote: "evolves r (snd (apply_remote_endorsement en v r))"
  using moved_endorse [of r "en_endorser en" "en_endorsed en" "en_timestamp en"]
  by (auto simp: apply_remote_endorsement_def split: prod.split sum.split)

lemma evolves_violation: "evolves r (snd (record_violation k reason t r))"
  by (intro r_into_rtranclp moved_violation)

lemma evolves_penalize: "evolves (nd_reputation nd) (nd_reputation (penalize_author e reason now nd))"
  by (simp add: penalize_author_def evolves_violation)

lemma endorsement_evolves: "evolves (nd_reputation nd) (nd_reputation (snd (handle_incoming_endorsement nv hv e nd)))"
  using evolves_remote [of "nd_reputation nd"]
  by (auto simp: handle_incoming_endorsement_def split: sum.split prod.split) (metis snd_conv)+

lemma report_evolves: "evolves (nd_reputation nd) (nd_reputation (snd (handle_incoming_abuse_report nv hv e nd)))"
proof -
  have "evolves (nd_reputation nd) rep" if "apply_remote_abuse_report rp True (nd_reputation nd) = (res, rep)" for rp res rep
    using moved_report [of "nd_reputation nd" rp True] that by simp
  then show ?thesis by (auto simp: handle_incoming_abuse_report_def split: sum.split prod.split)
qed

lemma social_reputation [simp]: "nd_reputation (snd (handle_incoming_social nv hv e nd)) = nd_reputation nd"
  using handle_social_frame by blast

text \<open>What most operations leave alone.\<close>

definition rests :: "node \<Rightarrow> node \<Rightarrow> bool" where
  "rests nd nd' \<longleftrightarrow> nd_identity nd' = nd_identity nd \<and> nd_reputation nd' = nd_reputation nd
     \<and> nd_peer_x25519 nd' = nd_peer_x25519 nd \<and> nd_peer_grace nd' = nd_peer_grace nd
     \<and> nd_peer_rotations nd' = nd_peer_rotations nd"

lemma rests_refl [simp]: "rests nd nd"
  by (simp add: rests_def)

lemma rests_trans: "rests a b \<Longrightarrow> rests b c \<Longrightarrow> rests a c"
  by (simp add: rests_def)

lemma rests_update [simp]:
  "rests nd (nd'\<lparr>nd_gossip := g\<rparr>) = rests nd nd'" "rests nd (nd'\<lparr>nd_store := st\<rparr>) = rests nd nd'"
  "rests nd (nd'\<lparr>nd_persistence := db\<rparr>) = rests nd nd'" "rests nd (nd'\<lparr>nd_social := sd\<rparr>) = rests nd nd'"
  "rests nd (nd'\<lparr>nd_last_publish := p\<rparr>) = rests nd nd'" "rests nd (nd'\<lparr>nd_rotator := ro\<rparr>) = rests nd nd'"
  "rests nd (nd'\<lparr>nd_running := b\<rparr>) = rests nd nd'" "rests nd (nd'\<lparr>nd_config := c\<rparr>) = rests nd nd'"
  "rests nd (nd'\<lparr>nd_tx_pool := tp\<rparr>) = rests nd nd'" "rests nd (nd'\<lparr>nd_update := u\<rparr>) = rests nd nd'"
  "rests nd (nd'\<lparr>nd_update_offer := uo\<rparr>) = rests nd nd'"
  "rests nd (nd'\<lparr>nd_pending_announcement := pa\<rparr>) = rests nd nd'"
  by (simp_all add: rests_def)

lemma rests_diffuse [simp]: "rests nd (snd (diffuse nv ck msg e nd))"
  by (simp add: diffuse_def Let_def split: sum.split prod.split)

lemma rests_diffused: "diffuse nv ck msg e nd = (res, nd1) \<Longrightarrow> rests nd nd1"
  using rests_diffuse [of nd nv ck msg e] by simp

lemma rests_publish [simp]: "rests nd (snd (publish_gossip_event nv ck e nd))"
  by (simp add: publish_gossip_event_def)

lemma rests_published: "publish_gossip_event nv ck e nd = (res, nd1) \<Longrightarrow> rests nd nd1"
  using rests_publish [of nd nv ck e] by simp

lemma rests_store: "rests nd (snd (store_and_persist nv tier e nd))"
  by (simp add: store_and_persist_def node_persist_message_def Let_def split: prod.split)

lemma rests_stored: "rests nd (snd (publish_stored nv ck kind tier too_long c nd))"
  using rests_store
  by (auto simp: publish_stored_def record_publish_def split: sum.split prod.split dest!: rests_diffused intro: rests_trans)

lemma rests_request: "rests nd (snd (publish_request nv ck tags oc nd))"
  by (auto simp: publish_request_def split: sum.split prod.split dest: rests_published)

lemma rests_serve: "rests nd (snd (serve nv ck k c tags oc nd))"
  by (auto simp: serve_def split: sum.split prod.split dest: rests_published)

lemma rests_through: "rests nd nd1 \<Longrightarrow> rests nd (snd (publish_request nv ck tags oc nd1))"
  using rests_request rests_trans by blast

lemma rests_update_handler: "rests nd (snd (handle_incoming_update nv ck iv e nd))"
proof -
  have "rests nd (snd (on_update_announce nv ck e nd))"
    by (auto simp: on_update_announce_def intro!: rests_through split: sum.split prod.split)
  moreover have "rests nd (snd (on_update_manifest nv ck e nd))"
    by (auto simp: on_update_manifest_def intro!: rests_through split: sum.split prod.split option.split)
  moreover have "rests nd (snd (on_update_chunk nv ck iv e nd))"
    by (auto simp: on_update_chunk_def finish_update_def Let_def intro!: rests_through split: sum.split prod.split option.split)
  moreover have "rests nd (snd (on_update_request nv ck e nd))"
    unfolding on_update_request_def Let_def by (auto intro!: rests_serve split: option.split)
  ultimately show ?thesis by (simp add: handle_incoming_update_def split: onde_message_type.split)
qed

lemma rests_upkeep:
  "rests nd (snd (send_transaction nv s r a nd))" "rests nd (snd (commit_transactions nv n nd))"
  "rests nd (node_start f now nd)" "rests nd (node_stop nd)" "rests nd (snd (node_maybe_rotate f now nd))"
  "rests nd (set_battery_saver b nd)" "rests nd (snd (restore_from_persistence now nd))" "rests nd (snd (node_sweep now nd))"
  "rests nd (snd (take_heal_batch p nd))"
  by (auto simp: send_transaction_def Let_def commit_transactions_def node_start_def node_stop_def
      node_maybe_rotate_def set_battery_saver_def restore_from_persistence_def node_load_persisted_def node_sweep_def
      take_heal_batch_def split: sum.split prod.split option.split)

lemma rests_social:
  "rests nd (snd (publish_social_post nv ck sid pf t b s nd))" "rests nd (snd (publish_social_comment nv ck sid pf pid par b nd))"
  unfolding publish_social_post_def publish_social_comment_def Let_def
  by (auto simp: record_publish_def split: sum.split prod.split option.split dest: rests_diffused)

lemma rests_announcements:
  "rests nd (snd (report_abuse nv ck p reason ts nd))" "rests nd (snd (announce_identity_rotation nv ck f now nd))"
  "rests nd (snd (announce_update nv ck v apk stamp nd))"
  unfolding report_abuse_def announce_update_def Let_def
  by (auto simp: announce_identity_rotation_def Let_def split: sum.split prod.split option.split dest: rests_published
      intro!: rests_trans [OF rests_upkeep(5) rests_publish])

fun trust_op :: "node_op \<Rightarrow> bool" where
  "trust_op (OpReceive _ _ _) = True" | "trust_op (OpEndorse _ _ _) = True" | "trust_op (OpRotation _ _) = True" | "trust_op _ = False"

lemma node_step_rests: "\<not> trust_op op \<Longrightarrow> rests nd (node_step nv op nd)"
  by (cases op) (simp_all add: rests_upkeep rests_social rests_announcements rests_update_handler rests_stored
      publish_alert_def publish_mutual_aid_def)

lemma receive_untouched: "untouched nd (snd (receive_peer_event nv hv now e nd))"
  using receive_fair [of e nd nv hv now] by (simp add: fair_step_def)

lemma route_evolves: "evolves (nd_reputation nd) (nd_reputation (snd (route_event nv hv now e nd)))"
proof -
  obtain r1 n1 r2 n2 r3 n3 r4 n4 where h: "handle_incoming_alert nv hv e nd = (r1, n1)" "handle_incoming_endorsement nv hv e nd = (r2, n2)"
    "handle_incoming_abuse_report nv hv e nd = (r3, n3)" "handle_incoming_social nv hv e nd = (r4, n4)"
    by (meson surj_pair)
  have "nd_reputation n1 = nd_reputation nd" "nd_reputation n4 = nd_reputation nd"
    using handle_alert_frame [of nd nv hv e] social_reputation [of nv hv e nd] h by simp_all
  moreover have "evolves (nd_reputation nd) (nd_reputation n2)" "evolves (nd_reputation nd) (nd_reputation n3)"
    using endorsement_evolves [of nd nv hv e] report_evolves [of nd nv hv e] h by simp_all
  ultimately show ?thesis
    using rtranclp_trans [OF _ evolves_penalize] evolves_penalize [of n1] evolves_penalize [of n4]
    by (simp add: route_event_def h split: sum.split endorsement_outcome.split report_outcome.split)
qed

lemma receive_evolves: "evolves (nd_reputation nd) (nd_reputation (snd (receive_peer_event nv hv now e nd)))"
proof -
  obtain ad nd1 where a: "admit_peer_event nv now e nd = (ad, nd1)" by (cases "admit_peer_event nv now e nd")
  then have 1: "evolves (nd_reputation nd) (nd_reputation nd1)"
    by (auto simp: admit_peer_event_def Let_def evolves_violation split: if_splits prod.splits bool.splits)
  then have "evolves (nd_reputation nd) (nd_reputation (snd (receive_peer_event_inner nv hv now e nd)))"
    using rtranclp_trans [OF 1 route_evolves [of nd1]]
      rtranclp_trans [OF 1, of "nd_reputation (snd (route_event nv hv now e (note_peer_traffic (ev_pubkey e) now nd1)))"]
      route_evolves [of "note_peer_traffic (ev_pubkey e) now nd1"]
    by (simp add: receive_peer_event_inner_def a split: admission.split)
  then show ?thesis by (auto simp: receive_peer_event_def split: prod.split)
qed

lemma own_endorse_drift:
  "nd_identity (snd (node_endorse nv ck ts p nd)) = nd_identity nd
   \<and> evolves (nd_reputation nd) (nd_reputation (snd (node_endorse nv ck ts p nd)))
   \<and> nd_peer_rotations (snd (node_endorse nv ck ts p nd)) = nd_peer_rotations nd
   \<and> nd_peer_x25519 (snd (node_endorse nv ck ts p nd)) = nd_peer_x25519 nd"
proof -
  obtain r rep where e: "endorse (own_key nv nd) p ts (nd_reputation nd) = (r, rep)" by (cases "endorse (own_key nv nd) p ts (nd_reputation nd)")
  then have "evolves (nd_reputation nd) rep" using r_into_rtranclp [of rep_move, OF moved_endorse [of "nd_reputation nd" "own_key nv nd" p ts]] by simp
  with e show ?thesis
    using rests_publish [of "nd\<lparr>nd_reputation := rep\<rparr>" nv ck]
    by (auto simp: node_endorse_def Let_def rests_def split: sum.split prod.split)
qed

lemma rotation_frame:
  "nd_identity (snd (handle_incoming_rotation nv now e nd)) = nd_identity nd
   \<and> nd_reputation (snd (handle_incoming_rotation nv now e nd)) = nd_reputation nd"
  by (auto simp: handle_incoming_rotation_def Let_def split: sum.split option.split)

lemma node_step_drift:
  "nd_identity (node_step nv op nd) = nd_identity nd \<and> evolves (nd_reputation nd) (nd_reputation (node_step nv op nd))"
proof (cases "trust_op op")
  case False
  then show ?thesis using node_step_rests [of op nd nv] by (simp add: rests_def)
next
  case True
  then show ?thesis
    using receive_untouched [of nd nv] receive_evolves [of nd nv] own_endorse_drift [of nv _ _ _ nd] rotation_frame [of nv _ _ nd]
    by (cases op) (auto simp: untouched_def)
qed

lemma run_drift:
  "nd_identity (fold (node_step nv) ops nd) = nd_identity nd
   \<and> evolves (nd_reputation nd) (nd_reputation (fold (node_step nv) ops nd))"
proof (induction ops arbitrary: nd)
  case (Cons op ops)
  then show ?case using node_step_drift [of nv op nd] by (auto intro: rtranclp_trans)
qed simp

text \<open>\<open>--trust\<close> on the command line of the node: the operator's keys get the genesis score.\<close>

definition with_trust :: "string list \<Rightarrow> node \<Rightarrow> node" where
  "with_trust trust_pubkeys nd =
     (if trust_pubkeys \<noteq> [] then nd\<lparr>nd_reputation := bootstrap trust_pubkeys (nd_reputation nd)\<rparr> else nd)"

lemma genesis_trusted: "TRUSTED_THRESHOLD \<le> clamp01 GENESIS_TRUST"
  using f64_mono [of "7 / 10" "8 / 10"] f64_le_repr [of 1 "7 / 10"] is_f64_1 f64_nonneg [of "8 / 10"]
  by (simp add: GENESIS_TRUST_def TRUSTED_THRESHOLD_def clamp01_def)

lemma bootstrap_trusted: "is_trusted (bootstrap ps r) k \<longleftrightarrow> k \<in> set ps \<or> is_trusted r k"
proof (induction ps arbitrary: r)
  case (Cons p ps)
  have "is_trusted (set_trusted p GENESIS_TRUST r) k \<longleftrightarrow> k = p \<or> is_trusted r k"
    using genesis_trusted by (auto simp: set_trusted_def is_trusted_def score_def lookup_default_update)
  then show ?case using Cons.IH [of "set_trusted p GENESIS_TRUST r"] by (auto simp: bootstrap_def)
qed (simp add: bootstrap_def)

lemma nobody_trusted [simp]: "\<not> is_trusted reputation_new k"
  using threshold_gt_half by (simp add: is_trusted_def score_def reputation_new_def UNKNOWN_TRUST_def lookup_default_empty)

lemma trusts_bootstrap: "trusts_just (insert p (set ts)) (bootstrap ts (bootstrap [p] reputation_new))"
  by (auto simp: trusts_just_def bootstrap_trusted intro!: rep_inv_bootstrap)

lemma node_new_reputation: "nd_reputation (node_new nv bt cfg) = bootstrap [own_key nv (node_new nv bt cfg)] reputation_new"
  by (simp add: node_new_def own_key_def Let_def split: prod.split)

lemma history_own_key:
  "own_key nv (fold (node_step nv) ops (with_trust ts (node_new nv bt cfg))) = own_key nv (node_new nv bt cfg)"
  using run_drift [of nv ops "with_trust ts (node_new nv bt cfg)"] by (simp add: own_key_def with_trust_def)

lemma history_start:
  "nd_reputation (with_trust ts (node_new nv bt cfg)) = bootstrap ts (bootstrap [own_key nv (node_new nv bt cfg)] reputation_new)"
  unfolding node_new_reputation [symmetric] by (cases ts) (simp_all add: with_trust_def bootstrap_def)

lemma history_trust:
  assumes "nd = fold (node_step nv) ops (with_trust ts (node_new nv bt cfg))"
    and "card (insert (own_key nv nd) (set ts)) < REQUIRED_ENDORSEMENTS"
  shows "trusts_just (insert (own_key nv nd) (set ts)) (nd_reputation nd)"
proof -
  let ?start = "with_trust ts (node_new nv bt cfg)"
  have own: "own_key nv nd = own_key nv (node_new nv bt cfg)" by (simp only: assms(1) history_own_key)
  have d: "evolves (nd_reputation ?start) (nd_reputation nd)" using run_drift [of nv ops ?start] by (simp add: assms(1))
  have "nd_reputation ?start = bootstrap ts (bootstrap [own_key nv nd] reputation_new)" by (simp only: history_start own)
  then have "trusts_just (insert (own_key nv nd) (set ts)) (nd_reputation ?start)"
    using trusts_bootstrap [where ts = ts and p = "own_key nv nd"] by (rule ssubst)
  then show ?thesis using trusts_evolves [OF d _ _ assms(2)] by simp
qed

lemma trust_kept: "evolves r r' \<Longrightarrow> is_trusted r k \<Longrightarrow> is_trusted r' k"
proof (induction rule: rtranclp_induct)
  case (step r1 r2)
  from step.hyps(2) have "score r1 k \<le> score r2 k"
    by (cases rule: rep_move.cases)
      (simp_all add: endorse_score_mono score_cong [OF violation_effect(1)] score_cong [OF remote_report_effect(1)])
  then show ?case using step.IH step.prems by (simp add: is_trusted_def)
qed

lemma history_trusts:
  assumes "nd = fold (node_step nv) ops (with_trust ts (node_new nv bt cfg))" "k \<in> insert (own_key nv nd) (set ts)"
  shows "is_trusted (nd_reputation nd) k"
proof -
  let ?start = "with_trust ts (node_new nv bt cfg)"
  have own: "own_key nv nd = own_key nv (node_new nv bt cfg)" by (simp only: assms(1) history_own_key)
  have "is_trusted (nd_reputation ?start) k" using assms(2) by (auto simp: history_start own bootstrap_trusted)
  moreover have "evolves (nd_reputation ?start) (nd_reputation nd)" using run_drift [of nv ops ?start] by (simp add: assms(1))
  ultimately show ?thesis by (rule trust_kept [rotated])
qed

text \<open>C3: Trust comes from the operator alone: a node started with fewer than three trusted keys, its own
  included, never trusts another one, whatever its peers and its owner do afterwards.\<close>

theorem trust_closed:
  assumes "nd = fold (node_step nv) ops (with_trust ts (node_new nv bt cfg))"
    and "card (insert (own_key nv nd) (set ts)) < REQUIRED_ENDORSEMENTS"
  shows "is_trusted (nd_reputation nd) k \<longleftrightarrow> k = own_key nv nd \<or> k \<in> set ts"
  using history_trust [OF assms] by (simp add: trusts_just_def)

lemma trust_closed_witness:
  "\<not> is_trusted (nd_reputation (fold (node_step demo_nv) demo_ops (with_trust [demo_key 1] (demo_node 2)))) (demo_key 3)"
proof -
  let ?nd = "fold (node_step demo_nv) demo_ops (with_trust [demo_key 1] (demo_node 2))"
  have "nd_identity ?nd = nd_identity (demo_node 2)" using run_drift by (simp add: with_trust_def)
  then have own: "own_key demo_nv ?nd = demo_key 2" using demo_node_fields(1) [of 2] by (simp add: own_key_def)
  then have "card (insert (own_key demo_nv ?nd) (set [demo_key 1])) < REQUIRED_ENDORSEMENTS"
    by (simp add: REQUIRED_ENDORSEMENTS_def)
  from trust_closed [OF _ this, of demo_ops "demo_boot 2" "node_config_default\<lparr>nc_sqlite_path := Some ''db'', nc_social_path := Some ''social''\<rparr>"
      "demo_key 3", folded demo_node_def]
  show ?thesis using own by simp
qed

end
