(* ===== verification/NodeMesh.thy ===== *)
theory NodeMesh
  imports NodeTrust
begin

text \<open>
  Two nodes together: an alert from its publication to the peers that trust its author and to those
  that do not, and the announcements of new X25519 keys.
\<close>

section \<open>An alert from publication to its receivers\<close>

lemma trusted_pays_nothing:
  "is_trusted r k \<Longrightarrow> stored_abuse_level r k < ABUSE_THROTTLE_THRESHOLD \<Longrightarrow> required_pow_difficulty r k = 0"
  by (simp add: required_pow_difficulty_def required_pow_inner_def is_trusted_def not_le [symmetric])

lemma stranger_pays: "\<not> is_trusted r k \<Longrightarrow> 0 < required_pow_difficulty r k"
  by (auto simp: required_pow_difficulty_def required_pow_inner_def is_trusted_def Let_def MAX_POW_DIFFICULTY_def
      BASE_POW_DIFFICULTY_def)

lemma cheap_event_refused:
  assumes "unat (ev_pow_difficulty e) < required_pow_difficulty rep (ev_pubkey e)"
  shows "\<exists>err. validate_with_reputation ce now rep e = Inl err"
  using assms by (simp add: validate_with_reputation_def validate_with_pow_min_def split: option.split)

lemma own_key_seed: "id_verifying (nd_identity a) = ce_public_key (nv_crypto nv) (id_seed (nd_identity a))
    \<Longrightarrow> own_key nv a = pubkey_hex (nv_crypto nv) (id_seed (nd_identity a))"
  by (simp add: own_key_def id_pubkey_hex_def pubkey_hex_def)

lemma node_new_seed:
  "id_verifying (nd_identity (node_new nv bt cfg)) = ce_public_key (nv_crypto nv) (id_seed (nd_identity (node_new nv bt cfg)))"
  by (auto simp: node_new_def boot_identity_def identity_generate_def identity_from_bytes_def Let_def
      split: option.split prod.split)

lemma history_identity:
  assumes "nd = fold (node_step nv) ops (with_trust ts (node_new nv bt cfg))"
  shows "id_verifying (nd_identity nd) = ce_public_key (nv_crypto nv) (id_seed (nd_identity nd))"
proof -
  have "nd_identity (with_trust ts n) = nd_identity n" for n by (simp add: with_trust_def)
  then have "nd_identity nd = nd_identity (node_new nv bt cfg)"
    using run_drift [of nv ops "with_trust ts (node_new nv bt cfg)"] by (simp add: assms)
  then show ?thesis using node_new_seed by simp
qed

lemma published_alert:
  assumes "publish_alert nv ck c a = (Inr e, a')"
    and "id_verifying (nd_identity a) = ce_public_key (nv_crypto nv) (id_seed (nd_identity a))"
  shows "ev_kind e = Alert \<and> ev_pubkey e = own_key nv a
    \<and> (required_pow_difficulty (nd_reputation a) (own_key nv a) = 0 \<longrightarrow> ev_pow_difficulty e = 0)"
proof -
  let ?e0 = "new_signed (nv_crypto nv) (ck_stamp ck) (id_seed (nd_identity a)) Alert c []"
  obtain a1 where d: "diffuse nv ck ''PoW computation failed'' ?e0 a = (Inr e, a1)"
    using assms by (auto simp: publish_alert_def publish_stored_def split: if_splits sum.splits prod.splits)
  have "ev_pow_difficulty e = 0" if "required_pow_difficulty (nd_reputation a) (own_key nv a) = 0"
    using d that by (auto simp: diffuse_def Let_def with_pow_difficulty_def split: sum.splits prod.splits if_splits)
  then show ?thesis
    using diffuse_event(3,4) [OF d] by (simp add: new_signed_def Let_def own_key_seed [OF assms(2)])
qed

lemma refused_alert:
  assumes "ev_kind e = Alert" "\<And>now. \<exists>err. validate_with_reputation (nv_crypto nv) now (nd_reputation b) e = Inl err"
    and "receive_peer_event nv hv now e b = (outcome, b')"
  shows "rejects outcome \<and> nd_gossip b' = nd_gossip b \<and> nd_store b' = nd_store b \<and> nd_persistence b' = nd_persistence b"
proof -
  obtain ad b1 where a: "admit_peer_event nv now e b = (ad, b1)" by (cases "admit_peer_event nv now e b")
  then have same: "nd_gossip b1 = nd_gossip b" "nd_store b1 = nd_store b" "nd_persistence b1 = nd_persistence b"
    and rep: "ad = Admitted \<Longrightarrow> nd_reputation b1 = nd_reputation b"
    by (auto simp: admit_peer_event_def Let_def split: if_splits prod.splits bool.splits)
  have h: "\<exists>err. handle_incoming_alert nv hv e n = (Inl err, n)" if "nd_reputation n = nd_reputation b" for n
    using assms(1) assms(2) [of "hv_validate hv"] that by (auto simp: handle_incoming_alert_def relay_event_def)
  have r: "\<exists>err reason. route_event nv hv now e n = (PoRejected err, penalize_author e reason now n)"
    if "nd_reputation n = nd_reputation b" for n
    using h [OF that] assms(1) by (auto simp: route_event_def)
  show ?thesis
  proof (cases ad)
    case Admitted
    define n where "n = (if ev_pubkey e \<noteq> own_key nv b1 then note_peer_traffic (ev_pubkey e) now b1 else b1)"
    have "nd_reputation n = nd_reputation b" using rep [OF Admitted] by (simp add: n_def)
    from r [OF this] obtain err reason where "route_event nv hv now e n = (PoRejected err, penalize_author e reason now n)" by blast
    then show ?thesis using assms(3) a Admitted same
      by (auto simp: receive_peer_event_def receive_peer_event_inner_def n_def [symmetric] penalize_author_def)
        (simp_all add: n_def)
  next
    case (Refused reason)
    then show ?thesis using assms(3) a same by (auto simp: receive_peer_event_def receive_peer_event_inner_def)
  qed
qed

text \<open>C4: The price of an alert is computed by its author, who always trusts himself: after any history in which his
  own abuse record stays below the throttle level he publishes without proof of work, and no peer that started with fewer
  than three trusted keys, the author's not among them, accepts, stores or relays the alert, whatever its history.\<close>

theorem stranger_alert_refused:
  assumes "a = fold (node_step nv) ops (with_trust ts (node_new nv bt cfg))"
    and "b = fold (node_step nv) ops' (with_trust ts' (node_new nv bt' cfg'))"
    and "own_key nv a \<notin> insert (own_key nv b) (set ts')" "card (insert (own_key nv b) (set ts')) < REQUIRED_ENDORSEMENTS"
    and "stored_abuse_level (nd_reputation a) (own_key nv a) < ABUSE_THROTTLE_THRESHOLD"
    and "publish_alert nv ck c a = (Inr e, a')" "receive_peer_event nv hv now e b = (outcome, b')"
  shows "ev_pow_difficulty e = 0 \<and> rejects outcome
    \<and> nd_gossip b' = nd_gossip b \<and> nd_store b' = nd_store b \<and> nd_persistence b' = nd_persistence b"
proof -
  have "required_pow_difficulty (nd_reputation a) (own_key nv a) = 0"
    using history_trusts [OF assms(1)] assms(5) by (simp add: trusted_pays_nothing)
  then have e: "ev_kind e = Alert" "ev_pubkey e = own_key nv a" "ev_pow_difficulty e = 0"
    using published_alert [OF assms(6) history_identity [OF assms(1)]] by simp_all
  have "\<not> is_trusted (nd_reputation b) (ev_pubkey e)"
    using history_trust [OF assms(2,4)] assms(3) by (simp add: trusts_just_def e(2))
  then have "\<exists>err. validate_with_reputation (nv_crypto nv) now (nd_reputation b) e = Inl err" for now
    by (intro cheap_event_refused) (simp add: stranger_pays e(3))
  from refused_alert [OF e(1) this assms(7)] e(3) show ?thesis by simp
qed

definition free_event :: "node_env \<Rightarrow> publish_clock \<Rightarrow> onde_message_type \<Rightarrow> string \<Rightarrow> node \<Rightarrow> mesh_event" where
  "free_event nv ck kind c nd =
     with_pow_difficulty 0 (new_signed (nv_crypto nv) (ck_stamp ck) (id_seed (nd_identity nd)) kind c [])"

definition good_identity :: "node_env \<Rightarrow> node \<Rightarrow> bool" where
  "good_identity nv nd \<longleftrightarrow> length (id_seed (nd_identity nd)) = 32
     \<and> id_verifying (nd_identity nd) = ce_public_key (nv_crypto nv) (id_seed (nd_identity nd))"

lemma free_event_fields [simp]:
  "ev_kind (free_event nv ck kind c nd) = kind" "ev_content (free_event nv ck kind c nd) = c"
  "ev_created_at (free_event nv ck kind c nd) = ck_stamp ck" "ev_pow_difficulty (free_event nv ck kind c nd) = 0"
  "ev_tags (free_event nv ck kind c nd) = []"
  "ev_pubkey (free_event nv ck kind c nd) = pubkey_hex (nv_crypto nv) (id_seed (nd_identity nd))"
  by (simp_all add: free_event_def with_pow_difficulty_def)

lemma free_event_valid:
  assumes "hex_laws (nv_crypto nv)" "sign_laws (nv_crypto nv)" "good_identity nv nd"
    and "chars_count c \<le> 280" "unat (ck_stamp ck) \<le> now + 300"
  shows "validate_with_pow_min (nv_crypto nv) now 0 (free_event nv ck kind c nd) = Inr ()"
    "signature_valid (nv_crypto nv) (free_event nv ck kind c nd)"
proof -
  let ?s = "new_signed (nv_crypto nv) (ck_stamp ck) (id_seed (nd_identity nd)) kind c []"
  let ?e = "free_event nv ck kind c nd"
  have same: "ev_sig ?e = ev_sig ?s" "ev_id ?e = ev_id ?s"
    by (simp_all add: free_event_def with_pow_difficulty_def)
  have sig: "signature_valid (nv_crypto nv) ?s"
    using assms(1-3) by (intro new_signed_signature) (simp_all add: good_identity_def)
  then show s: "signature_valid (nv_crypto nv) ?e" by (simp add: signature_valid_iff same)
  have "ev_sig ?s \<noteq> []"
  proof
    assume "ev_sig ?s = []"
    then obtain sg where "ce_hex_decode (nv_crypto nv) [] = Some sg" "length sg = 64"
      using sig by (auto simp: signature_valid_iff)
    then show False using assms(1) by (fastforce simp: hex_laws_def)
  qed
  moreover have "ev_id ?s = compute_id (nv_crypto nv) (ev_pubkey ?e) (ck_stamp ck) kind [] c" by (simp add: new_signed_def Let_def)
  ultimately show "validate_with_pow_min (nv_crypto nv) now 0 ?e = Inr ()"
    unfolding validate_conditions using assms(4,5) s by (simp add: same zeros_def starts_with_def)
qed

lemma push_outbox_last: "e \<in> set (push_outbox e l)"
  by (simp add: push_outbox_def)

lemma accepted_event:
  assumes "validate_with_reputation ce now rep e = Inr ()" "\<not> is_known g (ev_id e)"
  shows "\<exists>g'. add_event_with_reputation ce now ord rep e g = (Inr True, g') \<and> e \<in> set (gp_pending g')"
  using assms insert_new_state(1,2) [of e g ord]
  by (cases "insert_new ord e g") (auto simp: add_event_with_reputation_def is_known_def push_outbox_last)

lemma free_alert_published:
  assumes "hex_laws (nv_crypto nv)" "sign_laws (nv_crypto nv)" "good_identity nv a"
    and "chars_count c \<le> 280" "publish_allowed nv (ck_throttle ck) a"
    and "unat (ck_stamp ck) \<le> ck_validate ck + 300" "unat (ck_stamp ck) \<le> ck_gossip ck + 300"
    and "required_pow_difficulty (nd_reputation a) (own_key nv a) = 0"
    and "\<not> is_known (nd_gossip a) (ev_id (free_event nv ck Alert c a))"
  shows "\<exists>a'. publish_alert nv ck c a = (Inr (free_event nv ck Alert c a), a')
    \<and> free_event nv ck Alert c a \<in> set (gp_pending (nd_gossip a'))"
proof -
  let ?e = "free_event nv ck Alert c a"
  let ?signed = "new_signed (nv_crypto nv) (ck_stamp ck) (id_seed (nd_identity a)) Alert c []"
  have k: "own_key nv a = ev_pubkey ?e" using assms(3) own_key_seed [of a nv] by (simp add: good_identity_def)
  have v: "validate_with_reputation (nv_crypto nv) now (nd_reputation a) ?e = Inr ()"
    if "unat (ck_stamp ck) \<le> now + 300" for now
    using free_event_valid(1) [OF assms(1-4) that] assms(8) k by (simp add: validate_with_reputation_def)
  obtain g where g: "add_event_with_reputation (nv_crypto nv) (ck_gossip ck) (nv_known_order nv) (nd_reputation a) ?e (nd_gossip a) = (Inr True, g)"
    "?e \<in> set (gp_pending g)" using accepted_event [OF v [OF assms(7)] assms(9)] by blast
  have "diffuse nv ck ''PoW computation failed'' ?signed a = (Inr ?e, a\<lparr>nd_gossip := g\<rparr>)"
    using v [OF assms(6)] g(1) assms(8) by (simp add: diffuse_def free_event_def)
  then show ?thesis using assms(4,5) g(2)
    by (simp add: publish_alert_def publish_stored_def enforce_publish_throttle_def record_publish_def)
qed

text \<open>Room for an alert: it is not stored yet and fits the budget.\<close>

definition has_room :: "string \<Rightarrow> string \<Rightarrow> tiered_store \<Rightarrow> bool" where
  "has_room i c st \<longleftrightarrow> i \<notin> tm_id ` set (st_messages st) \<and> raw_total st + length c \<le> max_bytes (st_policy st)"

lemma critical_stored:
  assumes "deflate_laws df" "raw_total st \<le> max_bytes (st_policy st)" "length c < 2 ^ 63"
    and "tiered_store_msg df i Critical (str_bytes c) ca g st = (stored, st')"
  shows "stored = has_room i c st \<and> (stored \<longrightarrow> tiered_get df i st' = Some (Inr (str_bytes c))) \<and> (\<not> stored \<longrightarrow> st' = st)"
proof -
  note b = budget_test [OF assms(2,3)]
  have f: "find (\<lambda>m. tm_id m = i) (ms @ [m]) = Some m" if "i \<notin> tm_id ` set ms" "tm_id m = i" for ms and m :: tiered_message
    using that by (induction ms) auto
  show ?thesis
  proof (cases "has_room i c st")
    case True
    then show ?thesis using assms(1,4) b
      by (auto simp: tiered_store_msg_def has_room_def list_ex_iff should_store_locally_def Let_def tiered_get_def f deflate_laws_def
          split: if_splits)
  next
    case False
    then show ?thesis using assms(4) b
      by (auto simp: tiered_store_msg_def has_room_def list_ex_iff should_store_locally_def Let_def split: if_splits)
  qed
qed

lemma alert_kept:
  assumes "deflate_laws (nv_deflate nv)" "raw_total (nd_store nd) \<le> max_bytes (st_policy (nd_store nd))" "length (ev_content e) < 2 ^ 63"
    and "store_and_persist nv Critical e nd = (stored, nd')"
  shows "stored = has_room (ev_id e) (ev_content e) (nd_store nd)
    \<and> (stored \<longrightarrow> tiered_get (nv_deflate nv) (ev_id e) (nd_store nd') = Some (Inr (str_bytes (ev_content e))))
    \<and> (\<not> stored \<longrightarrow> nd_store nd' = nd_store nd)"
proof -
  obtain s st where s: "tiered_store_msg (nv_deflate nv) (ev_id e) Critical (str_bytes (ev_content e)) (unat (ev_created_at e))
      (nc_geohash (nd_config nd)) (nd_store nd) = (s, st)" by fastforce
  then have "stored = s" "nd_store nd' = st"
    using assms(4) by (auto simp: store_and_persist_def Let_def node_persist_message_def split: if_splits)
  then show ?thesis using critical_stored [OF assms(1-3) s] by simp
qed

lemma free_alert_received:
  assumes "validate_with_reputation (nv_crypto nv) (hv_validate hv) (nd_reputation b) e = Inr ()"
    and "validate_with_reputation (nv_crypto nv) (hv_gossip hv) (nd_reputation b) e = Inr ()"
    and "ev_kind e = Alert" "\<not> is_known (nd_gossip b) (ev_id e)" "fst (admit_peer_event nv now e b) = Admitted"
    and "deflate_laws (nv_deflate nv)" "raw_total (nd_store b) \<le> max_bytes (st_policy (nd_store b))" "length (ev_content e) < 2 ^ 63"
  shows "\<exists>b' outcome. receive_peer_event nv hv now e b = (outcome, b') \<and> e \<in> set (gp_pending (nd_gossip b'))
    \<and> (if has_room (ev_id e) (ev_content e) (nd_store b)
        then outcome = AlertStored \<and> tiered_get (nv_deflate nv) (ev_id e) (nd_store b') = Some (Inr (str_bytes (ev_content e)))
        else outcome = AlertNotStored \<and> nd_store b' = nd_store b)"
proof -
  obtain b1 where a: "admit_peer_event nv now e b = (Admitted, b1)" using assms(5) by (metis prod.collapse)
  then have same: "nd_gossip b1 = nd_gossip b" "nd_reputation b1 = nd_reputation b" "nd_store b1 = nd_store b"
    by (auto simp: admit_peer_event_def Let_def split: if_splits prod.splits bool.splits)
  define n where "n = (if ev_pubkey e \<noteq> own_key nv b1 then note_peer_traffic (ev_pubkey e) now b1 else b1)"
  have n: "nd_gossip n = nd_gossip b" "nd_reputation n = nd_reputation b" "nd_store n = nd_store b"
    using same by (simp_all add: n_def note_peer_traffic_def Let_def)
  obtain g where g: "add_event_with_reputation (nv_crypto nv) (hv_gossip hv) (nv_known_order nv) (nd_reputation b) e (nd_gossip b) = (Inr True, g)"
    "e \<in> set (gp_pending g)" using accepted_event [OF assms(2,4)] by blast
  obtain st n2 where s: "store_and_persist nv Critical e (n\<lparr>nd_gossip := g\<rparr>) = (st, n2)"
    by (cases "store_and_persist nv Critical e (n\<lparr>nd_gossip := g\<rparr>)")
  have "nd_gossip n2 = g" using store_and_persist_frame(3) [of nv Critical e "n\<lparr>nd_gossip := g\<rparr>"] s by simp
  moreover have "raw_total (nd_store (n\<lparr>nd_gossip := g\<rparr>)) \<le> max_bytes (st_policy (nd_store (n\<lparr>nd_gossip := g\<rparr>)))"
    using assms(7) n(3) by simp
  note kept = alert_kept [OF assms(6) this assms(8) s]
  moreover have "route_event nv hv now e n = (if st then AlertStored else AlertNotStored, n2)"
    using assms(1,3) n g(1) s by (simp add: route_event_def handle_incoming_alert_def relay_event_def)
  ultimately show ?thesis using g(2) a kept n(3)
    by (auto simp: receive_peer_event_def receive_peer_event_inner_def n_def [symmetric] split: prod.split)
qed


definition demo_press :: publish_clock where
  "demo_press = demo_ck\<lparr>ck_throttle := 1000000\<rparr>"

lemma demo_press_fields [simp]:
  "ck_throttle demo_press = 1000000" "ck_stamp demo_press = 7" "ck_validate demo_press = 7" "ck_gossip demo_press = 7"
  by (simp_all add: demo_press_def demo_ck_def)

lemma demo_history:
  "demo_node k = fold (node_step demo_nv) [] (with_trust [] (node_new demo_nv (demo_boot k)
     (node_config_default\<lparr>nc_sqlite_path := Some ''db'', nc_social_path := Some ''social''\<rparr>)))"
  by (simp add: with_trust_def demo_node_def)

lemma demo_identity: "good_identity demo_nv (demo_node k)"
  using history_identity [OF demo_history, of k] by (simp add: good_identity_def demo_node_fields)

lemma demo_unabused: "stored_abuse_level (bootstrap ps reputation_new) k = 0"
proof -
  have "rs_abuse (bootstrap ps r) = rs_abuse r" for r
    by (induction ps arbitrary: r) (simp_all add: bootstrap_def set_trusted_def)
  then show ?thesis by (simp add: stored_abuse_level_def reputation_new_def lookup_empty)
qed

lemma demo_free: "k \<in> set ps \<Longrightarrow> required_pow_difficulty (bootstrap ps reputation_new) k = 0"
  by (intro trusted_pays_nothing) (simp_all add: bootstrap_trusted demo_unabused throttle_pos)

lemma demo_published:
  "\<exists>a'. publish_alert demo_nv demo_press ''hi'' (demo_node 1) = (Inr (free_event demo_nv demo_press Alert ''hi'' (demo_node 1)), a')"
proof -
  have "publish_allowed demo_nv 1000000 (demo_node 1)"
    by (simp add: publish_allowed_def publish_interval_secs_def Let_def demo_node_fields PUBLISH_INTERVAL_TRUSTED_SECS_def
        PUBLISH_INTERVAL_UNTRUSTED_SECS_def PUBLISH_BATTERY_MULTIPLIER_def)
  moreover have "required_pow_difficulty (nd_reputation (demo_node 1)) (own_key demo_nv (demo_node 1)) = 0"
    by (simp add: demo_node_fields demo_free)
  moreover have "chars_count ''hi'' \<le> 280"
    unfolding chars_count_def by (rule order_trans [OF length_filter_le]) (simp add: str_bytes_def)
  ultimately show ?thesis
    using free_alert_published [of demo_nv "demo_node 1" "''hi''" demo_press] demo_laws demo_identity
    by (auto simp: demo_node_fields is_known_def set_metrics_def gossip_new_def)
qed

lemma stranger_alert_refused_witness:
  "\<exists>e a'. publish_alert demo_nv demo_press ''hi'' (demo_node 1) = (Inr e, a')
     \<and> nd_gossip (snd (receive_peer_event demo_nv demo_hv 7 e (demo_node 2))) = nd_gossip (demo_node 2)"
proof -
  let ?e = "free_event demo_nv demo_press Alert ''hi'' (demo_node 1)"
  obtain a' where p: "publish_alert demo_nv demo_press ''hi'' (demo_node 1) = (Inr ?e, a')" using demo_published by blast
  have "stored_abuse_level (nd_reputation (demo_node 1)) (own_key demo_nv (demo_node 1)) < ABUSE_THROTTLE_THRESHOLD"
    by (simp add: demo_node_fields demo_unabused throttle_pos)
  from stranger_alert_refused [OF demo_history demo_history _ _ this p prod.collapse [symmetric], of 2 demo_hv 7] p
  show ?thesis by (auto simp: demo_node_fields REQUIRED_ENDORSEMENTS_def)
qed


section \<open>Announced keys\<close>

definition announced :: "node_env \<Rightarrow> mesh_event \<Rightarrow> rotation_payload option" where
  "announced nv e =
     (if ev_kind e \<noteq> IdentityRotation then None
      else case cd_b64_decode (nv_codec nv) (ev_content e) of
        Inl _ \<Rightarrow> None
      | Inr data \<Rightarrow> (case cd_rotation_decode (nv_codec nv) data of Inl _ \<Rightarrow> None | Inr payload \<Rightarrow> Some payload))"

definition announced_count :: "rotation_payload \<Rightarrow> nat" where
  "announced_count payload = (case rn_rotation payload of Some n \<Rightarrow> n | None \<Rightarrow> 0)"

lemma rotation_applied:
  assumes "handle_incoming_rotation nv now e nd = (RhApplied, nd')"
  shows "\<exists>payload k. announced nv e = Some payload \<and> rn_x25519 payload = Some k
    \<and> signature_valid (nv_crypto nv) e \<and> is_trusted (nd_reputation nd) (ev_pubkey e)
    \<and> (\<forall>n. map_of (nd_peer_rotations nd) (ev_pubkey e) = Some n \<longrightarrow> n < announced_count payload)
    \<and> nd_peer_rotations nd' = AList.update (ev_pubkey e) (announced_count payload) (nd_peer_rotations nd)
    \<and> nd_peer_x25519 nd' = AList.update (ev_pubkey e) k (nd_peer_x25519 nd)"
  using assms
  by (auto simp: handle_incoming_rotation_def announced_def announced_count_def Let_def not_le
      split: if_splits sum.splits option.splits)

lemma rotation_refused:
  assumes "handle_incoming_rotation nv now e nd = (res, nd')" "res \<noteq> RhApplied"
  shows "nd' = nd"
  using assms by (auto simp: handle_incoming_rotation_def Let_def split: if_splits sum.splits option.splits)

lemma stale_rotation_refused:
  assumes "announced nv e = Some payload" "map_of (nd_peer_rotations nd) (ev_pubkey e) = Some n" "announced_count payload \<le> n"
  shows "\<exists>reason. handle_incoming_rotation nv now e nd = (RhRejected reason, nd)"
  using assms
  by (auto simp: handle_incoming_rotation_def announced_def announced_count_def Let_def
      split: if_splits sum.splits option.splits)

lemma fresh_rotation_applied:
  assumes "announced nv e = Some payload" "rn_x25519 payload = Some k" "length k = 64" "list_all is_hexdigit k"
    and "signature_valid (nv_crypto nv) e" "is_trusted (nd_reputation nd) (ev_pubkey e)"
    and "map_of (nd_peer_rotations nd) (ev_pubkey e) = None" "map_of (nd_peer_x25519 nd) (ev_pubkey e) = None"
  shows "\<exists>nd'. handle_incoming_rotation nv now e nd = (RhApplied, nd')"
  using assms by (auto simp: handle_incoming_rotation_def announced_def Let_def split: if_splits sum.splits)

lemma rotations_grow:
  assumes "map_of (nd_peer_rotations nd) p = Some n"
  shows "\<exists>m\<ge>n. map_of (nd_peer_rotations (node_step nv op nd)) p = Some m"
proof (cases op)
  case (OpRotation now e)
  obtain res nd' where h: "handle_incoming_rotation nv now e nd = (res, nd')" by (cases "handle_incoming_rotation nv now e nd")
  then have o: "node_step nv op nd = nd'" by (simp add: OpRotation)
  show ?thesis
  proof (cases "res = RhApplied")
    case True
    then show ?thesis using rotation_applied [of nv now e nd nd'] h assms o by (auto simp: update_conv' less_imp_le)
  next
    case False
    then show ?thesis using rotation_refused [OF h] assms o by auto
  qed
next
  case (OpReceive hv now e)
  then show ?thesis using receive_untouched [of nd nv hv now e] assms by (auto simp: untouched_def)
next
  case (OpEndorse ck ts q)
  then show ?thesis using own_endorse_drift [of nv ck ts q nd] assms by auto
qed (use assms node_step_rests [of op nd nv] in \<open>auto simp: rests_def\<close>)

lemma rotations_grow_run:
  "map_of (nd_peer_rotations nd) p = Some n \<Longrightarrow> \<exists>m\<ge>n. map_of (nd_peer_rotations (fold (node_step nv) ops nd)) p = Some m"
proof (induction ops arbitrary: nd n)
  case (Cons op ops)
  obtain m where "m \<ge> n" "map_of (nd_peer_rotations (node_step nv op nd)) p = Some m"
    using rotations_grow [OF Cons.prems, of nv op] by blast
  with Cons.IH [of "node_step nv op nd" m] show ?case by (auto intro: order_trans)
qed auto


definition demo_rotation :: "nat \<Rightarrow> mesh_event" where
  "demo_rotation n = new_signed demo_env 7 (replicate 32 1) IdentityRotation
     (bytes_str (str_bytes (replicate 64 (CHR ''a'')) @ u64_le (of_nat n))) []"

lemma unat_of_nat64: "n < 18446744073709551616 \<Longrightarrow> unat (of_nat n :: u64) = n"
  by (simp add: unat_of_nat take_bit_nat_eq_self)

lemma demo_announced:
  "n < 2 ^ 64 \<Longrightarrow> announced demo_nv (demo_rotation n) = Some \<lparr>rn_x25519 = Some (replicate 64 (CHR ''a'')), rn_rotation = Some n\<rparr>"
  by (simp add: announced_def demo_rotation_def demo_codec_def str_bytes_bytes_str unat_of_nat64)


end
