(* ===== verification/Ui.thy ===== *)
theory Ui
  imports NodeMesh
begin

text \<open>
  The commands of the user interface, \<open>ui/src-tauri/src\<close>: the application holds at most one node and a web of trust of
  its own, and every command works on the node behind a lock, so that a session is a sequence of commands. The
  paths of the databases, if the platform has a data directory, the clocks and the random numbers are arguments.
\<close>

section \<open>The application state\<close>

record app_state =
  ap_node :: "node option"
  ap_reputation :: reputation

definition app_default :: app_state where
  "app_default = \<lparr>ap_node = None, ap_reputation = reputation_new\<rparr>"

text \<open>The errors are texts; those of SQLite are kept as they are.\<close>

datatype ui_error = UiText string | UiSql sql_error

definition NOT_STARTED :: ui_error where
  "NOT_STARTED = UiText (''Node not started '' @ map char_of [0xE2, 0x80, 0x94 :: nat] @ '' call node_start first'')"

definition ui_with_node :: "(node \<Rightarrow> (ui_error + 'a) \<times> node) \<Rightarrow> app_state \<Rightarrow> (ui_error + 'a) \<times> app_state" where
  "ui_with_node f st =
     (case ap_node st of
        None \<Rightarrow> (Inl NOT_STARTED, st)
      | Some nd \<Rightarrow> (case f nd of (r, nd') \<Rightarrow> (r, st\<lparr>ap_node := Some nd'\<rparr>)))"

section \<open>The node\<close>

fun kind_debug :: "onde_message_type \<Rightarrow> string" where
  "kind_debug Alert = ''Alert''"
| "kind_debug MutualAid = ''MutualAid''"
| "kind_debug VoiceMemo = ''VoiceMemo''"
| "kind_debug Transcription = ''Transcription''"
| "kind_debug Transaction = ''Transaction''"
| "kind_debug AiQuery = ''AiQuery''"
| "kind_debug AiResponse = ''AiResponse''"
| "kind_debug FileShareRequest = ''FileShareRequest''"
| "kind_debug Heartbeat = ''Heartbeat''"
| "kind_debug UpdateAnnounce = ''UpdateAnnounce''"
| "kind_debug UpdateManifest = ''UpdateManifest''"
| "kind_debug UpdateChunk = ''UpdateChunk''"
| "kind_debug UpdateRequest = ''UpdateRequest''"
| "kind_debug Endorsement = ''Endorsement''"
| "kind_debug IdentityRotation = ''IdentityRotation''"
| "kind_debug AbuseReport = ''AbuseReport''"
| "kind_debug SocialPost = ''SocialPost''"
| "kind_debug SocialComment = ''SocialComment''"
| "kind_debug SocialVote = ''SocialVote''"
| "kind_debug SocialFollow = ''SocialFollow''"
| "kind_debug SocialMessage = ''SocialMessage''"
| "kind_debug SocialModeration = ''SocialModeration''"

record feed_event =
  fe_id :: string
  fe_pubkey :: string
  fe_created_at :: u64
  fe_kind :: string
  fe_content :: string

definition event_to_view :: "mesh_event \<Rightarrow> feed_event" where
  "event_to_view e = \<lparr>fe_id = ev_id e, fe_pubkey = ev_pubkey e, fe_created_at = ev_created_at e,
     fe_kind = kind_debug (ev_kind e), fe_content = ev_content e\<rparr>"

text \<open>The clock readings of the restart, and the session identity of a first rotation.\<close>

record start_env =
  se_boot :: boot_env
  se_load_now :: nat
  se_fresh :: identity
  se_rotate_now :: nat

definition ui_config :: "(string \<times> string) option \<Rightarrow> string \<Rightarrow> node_config" where
  "ui_config paths display_name =
     node_config_default\<lparr>nc_node_type := MobileNode, nc_display_name := display_name,
       nc_sqlite_path := map_option fst paths, nc_social_path := map_option snd paths\<rparr>"

definition ui_node_start ::
    "node_env \<Rightarrow> start_env \<Rightarrow> (string \<times> string) option \<Rightarrow> string \<Rightarrow> app_state \<Rightarrow> (ui_error + string) \<times> app_state" where
  "ui_node_start nv se paths display_name st =
     (case ap_node st of
        Some _ \<Rightarrow> (Inl (UiText ''Node already running''), st)
      | None \<Rightarrow>
          (let nd0 = node_new nv (se_boot se) (ui_config paths display_name);
               nd1 = snd (node_load_persisted (se_load_now se) nd0);
               nd2 = nd1\<lparr>nd_reputation := ap_reputation st\<rparr>;
               nd3 = node_start (se_fresh se) (se_rotate_now se) nd2
           in (Inr (own_key nv nd3), st\<lparr>ap_node := Some nd3\<rparr>)))"

definition ui_node_stop :: "app_state \<Rightarrow> (ui_error + unit) \<times> app_state" where
  "ui_node_stop st = (Inr (), st\<lparr>ap_node := None\<rparr>)"

definition ui_node_status :: "node_env \<Rightarrow> nat \<Rightarrow> nat \<Rightarrow> app_state \<Rightarrow> node_status option" where
  "ui_node_status nv now1 now2 st = map_option (node_status_of nv now1 now2) (ap_node st)"

definition ui_publish_alert ::
    "node_env \<Rightarrow> publish_clock \<Rightarrow> string \<Rightarrow> app_state \<Rightarrow> (ui_error + string) \<times> app_state" where
  "ui_publish_alert nv ck content st =
     (case ap_node st of
        None \<Rightarrow> (Inl NOT_STARTED, st)
      | Some nd \<Rightarrow>
          (case publish_alert nv ck content nd of
             (Inl e, nd') \<Rightarrow> (Inl (UiText e), st\<lparr>ap_node := Some nd'\<rparr>)
           | (Inr event, nd') \<Rightarrow>
               (Inr (ev_id event),
                st\<lparr>ap_node := Some nd', ap_reputation := record_activity (ev_pubkey event) (ap_reputation st)\<rparr>)))"

definition text_result :: "(string + 'a) \<times> node \<Rightarrow> (ui_error + 'a) \<times> node" where
  "text_result r = (case fst r of Inl e \<Rightarrow> Inl (UiText e) | Inr x \<Rightarrow> Inr x, snd r)"

definition ui_publish_mutual_aid ::
    "node_env \<Rightarrow> publish_clock \<Rightarrow> string \<Rightarrow> app_state \<Rightarrow> (ui_error + string) \<times> app_state" where
  "ui_publish_mutual_aid nv ck content st =
     ui_with_node (\<lambda>nd. case text_result (publish_mutual_aid nv ck content nd) of
       (r, nd') \<Rightarrow> (map_sum id ev_id r, nd')) st"

definition get_feed_events :: "app_state \<Rightarrow> ui_error + feed_event list" where
  "get_feed_events st =
     (case ap_node st of
        None \<Rightarrow> Inl (UiText ''Node not started'')
      | Some nd \<Rightarrow> Inr (map event_to_view (get_pending_broadcasts (nd_gossip nd))))"

definition get_reputation :: "node_env \<Rightarrow> app_state \<Rightarrow> (string \<times> rat \<times> nat) list" where
  "get_reputation nv st = summary (nv_scores_order nv) (ap_reputation st)"

definition demo_identity :: "node_env \<Rightarrow> byte list \<Rightarrow> string \<times> string" where
  "demo_identity nv random_seed =
     (let i = identity_generate (nv_crypto nv) (nv_box nv) random_seed
      in (id_pubkey_hex (nv_crypto nv) i, x25519_public_key_hex (nv_crypto nv) i))"

section \<open>The social cache\<close>

definition social_store_of :: "node \<Rightarrow> ui_error + social_db" where
  "social_store_of nd =
     (case nd_social nd of Some db \<Rightarrow> Inr db | None \<Rightarrow> Inl (UiText ''social store unavailable on this node''))"

text \<open>A command that reads the cache, and one that writes it.\<close>

definition ui_read :: "(node \<Rightarrow> social_db \<Rightarrow> ui_error + 'a) \<Rightarrow> app_state \<Rightarrow> (ui_error + 'a) \<times> app_state" where
  "ui_read f st = ui_with_node (\<lambda>nd. (case social_store_of nd of Inl e \<Rightarrow> Inl e | Inr db \<Rightarrow> f nd db, nd)) st"

definition ui_write :: "(node \<Rightarrow> social_db \<Rightarrow> (ui_error + unit) \<times> social_db) \<Rightarrow> app_state \<Rightarrow> (ui_error + unit) \<times> app_state" where
  "ui_write f st =
     ui_with_node (\<lambda>nd. case social_store_of nd of
       Inl e \<Rightarrow> (Inl e, nd)
     | Inr db \<Rightarrow> (case f nd db of (r, db') \<Rightarrow> (r, nd\<lparr>nd_social := Some db'\<rparr>))) st"

definition parse_platform :: "string \<Rightarrow> ui_error + social_platform" where
  "parse_platform platform =
     (if platform = ''Tuitter'' then Inr Tuitter
      else if platform = ''Redit'' then Inr Redit
      else Inl (UiText (''unknown platform: '' @ platform)))"

definition display_name_of :: "node \<Rightarrow> string \<Rightarrow> string" where
  "display_name_of nd pubkey =
     (case nd_social nd of None \<Rightarrow> []
      | Some db \<Rightarrow> (case get_user pubkey db of Some u \<Rightarrow> us_name u | None \<Rightarrow> []))"

record social_post_view =
  sv_id :: string
  sv_platform :: string
  sv_author :: string
  sv_display_name :: string
  sv_title :: "string option"
  sv_body :: string
  sv_community :: "string option"
  sv_score :: int
  sv_created :: int

definition non_empty :: "string \<Rightarrow> string option" where
  "non_empty s = (if s = [] then None else Some s)"

definition post_view :: "node \<Rightarrow> post_row \<Rightarrow> social_post_view" where
  "post_view nd r = \<lparr>sv_id = pr_id r, sv_platform = pr_platform r, sv_author = pr_author r,
     sv_display_name = display_name_of nd (pr_author r), sv_title = non_empty (pr_title r), sv_body = pr_body r,
     sv_community = non_empty (pr_community r), sv_score = pr_score r, sv_created = pr_created r\<rparr>"

definition social_publish_post ::
    "node_env \<Rightarrow> publish_clock \<Rightarrow> string \<Rightarrow> string \<Rightarrow> string option \<Rightarrow> string \<Rightarrow> string option \<Rightarrow> app_state
       \<Rightarrow> (ui_error + social_post_view) \<times> app_state" where
  "social_publish_post nv ck sid platform title body community_slug =
     ui_with_node (\<lambda>nd. case parse_platform platform of
       Inl e \<Rightarrow> (Inl e, nd)
     | Inr pf \<Rightarrow>
         (case text_result (publish_social_post nv ck sid (platform_label pf) title body community_slug nd) of
            (Inl e, nd') \<Rightarrow> (Inl e, nd')
          | (Inr event, nd') \<Rightarrow>
              (case cd_post_decode (nv_codec nv) (ev_content event) of
                 Inl e \<Rightarrow> (Inl (UiText (''post decode: '' @ e)), nd')
               | Inr p \<Rightarrow>
                   (Inr \<lparr>sv_id = sp_id p, sv_platform = platform_label (sp_platform p), sv_author = sp_author p,
                      sv_display_name = nc_display_name (nd_config nd'), sv_title = sp_title p, sv_body = sp_body p,
                      sv_community = sp_community p, sv_score = 0, sv_created = sint (ev_created_at event)\<rparr>, nd'))))"

definition social_list_posts ::
    "(post_row list \<Rightarrow> post_row list) \<Rightarrow> string \<Rightarrow> string option \<Rightarrow> nat \<Rightarrow> nat \<Rightarrow> app_state
       \<Rightarrow> (ui_error + social_post_view list) \<times> app_state" where
  "social_list_posts tie platform community_slug limit offset =
     ui_read (\<lambda>nd db. case parse_platform platform of
       Inl e \<Rightarrow> Inl e
     | Inr pf \<Rightarrow> Inr (map (post_view nd) (list_posts tie pf community_slug None (min limit 100) offset db)))"

definition social_get_post :: "string \<Rightarrow> app_state \<Rightarrow> (ui_error + social_post_view option) \<times> app_state" where
  "social_get_post post_id = ui_read (\<lambda>nd db. Inr (map_option (post_view nd) (get_post post_id db)))"

text \<open>The views of comments, messages and reports have the columns of the rows (a report without the time of its resolution).\<close>

definition social_list_comments ::
    "(comment_row list \<Rightarrow> comment_row list) \<Rightarrow> string \<Rightarrow> app_state \<Rightarrow> (ui_error + comment_row list) \<times> app_state" where
  "social_list_comments tie post_id = ui_read (\<lambda>nd db. Inr (list_comments tie post_id db))"

definition social_list_messages ::
    "node_env \<Rightarrow> (message_row list \<Rightarrow> message_row list) \<Rightarrow> app_state \<Rightarrow> (ui_error + message_row list) \<times> app_state" where
  "social_list_messages nv tie = ui_read (\<lambda>nd db. Inr (list_messages tie (own_key nv nd) db))"

definition social_list_bookmarks ::
    "node_env \<Rightarrow> ((string \<times> string \<times> int) list \<Rightarrow> (string \<times> string \<times> int) list) \<Rightarrow> app_state
       \<Rightarrow> (ui_error + string list) \<times> app_state" where
  "social_list_bookmarks nv tie = ui_read (\<lambda>nd db. Inr (list_bookmarks tie (own_key nv nd) db))"

definition social_list_reports ::
    "(report_row list \<Rightarrow> report_row list) \<Rightarrow> app_state \<Rightarrow> (ui_error + report_row list) \<times> app_state" where
  "social_list_reports tie = ui_read (\<lambda>nd db. Inr (list_open_reports tie db))"

definition social_vote :: "node_env \<Rightarrow> int \<Rightarrow> string \<Rightarrow> int \<Rightarrow> string \<Rightarrow> app_state \<Rightarrow> (ui_error + unit) \<times> app_state" where
  "social_vote nv now target_id direction target_table =
     ui_write (\<lambda>nd db. case vote now (own_key nv nd) target_id (max (- 1) (min 1 direction)) target_table db of
       (Inl e, db') \<Rightarrow> (Inl (UiSql e), db') | (Inr _, db') \<Rightarrow> (Inr (), db'))"

definition social_follow :: "node_env \<Rightarrow> int \<Rightarrow> string \<Rightarrow> bool \<Rightarrow> app_state \<Rightarrow> (ui_error + unit) \<times> app_state" where
  "social_follow nv now followed is_unfollow =
     ui_write (\<lambda>nd db. (Inr (), if is_unfollow then unfollow (own_key nv nd) followed db else follow now (own_key nv nd) followed db))"

definition social_community_membership ::
    "node_env \<Rightarrow> int \<Rightarrow> string \<Rightarrow> bool \<Rightarrow> app_state \<Rightarrow> (ui_error + unit) \<times> app_state" where
  "social_community_membership nv now slug leave =
     ui_write (\<lambda>nd db. (Inr (), if leave then leave_community (own_key nv nd) slug db else join_community now (own_key nv nd) slug db))"

definition uuid_v4 :: "u32 \<Rightarrow> 16 word \<Rightarrow> 16 word \<Rightarrow> u64 \<Rightarrow> string" where
  "uuid_v4 a b c d =
     hex_fixed 8 (unat a) @ ''-'' @ hex_fixed 4 (unat b mod 0x1000) @ ''-4'' @ hex_fixed 3 (unat c mod 0x1000) @ ''-''
       @ hex_fixed 4 (unat d mod 0x4000 + 0x8000) @ ''-'' @ hex_fixed 12 (unat d div 2 ^ 16)"

definition social_send_message ::
    "node_env \<Rightarrow> int \<Rightarrow> string \<Rightarrow> string \<Rightarrow> string \<Rightarrow> app_state \<Rightarrow> (ui_error + unit) \<times> app_state" where
  "social_send_message nv now uuid recipient body =
     ui_write (\<lambda>nd db. (Inr (), insert_message now uuid (own_key nv nd) recipient body db))"

definition social_add_bookmark :: "node_env \<Rightarrow> int \<Rightarrow> string \<Rightarrow> app_state \<Rightarrow> (ui_error + unit) \<times> app_state" where
  "social_add_bookmark nv now target_id = ui_write (\<lambda>nd db. (Inr (), add_bookmark now (own_key nv nd) target_id db))"

definition social_remove_bookmark :: "node_env \<Rightarrow> string \<Rightarrow> app_state \<Rightarrow> (ui_error + unit) \<times> app_state" where
  "social_remove_bookmark nv target_id = ui_write (\<lambda>nd db. (Inr (), remove_bookmark (own_key nv nd) target_id db))"

definition social_report_post ::
    "node_env \<Rightarrow> int \<Rightarrow> string \<Rightarrow> string \<Rightarrow> string \<Rightarrow> app_state \<Rightarrow> (ui_error + unit) \<times> app_state" where
  "social_report_post nv now uuid target_id reason =
     ui_write (\<lambda>nd db. (Inr (), submit_report now uuid (own_key nv nd) target_id reason db))"

section \<open>Sessions\<close>

text \<open>Any commands in any order, and anything the running node does in between.\<close>

datatype ui_op =
    UStart start_env "(string \<times> string) option" string | UStop
  | UAlert publish_clock string | UMutualAid publish_clock string
  | UPost publish_clock string string "string option" string "string option"
  | UVote int string int string | UFollow int string bool | UMember int string bool
  | UMessage int string string string | UAddBookmark int string | URemoveBookmark string | UReport int string string string
  | UNode node_op

fun ui_step :: "node_env \<Rightarrow> ui_op \<Rightarrow> app_state \<Rightarrow> app_state" where
  "ui_step nv (UStart se paths name) st = snd (ui_node_start nv se paths name st)"
| "ui_step nv UStop st = snd (ui_node_stop st)"
| "ui_step nv (UAlert ck c) st = snd (ui_publish_alert nv ck c st)"
| "ui_step nv (UMutualAid ck c) st = snd (ui_publish_mutual_aid nv ck c st)"
| "ui_step nv (UPost ck sid pf t b s) st = snd (social_publish_post nv ck sid pf t b s st)"
| "ui_step nv (UVote now t d tab) st = snd (social_vote nv now t d tab st)"
| "ui_step nv (UFollow now p u) st = snd (social_follow nv now p u st)"
| "ui_step nv (UMember now c l) st = snd (social_community_membership nv now c l st)"
| "ui_step nv (UMessage now i r b) st = snd (social_send_message nv now i r b st)"
| "ui_step nv (UAddBookmark now t) st = snd (social_add_bookmark nv now t st)"
| "ui_step nv (URemoveBookmark t) st = snd (social_remove_bookmark nv t st)"
| "ui_step nv (UReport now i t r) st = snd (social_report_post nv now i t r st)"
| "ui_step nv (UNode op) st = st\<lparr>ap_node := map_option (node_step nv op) (ap_node st)\<rparr>"

definition blind :: "reputation \<Rightarrow> bool" where
  "blind r \<longleftrightarrow> rs_endorsements r = Mapping.empty \<and> rs_abuse r = Mapping.empty"

lemma blind_activity: "blind r \<Longrightarrow> blind (record_activity k r)"
  by (simp add: blind_def record_activity_def Let_def)

lemma with_node_reputation [simp]: "ap_reputation (snd (ui_with_node f st)) = ap_reputation st"
  by (simp add: ui_with_node_def split: option.split prod.split)

lemma write_reputation [simp]: "ap_reputation (snd (ui_write f st)) = ap_reputation st"
  unfolding ui_write_def by simp

lemmas ui_write_defs = social_vote_def social_follow_def social_community_membership_def social_send_message_def
  social_add_bookmark_def social_remove_bookmark_def social_report_post_def

lemma ui_step_reputation:
  "ap_reputation (ui_step nv op st) = ap_reputation st \<or> (\<exists>k. ap_reputation (ui_step nv op st) = record_activity k (ap_reputation st))"
proof (cases op)
  case (UAlert ck c)
  then show ?thesis by (auto simp: ui_publish_alert_def split: option.split sum.split prod.split)
qed (simp_all add: ui_write_defs ui_node_start_def ui_node_stop_def ui_publish_mutual_aid_def social_publish_post_def
    Let_def split: option.split)

lemma session_blind: "blind (ap_reputation st) \<Longrightarrow> blind (ap_reputation (fold (ui_step nv) ops st))"
proof (induction ops arbitrary: st)
  case (Cons op ops)
  then have "blind (ap_reputation (ui_step nv op st))"
    using ui_step_reputation [of nv op st] blind_activity by auto
  then show ?case using Cons.IH by simp
qed simp

lemma load_keeps: "own_key nv (snd (node_load_persisted now nd)) = own_key nv nd \<and> nd_config (snd (node_load_persisted now nd)) = nd_config nd"
  by (simp add: node_load_persisted_def own_key_def split: option.split prod.split)

lemma started_node:
  assumes "ap_node st = None"
  shows "\<exists>nd. ap_node (snd (ui_node_start nv se paths name st)) = Some nd \<and> nd_reputation nd = ap_reputation st
    \<and> nd_config nd = ui_config paths name"
  using assms load_keeps [of nv "se_load_now se" "node_new nv (se_boot se) (ui_config paths name)"]
  by (auto simp: ui_node_start_def Let_def node_start_def node_maybe_rotate_def node_new_def split: prod.split)

lemma abuse_thresholds_pos: "0 < ABUSE_THROTTLE_THRESHOLD" "0 < ABUSE_DEPRIORITIZE_THRESHOLD" "0 < ABUSE_IGNORE_THRESHOLD"
proof -
  have "0 < f64 x" if "1 / 8 \<le> x" for x
    using f64_mono [OF that] f64_dyadic [of 1 3] by simp
  then show "0 < ABUSE_THROTTLE_THRESHOLD" "0 < ABUSE_DEPRIORITIZE_THRESHOLD" "0 < ABUSE_IGNORE_THRESHOLD"
    by (simp_all add: ABUSE_THROTTLE_THRESHOLD_def ABUSE_DEPRIORITIZE_THRESHOLD_def ABUSE_IGNORE_THRESHOLD_def)
qed

lemma blind_accepts: "blind r \<Longrightarrow> action_for r a now = Accept"
  using abuse_thresholds_pos by (simp add: blind_def action_for_def abuse_level_def action_for_abuse_def lookup_empty)

text \<open>The application's own web of trust never learns anything about a peer: after any session, stopping and starting
  the node gives a node that accepts every author, however often he was reported or caught, and knows no endorsement.\<close>

theorem ui_restart_forgives:
  "case ap_node (snd (ui_node_start nv se paths name (snd (ui_node_stop (fold (ui_step nv) ops app_default))))) of
     None \<Rightarrow> False
   | Some nd \<Rightarrow> action_for (nd_reputation nd) a now = Accept \<and> endorsements_of (nd_reputation nd) a = []"
proof -
  let ?st = "snd (ui_node_stop (fold (ui_step nv) ops app_default))"
  have "blind (ap_reputation ?st)"
    using session_blind [of app_default nv ops] by (simp add: ui_node_stop_def app_default_def blind_def reputation_new_def)
  moreover obtain nd where "ap_node (snd (ui_node_start nv se paths name ?st)) = Some nd" "nd_reputation nd = ap_reputation ?st"
    using started_node [of ?st nv se paths name] by (auto simp: ui_node_stop_def)
  ultimately show ?thesis
    by (simp add: blind_accepts endorsements_of_def) (simp add: blind_def lookup_default_empty)
qed

text \<open>The first node of the application does not trust its own key, although every node is built to do so: it publishes
  at the highest difficulty and at the slow interval, and all its endorsements are refused.\<close>

theorem ui_distrusts_itself:
  "is_trusted (nd_reputation (node_new nv bt cfg)) (own_key nv (node_new nv bt cfg))
   \<and> (case ap_node (snd (ui_node_start nv se paths name app_default)) of
        None \<Rightarrow> False
      | Some nd \<Rightarrow> \<not> is_trusted (nd_reputation nd) (own_key nv nd)
          \<and> required_pow_difficulty (nd_reputation nd) (own_key nv nd) = MAX_POW_DIFFICULTY
          \<and> publish_interval_secs nv nd = 120 \<and> (\<exists>e. fst (node_endorse nv ck ts peer nd) = Inl e))"
proof -
  obtain nd where nd: "ap_node (snd (ui_node_start nv se paths name app_default)) = Some nd" "nd_reputation nd = reputation_new"
      "nd_config nd = ui_config paths name"
    using started_node [of app_default nv se paths name] by (auto simp: app_default_def)
  have s: "score reputation_new k = 0" "stored_abuse_level reputation_new k = 0" for k
    by (simp_all add: score_def stored_abuse_level_def reputation_new_def UNKNOWN_TRUST_def lookup_default_empty lookup_empty)
  have t: "\<not> TRUSTED_THRESHOLD \<le> 0" "0 < ENDORSEMENT_THRESHOLD" using threshold_gt_half threshold_eq by simp_all
  have "\<exists>e. fst (endorse (own_key nv nd) peer ts reputation_new) = Inl e"
    using s t by (simp add: endorse_def)
  then have "\<exists>e. fst (node_endorse nv ck ts peer nd) = Inl e"
    using nd(2) by (auto simp: node_endorse_def split: sum.split prod.split)
  moreover have "publish_interval_secs nv nd = 120"
    using nd(2,3) s t by (simp add: publish_interval_secs_def ui_config_def node_config_default_def PUBLISH_INTERVAL_UNTRUSTED_SECS_def)
  moreover have "required_pow_difficulty reputation_new (own_key nv nd) = MAX_POW_DIFFICULTY"
    using s t by (simp add: required_pow_difficulty_def required_pow_inner_def UNKNOWN_TRUST_def)
  moreover have "is_trusted (nd_reputation (node_new nv bt cfg)) (own_key nv (node_new nv bt cfg))"
    by (simp add: node_new_reputation bootstrap_trusted)
  ultimately show ?thesis using nd by simp
qed

end
