(* ===== verification/Cli.thy ===== *)
theory Cli
  imports NodeMesh
begin

text \<open>
  The node program \<open>bin/node.rs\<close>: its command line, the configuration it makes of it, the start of the node and one turn of
  the pump between gossip and TCP. Random names and clocks are arguments; the text of an error is the offending value.
\<close>

section \<open>Socket addresses\<close>

text \<open>\<open>parse::<SocketAddr>\<close>: \<open>a.b.c.d:port\<close>, or \<open>[v6]:port\<close> with an optional scope.\<close>

datatype socket_addr = SocketV4 "nat list" nat | SocketV6 "nat list" nat nat

definition read_port :: "string \<Rightarrow> nat option" where
  "read_port s =
     (case s of [] \<Rightarrow> None
      | c # r \<Rightarrow>
          if c \<noteq> CHR '':'' then None
          else case read_number 10 (length r) True 65535 r of
            Some (p, []) \<Rightarrow> Some p | _ \<Rightarrow> None)"

definition parse_socket_v6 :: "string \<Rightarrow> socket_addr option" where
  "parse_socket_v6 s =
     (let body = takeWhile (\<lambda>c. c \<noteq> CHR '']'' \<and> c \<noteq> CHR ''%'') s; r = dropWhile (\<lambda>c. c \<noteq> CHR '']'' \<and> c \<noteq> CHR ''%'') s in
      case parse_ipv6 body of None \<Rightarrow> None | Some gs \<Rightarrow>
      case (if r \<noteq> [] \<and> hd r = CHR ''%'' then read_number 10 (length r) True 4294967295 (tl r) else Some (0, r)) of
        None \<Rightarrow> None
      | Some (scope, r2) \<Rightarrow>
          (case r2 of [] \<Rightarrow> None
           | c # r3 \<Rightarrow> if c \<noteq> CHR '']'' then None else map_option (SocketV6 gs scope) (read_port r3)))"

definition parse_socket_addr :: "string \<Rightarrow> socket_addr option" where
  "parse_socket_addr s =
     (case read_dotted 4 0 s of
        Some (ns, r) \<Rightarrow> map_option (SocketV4 ns) (read_port r)
      | None \<Rightarrow> (case s of [] \<Rightarrow> None | c # r \<Rightarrow> if c = CHR ''['' then parse_socket_v6 r else None))"

section \<open>The command line\<close>

record cli =
  ci_node_type :: node_type
  ci_name :: string
  ci_sqlite_path :: "string option"
  ci_battery_saver :: bool
  ci_geohash :: string
  ci_health_port :: "16 word option"
  ci_listen :: "socket_addr option"
  ci_peers :: "socket_addr list"
  ci_publish :: "string option"
  ci_trust :: "string list"

definition cli_default :: "nat \<Rightarrow> cli" where
  "cli_default r = \<lparr>ci_node_type = MobileNode, ci_name = ''onde-node-'' @ dec_digits r, ci_sqlite_path = None,
     ci_battery_saver = False, ci_geohash = ''u09tunq'', ci_health_port = None, ci_listen = None, ci_peers = [],
     ci_publish = None, ci_trust = []\<rparr>"

text \<open>The value that was refused, or \<open>None\<close> when it is missing.\<close>

datatype cli_error =
    CliHealthPort "string option" | CliListen "string option" | CliPeers "string option" | CliPublish
  | CliTrust "string option"

datatype cli_outcome = CliFails cli_error | CliHelp | CliRun cli

definition hex_digit_byte :: "char \<Rightarrow> bool" where
  "hex_digit_byte c \<longleftrightarrow> (let n = of_char c :: nat in (48 \<le> n \<and> n \<le> 57) \<or> (65 \<le> n \<and> n \<le> 70) \<or> (97 \<le> n \<and> n \<le> 102))"

definition is_ed25519_pubkey_hex :: "string \<Rightarrow> bool" where
  "is_ed25519_pubkey_hex key \<longleftrightarrow> length key = 64 \<and> list_all hex_digit_byte key"

fun cli_entries :: "(string \<Rightarrow> 'a option) \<Rightarrow> string list \<Rightarrow> string + 'a list" where
  "cli_entries f [] = Inr []"
| "cli_entries f (e # es) =
     (let t = trim_ws e in
      if t = [] then cli_entries f es
      else case f t of
        None \<Rightarrow> Inl t
      | Some x \<Rightarrow> (case cli_entries f es of Inl err \<Rightarrow> Inl err | Inr xs \<Rightarrow> Inr (x # xs)))"

text \<open>\<open>parse::<u16>\<close>, from \<open>Update\<close>, gives the port of the health endpoint.\<close>

fun parse_args :: "string list \<Rightarrow> cli \<Rightarrow> cli_outcome" where
  "parse_args [] c = CliRun c"
| "parse_args (a # r) c =
     (if a = ''--type'' then
        (case r of [] \<Rightarrow> CliRun c
         | v # r' \<Rightarrow> parse_args r' (c\<lparr>ci_node_type := (if v = ''desktop'' then DesktopBridge else MobileNode)\<rparr>))
      else if a = ''--name'' then (case r of [] \<Rightarrow> CliRun c | v # r' \<Rightarrow> parse_args r' (c\<lparr>ci_name := v\<rparr>))
      else if a = ''--db'' then (case r of [] \<Rightarrow> CliRun c | v # r' \<Rightarrow> parse_args r' (c\<lparr>ci_sqlite_path := Some v\<rparr>))
      else if a = ''--battery-saver'' then parse_args r (c\<lparr>ci_battery_saver := True\<rparr>)
      else if a = ''--health-port'' then
        (case r of [] \<Rightarrow> CliFails (CliHealthPort None)
         | v # r' \<Rightarrow> (case parse_u16 v of None \<Rightarrow> CliFails (CliHealthPort (Some v))
                   | Some p \<Rightarrow> parse_args r' (c\<lparr>ci_health_port := Some p\<rparr>)))
      else if a = ''--listen'' then
        (case r of [] \<Rightarrow> CliFails (CliListen None)
         | v # r' \<Rightarrow> (case parse_socket_addr v of None \<Rightarrow> CliFails (CliListen (Some v))
                   | Some x \<Rightarrow> parse_args r' (c\<lparr>ci_listen := Some x\<rparr>)))
      else if a = ''--peers'' then
        (case r of [] \<Rightarrow> CliFails (CliPeers None)
         | v # r' \<Rightarrow> (case cli_entries parse_socket_addr (split_on CHR '','' v) of Inl e \<Rightarrow> CliFails (CliPeers (Some e))
                   | Inr xs \<Rightarrow> parse_args r' (c\<lparr>ci_peers := ci_peers c @ xs\<rparr>)))
      else if a = ''--publish'' then
        (case r of [] \<Rightarrow> CliFails CliPublish | v # r' \<Rightarrow> parse_args r' (c\<lparr>ci_publish := Some v\<rparr>))
      else if a = ''--trust'' then
        (case r of [] \<Rightarrow> CliFails (CliTrust None)
         | v # r' \<Rightarrow>
             (case cli_entries (\<lambda>k. if is_ed25519_pubkey_hex k then Some k else None) (split_on CHR '','' v) of
                Inl e \<Rightarrow> CliFails (CliTrust (Some e))
              | Inr ks \<Rightarrow> parse_args r' (c\<lparr>ci_trust := ci_trust c @ ks\<rparr>)))
      else if a = ''--geohash'' then (case r of [] \<Rightarrow> CliRun c | v # r' \<Rightarrow> parse_args r' (c\<lparr>ci_geohash := v\<rparr>))
      else if a = ''--help'' \<or> a = ''-h'' then CliHelp
      else parse_args r c)"

section \<open>The run\<close>

definition cli_config :: "cli \<Rightarrow> node_config" where
  "cli_config c =
     (let desktop = (ci_node_type c = DesktopBridge) in
      \<lparr>nc_node_type = ci_node_type c, nc_display_name = ci_name c, nc_ram_mb = (if desktop then 32768 else 4096),
       nc_storage_gb = (if desktop then 512 else 64), nc_ai_model = (if desktop then Some ''Qwen9B'' else None),
       nc_max_peers = (if desktop then 100 else 20), nc_sqlite_path = ci_sqlite_path c, nc_social_path = None,
       nc_geohash = ci_geohash c, nc_battery_saver = ci_battery_saver c, nc_identity_seed = None, nc_update_root = None,
       nc_update_seed = None, nc_update_version = ''1.0.0''\<rparr>)"

definition cli_node :: "node_env \<Rightarrow> boot_env \<Rightarrow> identity \<Rightarrow> nat \<Rightarrow> cli \<Rightarrow> node" where
  "cli_node nv bt fresh now c = with_trust (ci_trust c) (node_start fresh now (node_new nv bt (cli_config c)))"

definition publish_without_trust :: "cli \<Rightarrow> bool" where
  "publish_without_trust c \<longleftrightarrow> ci_publish c \<noteq> None \<and> ci_peers c \<noteq> [] \<and> ci_trust c = []"

definition needs_transport :: "cli \<Rightarrow> bool" where
  "needs_transport c \<longleftrightarrow> \<not> (ci_listen c = None \<and> ci_peers c = [])"

text \<open>The alert of \<open>--publish\<close>; a refused publication ends the program.\<close>

definition cli_publish :: "node_env \<Rightarrow> publish_clock \<Rightarrow> cli \<Rightarrow> node \<Rightarrow> string + node" where
  "cli_publish nv ck c nd =
     (case ci_publish c of
        None \<Rightarrow> Inr nd
      | Some msg \<Rightarrow>
          (case publish_alert nv ck msg nd of
             (Inl e, _) \<Rightarrow> Inl (''publish failed: '' @ e)
           | (Inr _, nd') \<Rightarrow> Inr nd'))"

text \<open>One turn of the pump: first the outbox goes to the peers, then the received frames go to the node.\<close>

definition pump_turn ::
    "node_env \<Rightarrow> (nat \<Rightarrow> handler_env \<times> nat) \<Rightarrow> node \<Rightarrow> transport \<Rightarrow> (nat \<times> pump_report \<times> node \<times> transport) option" where
  "pump_turn nv readings nd tp =
     (case flush_outbound (nv_crypto nv) (nd_gossip nd) tp of
        None \<Rightarrow> None
      | Some (queued, g, tp1) \<Rightarrow>
          (case process_inbound nv readings (nd\<lparr>nd_gossip := g\<rparr>) tp1 of (rep, nd1, tp2) \<Rightarrow> Some (queued, rep, nd1, tp2)))"

section \<open>What the options mean for the node\<close>

lemma cli_entries_all: "cli_entries f es = Inr xs \<Longrightarrow> (\<And>t x. f t = Some x \<Longrightarrow> P x) \<Longrightarrow> list_all P xs"
  by (induction f es arbitrary: xs rule: cli_entries.induct) (auto simp: Let_def split: if_splits option.splits sum.splits)

lemma cli_trust_entries:
  "cli_entries (\<lambda>k. if is_ed25519_pubkey_hex k then Some k else None) es = Inr ks \<Longrightarrow> list_all is_ed25519_pubkey_hex ks"
  by (rule cli_entries_all) (auto split: if_splits)

lemma parse_args_trust:
  "parse_args args c = CliRun c' \<Longrightarrow> list_all is_ed25519_pubkey_hex (ci_trust c) \<Longrightarrow> list_all is_ed25519_pubkey_hex (ci_trust c')"
proof (induction "length args" arbitrary: args c rule: less_induct)
  case less
  show ?case
  proof (cases args)
    case Nil
    then show ?thesis using less.prems by simp
  next
    case (Cons a r)
    have rest: "list_all is_ed25519_pubkey_hex (ci_trust c')"
      if "parse_args r d = CliRun c'" "ci_trust d = ci_trust c" for d
      using less.hyps [of r d] that less.prems(2) Cons by simp
    have later: "list_all is_ed25519_pubkey_hex (ci_trust c')"
      if "r = v # r'" "parse_args r' d = CliRun c'" "list_all is_ed25519_pubkey_hex (ci_trust d)" for v r' d
      using less.hyps [of r' d] that Cons by simp
    show ?thesis
    proof (cases r)
      case Nil
      then show ?thesis using less.prems(1) rest less.prems(2) unfolding Cons by (auto split: if_splits)
    next
      case (Cons v r')
      have "parse_args (a # v # r') c = CliRun c'" using less.prems(1) \<open>args = a # r\<close> Cons by simp
      then show ?thesis
        by (simp only: parse_args.simps(2) [of a "v # r'" c] list.case split: if_split_asm option.split_asm sum.split_asm)
          (auto simp del: parse_args.simps simp: less.prems(2) dest!: cli_trust_entries
            elim!: rest [unfolded Cons] later [OF Cons])
    qed
  qed
qed

lemma cli_node_trusts:
  "is_trusted (nd_reputation (cli_node nv bt fresh now c)) k \<longleftrightarrow>
     k \<in> set (ci_trust c) \<or> k = own_key nv (node_new nv bt (cli_config c))"
  by (auto simp: cli_node_def with_trust_def node_start_def node_maybe_rotate_def node_new_reputation bootstrap_trusted
      split: prod.split)

definition lower_hex :: "char \<Rightarrow> bool" where
  "lower_hex c \<longleftrightarrow> (let n = of_char c :: nat in (48 \<le> n \<and> n \<le> 57) \<or> (97 \<le> n \<and> n \<le> 102))"

definition upper_char :: "char \<Rightarrow> char" where
  "upper_char c = (let n = of_char c :: nat in if 97 \<le> n then char_of (n - 32) else c)"

lemma upper_char_hex: "lower_hex c \<Longrightarrow> hex_digit_byte (upper_char c)"
  by (auto simp: lower_hex_def upper_char_def hex_digit_byte_def Let_def)

lemma hex_digit_range: "hex_digit_byte c \<Longrightarrow> 48 \<le> (of_char c :: nat) \<and> of_char c < (128 :: nat)"
  by (auto simp: hex_digit_byte_def Let_def)

lemma upper_char_neq:
  assumes "97 \<le> (of_char c :: nat)"
  shows "upper_char c \<noteq> c"
proof
  assume e: "upper_char c = c"
  have "(of_char c :: nat) - 32 < 256" using nat_of_char_less_256 [of c] by linarith
  then have "(of_char (upper_char c) :: nat) = of_char c - 32" using assms by (simp add: upper_char_def)
  then show False using e assms by simp
qed

text \<open>The option accepts a key in upper case, as it documents, but the node then trusts only that spelling: the owner of the
  key, who signs with its lower case spelling, stays untrusted.\<close>

theorem cli_trust_case:
  assumes "length k = 64" "list_all lower_hex k" "\<exists>c\<in>set k. 97 \<le> (of_char c :: nat)"
    and "\<And>c. k \<noteq> own_key nv (node_new nv bt (cli_config c))"
  shows "\<exists>c. parse_args [''--trust'', map upper_char k] (cli_default r) = CliRun c
    \<and> ci_trust c = [map upper_char k] \<and> \<not> is_trusted (nd_reputation (cli_node nv bt fresh now c)) k"
proof -
  let ?K = "map upper_char k"
  have h: "list_all hex_digit_byte ?K" using assms(2) upper_char_hex by (auto simp: list_all_iff)
  then have p: "trim_ws ?K = ?K" by (intro trim_ws_printable) (fastforce simp: list_all_iff dest!: hex_digit_range)
  have "CHR '','' \<notin> set ?K"
  proof
    assume "CHR '','' \<in> set ?K"
    then have "hex_digit_byte CHR '',''" using h unfolding list_all_iff by blast
    then show False by (simp add: hex_digit_byte_def)
  qed
  then have "split_on CHR '','' ?K = [?K]" by (rule split_on_last)
  moreover have "?K \<noteq> []" using assms(1) by auto
  ultimately have a: "parse_args [''--trust'', ?K] (cli_default r) = CliRun ((cli_default r)\<lparr>ci_trust := [?K]\<rparr>)"
    using p h assms(1) by (simp add: is_ed25519_pubkey_hex_def cli_default_def)
  have "?K \<noteq> k"
  proof
    assume "?K = k"
    then have "\<forall>c\<in>set k. upper_char c = c" by (simp add: map_idI map_eq_conv [of upper_char k id, simplified])
    then show False using assms(3) upper_char_neq by auto
  qed
  then show ?thesis using a assms(4) by (auto simp: cli_node_trusts)
qed

definition demo_cased :: string where
  "demo_cased = replicate 64 CHR ''a''"

lemma demo_cased_case: "list_all lower_hex demo_cased" "\<exists>c\<in>set demo_cased. 97 \<le> (of_char c :: nat)"
    "length demo_cased = 64"
  by (simp_all add: demo_cased_def lower_hex_def list_all_iff)

lemma demo_cli_key: "own_key demo_nv (node_new demo_nv (demo_boot 2) (cli_config c)) = demo_key 2"
  by (simp add: node_new_def boot_identity_def cli_config_def demo_boot_def Let_def load_persisted_identity_seed_def
      identity_generate_def own_key_def id_pubkey_hex_def demo_key_def demo_env_def split: prod.splits option.split)

lemma demo_cased_other: "demo_cased \<noteq> demo_key 2"
proof -
  have "hd demo_cased = CHR ''a''" by (simp add: demo_cased_def)
  moreover have "hd (demo_key 2) = CHR ''0''" by code_simp
  ultimately show ?thesis by auto
qed

lemma cli_trust_case_witness:
  "\<exists>c. parse_args [''--trust'', map upper_char demo_cased] (cli_default 7) = CliRun c
    \<and> ci_trust c = [map upper_char demo_cased]
    \<and> \<not> is_trusted (nd_reputation (cli_node demo_nv (demo_boot 2) (nd_identity (demo_node 3)) 0 c)) demo_cased"
proof -
  have "demo_cased \<noteq> own_key demo_nv (node_new demo_nv (demo_boot 2) (cli_config c))" for c
    using demo_cased_other demo_cli_key by simp
  from cli_trust_case [OF demo_cased_case(3,1,2) this] show ?thesis by blast
qed

text \<open>Every key after \<open>--trust\<close> of a command line that is accepted has 64 hexadecimal digits, and the node that starts trusts
  exactly these keys and its own.\<close>

theorem cli_trusts_listed:
  assumes "parse_args args (cli_default r) = CliRun c"
  shows "list_all is_ed25519_pubkey_hex (ci_trust c)
    \<and> (is_trusted (nd_reputation (cli_node nv bt fresh now c)) k \<longleftrightarrow>
        k \<in> set (ci_trust c) \<or> k = own_key nv (node_new nv bt (cli_config c)))"
  using parse_args_trust [OF assms] cli_node_trusts by (auto simp: cli_default_def)

lemma cli_trusts_listed_witness:
  "is_trusted (nd_reputation (cli_node demo_nv (demo_boot 2) (nd_identity (demo_node 3)) 0
     (cli_default 7\<lparr>ci_trust := [demo_key 1], ci_battery_saver := True\<rparr>))) (demo_key 1)"
proof -
  have "parse_args [''--battery-saver'', ''--trust'', demo_key 1] (cli_default 7)
      = CliRun (cli_default 7\<lparr>ci_trust := [demo_key 1], ci_battery_saver := True\<rparr>)"
    by code_simp
  from cli_trusts_listed [OF this, of demo_nv "demo_boot 2" "nd_identity (demo_node 3)" 0 "demo_key 1"] show ?thesis by simp
qed

end
