(* ===== verification/Health.thy ===== *)
theory Health
  imports Bytes Metrics
begin

text \<open>
  The health endpoint, \<open>core/src/health.rs\<close>: reading the head of a request from a slow or hostile
  client, the answer, and the loop that admits connections. The socket is the sequence of the results
  of \<open>read\<close>, the clock the sequence of its readings (milliseconds), one of each per turn of the loop.
\<close>

section \<open>Text\<close>

text \<open>\<open>String::from_utf8_lossy\<close>: every maximal ill-formed part becomes one replacement character.\<close>

definition REPLACEMENT :: "byte list" where
  "REPLACEMENT = [0xEF, 0xBF, 0xBD]"

definition utf8_width :: "byte \<Rightarrow> nat" where
  "utf8_width a = (if a \<le> 0x7F then 1 else if 0xC2 \<le> a \<and> a \<le> 0xDF then 2
     else if 0xE0 \<le> a \<and> a \<le> 0xEF then 3 else if 0xF0 \<le> a \<and> a \<le> 0xF4 then 4 else 0)"

definition second_byte_ok :: "byte \<Rightarrow> byte \<Rightarrow> bool" where
  "second_byte_ok a b =
     (if a = 0xE0 then 0xA0 \<le> b \<and> b \<le> 0xBF else if a = 0xED then 0x80 \<le> b \<and> b \<le> 0x9F
      else if a = 0xF0 then 0x90 \<le> b \<and> b \<le> 0xBF else if a = 0xF4 then 0x80 \<le> b \<and> b \<le> 0x8F
      else cont_byte b)"

definition utf8_tail :: "byte \<Rightarrow> byte list \<Rightarrow> nat" where
  "utf8_tail a bs =
     (case bs of [] \<Rightarrow> 0
      | b # bs' \<Rightarrow> if 2 \<le> utf8_width a \<and> second_byte_ok a b
                   then Suc (length (takeWhile cont_byte (take (utf8_width a - 2) bs'))) else 0)"

function utf8_lossy :: "byte list \<Rightarrow> byte list" where
  "utf8_lossy [] = []"
| "utf8_lossy (a # bs) =
     (if utf8_width a = Suc (utf8_tail a bs) then a # take (utf8_tail a bs) bs @ utf8_lossy (drop (utf8_tail a bs) bs)
      else REPLACEMENT @ utf8_lossy (drop (utf8_tail a bs) bs))"
  by pat_completeness auto
termination by (relation "measure length") auto

text \<open>\<open>split_whitespace\<close>, on the characters of a string.\<close>

function ws_words :: "string list \<Rightarrow> string list" where
  "ws_words cs =
     (case dropWhile (\<lambda>c. c \<in> set white_space) cs of
        [] \<Rightarrow> []
      | c # r \<Rightarrow> concat (takeWhile (\<lambda>c. c \<notin> set white_space) (c # r)) # ws_words (dropWhile (\<lambda>c. c \<notin> set white_space) (c # r)))"
  by pat_completeness auto
termination
proof (relation "measure length")
  fix cs r :: "string list" and c
  assume d: "dropWhile (\<lambda>c. c \<in> set white_space) cs = c # r"
  have "length (c # r) \<le> length cs" using length_dropWhile_le [of "\<lambda>c. c \<in> set white_space" cs] d by simp
  moreover have "c \<notin> set white_space" using d hd_dropWhile [of "\<lambda>c. c \<in> set white_space" cs] by auto
  then have "length (dropWhile (\<lambda>c. c \<notin> set white_space) (c # r)) < length (c # r)"
    by (simp add: le_imp_less_Suc length_dropWhile_le)
  ultimately show "(dropWhile (\<lambda>c. c \<notin> set white_space) (c # r), cs) \<in> measure length" by simp
qed simp

declare ws_words.simps [simp del]

section \<open>Reading the head of a request\<close>

definition MAX_REQUEST_BYTES :: nat where "MAX_REQUEST_BYTES = 8 * 1024"
definition MAX_CONCURRENT_CONNECTIONS :: nat where "MAX_CONCURRENT_CONNECTIONS = 16"
definition HEALTH_MAX_CONSECUTIVE_ACCEPT_ERRORS :: nat where "HEALTH_MAX_CONSECUTIVE_ACCEPT_ERRORS = 32"
definition CONNECTION_BUDGET :: nat where "CONNECTION_BUDGET = 10000"

datatype socket_read = RdBytes "byte list" | RdFailed

datatype request_head = HeadLine string | HeadTooLarge | HeadDead

fun find_crlf :: "byte list \<Rightarrow> nat option" where
  "find_crlf (a # b # bs) = (if a = 13 \<and> b = 10 then Some 0 else map_option Suc (find_crlf (b # bs)))"
| "find_crlf _ = None"

lemma find_crlf_SomeD: "find_crlf bs = Some p \<Longrightarrow> p + 2 \<le> length bs \<and> take 2 (drop p bs) = [13, 10]"
  by (induction bs arbitrary: p rule: find_crlf.induct) (auto split: if_splits)

text \<open>The inner loop drops leading blank lines: the line it finds, or what stays in the buffer.\<close>

function scan_lines :: "byte list \<Rightarrow> byte list + byte list" where
  "scan_lines buf =
     (case find_crlf buf of
        None \<Rightarrow> Inl buf
      | Some pos \<Rightarrow> if pos = 0 then scan_lines (drop 2 buf) else Inr (take pos buf))"
  by pat_completeness auto
termination by (relation "measure length") (auto dest: find_crlf_SomeD)

declare scan_lines.simps [simp del]

partial_function (option) read_request_head ::
    "(nat \<Rightarrow> nat) \<Rightarrow> (nat \<Rightarrow> socket_read) \<Rightarrow> nat \<Rightarrow> nat \<Rightarrow> byte list \<Rightarrow> request_head option" where
  "read_request_head clock input deadline i buf =
     (if deadline \<le> clock i then Some HeadDead
      else case input i of
        RdFailed \<Rightarrow> Some HeadDead
      | RdBytes bytes \<Rightarrow>
          if bytes = [] then Some HeadDead
          else case scan_lines (buf @ bytes) of
            Inr line \<Rightarrow> Some (HeadLine (bytes_str (utf8_lossy line)))
          | Inl rest \<Rightarrow>
              if length rest > MAX_REQUEST_BYTES then Some HeadTooLarge
              else read_request_head clock input deadline (i + 1) rest)"

section \<open>The answer\<close>

definition crlf :: string where "crlf = [char_of (13 :: nat), char_of (10 :: nat)]"

definition quoted_field :: "string \<Rightarrow> string \<Rightarrow> string" where
  "quoted_field name v = ''{'' @ [char_of (34 :: nat)] @ name @ [char_of (34 :: nat)] @ '':''
     @ [char_of (34 :: nat)] @ v @ [char_of (34 :: nat)] @ ''}''"

definition http_response :: "string \<Rightarrow> string \<Rightarrow> string" where
  "http_response status body =
     ''HTTP/1.1 '' @ status @ crlf @ ''Content-Type: application/json'' @ crlf
     @ ''Content-Length: '' @ dec_digits (length body) @ crlf @ ''Connection: close'' @ crlf @ crlf @ body"

definition BUSY_RESPONSE :: string where
  "BUSY_RESPONSE = http_response ''503 Service Unavailable'' (quoted_field ''error'' ''busy'')"

definition TOO_LARGE_RESPONSE :: string where
  "TOO_LARGE_RESPONSE = http_response ''431 Request Header Fields Too Large'' (quoted_field ''error'' ''request too large'')"

text \<open>\<open>json\<close> is \<open>serde_json::to_string\<close> on a snapshot, whose failure gives \<open>{}\<close>.\<close>

definition snapshot_json :: "(metrics_snapshot \<Rightarrow> string option) \<Rightarrow> u64 \<Rightarrow> node_metrics \<Rightarrow> string" where
  "snapshot_json json now m = (case json (snapshot now m) of Some s \<Rightarrow> s | None \<Rightarrow> ''{}'')"

definition route_request ::
    "(metrics_snapshot \<Rightarrow> string option) \<Rightarrow> u64 \<Rightarrow> string \<Rightarrow> node_metrics \<Rightarrow> (string \<times> string) \<times> node_metrics" where
  "route_request json now request_line m =
     (let parts = ws_words (utf8_chars request_line);
          meth = (case parts of p # _ \<Rightarrow> p | [] \<Rightarrow> []);
          path = (case parts of _ # p # _ \<Rightarrow> p | _ \<Rightarrow> []);
          is_get = (meth = ''GET'');
          is_health_path = (path = ''/health'' \<or> path = ''/health?'')
      in if \<not> is_get \<and> path = ''/health'' then
           ((''405 Method Not Allowed'', quoted_field ''error'' ''method not allowed''), m)
         else if is_get \<and> is_health_path then
           (let m1 = record_health_request m in ((''200 OK'', snapshot_json json now m1), m1))
         else if is_get then ((''404 Not Found'', quoted_field ''error'' ''not found''), m)
         else ((''405 Method Not Allowed'', quoted_field ''error'' ''method not allowed''), m))"

text \<open>The bytes written to the socket (\<open>None\<close>: closed without an answer) and the counters. The outer option
  is \<open>None\<close> if the connection is never done.\<close>

definition handle_connection_with_budget ::
    "(metrics_snapshot \<Rightarrow> string option) \<Rightarrow> u64 \<Rightarrow> (nat \<Rightarrow> nat) \<Rightarrow> (nat \<Rightarrow> socket_read) \<Rightarrow> nat \<Rightarrow> nat \<Rightarrow> node_metrics
       \<Rightarrow> (string option \<times> node_metrics) option" where
  "handle_connection_with_budget json now clock input start budget m =
     (case read_request_head clock input (start + budget) 0 [] of
        None \<Rightarrow> None
      | Some HeadDead \<Rightarrow> Some (None, m)
      | Some HeadTooLarge \<Rightarrow> Some (Some TOO_LARGE_RESPONSE, m)
      | Some (HeadLine line) \<Rightarrow>
          (case route_request json now line m of
             ((status, body), m1) \<Rightarrow> Some (Some (http_response status body), m1)))"

definition handle_connection ::
    "(metrics_snapshot \<Rightarrow> string option) \<Rightarrow> u64 \<Rightarrow> (nat \<Rightarrow> nat) \<Rightarrow> (nat \<Rightarrow> socket_read) \<Rightarrow> nat \<Rightarrow> node_metrics
       \<Rightarrow> (string option \<times> node_metrics) option" where
  "handle_connection json now clock input start m =
     handle_connection_with_budget json now clock input start CONNECTION_BUDGET m"

section \<open>The accept loop\<close>

datatype accept_result = Connection bool | NotReady | AcceptError bool

datatype loop_exit = CleanStop | ListenerDied

datatype accept_action = Spawned | ServedBusy | DroppedNoThread | Polled | Exited loop_exit

record health_server =
  hs_active :: nat
  hs_errors :: nat
  hs_exit :: "loop_exit option"
  hs_handlers :: nat

definition health_server_new :: health_server where
  "health_server_new = \<lparr>hs_active = 0, hs_errors = 0, hs_exit = None, hs_handlers = 0\<rparr>"

text \<open>One turn of the loop: the stop flag at its head, then the result of \<open>accept\<close>: a connection (and whether
  a thread can be spawned), nothing, or an error (and the stop flag read again). \<open>hs_handlers\<close> counts the
  threads that serve a connection; it is not a variable of the code.\<close>

definition health_accept_turn :: "bool \<Rightarrow> accept_result \<Rightarrow> health_server \<Rightarrow> accept_action \<times> health_server" where
  "health_accept_turn stop result hs =
     (if stop then (Exited CleanStop, hs\<lparr>hs_exit := Some CleanStop\<rparr>)
      else case result of
        Connection spawn_ok \<Rightarrow>
          (let hs1 = hs\<lparr>hs_errors := 0\<rparr> in
           if hs_active hs1 \<ge> MAX_CONCURRENT_CONNECTIONS then (ServedBusy, hs1)
           else if spawn_ok then
             (Spawned, hs1\<lparr>hs_active := hs_active hs1 + 1, hs_handlers := hs_handlers hs1 + 1\<rparr>)
           else (DroppedNoThread, hs1))
      | NotReady \<Rightarrow> (Polled, hs)
      | AcceptError stop_now \<Rightarrow>
          if stop_now then (Exited CleanStop, hs\<lparr>hs_exit := Some CleanStop\<rparr>)
          else
            let hs1 = hs\<lparr>hs_errors := hs_errors hs + 1\<rparr> in
            if hs_errors hs1 \<ge> HEALTH_MAX_CONSECUTIVE_ACCEPT_ERRORS
            then (Exited ListenerDied, hs1\<lparr>hs_exit := Some ListenerDied\<rparr>)
            else (Polled, hs1))"

datatype health_event = AcceptTurn bool accept_result | HandlerDone

fun health_step :: "health_event \<Rightarrow> health_server \<Rightarrow> health_server" where
  "health_step (AcceptTurn stop result) hs = (if hs_exit hs = None then snd (health_accept_turn stop result hs) else hs)"
| "health_step HandlerDone hs =
     (if hs_handlers hs > 0 then hs\<lparr>hs_active := hs_active hs - 1, hs_handlers := hs_handlers hs - 1\<rparr> else hs)"

section \<open>Lines\<close>

lemma find_crlf_append: "find_crlf (xs @ ys) = None \<Longrightarrow> find_crlf xs = None"
  by (induction xs rule: find_crlf.induct) (auto split: if_splits)

lemma find_crlf_first: "find_crlf (line @ [13]) = None \<Longrightarrow> find_crlf (line @ [13, 10] @ rest) = Some (length line)"
  by (induction line rule: find_crlf.induct) (auto split: if_splits)

definition blanks :: "nat \<Rightarrow> byte list" where
  "blanks k = concat (replicate k [13, 10])"

lemma blanks_simps [simp]: "blanks 0 = []" "blanks (Suc k) = 13 # 10 # blanks k"
  by (simp_all add: blanks_def)

lemma length_blanks [simp]: "length (blanks k) = 2 * k"
  by (induction k) simp_all

lemma blanks_add: "blanks (j + k) = blanks j @ blanks k"
  by (induction j) simp_all

lemma scan_None: "find_crlf buf = None \<Longrightarrow> scan_lines buf = Inl buf"
  by (simp add: scan_lines.simps)

lemma scan_blank: "scan_lines (13 # 10 # buf) = scan_lines buf"
  by (subst scan_lines.simps) simp

lemma scan_sound:
  "(\<forall>line. scan_lines buf = Inr line \<longrightarrow> line \<noteq> [] \<and> find_crlf line = None
      \<and> (\<exists>k rest. buf = blanks k @ line @ [13, 10] @ rest))
   \<and> (\<forall>rest. scan_lines buf = Inl rest \<longrightarrow> find_crlf rest = None \<and> (\<exists>k. buf = blanks k @ rest))"
proof (induction buf rule: scan_lines.induct)
  case (1 buf)
  show ?case
  proof (cases "find_crlf buf")
    case None
    then show ?thesis by (auto simp: scan_None intro: exI [of _ 0])
  next
    case (Some pos)
    note p = find_crlf_SomeD [OF Some]
    have split: "buf = take pos buf @ [13, 10] @ drop (pos + 2) buf"
      using p by (metis append_take_drop_id drop_drop add.commute)
    show ?thesis
    proof (cases "pos = 0")
      case True
      then have b: "buf = 13 # 10 # drop 2 buf" using split by (simp add: numeral_2_eq_2)
      then have "scan_lines buf = scan_lines (drop 2 buf)" by (metis scan_blank)
      moreover have "\<exists>k'. buf = blanks k' @ xs" if "drop 2 buf = blanks k @ xs" for k xs
        using b that by (intro exI [of _ "Suc k"]) simp
      ultimately show ?thesis using "1.IH" [OF Some True] by (metis append_assoc)
    next
      case False
      have "find_crlf (take pos bs) = None" if "find_crlf bs = Some pos" for bs pos
        using that by (induction bs arbitrary: pos rule: find_crlf.induct)
          (auto split: if_splits simp: take_Cons split: nat.splits)
      then have "find_crlf (take pos buf) = None" using Some by blast
      moreover have "take pos buf \<noteq> []" using False p by auto
      moreover have "scan_lines buf = Inr (take pos buf)" using Some False by (subst scan_lines.simps) simp
      moreover have "buf = blanks 0 @ take pos buf @ [13, 10] @ drop (pos + 2) buf" using split by simp
      ultimately show ?thesis by (metis Inl_Inr_False sum.inject(2))
    qed
  qed
qed

lemma scan_prefix:
  assumes "line \<noteq> []" "find_crlf (line @ [13]) = None" "buf @ later = blanks k @ line @ [13, 10] @ rest"
  shows "scan_lines buf = Inr line
    \<or> (\<exists>j\<le>k. \<exists>tail. scan_lines buf = Inl tail \<and> buf = blanks j @ tail \<and> length tail \<le> length line + 1)"
  using assms(3)
proof (induction k arbitrary: buf)
  case 0
  then have "buf @ later = (line @ [13, 10]) @ rest" by simp
  then obtain us where "buf = (line @ [13, 10]) @ us \<or> buf @ us = line @ [13, 10]"
    unfolding append_eq_append_conv2 by metis
  then consider (whole) us where "buf = line @ [13, 10] @ us" | (part) us where "buf @ us = line @ [13]"
  proof (elim disjE)
    assume "buf = (line @ [13, 10]) @ us" then show thesis using whole by simp
  next
    assume b: "buf @ us = line @ [13, 10]"
    show thesis
    proof (cases us rule: rev_cases)
      case Nil
      then show thesis using b whole [of "[]"] by simp
    next
      case (snoc vs v)
      then have "(buf @ vs) @ [v] = (line @ [13]) @ [10]" using b by simp
      then have "buf @ vs = line @ [13]" unfolding append1_eq_conv by blast
      then show thesis by (rule part)
    qed
  qed
  then show ?case
  proof cases
    case whole
    then show ?thesis using find_crlf_first [OF assms(2)] assms(1) by (subst (1) scan_lines.simps) simp
  next
    case part
    then have "find_crlf buf = None" using assms(2) find_crlf_append by metis
    moreover have "length buf \<le> length line + 1" using part by (metis length_append length_append_singleton le_add1 Suc_eq_plus1)
    ultimately show ?thesis by (auto simp: scan_None intro!: exI [of _ 0])
  qed
next
  case (Suc k)
  show ?case
  proof (cases buf)
    case Nil
    then show ?thesis by (auto simp: scan_None intro!: exI [of _ 0])
  next
    case (Cons a buf')
    show ?thesis
    proof (cases buf')
      case Nil
      then show ?thesis using Cons by (auto simp: scan_None intro!: exI [of _ 0])
    next
      case (Cons b buf'')
      have ab: "a = 13" "b = 10" "buf'' @ later = blanks k @ line @ [13, 10] @ rest"
        using Suc.prems \<open>buf = a # buf'\<close> Cons by simp_all
      then have "scan_lines buf = scan_lines buf''" using \<open>buf = a # buf'\<close> Cons by (simp add: scan_blank)
      then show ?thesis
      proof (cases "scan_lines buf'' = Inr line")
        case False
        then obtain j tail where "j \<le> k" "scan_lines buf'' = Inl tail" "buf'' = blanks j @ tail" "length tail \<le> length line + 1"
          using Suc.IH [OF ab(3)] by blast
        then show ?thesis using \<open>scan_lines buf = scan_lines buf''\<close> ab \<open>buf = a # buf'\<close> Cons
          by (intro disjI2 exI [of _ "Suc j"]) simp
      qed simp
    qed
  qed
qed

section \<open>Every connection ends\<close>

lemma read_request_head_step:
  "clock i < deadline \<Longrightarrow> read_request_head clock input deadline i buf =
     (case input i of
        RdFailed \<Rightarrow> Some HeadDead
      | RdBytes bytes \<Rightarrow>
          if bytes = [] then Some HeadDead
          else case scan_lines (buf @ bytes) of
            Inr line \<Rightarrow> Some (HeadLine (bytes_str (utf8_lossy line)))
          | Inl rest \<Rightarrow>
              if length rest > MAX_REQUEST_BYTES then Some HeadTooLarge
              else read_request_head clock input deadline (i + 1) rest)"
  by (subst read_request_head.simps) simp

text \<open>What comes out: a line without a line end that fits the limit and one more read, converted.\<close>

definition bounded_line :: "string \<Rightarrow> bool" where
  "bounded_line line \<longleftrightarrow>
     (\<exists>raw. line = bytes_str (utf8_lossy raw) \<and> raw \<noteq> [] \<and> find_crlf raw = None \<and> length raw + 2 \<le> MAX_REQUEST_BYTES + 512)"

lemma scan_bounded:
  assumes "scan_lines (buf @ bytes) = Inr raw" "length buf \<le> MAX_REQUEST_BYTES" "length bytes \<le> 512"
  shows "bounded_line (bytes_str (utf8_lossy raw))"
proof -
  obtain k rest where r: "raw \<noteq> []" "find_crlf raw = None" "buf @ bytes = blanks k @ raw @ [13, 10] @ rest"
    using scan_sound [of "buf @ bytes"] assms(1) by blast
  have "length buf + length bytes = 2 * k + length raw + 2 + length rest" using arg_cong [OF r(3), of length] by simp
  then have "length raw + 2 \<le> MAX_REQUEST_BYTES + 512" using assms(2,3) by linarith
  with r(1,2) show ?thesis unfolding bounded_line_def by blast
qed

lemma read_request_head_ends:
  assumes "deadline \<le> clock n" "i \<le> n" "length buf \<le> MAX_REQUEST_BYTES"
    and "\<And>j bytes. input j = RdBytes bytes \<Longrightarrow> length bytes \<le> 512"
  shows "\<exists>head. read_request_head clock input deadline i buf = Some head \<and> (\<forall>line. head = HeadLine line \<longrightarrow> bounded_line line)"
  using assms(2,3)
proof (induction "n - i" arbitrary: i buf)
  case 0
  then show ?case using assms(1) by (simp add: read_request_head.simps)
next
  case (Suc k)
  show ?case
  proof (cases "deadline \<le> clock i")
    case False
    have "\<exists>head. read_request_head clock input deadline (i + 1) rest = Some head \<and> (\<forall>line. head = HeadLine line \<longrightarrow> bounded_line line)"
      if "length rest \<le> MAX_REQUEST_BYTES" for rest
      using Suc that by auto
    with False show ?thesis
      using scan_bounded [OF _ Suc.prems(2) assms(4)]
      by (auto simp: read_request_head_step split: socket_read.split sum.split)
  qed (simp add: read_request_head.simps)
qed

definition answers :: "string option \<Rightarrow> bool" where
  "answers reply \<longleftrightarrow> reply = None \<or> reply = Some TOO_LARGE_RESPONSE
     \<or> (\<exists>status body. status \<in> {''200 OK'', ''404 Not Found'', ''405 Method Not Allowed''} \<and> reply = Some (http_response status body))"

lemma route_status: "fst (fst (route_request json now line m)) \<in> {''200 OK'', ''404 Not Found'', ''405 Method Not Allowed''}"
  by (simp add: route_request_def Let_def)

text \<open>C34: Every connection ends: once the clock has passed the budget, whatever the client sends and however slowly,
  the request has been answered with one of four statuses or the socket closed, and the line that was
  interpreted is at most 8 KiB and one read long.\<close>

theorem health_connection_ends:
  assumes "start + CONNECTION_BUDGET \<le> clock n" "\<And>j bytes. input j = RdBytes bytes \<Longrightarrow> length bytes \<le> 512"
  shows "\<exists>reply m'. handle_connection json now clock input start m = Some (reply, m') \<and> answers reply
    \<and> (reply = None \<or> reply = Some TOO_LARGE_RESPONSE
        \<or> (\<exists>line. bounded_line line \<and> m' = snd (route_request json now line m)
             \<and> reply = Some (http_response (fst (fst (route_request json now line m))) (snd (fst (route_request json now line m))))))"
proof -
  obtain head where h: "read_request_head clock input (start + CONNECTION_BUDGET) 0 [] = Some head"
    "\<forall>line. head = HeadLine line \<longrightarrow> bounded_line line"
    using read_request_head_ends [of "start + CONNECTION_BUDGET" clock n 0 "[]" input] assms by auto
  show ?thesis
  proof (cases head)
    case (HeadLine line)
    obtain status body m1 where r: "route_request json now line m = ((status, body), m1)" by (metis surj_pair)
    then have "handle_connection json now clock input start m = Some (Some (http_response status body), m1)"
      using h(1) HeadLine by (simp add: handle_connection_def handle_connection_with_budget_def)
    moreover have "answers (Some (http_response status body))"
      using route_status [of json now line m] r unfolding answers_def by auto
    ultimately show ?thesis using h(2) HeadLine r by (intro exI [of _ "Some (http_response status body)"] exI [of _ m1]) auto
  qed (use h in \<open>auto simp: handle_connection_def handle_connection_with_budget_def answers_def\<close>)
qed

lemma health_connection_ends_witness:
  "\<exists>reply m'. handle_connection (\<lambda>_. None) 5 (\<lambda>i. 3000 * i) (\<lambda>i. RdBytes [71]) 0 (metrics_new 0) = Some (reply, m') \<and> answers reply"
  using health_connection_ends [of 0 "\<lambda>i. 3000 * i" 4 "\<lambda>i. RdBytes [71]" "\<lambda>_. None" 5 "metrics_new 0"]
  by (auto simp: CONNECTION_BUDGET_def)

section \<open>Fragmentation does not matter\<close>

lemma read_fragments:
  assumes "line \<noteq> []" "find_crlf (line @ [13]) = None" "length line + 1 \<le> MAX_REQUEST_BYTES"
    and "buf @ concat chunks = blanks k @ line @ [13, 10] @ rest" "find_crlf buf = None"
    and "\<And>j. j < length chunks \<Longrightarrow> input (i + j) = RdBytes (chunks ! j) \<and> chunks ! j \<noteq> [] \<and> clock (i + j) < deadline"
  shows "read_request_head clock input deadline i buf = Some (HeadLine (bytes_str (utf8_lossy line)))"
  using assms(4-6)
proof (induction chunks arbitrary: i buf k)
  case Nil
  from scan_prefix [OF assms(1,2), of buf "[]" k rest] Nil
  obtain j tail where "j \<le> k" "buf = blanks j @ tail" "length tail \<le> length line + 1" by (auto simp: scan_None)
  moreover have "length buf = 2 * k + length line + 2 + length rest" using arg_cong [OF Nil(1), of length] by simp
  ultimately show ?case by auto
next
  case (Cons c chunks)
  have now: "input i = RdBytes c" "c \<noteq> []" "clock i < deadline" using Cons.prems(3) [of 0] by simp_all
  have eq: "(buf @ c) @ concat chunks = blanks k @ line @ [13, 10] @ rest" using Cons.prems(1) by simp
  show ?case
  proof (cases "scan_lines (buf @ c) = Inr line")
    case True
    then show ?thesis using now by (simp add: read_request_head_step)
  next
    case False
    then obtain j tail where j: "j \<le> k" "scan_lines (buf @ c) = Inl tail" "buf @ c = blanks j @ tail"
      "length tail \<le> length line + 1"
      using scan_prefix [OF assms(1,2) eq] by blast
    obtain d where d: "k = j + d" using j(1) le_Suc_ex by blast
    have "tail @ concat chunks = blanks d @ line @ [13, 10] @ rest" using eq j(3) by (simp add: d blanks_add)
    moreover have "find_crlf tail = None" using scan_sound [of "buf @ c"] j(2) by blast
    moreover have "input (i + 1 + n) = RdBytes (chunks ! n) \<and> chunks ! n \<noteq> [] \<and> clock (i + 1 + n) < deadline"
      if "n < length chunks" for n
      using Cons.prems(3) [of "Suc n"] that by simp
    ultimately have "read_request_head clock input deadline (i + 1) tail = Some (HeadLine (bytes_str (utf8_lossy line)))"
      by (rule Cons.IH)
    then show ?thesis using now j(2,4) assms(3) by (simp add: read_request_head_step)
  qed
qed

lemma lead_ranges:
  fixes a :: byte
  shows "0xC2 \<le> a \<Longrightarrow> a \<le> 0xDF \<Longrightarrow> \<not> a \<le> 0x7F \<and> a \<noteq> 0xE0 \<and> a \<noteq> 0xED \<and> a \<noteq> 0xF0 \<and> a \<noteq> 0xF4"
    and "0xE0 \<le> a \<Longrightarrow> a \<le> 0xEF \<Longrightarrow> \<not> a \<le> 0x7F \<and> \<not> a \<le> 0xDF \<and> a \<noteq> 0xF0 \<and> a \<noteq> 0xF4"
    and "0xF0 \<le> a \<Longrightarrow> a \<le> 0xF4 \<Longrightarrow> \<not> a \<le> 0x7F \<and> \<not> a \<le> 0xDF \<and> \<not> a \<le> 0xEF \<and> a \<noteq> 0xE0 \<and> a \<noteq> 0xED"
  by (auto simp: word_le_nat_alt)

lemma utf8_valid_tail:
  assumes "utf8_valid (a # bs)"
  shows "utf8_width a = Suc (utf8_tail a bs) \<and> utf8_valid (drop (utf8_tail a bs) bs)"
proof -
  consider (one) "a \<le> 0x7F" | (two) "0xC2 \<le> a" "a \<le> 0xDF" | (three) "0xE0 \<le> a" "a \<le> 0xEF" | (four) "0xF0 \<le> a" "a \<le> 0xF4"
    using assms by (auto split: if_splits)
  then show ?thesis
  proof cases
    case one
    then have "utf8_width a = 1" by (simp add: utf8_width_def)
    then have "utf8_tail a bs = 0" by (cases bs) (simp_all add: utf8_tail_def)
    then show ?thesis using assms one \<open>utf8_width a = 1\<close> by simp
  next
    case two
    note r = lead_ranges(1) [OF two]
    from r assms two obtain b bs' where b: "bs = b # bs'" "cont_byte b" "utf8_valid bs'"
      by (cases bs) (simp_all split: if_splits)
    have "utf8_width a = 2" using r two by (simp add: utf8_width_def)
    then show ?thesis using b r by (simp add: utf8_tail_def second_byte_ok_def)
  next
    case three
    note r = lead_ranges(2) [OF three]
    from r assms three obtain b c bs' where b: "bs = b # c # bs'" "second_byte_ok a b" "cont_byte c" "utf8_valid bs'"
      by (simp add: second_byte_ok_def split: list.splits if_splits)
    have "utf8_width a = 3" using r three by (simp add: utf8_width_def)
    then show ?thesis using b by (simp add: utf8_tail_def)
  next
    case four
    note r = lead_ranges(3) [OF four]
    from r assms four obtain b c d bs' where b: "bs = b # c # d # bs'" "second_byte_ok a b" "cont_byte c" "cont_byte d" "utf8_valid bs'"
      by (simp add: second_byte_ok_def split: list.splits if_splits)
    have "utf8_width a = 4" using r four by (simp add: utf8_width_def)
    then show ?thesis using b by (simp add: utf8_tail_def)
  qed
qed

lemma utf8_lossy_valid: "utf8_valid bs \<Longrightarrow> utf8_lossy bs = bs"
  by (induction bs rule: utf8_lossy.induct) (use utf8_valid_tail in \<open>auto simp del: utf8_valid.simps\<close>)

text \<open>C35: The answer does not depend on how the request is cut into packets: after any number of blank lines, a
  request line of at most 8 KiB in valid UTF-8 that arrives in pieces before the deadline is answered as the
  whole line is.\<close>

theorem health_any_fragmentation:
  assumes "line \<noteq> []" "find_crlf (str_bytes line @ [13]) = None" "length line + 1 \<le> MAX_REQUEST_BYTES" "utf8_valid (str_bytes line)"
    and "concat chunks = blanks k @ str_bytes line @ [13, 10] @ rest"
    and "\<And>j. j < length chunks \<Longrightarrow> input j = RdBytes (chunks ! j) \<and> chunks ! j \<noteq> [] \<and> clock j < start + CONNECTION_BUDGET"
  shows "handle_connection json now clock input start m =
    (case route_request json now line m of ((status, body), m') \<Rightarrow> Some (Some (http_response status body), m'))"
proof -
  have "str_bytes line \<noteq> []" using assms(1) by (metis length_0_conv length_str_bytes)
  from read_fragments [OF this assms(2), of "[]" chunks k rest input 0 clock "start + CONNECTION_BUDGET"]
  have "read_request_head clock input (start + CONNECTION_BUDGET) 0 [] = Some (HeadLine line)"
    using assms(3-6) by (simp add: utf8_lossy_valid)
  then show ?thesis by (simp add: handle_connection_def handle_connection_with_budget_def)
qed

lemma ws_words_last:
  assumes "w \<noteq> []" "\<forall>c\<in>set w. c \<notin> set white_space"
  shows "ws_words w = [concat w]"
proof -
  obtain c cs where w: "w = c # cs" using assms(1) by (cases w) auto
  have "takeWhile (\<lambda>c. c \<notin> set white_space) cs = cs" "dropWhile (\<lambda>c. c \<notin> set white_space) cs = []"
    using assms(2) by (simp_all add: w)
  moreover have "ws_words [] = []" by (simp add: ws_words.simps)
  ultimately show ?thesis using assms(2) unfolding w
    by (subst ws_words.simps) (simp del: takeWhile_eq_all_conv dropWhile_eq_Nil_conv)
qed

lemma ws_words_first:
  assumes "w \<noteq> []" "\<forall>c\<in>set w. c \<notin> set white_space" "s \<in> set white_space"
  shows "ws_words (w @ s # cs) = concat w # ws_words cs"
proof -
  have "dropWhile (\<lambda>c. c \<in> set white_space) (w @ s # cs) = w @ s # cs" using assms(1,2) by (cases w) simp_all
  moreover have "takeWhile (\<lambda>c. c \<notin> set white_space) (w @ s # cs) = w" "dropWhile (\<lambda>c. c \<notin> set white_space) (w @ s # cs) = s # cs"
    using assms(2,3) by (simp_all add: takeWhile_append dropWhile_append)
  moreover have "ws_words (s # cs) = ws_words cs" using assms(3) by (subst (1 2) ws_words.simps) simp
  ultimately show ?thesis using assms(1) by (subst ws_words.simps) (auto split: list.split)
qed

definition demo_request :: "nat \<Rightarrow> socket_read" where
  "demo_request i = RdBytes ([[13], [10, 71, 69], [84, 32, 47, 104, 101, 97, 108, 116, 104, 13], [10]] ! i)"

lemma health_any_fragmentation_witness:
  "handle_connection (\<lambda>_. Some ''ok'') 5 (\<lambda>i. i) demo_request 0 (metrics_new 0)
     = Some (Some (http_response ''200 OK'' ''ok''), record_health_request (metrics_new 0))"
proof -
  have w: "str_bytes ''GET /health'' = [71, 69, 84, 32, 47, 104, 101, 97, 108, 116, 104]" by code_simp
  have r: "route_request (\<lambda>_. Some ''ok'') 5 ''GET /health'' (metrics_new 0)
      = ((''200 OK'', ''ok''), record_health_request (metrics_new 0))"
  proof -
    have "utf8_chars ''GET /health'' = map (\<lambda>c. [c]) ''GET /health''"
      by (rule utf8_chars_ascii) (simp add: cont_byte_def)
    moreover have "ws_words (map (\<lambda>c. [c]) ''GET /health'') = [''GET'', ''/health'']"
    proof -
      have "\<forall>c\<in>set (map (\<lambda>c. [c]) ''GET''). c \<notin> set white_space" "'' '' \<in> set white_space"
        "\<forall>c\<in>set (map (\<lambda>c. [c]) ''/health''). c \<notin> set white_space" by code_simp+
      then show ?thesis
        using ws_words_first [of "map (\<lambda>c. [c]) ''GET''" "'' ''" "map (\<lambda>c. [c]) ''/health''"]
          ws_words_last [of "map (\<lambda>c. [c]) ''/health''"] by simp
    qed
    ultimately show ?thesis by (simp add: route_request_def snapshot_json_def Let_def)
  qed
  have "handle_connection (\<lambda>_. Some ''ok'') 5 (\<lambda>i. i) demo_request 0 (metrics_new 0) =
    (case route_request (\<lambda>_. Some ''ok'') 5 ''GET /health'' (metrics_new 0) of
       ((status, body), m') \<Rightarrow> Some (Some (http_response status body), m'))"
    by (rule health_any_fragmentation [where chunks = "[[13], [10, 71, 69], [84, 32, 47, 104, 101, 97, 108, 116, 104, 13], [10]]"
          and k = 1 and rest = "[]"])
      (auto simp: w MAX_REQUEST_BYTES_def CONNECTION_BUDGET_def demo_request_def less_Suc_eq)
  then show ?thesis by (simp add: r)
qed

section \<open>Admission\<close>

definition server_inv :: "health_server \<Rightarrow> bool" where
  "server_inv hs \<longleftrightarrow> hs_active hs = hs_handlers hs \<and> hs_active hs \<le> MAX_CONCURRENT_CONNECTIONS
     \<and> (if hs_exit hs = Some ListenerDied then hs_errors hs = HEALTH_MAX_CONSECUTIVE_ACCEPT_ERRORS
        else hs_errors hs < HEALTH_MAX_CONSECUTIVE_ACCEPT_ERRORS)"

interpretation health: guarded_machine health_step server_inv "\<lambda>_. True"
proof unfold_locales
  fix hs e assume "server_inv hs"
  then show "server_inv (health_step e hs)"
  proof (cases e)
    case (AcceptTurn stop result)
    with \<open>server_inv hs\<close> show ?thesis
      by (cases result) (auto simp: health_accept_turn_def server_inv_def Let_def HEALTH_MAX_CONSECUTIVE_ACCEPT_ERRORS_def split: if_splits)
  qed (auto simp: server_inv_def)
qed

text \<open>\<open>errors_in_a_row es\<close>: before any order to stop, 32 accept errors come without a connection in between.\<close>

fun orders_stop :: "health_event \<Rightarrow> bool" where
  "orders_stop (AcceptTurn stop result) = (stop \<or> result = AcceptError True)"
| "orders_stop HandlerDone = False"

fun accept_error :: "health_event \<Rightarrow> bool" where
  "accept_error (AcceptTurn stop (AcceptError stop_now)) = True"
| "accept_error e = False"

fun connects :: "health_event \<Rightarrow> bool" where
  "connects (AcceptTurn stop (Connection spawn_ok)) = True"
| "connects e = False"

abbreviation goes_on :: "health_event list \<Rightarrow> bool" where
  "goes_on es \<equiv> list_all (\<lambda>e. \<not> orders_stop e) es"

abbreviation idles :: "health_event list \<Rightarrow> bool" where
  "idles es \<equiv> list_all (\<lambda>e. \<not> orders_stop e \<and> \<not> connects e) es"

definition errors_in_a_row :: "health_event list \<Rightarrow> bool" where
  "errors_in_a_row es \<longleftrightarrow>
     (\<exists>es1 es2 es3. es = es1 @ es2 @ es3 \<and> goes_on es1 \<and> idles es2 \<and> length (filter accept_error es2) = 32)"

lemma exited_stays: "hs_exit hs \<noteq> None \<Longrightarrow> hs_exit (fold health_step es hs) = hs_exit hs"
proof (induction es arbitrary: hs)
  case (Cons e es)
  then have "hs_exit (health_step e hs) = hs_exit hs" by (cases e) auto
  then show ?case using Cons by simp
qed simp

lemma goes_on_exit: "goes_on es \<Longrightarrow> hs_exit hs \<noteq> Some CleanStop \<Longrightarrow> hs_exit (fold health_step es hs) \<noteq> Some CleanStop"
proof (induction es arbitrary: hs)
  case (Cons e es)
  then have "hs_exit (health_step e hs) \<noteq> Some CleanStop"
    by (cases e rule: accept_error.cases) (auto simp: health_accept_turn_def Let_def)
  then show ?case using Cons by simp
qed simp

lemma idles_exit:
  "idles es \<Longrightarrow> hs_exit hs = None \<Longrightarrow> 32 \<le> hs_errors hs + length (filter accept_error es) \<Longrightarrow> hs_errors hs < 32 \<Longrightarrow>
     hs_exit (fold health_step es hs) = Some ListenerDied"
proof (induction es arbitrary: hs)
  case (Cons e es)
  show ?case
  proof (cases "hs_exit (health_step e hs)")
    case None
    then have "hs_errors (health_step e hs) = hs_errors hs + of_bool (accept_error e)" "hs_errors (health_step e hs) < 32"
      using Cons.prems
      by (cases e rule: accept_error.cases;
          auto simp: health_accept_turn_def Let_def HEALTH_MAX_CONSECUTIVE_ACCEPT_ERRORS_def split: if_splits)+
    then show ?thesis using Cons None by (auto split: if_splits)
  next
    case (Some x)
    then have "x = ListenerDied"
      using Cons.prems by (cases e rule: accept_error.cases) (auto simp: health_accept_turn_def Let_def split: if_splits)
    then show ?thesis using Some by (simp add: exited_stays)
  qed
qed simp

lemma errors_counted:
  "hs_exit (fold health_step es health_server_new) = None \<Longrightarrow>
     \<exists>es1 es2. es = es1 @ es2 \<and> goes_on es1 \<and> idles es2
       \<and> length (filter accept_error es2) = hs_errors (fold health_step es health_server_new)"
proof (induction es rule: rev_induct)
  case Nil
  then show ?case by (simp add: health_server_new_def)
next
  case (snoc e es)
  let ?hs = "fold health_step es health_server_new"
  have "hs_exit ?hs = None" using snoc.prems exited_stays [of ?hs "[e]"] by (cases "hs_exit ?hs") auto
  then obtain es1 es2 where es: "es = es1 @ es2" "goes_on es1" "idles es2" "length (filter accept_error es2) = hs_errors ?hs"
    using snoc.IH by blast
  have stop: "\<not> orders_stop e"
    using snoc.prems \<open>hs_exit ?hs = None\<close>
    by (cases e rule: accept_error.cases) (auto simp: health_accept_turn_def Let_def split: if_splits)
  show ?case
  proof (cases "connects e")
    case True
    then have "hs_errors (health_step e ?hs) = 0"
      using snoc.prems \<open>hs_exit ?hs = None\<close> stop
      by (cases e rule: connects.cases) (auto simp: health_accept_turn_def Let_def split: if_splits)
    moreover have "goes_on (es @ [e])" using es stop by (auto simp: list_all_iff)
    ultimately show ?thesis by (intro exI [of _ "es @ [e]"] exI [of _ "[]"]) simp
  next
    case False
    then have "hs_errors (health_step e ?hs) = hs_errors ?hs + of_bool (accept_error e)"
      using \<open>hs_exit ?hs = None\<close> stop
      by (cases e rule: accept_error.cases) (auto simp: health_accept_turn_def Let_def)
    then show ?thesis using es stop False by (intro exI [of _ es1] exI [of _ "es2 @ [e]"]) simp
  qed
qed

lemma dies_after_errors: "hs_exit (fold health_step es health_server_new) = Some ListenerDied \<Longrightarrow> errors_in_a_row es"
proof (induction es rule: rev_induct)
  case Nil
  then show ?case by (simp add: health_server_new_def)
next
  case (snoc e es)
  let ?hs = "fold health_step es health_server_new"
  show ?case
  proof (cases "hs_exit ?hs")
    case None
    obtain es1 es2 where es: "es = es1 @ es2" "goes_on es1" "idles es2" "length (filter accept_error es2) = hs_errors ?hs"
      using errors_counted [OF None] by blast
    have "server_inv ?hs"
      by (rule health.run_inv) (simp_all add: server_inv_def health_server_new_def HEALTH_MAX_CONSECUTIVE_ACCEPT_ERRORS_def list_all_iff)
    then have "accept_error e \<and> \<not> orders_stop e \<and> \<not> connects e \<and> hs_errors ?hs = 31"
      using snoc.prems None
      by (cases e rule: accept_error.cases)
        (auto simp: health_accept_turn_def server_inv_def Let_def HEALTH_MAX_CONSECUTIVE_ACCEPT_ERRORS_def split: if_splits)
    then show ?thesis unfolding errors_in_a_row_def
      using es by (intro exI [of _ es1] exI [of _ "es2 @ [e]"] exI [of _ "[]"]) simp
  next
    case (Some x)
    then have "errors_in_a_row es" using snoc exited_stays [of ?hs "[e]"] by simp
    then show ?thesis unfolding errors_in_a_row_def by (metis append.assoc)
  qed
qed

lemma errors_kill: "errors_in_a_row es \<Longrightarrow> hs_exit (fold health_step es health_server_new) = Some ListenerDied"
proof -
  assume "errors_in_a_row es"
  then obtain es1 es2 es3 where es: "es = es1 @ es2 @ es3" "goes_on es1" "idles es2" "length (filter accept_error es2) = 32"
    unfolding errors_in_a_row_def by blast
  let ?hs = "fold health_step es1 health_server_new"
  have "server_inv ?hs"
    by (rule health.run_inv) (simp_all add: server_inv_def health_server_new_def HEALTH_MAX_CONSECUTIVE_ACCEPT_ERRORS_def list_all_iff)
  moreover have "hs_exit ?hs \<noteq> Some CleanStop"
    by (rule goes_on_exit [OF es(2)]) (simp add: health_server_new_def)
  ultimately have "hs_exit (fold health_step es2 ?hs) = Some ListenerDied"
    using idles_exit [OF es(3), of ?hs] es(4) exited_stays [of ?hs es2]
    by (cases "hs_exit ?hs"; cases "the (hs_exit ?hs)") (auto simp: server_inv_def HEALTH_MAX_CONSECUTIVE_ACCEPT_ERRORS_def)
  then show ?thesis using exited_stays [of "fold health_step es2 ?hs" es3] es(1) by simp
qed

text \<open>C36: However connections, errors and finished handlers follow each other, at most 16 threads serve
  connections, the counter of the loop is their number, a further connection gets the 503 without a thread,
  and the loop dies exactly when 32 errors come without a connection in between.\<close>

theorem health_admission:
  assumes "hs = fold health_step es health_server_new"
  shows "hs_handlers hs \<le> 16 \<and> hs_active hs = hs_handlers hs
    \<and> (hs_exit hs = Some ListenerDied \<longleftrightarrow> errors_in_a_row es)
    \<and> fst (health_accept_turn False (Connection True) hs) = (if hs_handlers hs = 16 then ServedBusy else Spawned)"
proof -
  have "server_inv hs" unfolding assms
    by (rule health.run_inv) (simp_all add: server_inv_def health_server_new_def HEALTH_MAX_CONSECUTIVE_ACCEPT_ERRORS_def list_all_iff)
  moreover have "hs_exit hs = Some ListenerDied \<longleftrightarrow> errors_in_a_row es"
    unfolding assms using dies_after_errors errors_kill by blast
  ultimately show ?thesis
    by (auto simp: server_inv_def MAX_CONCURRENT_CONNECTIONS_def health_accept_turn_def Let_def)
qed

lemma health_admission_witness:
  "fst (health_accept_turn False (Connection True) (fold health_step (replicate 16 (AcceptTurn False (Connection True))) health_server_new)) = ServedBusy"
  using health_admission [OF HOL.refl, of "replicate 16 (AcceptTurn False (Connection True))"]
  by (simp add: numeral_eq_Suc health_accept_turn_def health_server_new_def MAX_CONCURRENT_CONNECTIONS_def)

end
