(* ===== verification/Run.thy ===== *)
theory Run
  imports Bytes
begin

text \<open>
  Computations over untrusted bytes: a run panics, fails with an error or gives a value. Slices and indices that panic in
  Rust when they are out of range give \<open>Crash\<close> here, so that the absence of panics is a theorem and not a
  convention of the model. \<open>safe r Q\<close> says that \<open>r\<close> does not panic and that its value, if any, satisfies \<open>Q\<close>.
\<close>

datatype ('e, 'a) run = Crash | Fails 'e | Gives 'a

fun run_bind :: "('e, 'a) run \<Rightarrow> ('a \<Rightarrow> ('e, 'b) run) \<Rightarrow> ('e, 'b) run" where
  "run_bind Crash k = Crash"
| "run_bind (Fails e) k = Fails e"
| "run_bind (Gives x) k = k x"

lemma run_bind_cong [fundef_cong]:
  "r = r' \<Longrightarrow> (\<And>x. r' = Gives x \<Longrightarrow> k x = k' x) \<Longrightarrow> run_bind r k = run_bind r' k'"
  by (cases r') simp_all

text \<open>\<open>&data[a..b]\<close>, \<open>&data[a..]\<close>, and the position of the first zero byte.\<close>

definition slice :: "byte list \<Rightarrow> nat \<Rightarrow> nat \<Rightarrow> ('e, byte list) run" where
  "slice data a b = (if a \<le> b \<and> b \<le> length data then Gives (take (b - a) (drop a data)) else Crash)"

definition slice_from :: "byte list \<Rightarrow> nat \<Rightarrow> ('e, byte list) run" where
  "slice_from data a = (if a \<le> length data then Gives (drop a data) else Crash)"

fun position_zero :: "byte list \<Rightarrow> nat option" where
  "position_zero [] = None"
| "position_zero (b # bs) = (if b = 0 then Some 0 else map_option Suc (position_zero bs))"

text \<open>\<open>data.get(a..b).ok_or(err)\<close>\<close>

definition get_or :: "'e \<Rightarrow> byte list \<Rightarrow> nat \<Rightarrow> nat \<Rightarrow> ('e, byte list) run" where
  "get_or err data a b = (if a \<le> b \<and> b \<le> length data then Gives (take (b - a) (drop a data)) else Fails err)"

text \<open>\<open>data[i]\<close>\<close>

definition byte_at :: "byte list \<Rightarrow> nat \<Rightarrow> ('e, byte) run" where
  "byte_at data i = (if i < length data then Gives (data ! i) else Crash)"

text \<open>\<open>parse\<close> of an unsigned integer below a bound: an optional plus sign, at least one digit, no overflow.\<close>

fun digits_below :: "nat \<Rightarrow> nat \<Rightarrow> string \<Rightarrow> nat option" where
  "digits_below bnd acc [] = Some acc"
| "digits_below bnd acc (c # cs) =
     (let d = of_char c in
      if 48 \<le> d \<and> d \<le> 57 \<and> 10 * acc + (d - 48) < bnd then digits_below bnd (10 * acc + (d - 48)) cs else None)"

definition parse_below :: "nat \<Rightarrow> string \<Rightarrow> nat option" where
  "parse_below bnd s =
     (let ds = (case s of c # cs \<Rightarrow> if c = CHR ''+'' then cs else s | [] \<Rightarrow> [])
      in if ds = [] then None else digits_below bnd 0 ds)"

text \<open>The decimal rendering of a signed integer\<close>

definition show_int :: "int \<Rightarrow> string" where
  "show_int k = (if k < 0 then ''-'' @ dec_digits (nat (- k)) else dec_digits (nat k))"

section \<open>Reasoning\<close>

lemma run_bind_Gives: "run_bind r k = Gives y \<longleftrightarrow> (\<exists>x. r = Gives x \<and> k x = Gives y)"
  by (cases r) simp_all

definition safe :: "('e, 'a) run \<Rightarrow> ('a \<Rightarrow> bool) \<Rightarrow> bool" where
  "safe r Q \<longleftrightarrow> r \<noteq> Crash \<and> (\<forall>x. r = Gives x \<longrightarrow> Q x)"

lemma safe_simps [simp]: "safe (Fails e) Q" "safe (Gives x) Q = Q x" "\<not> safe Crash Q"
  by (simp_all add: safe_def)

lemma safe_bind: "safe r Q \<Longrightarrow> (\<And>x. Q x \<Longrightarrow> safe (k x) R) \<Longrightarrow> safe (run_bind r k) R"
  by (cases r) simp_all

lemma safe_bind_eq: "safe r Q \<Longrightarrow> (\<And>x. r = Gives x \<Longrightarrow> Q x \<Longrightarrow> safe (k x) R) \<Longrightarrow> safe (run_bind r k) R"
  by (cases r) simp_all

lemma safe_slice: "a \<le> b \<Longrightarrow> b \<le> length data \<Longrightarrow> safe (slice data a b) (\<lambda>s. length s = b - a)"
  by (simp add: slice_def)

lemma safe_if: "(c \<Longrightarrow> safe a Q) \<Longrightarrow> (\<not> c \<Longrightarrow> safe b Q) \<Longrightarrow> safe (if c then a else b) Q"
  by simp

lemma safe_mono: "safe r Q \<Longrightarrow> (\<And>x. Q x \<Longrightarrow> R x) \<Longrightarrow> safe r R"
  by (auto simp: safe_def)

lemma safe_get_or: "safe (get_or err data a b) (\<lambda>s. length s = b - a \<and> b \<le> length data)"
  by (auto simp: get_or_def)

lemma position_zero_less: "position_zero t = Some i \<Longrightarrow> i < length t"
  by (induction t arbitrary: i) (auto split: if_splits)

lemma position_zero_drop: "position_zero (drop a data) = Some i \<Longrightarrow> a + i < length data"
  using position_zero_less [of "drop a data" i] by simp

end
