(* ===== verification/Zim.thy ===== *)
theory Zim
  imports Health Event Run
begin

text \<open>
  The reader of ZIM archives, crate \<open>zim-parser\<close>: header, dirents, clusters and articles of a file that may be
  corrupt. The LZ4 and Zstandard decoders and the Unicode lower case are parameters.
\<close>

section \<open>Results\<close>

datatype zimp_error =
    ZimInvalidMagic | ZimBadVersion nat | ZimTruncatedHeader | ZimOutOfBounds u32 u32 | ZimIo
  | ZimUnknownCompression byte | ZimShortDecompression | ZimBadMimeIndex nat

type_synonym 'a zrun = "(zimp_error, 'a) run"

definition run_get_u16 :: "byte list \<Rightarrow> nat \<Rightarrow> nat zrun" where
  "run_get_u16 data p = run_bind (get_or ZimTruncatedHeader data p (p + 2)) (\<lambda>s. Gives (le_nat s))"

definition run_get_u32 :: "byte list \<Rightarrow> nat \<Rightarrow> nat zrun" where
  "run_get_u32 data p = run_bind (get_or ZimTruncatedHeader data p (p + 4)) (\<lambda>s. Gives (le_nat s))"

definition out_of_bounds :: "nat \<Rightarrow> byte list \<Rightarrow> zimp_error" where
  "out_of_bounds offset data = ZimOutOfBounds (of_nat offset) (of_nat (length data))"

section \<open>The header\<close>

record zimp_header =
  zh_major_version :: nat
  zh_minor_version :: nat
  zh_uuid :: "byte list"
  zh_header_size :: nat
  zh_article_count :: nat
  zh_media_count :: nat
  zh_creator :: string
  zh_publisher :: string
  zh_title :: string
  zh_description :: string
  zh_language :: string
  zh_mime_list_pos :: nat
  zh_cluster_ptr_pos :: nat
  zh_url_ptr_pos :: nat
  zh_title_ptr_pos :: nat

definition lossy_string :: "byte list \<Rightarrow> string" where
  "lossy_string b = bytes_str (utf8_lossy b)"

definition read_cstr :: "byte list \<Rightarrow> nat \<Rightarrow> (string \<times> nat) zrun" where
  "read_cstr data start =
     run_bind (slice_from data start) (\<lambda>t.
       case position_zero t of
         None \<Rightarrow> Fails ZimTruncatedHeader
       | Some i \<Rightarrow> run_bind (slice data start (start + i)) (\<lambda>s. Gives (lossy_string s, start + i + 1)))"

text \<open>The end of a table of \<open>u32\<close> entries, computed in 64 bits.\<close>

definition table_end :: "byte list \<Rightarrow> nat \<Rightarrow> nat \<Rightarrow> nat zrun" where
  "table_end data article_count pos =
     (let e = pos + article_count * 4
      in if e > length data \<or> e > 4294967295 then Fails (out_of_bounds (min pos 4294967295) data) else Gives e)"

definition zimp_header_parse :: "byte list \<Rightarrow> zimp_header zrun" where
  "zimp_header_parse data =
     run_bind (get_or ZimTruncatedHeader data 0 4) (\<lambda>magic.
     if magic \<noteq> [75, 73, 77, 0] then Fails ZimInvalidMagic else
     run_bind (get_or ZimTruncatedHeader data 4 8) (\<lambda>ver.
     let major = le_nat (take 2 ver); minor = le_nat (drop 2 ver) in
     if major > 6 then Fails (ZimBadVersion major) else
     run_bind (get_or ZimTruncatedHeader data 8 24) (\<lambda>uuid.
     run_bind (get_or ZimTruncatedHeader data 24 36) (\<lambda>fixed.
     let header_size = le_nat (take 4 fixed); article_count = le_nat (take 4 (drop 4 fixed));
         media_count = le_nat (drop 8 fixed) in
     run_bind (read_cstr data 36) (\<lambda>(creator, p1).
     run_bind (read_cstr data p1) (\<lambda>(publisher, p2).
     run_bind (read_cstr data p2) (\<lambda>(title, p3).
     run_bind (read_cstr data p3) (\<lambda>(description, p4).
     run_bind (read_cstr data p4) (\<lambda>(language, p5).
     let mime_list_pos = p5 mod 2 ^ 32 in
     run_bind (table_end data article_count mime_list_pos) (\<lambda>cluster_ptr_pos.
     run_bind (table_end data article_count cluster_ptr_pos) (\<lambda>url_ptr_pos.
     run_bind (table_end data article_count url_ptr_pos) (\<lambda>title_ptr_pos.
     Gives \<lparr>zh_major_version = major, zh_minor_version = minor, zh_uuid = uuid, zh_header_size = header_size,
        zh_article_count = article_count, zh_media_count = media_count, zh_creator = creator, zh_publisher = publisher,
        zh_title = title, zh_description = description, zh_language = language, zh_mime_list_pos = mime_list_pos,
        zh_cluster_ptr_pos = cluster_ptr_pos, zh_url_ptr_pos = url_ptr_pos, zh_title_ptr_pos = title_ptr_pos\<rparr>))))))))))))"

section \<open>Dirents\<close>

record dirent =
  de_url :: string
  de_title :: string
  de_namespace :: byte
  de_mime_index :: nat
  de_cluster_index :: nat
  de_blob_offset :: nat
  de_blob_size :: nat

text \<open>\<open>trim_matches\<close> of zero characters\<close>

definition trim_zeros :: "string \<Rightarrow> string" where
  "trim_zeros s = rev (dropWhile (\<lambda>c. c = char_of (0 :: nat)) (rev (dropWhile (\<lambda>c. c = char_of (0 :: nat)) s)))"

definition dirent_string :: "byte list \<Rightarrow> nat \<Rightarrow> (string \<times> nat) zrun" where
  "dirent_string data off =
     run_bind (slice_from data off) (\<lambda>t.
       case position_zero t of
         None \<Rightarrow> Fails ZimTruncatedHeader
       | Some n \<Rightarrow>
           if off + n \<ge> length data then Fails (out_of_bounds off data)
           else run_bind (slice data off (off + n)) (\<lambda>s. Gives (trim_zeros (lossy_string s), off + n + 1)))"

definition dirent_parse :: "byte list \<Rightarrow> nat \<Rightarrow> dirent zrun" where
  "dirent_parse data off =
     (if off \<ge> length data then Fails (out_of_bounds off data) else
      run_bind (dirent_string data off) (\<lambda>(url, t_start).
      run_bind (dirent_string data t_start) (\<lambda>(title, ns_off).
      run_bind (get_or ZimTruncatedHeader data ns_off (ns_off + 1)) (\<lambda>ns.
      run_bind (run_get_u16 data (ns_off + 1)) (\<lambda>mime_index.
      run_bind (run_get_u32 data (ns_off + 3)) (\<lambda>cluster_index.
      run_bind (run_get_u32 data (ns_off + 7)) (\<lambda>blob_offset.
      run_bind (run_get_u32 data (ns_off + 11)) (\<lambda>blob_size.
      if ns_off + 15 > length data then Fails (out_of_bounds (ns_off + 15) data) else
      Gives \<lparr>de_url = url, de_title = title, de_namespace = hd ns, de_mime_index = mime_index,
             de_cluster_index = cluster_index, de_blob_offset = blob_offset, de_blob_size = blob_size\<rparr>))))))))"

section \<open>Clusters\<close>

definition COMP_NONE :: byte where "COMP_NONE = 49"
definition COMP_LZ4 :: byte where "COMP_LZ4 = 52"
definition COMP_ZSTD :: byte where "COMP_ZSTD = 53"

record blob_raw =
  br_offset :: nat
  br_size :: nat
  br_data :: "byte list"

function walk_blobs :: "byte list \<Rightarrow> nat \<Rightarrow> nat \<Rightarrow> nat \<Rightarrow> blob_raw list \<Rightarrow> blob_raw list zrun" where
  "walk_blobs data cluster_start cluster_end pos blobs =
     (if pos \<ge> cluster_end then Gives blobs
      else if pos + 4 > cluster_end then Fails ZimTruncatedHeader
      else case run_get_u32 data pos of
        Crash \<Rightarrow> Crash
      | Fails e \<Rightarrow> Fails e
      | Gives blob_len \<Rightarrow>
          if pos + 4 + blob_len > cluster_end then Fails (out_of_bounds (pos + 4 + blob_len) data)
          else (case slice data (pos + 4) (pos + 4 + blob_len) of
            Crash \<Rightarrow> Crash
          | Fails e \<Rightarrow> Fails e
          | Gives payload \<Rightarrow>
              walk_blobs data cluster_start cluster_end (pos + 4 + blob_len)
                (blobs @ [\<lparr>br_offset = (pos - cluster_start) mod 2 ^ 32, br_size = blob_len, br_data = payload\<rparr>])))"
  by pat_completeness auto
termination by (relation "measure (\<lambda>(_, _, e, pos, _). e - pos)") auto

declare walk_blobs.simps [simp del]

definition parse_cluster :: "byte list \<Rightarrow> nat \<Rightarrow> nat \<Rightarrow> (byte \<times> blob_raw list) zrun" where
  "parse_cluster data cluster_start cluster_end =
     (if cluster_start \<ge> length data \<or> cluster_end > length data \<or> cluster_start + 1 > cluster_end
      then Fails (out_of_bounds cluster_start data)
      else
        run_bind (get_or ZimTruncatedHeader data cluster_start (cluster_start + 1)) (\<lambda>c.
        let code = hd c in
        if code \<notin> {COMP_NONE, COMP_LZ4, COMP_ZSTD} then Fails (ZimUnknownCompression code)
        else run_bind (walk_blobs data cluster_start cluster_end (cluster_start + 1) []) (\<lambda>blobs. Gives (code, blobs))))"

subsection \<open>LZ4 blocks\<close>

text \<open>A length is continued by bytes as long as they are 255.\<close>

function read_lz4_integer :: "byte list \<Rightarrow> nat \<Rightarrow> nat \<Rightarrow> (nat \<times> nat) zrun" where
  "read_lz4_integer src pos n =
     (if pos \<ge> length src then Fails ZimShortDecompression
      else if src ! pos \<noteq> 0xFF then Gives (n + unat (src ! pos), pos + 1)
      else read_lz4_integer src (pos + 1) (n + unat (src ! pos)))"
  by pat_completeness auto
termination by (relation "measure (\<lambda>(src, pos, _). length src - pos)") auto

declare read_lz4_integer.simps [simp del]

lemma read_lz4_integer_pos:
  "read_lz4_integer src pos n = Gives (m, pos') \<Longrightarrow>
     pos < pos' \<and> pos' \<le> length src \<and> m \<le> n + 255 * (pos' - pos)"
proof (induction src pos n rule: read_lz4_integer.induct)
  case (1 src pos n)
  have b: "unat (src ! pos) \<le> 255" using unsigned_less [of "src ! pos", where 'a = nat] by simp
  show ?case
  proof (cases "pos < length src \<and> src ! pos = 0xFF")
    case True
    then have "read_lz4_integer src (pos + 1) (n + unat (src ! pos)) = Gives (m, pos')"
      using "1.prems" by (subst (asm) read_lz4_integer.simps) simp
    then have "pos + 1 < pos' \<and> pos' \<le> length src \<and> m \<le> n + unat (src ! pos) + 255 * (pos' - (pos + 1))"
      using "1.IH" True by simp
    then show ?thesis using b by (auto simp: algebra_simps)
  next
    case False
    then show ?thesis using "1.prems" b by (subst (asm) read_lz4_integer.simps) (auto split: if_splits)
  qed
qed

definition lz4_length :: "byte list \<Rightarrow> nat \<Rightarrow> nat \<Rightarrow> nat \<Rightarrow> (nat \<times> nat) zrun" where
  "lz4_length src base full pos =
     (if base = full then run_bind (read_lz4_integer src pos 0) (\<lambda>(n, pos'). Gives (base + n, pos')) else Gives (base, pos))"

lemma lz4_length_pos:
  assumes "lz4_length src base full pos = Gives (m, pos')"
  shows "pos \<le> pos' \<and> m \<le> base + 255 * (pos' - pos)"
  using assms by (auto simp: lz4_length_def run_bind_Gives split: if_splits dest: read_lz4_integer_pos)

function lz4_walk :: "byte list \<Rightarrow> nat \<Rightarrow> nat \<Rightarrow> nat zrun" where
  "lz4_walk src pos acc =
     (if pos \<ge> length src then Fails ZimShortDecompression
      else case lz4_length src (unat (src ! pos) div 16) 15 (pos + 1) of
        Crash \<Rightarrow> Crash
      | Fails e \<Rightarrow> Fails e
      | Gives (literal_len, pos1) \<Rightarrow>
          if length src < pos1 + literal_len then Fails ZimShortDecompression
          else if length src - 1 \<le> pos1 + literal_len then Gives (acc + literal_len)
          else if length src < pos1 + literal_len + 2 then Fails ZimShortDecompression
          else (case lz4_length src (4 + unat (src ! pos) mod 16) 19 (pos1 + literal_len + 2) of
            Crash \<Rightarrow> Crash
          | Fails e \<Rightarrow> Fails e
          | Gives (match_len, pos2) \<Rightarrow> lz4_walk src pos2 (acc + (literal_len + match_len))))"
  by pat_completeness auto
termination
  by (relation "measure (\<lambda>(src, pos, _). length src - pos)") (auto dest!: lz4_length_pos)

declare lz4_walk.simps [simp del]

definition lz4_block_decoded_size :: "byte list \<Rightarrow> nat zrun" where
  "lz4_block_decoded_size src = lz4_walk src 0 0"

record zim_codec =
  zc_lz4 :: "byte list \<Rightarrow> nat \<Rightarrow> byte list option"
  zc_zstd :: "byte list \<Rightarrow> byte list option"
  zc_lower :: "string \<Rightarrow> string"

definition decompress_lz4 :: "zim_codec \<Rightarrow> byte list \<Rightarrow> nat \<Rightarrow> byte list zrun" where
  "decompress_lz4 zc src expected =
     run_bind (lz4_block_decoded_size src) (\<lambda>n.
       if n \<noteq> expected then Fails ZimShortDecompression
       else case zc_lz4 zc src expected of None \<Rightarrow> Fails ZimShortDecompression | Some out \<Rightarrow> Gives out)"

definition decompress :: "zim_codec \<Rightarrow> byte \<Rightarrow> byte list \<Rightarrow> nat \<Rightarrow> byte list zrun" where
  "decompress zc code src expected =
     (if code = COMP_NONE then (if length src \<noteq> expected then Fails ZimShortDecompression else Gives src)
      else if code = COMP_LZ4 then decompress_lz4 zc src expected
      else if code = COMP_ZSTD then
        (case zc_zstd zc src of
           None \<Rightarrow> Fails ZimShortDecompression
         | Some out \<Rightarrow> if length out \<noteq> expected then Fails ZimShortDecompression else Gives out)
      else Fails (ZimUnknownCompression code))"

section \<open>The reader\<close>

record zimp =
  zm_path :: string
  zm_header :: "zimp_header option"
  zm_loaded :: bool
  zm_data :: "byte list"
  zm_dirents :: "dirent list"
  zm_mimes :: "string list"

text \<open>\<open>files\<close> is the file system: the bytes of the files that exist.\<close>

definition zimp_open :: "(string \<Rightarrow> byte list option) \<Rightarrow> string \<Rightarrow> zimp zrun" where
  "zimp_open files path =
     (case files path of
        None \<Rightarrow> Fails (ZimOutOfBounds 0 (- 1))
      | Some _ \<Rightarrow> Gives \<lparr>zm_path = path, zm_header = None, zm_loaded = False, zm_data = [], zm_dirents = [], zm_mimes = []\<rparr>)"

function mime_walk :: "byte list \<Rightarrow> nat \<Rightarrow> nat \<Rightarrow> string list \<Rightarrow> string list zrun" where
  "mime_walk data limit pos mimes =
     (if pos \<ge> limit then Gives mimes
      else case slice_from data pos of
        Crash \<Rightarrow> Crash
      | Fails e \<Rightarrow> Fails e
      | Gives t \<Rightarrow>
          (case position_zero t of
             None \<Rightarrow> Gives mimes
           | Some i \<Rightarrow>
               (case slice data pos (pos + i) of
                  Crash \<Rightarrow> Crash
                | Fails e \<Rightarrow> Fails e
                | Gives s \<Rightarrow> mime_walk data limit (pos + i + 1) (mimes @ [lossy_string s]))))"
  by pat_completeness auto
termination by (relation "measure (\<lambda>(_, l, pos, _). l - pos)") auto

declare mime_walk.simps [simp del]

fun load_dirents :: "byte list \<Rightarrow> nat \<Rightarrow> nat \<Rightarrow> nat \<Rightarrow> dirent list \<Rightarrow> dirent list zrun" where
  "load_dirents data url_ptr_pos i 0 dirents = Gives dirents"
| "load_dirents data url_ptr_pos i (Suc n) dirents =
     (let base = url_ptr_pos + i * 4 in
      if base + 4 > length data then Fails (out_of_bounds base data)
      else run_bind (slice data base (base + 4)) (\<lambda>off.
           run_bind (dirent_parse data (le_nat off)) (\<lambda>d.
             load_dirents data url_ptr_pos (i + 1) n (dirents @ [d]))))"

definition load_index :: "(string \<Rightarrow> byte list option) \<Rightarrow> zimp \<Rightarrow> unit zrun \<times> zimp" where
  "load_index files z =
     (case files (zm_path z) of
        None \<Rightarrow> (Fails ZimIo, z)
      | Some data \<Rightarrow>
          (case zimp_header_parse data of
             Crash \<Rightarrow> (Crash, z)
           | Fails e \<Rightarrow> (Fails e, z)
           | Gives h \<Rightarrow>
               (let z1 = z\<lparr>zm_header := Some h, zm_data := data\<rparr> in
                case mime_walk data (zh_cluster_ptr_pos h) (zh_mime_list_pos h) [] of
                  Crash \<Rightarrow> (Crash, z1)
                | Fails e \<Rightarrow> (Fails e, z1)
                | Gives mimes \<Rightarrow>
                    (let z2 = z1\<lparr>zm_mimes := mimes\<rparr> in
                     case load_dirents data (zh_url_ptr_pos h) 0 (zh_article_count h) [] of
                       Crash \<Rightarrow> (Crash, z2)
                     | Fails e \<Rightarrow> (Fails e, z2)
                     | Gives dirents \<Rightarrow> (Gives (), z2\<lparr>zm_dirents := dirents, zm_loaded := True\<rparr>)))))"

definition article_urls :: "zimp \<Rightarrow> string list" where
  "article_urls z = (if \<not> zm_loaded z then [] else map de_url (zm_dirents z))"

text \<open>The region of a cluster ends where the next known structure begins.\<close>

text \<open>\<open>u32::from_le_bytes\<close> of four bytes read by index, each of which panics behind the end of the file\<close>

definition index_u32 :: "byte list \<Rightarrow> nat \<Rightarrow> nat zrun" where
  "index_u32 data base =
     run_bind (byte_at data base) (\<lambda>b0.
     run_bind (byte_at data (base + 1)) (\<lambda>b1.
     run_bind (byte_at data (base + 2)) (\<lambda>b2.
     run_bind (byte_at data (base + 3)) (\<lambda>b3. Gives (le_nat [b0, b1, b2, b3])))))"

text \<open>The body of the two loops over table entries: entries behind the end of the file are skipped, an offset between the
  start of the cluster and the end found so far is the new end.\<close>

fun nearest_start :: "byte list \<Rightarrow> nat \<Rightarrow> nat list \<Rightarrow> nat \<Rightarrow> nat zrun" where
  "nearest_start data start [] region_end = Gives region_end"
| "nearest_start data start (base # bases) region_end =
     (if base + 4 \<le> length data then
        run_bind (index_u32 data base) (\<lambda>p.
          nearest_start data start bases (if start < p \<and> p < region_end then p else region_end))
      else nearest_start data start bases region_end)"

definition cluster_region_end :: "zimp \<Rightarrow> zimp_header \<Rightarrow> nat \<Rightarrow> nat zrun" where
  "cluster_region_end z h start =
     run_bind (nearest_start (zm_data z) start (map (\<lambda>d. zh_cluster_ptr_pos h + de_cluster_index d * 4) (zm_dirents z))
        (length (zm_data z)))
       (nearest_start (zm_data z) start (map (\<lambda>i. zh_url_ptr_pos h + i * 4) [0..<length (zm_dirents z)]))"

definition decode_content :: "zim_codec \<Rightarrow> zimp \<Rightarrow> dirent \<Rightarrow> byte list zrun" where
  "decode_content zc z d =
     (case zm_header z of
        None \<Rightarrow> Gives []
      | Some h \<Rightarrow>
          (let cbase = zh_cluster_ptr_pos h + de_cluster_index d * 4 in
           if cbase + 4 > length (zm_data z) then Gives []
           else run_bind (index_u32 (zm_data z) cbase) (\<lambda>start.
             if start \<ge> length (zm_data z) then Gives []
             else run_bind (cluster_region_end z h start) (\<lambda>region_end.
               case parse_cluster (zm_data z) start region_end of
                 Crash \<Rightarrow> Crash
               | Fails _ \<Rightarrow> Gives []
               | Gives (code, blobs) \<Rightarrow>
                   (case find (\<lambda>b. br_offset b = de_blob_offset d) blobs of
                      None \<Rightarrow> Gives []
                    | Some b \<Rightarrow>
                        (case decompress zc code (br_data b) (de_blob_size d) of
                           Crash \<Rightarrow> Crash | Fails _ \<Rightarrow> Gives [] | Gives out \<Rightarrow> Gives out))))))"

record zim_article =
  za_url :: string
  za_title :: string
  za_mime_type :: string
  za_content :: "byte list"
  za_content_size :: nat
  za_is_main :: bool
  za_namespace :: byte
  za_index :: nat

definition build_article :: "zim_codec \<Rightarrow> zimp \<Rightarrow> nat \<Rightarrow> zim_article zrun" where
  "build_article zc z idx =
     (if idx \<ge> length (zm_dirents z) then Crash
      else
        let d = zm_dirents z ! idx;
            mime = (if de_mime_index d < length (zm_mimes z) then zm_mimes z ! de_mime_index d else ''application/octet-stream'')
        in run_bind (decode_content zc z d) (\<lambda>content.
             Gives \<lparr>za_url = de_url d, za_title = de_title d, za_mime_type = mime, za_content = content,
                    za_content_size = de_blob_size d, za_is_main = (de_namespace d = 65 \<and> idx = 0),
                    za_namespace = de_namespace d, za_index = idx\<rparr>))"

fun index_where :: "('a \<Rightarrow> bool) \<Rightarrow> 'a list \<Rightarrow> nat option" where
  "index_where P [] = None"
| "index_where P (x # xs) = (if P x then Some 0 else map_option Suc (index_where P xs))"

definition zimp_get_article :: "zim_codec \<Rightarrow> zimp \<Rightarrow> string \<Rightarrow> zim_article option zrun" where
  "zimp_get_article zc z url =
     (if \<not> zm_loaded z then Gives None
      else case index_where (\<lambda>d. de_url d = url) (zm_dirents z) of
        None \<Rightarrow> Gives None
      | Some idx \<Rightarrow> run_bind (build_article zc z idx) (\<lambda>a. Gives (Some a)))"

text \<open>All results have the same score, so that the stable sort by score keeps the order of the file.\<close>

definition zimp_search :: "zim_codec \<Rightarrow> zimp \<Rightarrow> string \<Rightarrow> nat \<Rightarrow> (string \<times> string \<times> byte) list" where
  "zimp_search zc z query max_results =
     (if \<not> zm_loaded z then []
      else map (\<lambda>d. (de_title d, de_url d, de_namespace d))
        (take max_results (filter (\<lambda>d. starts_with (zc_lower zc (de_title d)) (zc_lower zc query)) (zm_dirents z))))"

definition zimp_article_count :: "zimp \<Rightarrow> nat" where
  "zimp_article_count z = (case zm_header z of Some h \<Rightarrow> zh_article_count h | None \<Rightarrow> 0)"

section \<open>Text of an article\<close>

fun strip_tags :: "bool \<Rightarrow> string list \<Rightarrow> string list" where
  "strip_tags in_tag [] = []"
| "strip_tags in_tag (c # cs) =
     (if c = ''<'' then strip_tags True cs
      else if c = ''>'' then strip_tags False cs
      else if in_tag then strip_tags in_tag cs
      else c # strip_tags in_tag cs)"

definition clean_html :: "string \<Rightarrow> string" where
  "clean_html html = trim_ws (concat (strip_tags False (utf8_chars html)))"

definition extract_text_from_html :: "byte list \<Rightarrow> string" where
  "extract_text_from_html html = clean_html (lossy_string html)"

definition recommended_zim_url :: "string \<Rightarrow> string" where
  "recommended_zim_url language =
     (if language = ''fr'' then ''https://download.kiwix.org/zim/wikipedia/w.wikipedia_fr_all_nopic.zim''
      else if language = ''en'' then ''https://download.kiwix.org/zim/wikipedia/wikipedia_en_all_nopic.zim''
      else if language = ''es'' then ''https://download.kiwix.org/zim/wikipedia/w.wikipedia_es_all_nopic.zim''
      else ''https://download.kiwix.org/zim/wikipedia/wikipedia_en_all_nopic.zim'')"

section \<open>No panic\<close>

lemma safe_u16: "safe (run_get_u16 data p) (\<lambda>_. p + 2 \<le> length data)"
  unfolding run_get_u16_def by (rule safe_bind [OF safe_get_or]) simp

lemma safe_u32: "safe (run_get_u32 data p) (\<lambda>_. p + 4 \<le> length data)"
  unfolding run_get_u32_def by (rule safe_bind [OF safe_get_or]) simp

lemma safe_cstr: "start \<le> length data \<Longrightarrow> safe (read_cstr data start) (\<lambda>(s, p). p \<le> length data)"
  by (auto simp: read_cstr_def slice_from_def slice_def split: option.split dest: position_zero_drop)
   
lemma safe_table: "safe (table_end data n pos) (\<lambda>e. e \<le> length data)"
  by (simp add: table_end_def Let_def)

lemma safe_pair:
  "case x of (s, p) \<Rightarrow> p \<le> (l :: nat) \<Longrightarrow> (\<And>s p. p \<le> l \<Longrightarrow> safe (k s p) R) \<Longrightarrow> safe (case x of (s, p) \<Rightarrow> k s p) R"
  by (cases x) auto

lemma safe_header: "safe (zimp_header_parse data) (\<lambda>h. zh_cluster_ptr_pos h \<le> length data)"
  unfolding zimp_header_parse_def Let_def
  by (rule safe_bind [OF safe_get_or])
    (auto intro!: safe_bind [OF safe_get_or] safe_bind [OF safe_cstr] safe_bind [OF safe_table] safe_pair)

lemma safe_dirent_string: "off \<le> length data \<Longrightarrow> safe (dirent_string data off) (\<lambda>(s, p). p \<le> length data)"
  by (auto simp: dirent_string_def slice_from_def slice_def split: option.split dest: position_zero_drop)

lemma safe_dirent: "safe (dirent_parse data off) (\<lambda>d. True)"
  unfolding dirent_parse_def
  by (auto intro!: safe_bind [OF safe_get_or] safe_bind [OF safe_u16] safe_bind [OF safe_u32]
      safe_bind [OF safe_dirent_string] safe_pair)

lemma safe_walk_blobs:
  "cluster_end \<le> length data \<Longrightarrow> safe (walk_blobs data cluster_start cluster_end pos blobs) (\<lambda>_. True)"
proof (induction data cluster_start cluster_end pos blobs rule: walk_blobs.induct)
  case (1 data cluster_start cluster_end pos blobs)
  show ?case
    using 1 safe_u32 [of data pos]
    by (subst walk_blobs.simps) (auto simp: slice_def split: run.split)
qed

lemma safe_cluster: "safe (parse_cluster data a b) (\<lambda>_. True)"
  unfolding parse_cluster_def Let_def
  by (auto simp del: One_nat_def add_Suc_right intro!: safe_bind [OF safe_get_or] safe_bind [OF safe_walk_blobs])

lemma safe_lz4_integer: "safe (read_lz4_integer src pos n) (\<lambda>_. True)"
proof (induction src pos n rule: read_lz4_integer.induct)
  case (1 src pos n)
  then show ?case by (subst read_lz4_integer.simps) auto
qed

lemma safe_lz4_length: "safe (lz4_length src b full pos) (\<lambda>_. True)"
  by (auto simp: lz4_length_def intro!: safe_bind [OF safe_lz4_integer])

lemma safe_lz4_walk: "safe (lz4_walk src pos acc) (\<lambda>_. True)"
proof (induction src pos acc rule: lz4_walk.induct)
  case (1 src pos acc)
  show ?case
    using 1 safe_lz4_length
    by (subst lz4_walk.simps) (auto simp: safe_def split: run.split)
qed

lemma safe_decompress: "safe (decompress zc code src n) (\<lambda>_. True)"
  by (auto simp: decompress_def decompress_lz4_def lz4_block_decoded_size_def split: option.split
      intro!: safe_bind [OF safe_lz4_walk])

lemma safe_index_u32: "base + 4 \<le> length data \<Longrightarrow> safe (index_u32 data base) (\<lambda>_. True)"
  by (simp add: index_u32_def byte_at_def)

lemma safe_nearest: "safe (nearest_start data start bs region_end) (\<lambda>_. True)"
  by (induction bs arbitrary: region_end) (auto intro!: safe_bind [OF safe_index_u32])

lemma safe_region_end: "safe (cluster_region_end z h start) (\<lambda>_. True)"
  unfolding cluster_region_end_def by (intro safe_bind [OF safe_nearest] safe_nearest)

lemma safe_content: "safe (decode_content zc z d) (\<lambda>_. True)"
proof -
  have c: "parse_cluster data a b \<noteq> Crash" for data a b using safe_cluster by (auto simp: safe_def)
  have d: "decompress zc code src n \<noteq> Crash" for code src n using safe_decompress by (auto simp: safe_def)
  show ?thesis
    by (auto simp: decode_content_def Let_def c d split: option.split run.split
        intro!: safe_bind [OF safe_index_u32] safe_bind [OF safe_region_end])
qed

lemma safe_mime_walk: "limit \<le> length data \<Longrightarrow> safe (mime_walk data limit pos mimes) (\<lambda>_. True)"
proof (induction data limit pos mimes rule: mime_walk.induct)
  case (1 data limit pos mimes)
  show ?case
    using 1 by (subst mime_walk.simps)
      (auto simp: slice_from_def slice_def split: run.split option.split dest: position_zero_drop)
qed

lemma safe_load_dirents: "safe (load_dirents data u i n ds) (\<lambda>_. True)"
proof (induction n arbitrary: i ds)
  case (Suc n)
  then show ?case by (auto simp: Let_def slice_def intro!: safe_bind [OF safe_dirent])
qed simp

lemma index_where_less: "index_where P xs = Some i \<Longrightarrow> i < length xs \<and> P (xs ! i)"
  by (induction xs arbitrary: i) (auto split: if_splits)

lemma safe_article: "idx < length (zm_dirents z) \<Longrightarrow> safe (build_article zc z idx) (\<lambda>_. True)"
  by (auto simp: build_article_def Let_def intro!: safe_bind [OF safe_content])

lemma load_no_crash: "fst (load_index files z) \<noteq> Crash"
proof (cases "files (zm_path z)")
  case (Some data)
  show ?thesis
  proof (cases "zimp_header_parse data")
    case (Gives h)
    then have "zh_cluster_ptr_pos h \<le> length data" using safe_header [of data] by (simp add: safe_def)
    then have "mime_walk data (zh_cluster_ptr_pos h) (zh_mime_list_pos h) [] \<noteq> Crash"
      using safe_mime_walk by (simp add: safe_def)
    moreover have "load_dirents data (zh_url_ptr_pos h) 0 (zh_article_count h) [] \<noteq> Crash"
      using safe_load_dirents by (simp add: safe_def)
    ultimately show ?thesis using Some Gives by (simp add: load_index_def Let_def split: run.split)
  qed (use Some safe_header [of data] in \<open>simp_all add: load_index_def\<close>)
qed (simp add: load_index_def)

text \<open>C9: for any file contents, whatever the reader holds from earlier calls, loading the index and fetching an
  article never panic: no slice, index or read of the parser is out of range.\<close>

theorem zim_never_panics:
  "fst (load_index files z) \<noteq> Crash \<and> zimp_get_article zc z url \<noteq> Crash"
proof -
  have "safe (zimp_get_article zc z url) (\<lambda>_. True)"
    by (auto simp: zimp_get_article_def dest: index_where_less intro!: safe_bind [OF safe_article] split: option.split)
  then show ?thesis using load_no_crash [of files z] by (simp add: safe_def)
qed

section \<open>Clusters and blocks\<close>

text \<open>The bytes of a cluster: every payload after its length in four bytes, and the table of its blobs.\<close>

definition encode_blobs :: "byte list list \<Rightarrow> byte list" where
  "encode_blobs ps = concat (map (\<lambda>p. nat_le 4 (length p) @ p) ps)"

fun blob_table :: "nat \<Rightarrow> byte list list \<Rightarrow> blob_raw list" where
  "blob_table off [] = []"
| "blob_table off (p # ps) = \<lparr>br_offset = off, br_size = length p, br_data = p\<rparr> # blob_table (off + 4 + length p) ps"

lemma encode_blobs_simps [simp]:
  "encode_blobs [] = []" "encode_blobs (p # ps) = nat_le 4 (length p) @ p @ encode_blobs ps"
  by (simp_all add: encode_blobs_def)

lemma walk_blobs_encoded:
  "cluster_start \<le> length pre \<Longrightarrow> length pre - cluster_start + length (encode_blobs ps) < 2 ^ 32 \<Longrightarrow>
     walk_blobs (pre @ encode_blobs ps @ post) cluster_start (length pre + length (encode_blobs ps)) (length pre) acc =
       Gives (acc @ blob_table (length pre - cluster_start) ps)"
proof (induction ps arbitrary: pre acc)
  case Nil
  then show ?case by (subst walk_blobs.simps) simp
next
  case (Cons p ps)
  let ?pre = "pre @ nat_le 4 (length p) @ p"
  have l: "length p < 2 ^ 32" using Cons.prems by simp
  have "walk_blobs (?pre @ encode_blobs ps @ post) cluster_start (length ?pre + length (encode_blobs ps)) (length ?pre)
        (acc @ [\<lparr>br_offset = length pre - cluster_start, br_size = length p, br_data = p\<rparr>]) =
      Gives (acc @ blob_table (length pre - cluster_start) (p # ps))"
    using Cons.IH [of ?pre] Cons.prems by (simp add: algebra_simps)
  then show ?case using Cons.prems l
    by (subst walk_blobs.simps) (simp add: run_get_u32_def get_or_def slice_def le_nat_nat_le algebra_simps)
qed

text \<open>C37: a cluster with a known compression code, laid out as the format says anywhere in a file, parses into exactly
  its blobs: each payload unchanged, at the offset of its length field counted from the compression byte.\<close>

theorem zim_cluster_roundtrip:
  assumes "code \<in> {COMP_NONE, COMP_LZ4, COMP_ZSTD}"
    and "length (encode_blobs ps) < 2 ^ 32 - 1"
  shows "parse_cluster (pre @ code # encode_blobs ps @ post) (length pre) (length pre + 1 + length (encode_blobs ps)) =
           Gives (code, blob_table 1 ps)"
proof -
  have "walk_blobs ((pre @ [code]) @ encode_blobs ps @ post) (length pre)
      (length (pre @ [code]) + length (encode_blobs ps)) (length (pre @ [code])) [] = Gives (blob_table 1 ps)"
    using walk_blobs_encoded [of "length pre" "pre @ [code]" ps post "[]"] assms by simp
  then show ?thesis using assms(1) by (simp add: parse_cluster_def get_or_def Let_def)
qed

theorem zim_cluster_roundtrip_witness:
  "parse_cluster ([9, 9] @ COMP_NONE # encode_blobs [[1, 2, 3], [4]] @ [7]) (length [9, 9 :: byte]) (length [9, 9 :: byte] + 1 + 12) =
     Gives (COMP_NONE, [\<lparr>br_offset = 1, br_size = length [1, 2, 3 :: byte], br_data = [1, 2, 3]\<rparr>, \<lparr>br_offset = 8, br_size = 1, br_data = [4]\<rparr>])"
  using zim_cluster_roundtrip [of COMP_NONE "[[1, 2, 3], [4]]" "[9, 9]" "[7]"] by simp

lemma lz4_integer_result: "read_lz4_integer src pos n = Fails e \<Longrightarrow> e = ZimShortDecompression"
proof (induction src pos n rule: read_lz4_integer.induct)
  case (1 src pos n)
  then show ?case using read_lz4_integer.simps [of src pos n] by (auto split: if_splits)
qed

lemma lz4_length_result: "lz4_length src b full pos = Fails e \<Longrightarrow> e = ZimShortDecompression"
  by (cases "read_lz4_integer src pos 0") (auto simp: lz4_length_def lz4_integer_result split: if_splits)

text \<open>A sequence of \<open>k\<close> bytes stands for at most \<open>255 * k\<close> bytes of output; every failure of the walk is the same.\<close>

definition lz4_result :: "byte list \<Rightarrow> nat zrun \<Rightarrow> bool" where
  "lz4_result src r \<longleftrightarrow> (case r of Gives n \<Rightarrow> n \<le> 255 * length src | Fails e \<Rightarrow> e = ZimShortDecompression | Crash \<Rightarrow> False)"

lemma lz4_result_simps [simp]:
  "lz4_result src (Gives n) \<longleftrightarrow> n \<le> 255 * length src" "lz4_result src (Fails e) \<longleftrightarrow> e = ZimShortDecompression"
  by (simp_all add: lz4_result_def)

lemma lz4_walk_bound: "acc \<le> 255 * pos \<Longrightarrow> lz4_result src (lz4_walk src pos acc)"
proof (induction src pos acc rule: lz4_walk.induct)
  case (1 src pos acc)
  let ?t = "unat (src ! pos)"
  have t: "?t div 16 \<le> 15" "?t mod 16 \<le> 15"
    using unsigned_less [of "src ! pos", where 'a = nat] by (simp_all add: less_mult_imp_div_less)
  show ?case
  proof (cases "pos < length src")
    case False
    then show ?thesis by (subst lz4_walk.simps) simp
  next
    case True
    consider (fails) e where "lz4_length src (?t div 16) 15 (pos + 1) = Fails e"
      | (gives) lit pos1 where "lz4_length src (?t div 16) 15 (pos + 1) = Gives (lit, pos1)"
      using safe_lz4_length [of src "?t div 16" 15 "pos + 1"]
      by (cases "lz4_length src (?t div 16) 15 (pos + 1)") auto
    then show ?thesis
    proof cases
      case fails
      then show ?thesis using True lz4_length_result by (subst lz4_walk.simps) auto
    next
      case gives
      have g: "pos + 1 \<le> pos1" "lit \<le> 15 + 255 * (pos1 - (pos + 1))"
        using lz4_length_pos [OF gives] t by auto
      consider (stops) "length src - 1 \<le> pos1 + lit \<or> length src < pos1 + lit + 2"
        | (refused) e where "lz4_length src (4 + ?t mod 16) 19 (pos1 + lit + 2) = Fails e"
        | (goes) m pos2 where "\<not> length src < pos1 + lit" "\<not> length src - 1 \<le> pos1 + lit" "\<not> length src < pos1 + lit + 2"
            "lz4_length src (4 + ?t mod 16) 19 (pos1 + lit + 2) = Gives (m, pos2)"
        using safe_lz4_length [of src "4 + ?t mod 16" 19 "pos1 + lit + 2"]
        by (cases "lz4_length src (4 + ?t mod 16) 19 (pos1 + lit + 2)") auto
      then show ?thesis
      proof cases
        case stops
        then show ?thesis using True gives g "1.prems" by (subst lz4_walk.simps) auto
      next
        case refused
        then show ?thesis using True gives g "1.prems" lz4_length_result by (subst lz4_walk.simps) auto
      next
        case goes
        have "m \<le> 19 + 255 * (pos2 - (pos1 + lit + 2))" "pos1 + lit + 2 \<le> pos2"
          using lz4_length_pos [OF goes(4)] t by auto
        then have "acc + (lit + m) \<le> 255 * pos2" using g "1.prems" by simp
        then have "lz4_result src (lz4_walk src pos2 (acc + (lit + m)))"
          using "1.IH" True gives goes by simp
        then show ?thesis using True gives goes by (subst lz4_walk.simps) simp
      qed
    qed
  qed
qed

text \<open>C38: an LZ4 blob whose declared size is more than 255 times its stored size is refused before the decoder runs,
  whatever the decoder would do, so that a small file cannot make the reader fill the memory through LZ4.\<close>

theorem lz4_bounded:
  assumes "255 * length src < n"
  shows "decompress zc COMP_LZ4 src n = Fails ZimShortDecompression"
proof -
  have "lz4_result src (lz4_block_decoded_size src)"
    unfolding lz4_block_decoded_size_def by (rule lz4_walk_bound) simp
  then show ?thesis using assms
    by (cases "lz4_block_decoded_size src")
      (auto simp: decompress_def decompress_lz4_def lz4_result_def COMP_LZ4_def COMP_NONE_def)
qed

theorem lz4_bounded_witness:
  "decompress \<lparr>zc_lz4 = (\<lambda>src n. Some (replicate n 0)), zc_zstd = Some, zc_lower = id\<rparr> COMP_LZ4 [0x1F, 65] 511 =
     Fails ZimShortDecompression"
  by (rule lz4_bounded) simp

end
