(* ===== verification/Mbtiles.thy ===== *)
theory Mbtiles
  imports Run F64 Update
begin

text \<open>
  The reader of MBTiles files, crate \<open>mbtiles-parser\<close>. SQLite is the part of a database the reader queries: the catalog,
  the columns, the indexes and the rows of \<open>metadata\<close> and \<open>tiles\<close>, in the order a query returns them. The columns of
  \<open>tiles\<close> hold integers; every other cell may hold any SQL value. Failures of SQLite in the middle of a query
  (a locked or damaged file) are not modelled. The text of an error is the reason it gives.
\<close>

section \<open>Numbers in text\<close>

definition parse_u8 :: "string \<Rightarrow> u8 option" where
  "parse_u8 s = map_option of_nat (parse_below 256 s)"

text \<open>
  \<open>parse::<f64>\<close>: a sign, then digits with at most one point and an optional exponent, rounded to the nearest float, or the
  name of an infinity or of a NaN. Both zeros are \<open>0\<close>.
\<close>

datatype float_value = Finite rat | Infinite | NotANumber

definition ascii_digit :: "char \<Rightarrow> bool" where
  "ascii_digit c \<longleftrightarrow> 48 \<le> (of_char c :: nat) \<and> (of_char c :: nat) \<le> 57"

definition digits_nat :: "string \<Rightarrow> nat" where
  "digits_nat s = foldl (\<lambda>n c. 10 * n + (of_char c - 48)) 0 s"

definition ascii_lower :: "string \<Rightarrow> string" where
  "ascii_lower = map (\<lambda>c. let n = (of_char c :: nat) in if 65 \<le> n \<and> n \<le> 90 then char_of (n + 32) else c)"

definition ten_to :: "int \<Rightarrow> rat" where
  "ten_to e = (if 0 \<le> e then 10 ^ nat e else 1 / 10 ^ nat (- e))"

definition split_sign :: "string \<Rightarrow> bool \<times> string" where
  "split_sign s = (case s of [] \<Rightarrow> (False, [])
     | c # cs \<Rightarrow> if c = CHR ''-'' then (True, cs) else if c = CHR ''+'' then (False, cs) else (False, s))"

definition parse_exponent :: "string \<Rightarrow> int option" where
  "parse_exponent s =
     (if s = [] then Some 0
      else if hd s = CHR ''e'' \<or> hd s = CHR ''E'' then
        (case split_sign (tl s) of (neg, ds) \<Rightarrow>
           if ds = [] \<or> \<not> list_all ascii_digit ds then None
           else Some (if neg then - int (digits_nat ds) else int (digits_nat ds)))
      else None)"

definition parse_decimal :: "string \<Rightarrow> rat option" where
  "parse_decimal s =
     (let ip = takeWhile ascii_digit s; r = dropWhile ascii_digit s;
          pt = (r \<noteq> [] \<and> hd r = CHR ''.'');
          fp = (if pt then takeWhile ascii_digit (tl r) else []);
          r2 = (if pt then dropWhile ascii_digit (tl r) else r)
      in if ip @ fp = [] then None
         else map_option (\<lambda>e. of_nat (digits_nat (ip @ fp)) * ten_to (e - int (length fp))) (parse_exponent r2))"

definition parse_f64 :: "string \<Rightarrow> float_value option" where
  "parse_f64 s =
     (case split_sign s of (neg, t) \<Rightarrow>
        (case parse_decimal t of
           Some x \<Rightarrow> (let y = f64 x in Some (if 2 ^ 1024 \<le> y then Infinite else Finite (if neg then - y else y)))
         | None \<Rightarrow>
             if ascii_lower t = ''inf'' \<or> ascii_lower t = ''infinity'' then Some Infinite
             else if ascii_lower t = ''nan'' then Some NotANumber
             else None))"

section \<open>Errors and metadata\<close>

definition MAX_SUPPORTED_ZOOM :: u8 where "MAX_SUPPORTED_ZOOM = 30"

datatype mbt_reason =
    FormatUnsupported string | BoundsArity string | BoundsNonNumeric string | BoundsNonFinite string
  | BoundsRange string | BoundsCrossed string | CenterArity string | CenterLongitude string | CenterLatitude string
  | CenterZoom string | CenterRange string | NameMissing | NameEmpty | FormatMissing | ZoomNotInteger string string
  | ZoomOrder u8 u8

datatype mbt_schema_reason = LegacyLayout | LacksColumns "string list"

datatype mbt_error =
    MbtIo | MbtSqlite | MbtFileNotFound string | MbtNotSqlite | MbtMissingTable string
  | MbtInvalidSchema mbt_schema_reason | MbtInvalidMetadata mbt_reason
  | MbtZoomOutOfRange u8 "u8 option" "u8 option" | MbtCoordinatesOutOfBounds u8 u32 u32

type_synonym 'a mrun = "(mbt_error, 'a) run"

abbreviation bad_metadata :: "mbt_reason \<Rightarrow> 'a mrun" where
  "bad_metadata r \<equiv> Fails (MbtInvalidMetadata r)"

datatype tile_format = Jpeg | Png | VectorPbf | WebP

definition tile_format_parse :: "string \<Rightarrow> tile_format mrun" where
  "tile_format_parse raw =
     (let t = ascii_lower (trim_ws raw) in
      if t = ''jpg'' \<or> t = ''jpeg'' then Gives Jpeg
      else if t = ''png'' then Gives Png
      else if t = ''pbf'' then Gives VectorPbf
      else if t = ''webp'' then Gives WebP
      else bad_metadata (FormatUnsupported t))"

fun tile_format_str :: "tile_format \<Rightarrow> string" where
  "tile_format_str Jpeg = ''jpg''"
| "tile_format_str Png = ''png''"
| "tile_format_str VectorPbf = ''pbf''"
| "tile_format_str WebP = ''webp''"

record map_bounds =
  bo_west :: rat
  bo_south :: rat
  bo_east :: rat
  bo_north :: rat

fun bounds_numbers :: "string list \<Rightarrow> rat list mrun" where
  "bounds_numbers [] = Gives []"
| "bounds_numbers (part # parts) =
     (case parse_f64 part of
        None \<Rightarrow> bad_metadata (BoundsNonNumeric part)
      | Some (Finite v) \<Rightarrow> run_bind (bounds_numbers parts) (\<lambda>vs. Gives (v # vs))
      | Some _ \<Rightarrow> bad_metadata (BoundsNonFinite part))"

definition bounds_parse :: "string \<Rightarrow> map_bounds mrun" where
  "bounds_parse raw =
     (let parts = map trim_ws (split_on CHR '','' raw) in
      if length parts \<noteq> 4 then bad_metadata (BoundsArity raw)
      else run_bind (bounds_numbers parts) (\<lambda>nums.
        let west = nums ! 0; south = nums ! 1; east = nums ! 2; north = nums ! 3 in
        if \<not> (- 180 \<le> west \<and> west \<le> 180) \<or> \<not> (- 180 \<le> east \<and> east \<le> 180)
          \<or> \<not> (- 90 \<le> south \<and> south \<le> 90) \<or> \<not> (- 90 \<le> north \<and> north \<le> 90) then bad_metadata (BoundsRange raw)
        else if west > east \<or> south > north then bad_metadata (BoundsCrossed raw)
        else Gives \<lparr>bo_west = west, bo_south = south, bo_east = east, bo_north = north\<rparr>))"

record map_center =
  ce_longitude :: rat
  ce_latitude :: rat
  ce_zoom :: u8

text \<open>\<open>Some\<close> for a finite value in a range.\<close>

definition finite_within :: "rat \<Rightarrow> float_value \<Rightarrow> rat option" where
  "finite_within d v = (case v of Finite x \<Rightarrow> if - d \<le> x \<and> x \<le> d then Some x else None | _ \<Rightarrow> None)"

definition center_parse :: "string \<Rightarrow> map_center mrun" where
  "center_parse raw =
     (let parts = map trim_ws (split_on CHR '','' raw) in
      if length parts \<noteq> 3 then bad_metadata (CenterArity raw)
      else case parse_f64 (parts ! 0) of
        None \<Rightarrow> bad_metadata (CenterLongitude (parts ! 0))
      | Some lon \<Rightarrow>
          (case parse_f64 (parts ! 1) of
             None \<Rightarrow> bad_metadata (CenterLatitude (parts ! 1))
           | Some lat \<Rightarrow>
               (case parse_u8 (parts ! 2) of
                  None \<Rightarrow> bad_metadata (CenterZoom (parts ! 2))
                | Some zoom \<Rightarrow>
                    (case (finite_within 180 lon, finite_within 90 lat) of
                       (Some x, Some y) \<Rightarrow> Gives \<lparr>ce_longitude = x, ce_latitude = y, ce_zoom = zoom\<rparr>
                     | _ \<Rightarrow> bad_metadata (CenterRange raw)))))"

record mbtiles_metadata =
  mm_name :: string
  mm_format :: tile_format
  mm_bounds :: "map_bounds option"
  mm_center :: "map_center option"
  mm_min_zoom :: "u8 option"
  mm_max_zoom :: "u8 option"
  mm_attribution :: "string option"
  mm_layer_type :: "string option"
  mm_version :: "string option"
  mm_description :: "string option"
  mm_extra :: "string \<Rightarrow> string option"

section \<open>The database\<close>

datatype sql_value = SqlNull | SqlInteger int | SqlReal rat | SqlText string | SqlBlob "byte list"

record sqlite_index =
  ix_unique :: bool
  ix_partial :: bool
  ix_columns :: "string option list"

record tile_row =
  tw_zoom :: int
  tw_column :: int
  tw_row :: int
  tw_data :: sql_value

record sqlite_db =
  sd_types :: "string \<Rightarrow> string option"
  sd_columns :: "string \<Rightarrow> string list"
  sd_indexes :: "string \<Rightarrow> sqlite_index list"
  sd_metadata :: "(sql_value \<times> sql_value) list"
  sd_tiles :: "tile_row list"

datatype sqlite_file =
    FileAbsent | FileUnreadable | FileDirectory | FileNotOpened | FileNotDatabase | FileDatabase sqlite_db

datatype tiles_kind = TilesTable | TilesView

definition object_kind :: "sqlite_db \<Rightarrow> string \<Rightarrow> tiles_kind option" where
  "object_kind db name = map_option (\<lambda>k. if k = ''view'' then TilesView else TilesTable) (sd_types db name)"

record schema_info =
  si_tiles_kind :: tiles_kind
  si_has_map_table :: bool
  si_has_images_table :: bool
  si_has_unique_tile_index :: bool

definition fully_conformant :: "schema_info \<Rightarrow> bool" where
  "fully_conformant s =
     (case si_tiles_kind s of
        TilesTable \<Rightarrow> si_has_unique_tile_index s
      | TilesView \<Rightarrow> si_has_map_table s \<and> si_has_images_table s)"

text \<open>A column of an index without a name (an expression) cannot be read as a string.\<close>

fun unique_tile_index :: "sqlite_index list \<Rightarrow> bool mrun" where
  "unique_tile_index [] = Gives False"
| "unique_tile_index (ix # ixs) =
     (if \<not> ix_unique ix \<or> ix_partial ix then unique_tile_index ixs
      else if None \<in> set (ix_columns ix) then Fails MbtSqlite
      else if mset (ix_columns ix) = mset (map Some [''tile_column'', ''tile_row'', ''zoom_level'']) then Gives True
      else unique_tile_index ixs)"

definition has_unique_tile_index :: "sqlite_db \<Rightarrow> string \<Rightarrow> bool mrun" where
  "has_unique_tile_index db obj = unique_tile_index (sd_indexes db obj)"

definition validate_schema :: "sqlite_db \<Rightarrow> schema_info mrun" where
  "validate_schema db =
     (if object_kind db ''metadata'' = None then Fails (MbtMissingTable ''metadata'')
      else
        let has_map = (object_kind db ''map'' \<noteq> None); has_images = (object_kind db ''images'' \<noteq> None) in
        case object_kind db ''tiles'' of
          None \<Rightarrow> if has_map \<and> has_images then Fails (MbtInvalidSchema LegacyLayout) else Fails (MbtMissingTable ''tiles'')
        | Some kind \<Rightarrow>
            (let missing = filter (\<lambda>c. c \<notin> set (sd_columns db ''tiles''))
                   [''zoom_level'', ''tile_column'', ''tile_row'', ''tile_data''] in
             if missing \<noteq> [] then Fails (MbtInvalidSchema (LacksColumns missing))
             else run_bind (has_unique_tile_index db ''tiles'') (\<lambda>u.
               Gives \<lparr>si_tiles_kind = kind, si_has_map_table = has_map, si_has_images_table = has_images,
                 si_has_unique_tile_index = u\<rparr>)))"

text \<open>The first value of a name is kept; a row without a value is skipped.\<close>

fun metadata_rows :: "(sql_value \<times> sql_value) list \<Rightarrow> (string \<Rightarrow> string option) \<Rightarrow> (string \<Rightarrow> string option) mrun" where
  "metadata_rows [] raw = Gives raw"
| "metadata_rows ((k, v) # rows) raw =
     (case k of
        SqlText key \<Rightarrow>
          (case v of
             SqlNull \<Rightarrow> metadata_rows rows raw
           | SqlText s \<Rightarrow> metadata_rows rows (if raw key = None then raw(key := Some s) else raw)
           | _ \<Rightarrow> Fails MbtSqlite)
      | _ \<Rightarrow> Fails MbtSqlite)"

definition parse_optional :: "(string \<Rightarrow> 'a mrun) \<Rightarrow> string option \<Rightarrow> 'a option mrun" where
  "parse_optional f o' = (case o' of None \<Rightarrow> Gives None | Some s \<Rightarrow> run_bind (f s) (\<lambda>x. Gives (Some x)))"

definition parse_zoom :: "string \<Rightarrow> string \<Rightarrow> u8 mrun" where
  "parse_zoom key s = (case parse_u8 (trim_ws s) of Some z \<Rightarrow> Gives z | None \<Rightarrow> bad_metadata (ZoomNotInteger key s))"

definition load_metadata :: "sqlite_db \<Rightarrow> mbtiles_metadata mrun" where
  "load_metadata db =
     (if \<not> {''name'', ''value''} \<subseteq> set (sd_columns db ''metadata'') then Fails MbtSqlite else
      run_bind (metadata_rows (sd_metadata db) (\<lambda>_. None)) (\<lambda>raw.
      case raw ''name'' of None \<Rightarrow> bad_metadata NameMissing | Some name \<Rightarrow>
      if trim_ws name = [] then bad_metadata NameEmpty else
      case raw ''format'' of None \<Rightarrow> bad_metadata FormatMissing | Some format_raw \<Rightarrow>
      run_bind (tile_format_parse format_raw) (\<lambda>fmt.
      run_bind (parse_optional bounds_parse (raw ''bounds'')) (\<lambda>bounds.
      run_bind (parse_optional center_parse (raw ''center'')) (\<lambda>center.
      run_bind (parse_optional (parse_zoom ''minzoom'') (raw ''minzoom'')) (\<lambda>min_zoom.
      run_bind (parse_optional (parse_zoom ''maxzoom'') (raw ''maxzoom'')) (\<lambda>max_zoom.
      let meta = \<lparr>mm_name = name, mm_format = fmt, mm_bounds = bounds, mm_center = center, mm_min_zoom = min_zoom,
            mm_max_zoom = max_zoom, mm_attribution = raw ''attribution'', mm_layer_type = raw ''type'',
            mm_version = raw ''version'', mm_description = raw ''description'',
            mm_extra = raw(''attribution'' := None, ''type'' := None, ''version'' := None, ''description'' := None)\<rparr> in
      case (min_zoom, max_zoom) of
        (Some lo, Some hi) \<Rightarrow> if lo > hi then bad_metadata (ZoomOrder lo hi) else Gives meta
      | _ \<Rightarrow> Gives meta)))))))"

section \<open>The reader\<close>

record mbtiles_reader =
  mr_path :: string
  mr_db :: sqlite_db
  mr_metadata :: mbtiles_metadata
  mr_schema :: schema_info

definition u8_from_i64 :: "int \<Rightarrow> u8 option" where
  "u8_from_i64 v = (if 0 \<le> v \<and> v < 256 then Some (of_int v) else None)"

text \<open>\<open>SELECT MIN(zoom_level), MAX(zoom_level) FROM tiles\<close>\<close>

definition zoom_range :: "sqlite_db \<Rightarrow> int option \<times> int option" where
  "zoom_range db =
     (let zs = map tw_zoom (sd_tiles db) in if zs = [] then (None, None) else (Some (Min (set zs)), Some (Max (set zs))))"

definition effective_zoom :: "sqlite_db \<Rightarrow> mbtiles_metadata \<Rightarrow> mbtiles_metadata" where
  "effective_zoom db m =
     (if mm_min_zoom m = None \<or> mm_max_zoom m = None then
        (case zoom_range db of (lo, hi) \<Rightarrow>
           m\<lparr>mm_min_zoom := (case mm_min_zoom m of Some z \<Rightarrow> Some z | None \<Rightarrow> Option.bind lo u8_from_i64),
             mm_max_zoom := (case mm_max_zoom m of Some z \<Rightarrow> Some z | None \<Rightarrow> Option.bind hi u8_from_i64)\<rparr>)
      else m)"

definition mbtiles_open :: "(string \<Rightarrow> sqlite_file) \<Rightarrow> string \<Rightarrow> mbtiles_reader mrun" where
  "mbtiles_open files path =
     (case files path of
        FileAbsent \<Rightarrow> Fails (MbtFileNotFound path)
      | FileUnreadable \<Rightarrow> Fails MbtIo
      | FileDirectory \<Rightarrow> Fails MbtNotSqlite
      | FileNotOpened \<Rightarrow> Fails MbtSqlite
      | FileNotDatabase \<Rightarrow> Fails MbtNotSqlite
      | FileDatabase db \<Rightarrow>
          run_bind (validate_schema db) (\<lambda>schema.
          run_bind (load_metadata db) (\<lambda>m.
            Gives \<lparr>mr_path = path, mr_db = db, mr_metadata = effective_zoom db m, mr_schema = schema\<rparr>)))"

definition tile_count :: "mbtiles_reader \<Rightarrow> nat" where
  "tile_count r = length (sd_tiles (mr_db r))"

section \<open>Tiles\<close>

record map_tile =
  mp_data :: "byte list"
  mp_format :: tile_format

definition xyz_row_to_tms :: "u32 \<Rightarrow> u8 \<Rightarrow> u32 option" where
  "xyz_row_to_tms y zoom =
     (if 64 \<le> unat zoom then None
      else
        let span = 2 ^ unat zoom :: nat in
        if span \<le> unat y then None
        else if span - 1 - unat y < 2 ^ 32 then Some (of_nat (span - 1 - unat y)) else None)"

definition tms_row_to_xyz :: "u32 \<Rightarrow> u8 \<Rightarrow> u32 option" where
  "tms_row_to_xyz y zoom = xyz_row_to_tms y zoom"

definition ensure_tile_coords :: "mbtiles_metadata \<Rightarrow> u8 \<Rightarrow> u32 \<Rightarrow> u32 \<Rightarrow> unit mrun" where
  "ensure_tile_coords m zoom x y =
     (if zoom > MAX_SUPPORTED_ZOOM then Fails (MbtZoomOutOfRange zoom None None)
      else if (case mm_min_zoom m of Some lo \<Rightarrow> zoom < lo | None \<Rightarrow> False)
        then Fails (MbtZoomOutOfRange zoom (mm_min_zoom m) (mm_max_zoom m))
      else if (case mm_max_zoom m of Some hi \<Rightarrow> zoom > hi | None \<Rightarrow> False)
        then Fails (MbtZoomOutOfRange zoom (mm_min_zoom m) (mm_max_zoom m))
      else
        let span = 2 ^ unat zoom :: nat in
        if span \<le> unat x \<or> span \<le> unat y then Fails (MbtCoordinatesOutOfBounds zoom x y) else Gives ())"

definition get_tile_tms :: "mbtiles_reader \<Rightarrow> u8 \<Rightarrow> u32 \<Rightarrow> u32 \<Rightarrow> map_tile option mrun" where
  "get_tile_tms r zoom column row =
     run_bind (ensure_tile_coords (mr_metadata r) zoom column row) (\<lambda>_.
       case find (\<lambda>w. tw_zoom w = uint zoom \<and> tw_column w = uint column \<and> tw_row w = uint row) (sd_tiles (mr_db r)) of
         None \<Rightarrow> Gives None
       | Some w \<Rightarrow>
           (case tw_data w of
              SqlBlob data \<Rightarrow> Gives (Some \<lparr>mp_data = data, mp_format = mm_format (mr_metadata r)\<rparr>)
            | _ \<Rightarrow> Fails MbtSqlite))"

definition get_tile_xyz :: "mbtiles_reader \<Rightarrow> u8 \<Rightarrow> u32 \<Rightarrow> u32 \<Rightarrow> map_tile option mrun" where
  "get_tile_xyz r zoom column row_xyz =
     (if zoom > MAX_SUPPORTED_ZOOM then Fails (MbtZoomOutOfRange zoom None None)
      else case xyz_row_to_tms row_xyz zoom of
        None \<Rightarrow> Fails (MbtCoordinatesOutOfBounds zoom column row_xyz)
      | Some row_tms \<Rightarrow> get_tile_tms r zoom column row_tms)"


section \<open>Rows of the grid\<close>

lemma pow_u32_large:
  assumes "32 < n" and "k < 2 ^ 32"
  shows "2 ^ 32 + k < (2 :: nat) ^ n"
proof -
  have "(2 :: nat) ^ 33 \<le> 2 ^ n" using assms(1) by (intro power_increasing) auto
  then show ?thesis using assms(2) by simp
qed

lemma unat_u32_less: "unat (y :: u32) < 2 ^ 32"
  using unsigned_less [of y, where 'a = nat] by simp

lemma of_nat_u32_iff: "n < 2 ^ 32 \<Longrightarrow> of_nat n = (t :: u32) \<longleftrightarrow> n = unat t"
  by (auto simp: unat_of_nat take_bit_nat_eq_self)

lemma xyz_row_iff:
  "xyz_row_to_tms y z = Some t \<longleftrightarrow> unat z \<le> 32 \<and> unat y + unat t + 1 = 2 ^ unat z"
proof (cases "unat z \<le> 32")
  case False
  then have "2 ^ 32 + unat y < (2 :: nat) ^ unat z" using pow_u32_large [OF _ unat_u32_less [of y]] by simp
  then show ?thesis using False by (auto simp: xyz_row_to_tms_def Let_def)
next
  case True
  then have p: "(2 :: nat) ^ unat z \<le> 2 ^ 32" by (intro power_increasing) auto
  show ?thesis
  proof (cases "unat y < 2 ^ unat z")
    case y: True
    then have d: "2 ^ unat z - 1 - unat y < (2 :: nat) ^ 32" using p by simp
    then have "of_nat (2 ^ unat z - 1 - unat y) = t \<longleftrightarrow> 2 ^ unat z - 1 - unat y = unat t"
      by (rule of_nat_u32_iff)
    then show ?thesis using True y d by (auto simp: xyz_row_to_tms_def Let_def)
  qed (use True in \<open>auto simp: xyz_row_to_tms_def Let_def\<close>)
qed

text \<open>The two conversions of rows are inverse to each other, and both are defined exactly on the rows of the grid of a
  zoom level of at most 32, where they mirror the grid.\<close>

theorem mbtiles_row_flip:
  "(tms_row_to_xyz t z = Some y \<longleftrightarrow> xyz_row_to_tms y z = Some t)
     \<and> (xyz_row_to_tms y z = Some t \<longleftrightarrow> unat z \<le> 32 \<and> unat y + unat t + 1 = 2 ^ unat z)"
  by (auto simp: tms_row_to_xyz_def xyz_row_iff)

section \<open>Metadata\<close>

lemma metadata_rows_absent:
  "metadata_rows rows raw = Gives raw' \<Longrightarrow> raw k = None \<Longrightarrow> \<forall>v. (SqlText k, v) \<notin> set rows \<Longrightarrow> raw' k = None"
  by (induction rows raw rule: metadata_rows.induct) (auto split: sql_value.splits if_splits)

lemma load_metadata_no_zoom:
  assumes "load_metadata db = Gives m"
    and "\<forall>v. (SqlText ''minzoom'', v) \<notin> set (sd_metadata db)" "\<forall>v. (SqlText ''maxzoom'', v) \<notin> set (sd_metadata db)"
  shows "mm_min_zoom m = None \<and> mm_max_zoom m = None"
proof -
  from assms(1) obtain raw where r: "metadata_rows (sd_metadata db) (\<lambda>_. None) = Gives raw"
    by (auto simp: load_metadata_def run_bind_Gives split: if_splits)
  then have "raw ''minzoom'' = None" "raw ''maxzoom'' = None"
    using metadata_rows_absent [OF r] assms(2,3) by auto
  then show ?thesis using assms(1) r
    by (auto simp: load_metadata_def run_bind_Gives parse_optional_def Let_def split: if_splits option.splits)
qed

lemma mbtiles_open_Gives:
  "mbtiles_open files path = Gives r \<Longrightarrow> files path = FileDatabase db \<Longrightarrow>
     \<exists>m. load_metadata db = Gives m \<and> mr_db r = db \<and> mr_metadata r = effective_zoom db m"
  by (auto simp: mbtiles_open_def run_bind_Gives)

lemma u8_from_i64_Some: "u8_from_i64 v = Some z \<Longrightarrow> uint z = v"
  by (auto simp: u8_from_i64_def uint_word_of_int_eq take_bit_int_eq_self split: if_splits)

text \<open>A derived range covers every stored zoom level.\<close>

lemma effective_zoom_covers:
  assumes "mm_min_zoom m = None" "mm_max_zoom m = None" and "w \<in> set (sd_tiles db)" and "tw_zoom w = uint z"
  shows "\<not> (case mm_min_zoom (effective_zoom db m) of Some lo \<Rightarrow> z < lo | None \<Rightarrow> False)
    \<and> \<not> (case mm_max_zoom (effective_zoom db m) of Some hi \<Rightarrow> z > hi | None \<Rightarrow> False)"
proof -
  let ?zs = "set (map tw_zoom (sd_tiles db))"
  have w: "uint z \<in> ?zs" using assms(3,4) by force
  have "sd_tiles db \<noteq> []" using assms(3) by auto
  then have r: "zoom_range db = (Some (Min ?zs), Some (Max ?zs))" by (simp add: zoom_range_def Let_def)
  have "Min ?zs \<le> uint z" "uint z \<le> Max ?zs" using w by (simp_all del: set_map)
  then show ?thesis using assms(1,2) r
    by (auto simp: effective_zoom_def word_less_def split: option.split dest: u8_from_i64_Some)
qed

lemma find_key:
  "w \<in> set ws \<Longrightarrow> P w \<Longrightarrow> \<forall>w'\<in>set ws. P w' \<longrightarrow> w' = w \<Longrightarrow> find P ws = Some w"
proof (induction ws)
  case (Cons a ws)
  show ?case
  proof (cases "P a")
    case True
    then have "a = w" using Cons.prems(3) by (meson list.set_intros(1))
    then show ?thesis using True by simp
  next
    case False
    then have "find P ws = Some w"
      using Cons.IH Cons.prems by (metis list.set_intros(2) set_ConsD)
    then show ?thesis using False by simp
  qed
qed simp

definition tile_at :: "u8 \<Rightarrow> u32 \<Rightarrow> u32 \<Rightarrow> tile_row \<Rightarrow> bool" where
  "tile_at zoom column row w \<longleftrightarrow> tw_zoom w = uint zoom \<and> tw_column w = uint column \<and> tw_row w = uint row"

lemma get_tile_tms_found:
  assumes "ensure_tile_coords (mr_metadata r) zoom column row = Gives ()" and "w \<in> set (sd_tiles (mr_db r))"
    and "tile_at zoom column row w" and "\<forall>w'\<in>set (sd_tiles (mr_db r)). tile_at zoom column row w' \<longrightarrow> w' = w"
    and "tw_data w = SqlBlob data"
  shows "get_tile_tms r zoom column row = Gives (Some \<lparr>mp_data = data, mp_format = mm_format (mr_metadata r)\<rparr>)"
  using find_key [OF assms(2,3,4)] assms(1,5) by (simp add: get_tile_tms_def tile_at_def)

text \<open>C11: when a file that opens declares no zoom range, every tile it stores once, on the grid of a zoom level of at most 30,
  is returned unchanged at its coordinates counted from the north: the derived range, the bounds of the grid and the
  mirrored row never hide a tile.\<close>

theorem mbtiles_serves_file:
  assumes "mbtiles_open files path = Gives r" and "files path = FileDatabase db"
    and "\<forall>v. (SqlText ''minzoom'', v) \<notin> set (sd_metadata db)" "\<forall>v. (SqlText ''maxzoom'', v) \<notin> set (sd_metadata db)"
    and "zoom \<le> MAX_SUPPORTED_ZOOM" and "unat column < 2 ^ unat zoom" and "unat y + unat row + 1 = 2 ^ unat zoom"
    and "w \<in> set (sd_tiles db)" and "tile_at zoom column row w"
    and "\<forall>w'\<in>set (sd_tiles db). tile_at zoom column row w' \<longrightarrow> w' = w" and "tw_data w = SqlBlob data"
  shows "get_tile_xyz r zoom column y = Gives (Some \<lparr>mp_data = data, mp_format = mm_format (mr_metadata r)\<rparr>)"
proof -
  obtain m where m: "load_metadata db = Gives m" "mr_db r = db" "mr_metadata r = effective_zoom db m"
    using mbtiles_open_Gives [OF assms(1,2)] by blast
  have z: "unat zoom \<le> 32" using assms(5) by (simp add: MAX_SUPPORTED_ZOOM_def word_le_nat_alt)
  have "tw_zoom w = uint zoom" using assms(9) by (simp add: tile_at_def)
  then have c: "\<not> (case mm_min_zoom (mr_metadata r) of Some lo \<Rightarrow> zoom < lo | None \<Rightarrow> False)
      \<and> \<not> (case mm_max_zoom (mr_metadata r) of Some hi \<Rightarrow> zoom > hi | None \<Rightarrow> False)"
    using effective_zoom_covers [of m w db zoom] load_metadata_no_zoom [OF m(1) assms(3,4)] assms(8) m(3) by simp
  have "\<not> 2 ^ unat zoom \<le> unat column" "\<not> 2 ^ unat zoom \<le> unat row" using assms(6,7) by linarith+
  then have "ensure_tile_coords (mr_metadata r) zoom column row = Gives ()"
    using c assms(5) by (simp add: ensure_tile_coords_def Let_def not_less)
  then have "get_tile_tms r zoom column row = Gives (Some \<lparr>mp_data = data, mp_format = mm_format (mr_metadata r)\<rparr>)"
    using get_tile_tms_found [of r zoom column row w data, unfolded m(2)] assms(8-11) by blast
  moreover have "xyz_row_to_tms y zoom = Some row" using assms(7) z by (simp add: xyz_row_iff)
  ultimately show ?thesis using assms(5) by (simp add: get_tile_xyz_def not_less)
qed

text \<open>A small file: one raster tile at zoom level 1.\<close>

definition example_tiles :: sqlite_db where
  "example_tiles = \<lparr>sd_types = (\<lambda>n. if n = ''metadata'' \<or> n = ''tiles'' then Some ''table'' else None),
     sd_columns = (\<lambda>n. if n = ''metadata'' then [''name'', ''value'']
       else [''zoom_level'', ''tile_column'', ''tile_row'', ''tile_data'']),
     sd_indexes = (\<lambda>_. []),
     sd_metadata = [(SqlText ''name'', SqlText ''demo''), (SqlText ''format'', SqlText ''png'')],
     sd_tiles = [\<lparr>tw_zoom = 1, tw_column = 1, tw_row = 0, tw_data = SqlBlob [137, 80]\<rparr>]\<rparr>"

lemma example_opens: "\<exists>r. mbtiles_open (\<lambda>_. FileDatabase example_tiles) p = Gives r"
proof -
  have "trim_ws ''demo'' = ''demo''" "trim_ws ''png'' = ''png''" by (rule trim_ws_printable, simp)+
  then have "\<exists>m. load_metadata example_tiles = Gives m"
    by (simp add: load_metadata_def example_tiles_def tile_format_parse_def ascii_lower_def parse_optional_def Let_def)
  moreover have "\<exists>s. validate_schema example_tiles = Gives s"
    by (simp add: validate_schema_def example_tiles_def object_kind_def has_unique_tile_index_def Let_def)
  ultimately show ?thesis
    by (auto simp: mbtiles_open_def)
qed

theorem mbtiles_serves_file_witness:
  "\<exists>r. mbtiles_open (\<lambda>_. FileDatabase example_tiles) ''demo.mbtiles'' = Gives r
     \<and> get_tile_xyz r 1 1 1 = Gives (Some \<lparr>mp_data = [137, 80], mp_format = mm_format (mr_metadata r)\<rparr>)"
proof -
  obtain r where r: "mbtiles_open (\<lambda>_. FileDatabase example_tiles) ''demo.mbtiles'' = Gives r"
    using example_opens by blast
  have "get_tile_xyz r 1 1 1 = Gives (Some \<lparr>mp_data = [137, 80], mp_format = mm_format (mr_metadata r)\<rparr>)"
    by (rule mbtiles_serves_file [OF r refl, where row = 0 and
          w = "\<lparr>tw_zoom = 1, tw_column = 1, tw_row = 0, tw_data = SqlBlob [137, 80]\<rparr>"])
      (simp_all add: example_tiles_def tile_at_def MAX_SUPPORTED_ZOOM_def)
  then show ?thesis using r by blast
qed

end
