(* ===== verification/Wav.thy ===== *)
theory Wav
  imports Run F64
begin

text \<open>
  The WAV reader of the speech recognition, \<open>whisper-stt/src/wav.rs\<close>: RIFF chunks, uncompressed 16-bit PCM at 16 kHz,
  mixed down to mono samples in \<open>f32\<close>. Every index and slice that panics out of range is a \<open>Crash\<close>.
\<close>

datatype stt_error =
    SttModelNotFound string string | SttInvalidWav string | SttModelIncompatible string string
  | SttAudioTooLong rat nat | SttNotLoaded | SttWhisper string

type_synonym 'a srun = "(stt_error, 'a) run"

definition TARGET_SAMPLE_RATE :: nat where "TARGET_SAMPLE_RATE = 16000"
definition MAX_WAV_BYTES :: nat where "MAX_WAV_BYTES = 256 * 1024 * 1024"

record wav_audio =
  wa_samples :: "rat list"
  wa_sample_rate :: nat
  wa_channels :: nat
  wa_duration_ms :: nat

definition u16_at :: "byte list \<Rightarrow> nat \<Rightarrow> string \<Rightarrow> nat srun" where
  "u16_at bytes pos what =
     run_bind (get_or (SttInvalidWav (''truncated header while reading '' @ what)) bytes pos (pos + 2)) (\<lambda>s. Gives (le_nat s))"

definition u32_at :: "byte list \<Rightarrow> nat \<Rightarrow> string \<Rightarrow> nat srun" where
  "u32_at bytes pos what =
     run_bind (get_or (SttInvalidWav (''truncated header while reading '' @ what)) bytes pos (pos + 4)) (\<lambda>s. Gives (le_nat s))"

section \<open>Chunks\<close>

record wav_format =
  wf_format_tag :: nat
  wf_channels :: nat
  wf_sample_rate :: nat
  wf_bits_per_sample :: nat
  wf_data :: "byte list option"
  wf_saw_fmt :: bool

definition wav_start :: wav_format where
  "wav_start = \<lparr>wf_format_tag = 0, wf_channels = 0, wf_sample_rate = 0, wf_bits_per_sample = 0, wf_data = None,
     wf_saw_fmt = False\<rparr>"

definition wav_chunk :: "byte list \<Rightarrow> byte list \<Rightarrow> wav_format \<Rightarrow> wav_format srun" where
  "wav_chunk chunk_id body w =
     (if chunk_id = str_bytes ''fmt '' then
        (if length body < 16 then Fails (SttInvalidWav ''fmt chunk shorter than 16 bytes'') else
         run_bind (u16_at body 0 ''format tag'') (\<lambda>tag.
         run_bind (u16_at body 2 ''channel count'') (\<lambda>ch.
         run_bind (u32_at body 4 ''sample rate'') (\<lambda>rate.
         run_bind (u16_at body 14 ''bits per sample'') (\<lambda>bits.
           Gives (w\<lparr>wf_format_tag := tag, wf_channels := ch, wf_sample_rate := rate, wf_bits_per_sample := bits,
                     wf_saw_fmt := True\<rparr>))))))
      else if chunk_id = str_bytes ''data'' then Gives (w\<lparr>wf_data := Some body\<rparr>)
      else Gives w)"

text \<open>Chunks are word aligned; the loop stops when no chunk header fits into the rest.\<close>

function wav_chunks :: "byte list \<Rightarrow> nat \<Rightarrow> wav_format \<Rightarrow> wav_format srun" where
  "wav_chunks bytes pos w =
     (if pos + 8 > length bytes then Gives w else
      run_bind (slice bytes pos (pos + 4)) (\<lambda>chunk_id.
      run_bind (u32_at bytes (pos + 4) ''chunk size'') (\<lambda>declared.
      if declared > length bytes - (pos + 8) then Fails (SttInvalidWav ''chunk extends past end of input'') else
      run_bind (slice bytes (pos + 8) (pos + 8 + declared)) (\<lambda>body.
      run_bind (wav_chunk chunk_id body w) (\<lambda>w'. wav_chunks bytes (pos + 8 + declared + declared mod 2) w')))))"
  by pat_completeness auto
termination by (relation "measure (\<lambda>(bytes, pos, _). length bytes - pos)") auto

declare wav_chunks.simps [simp del]

section \<open>Samples\<close>

definition i16_from_le :: "byte \<Rightarrow> byte \<Rightarrow> int" where
  "i16_from_le a b = (let n = le_nat [a, b] in if n < 32768 then int n else int n - 65536)"

definition wav_sample :: "byte list \<Rightarrow> nat \<Rightarrow> rat srun" where
  "wav_sample pcm off =
     run_bind (byte_at pcm off) (\<lambda>a. run_bind (byte_at pcm (off + 1)) (\<lambda>b.
       Gives (f32 (f32 (of_int (i16_from_le a b)) / 32768))))"

fun wav_mix :: "byte list \<Rightarrow> nat \<Rightarrow> nat \<Rightarrow> nat \<Rightarrow> rat \<Rightarrow> rat srun" where
  "wav_mix pcm base c 0 acc = Gives acc"
| "wav_mix pcm base c (Suc n) acc =
     run_bind (wav_sample pcm (base + c * 2)) (\<lambda>s. wav_mix pcm base (c + 1) n (f32 (acc + s)))"

fun wav_samples :: "byte list \<Rightarrow> nat \<Rightarrow> nat \<Rightarrow> nat \<Rightarrow> rat list srun" where
  "wav_samples pcm ch frame 0 = Gives []"
| "wav_samples pcm ch frame (Suc n) =
     run_bind (wav_mix pcm (frame * 2 * ch) 0 ch 0) (\<lambda>acc.
     run_bind (wav_samples pcm ch (frame + 1) n) (\<lambda>ss. Gives (f32 (acc / of_nat ch) # ss)))"

definition decode_pcm :: "wav_format \<Rightarrow> wav_audio srun" where
  "decode_pcm w =
     (if \<not> wf_saw_fmt w then Fails (SttInvalidWav ''missing fmt chunk'') else
      case wf_data w of None \<Rightarrow> Fails (SttInvalidWav ''missing data chunk'') | Some pcm \<Rightarrow>
      if wf_format_tag w \<noteq> 1
      then Fails (SttInvalidWav (''unsupported format tag '' @ dec_digits (wf_format_tag w)
             @ '' (only uncompressed PCM=1 is supported)''))
      else if wf_bits_per_sample w \<noteq> 16
      then Fails (SttInvalidWav (''unsupported bit depth '' @ dec_digits (wf_bits_per_sample w) @ '' (16-bit PCM required)''))
      else if wf_channels w \<noteq> 1 \<and> wf_channels w \<noteq> 2
      then Fails (SttInvalidWav (''unsupported channel count '' @ dec_digits (wf_channels w) @ '' (mono or stereo only)''))
      else if wf_sample_rate w \<noteq> TARGET_SAMPLE_RATE
      then Fails (SttInvalidWav (''unsupported sample rate '' @ dec_digits (wf_sample_rate w) @ '' Hz (''
             @ dec_digits TARGET_SAMPLE_RATE @ '' Hz required)''))
      else if pcm = [] \<or> length pcm mod 2 \<noteq> 0
      then Fails (SttInvalidWav ''data chunk is empty or not 16-bit aligned'') else
      let frames = length pcm div 2 div wf_channels w in
      if frames = 0 then Fails (SttInvalidWav ''no audio frames in data chunk'') else
      run_bind (wav_samples pcm (wf_channels w) 0 frames) (\<lambda>samples.
        Gives \<lparr>wa_samples = samples, wa_sample_rate = wf_sample_rate w, wa_channels = wf_channels w,
               wa_duration_ms = frames * 1000 div TARGET_SAMPLE_RATE\<rparr>))"

definition parse_wav :: "byte list \<Rightarrow> wav_audio srun" where
  "parse_wav bytes =
     (if length bytes > MAX_WAV_BYTES
      then Fails (SttInvalidWav (''input too large: '' @ dec_digits (length bytes) @ '' bytes''))
      else if length bytes < 12 then Fails (SttInvalidWav ''input shorter than a RIFF header'') else
      run_bind (slice bytes 0 4) (\<lambda>riff.
      if riff \<noteq> str_bytes ''RIFF'' then Fails (SttInvalidWav ''missing RIFF magic'') else
      run_bind (slice bytes 8 12) (\<lambda>wave.
      if wave \<noteq> str_bytes ''WAVE'' then Fails (SttInvalidWav ''missing WAVE form identifier'') else
      run_bind (wav_chunks bytes 12 wav_start) decode_pcm)))"

section \<open>Rounding to \<open>f32\<close>\<close>

lemma f32_mono: "x \<le> y \<Longrightarrow> f32 x \<le> f32 y"
  unfolding f32_def by (rule f32i.fl_mono)

lemma f32_0 [simp]: "f32 0 = 0"
  by (simp add: f32_def)

lemma f32_neg: "f32 (- x) = - f32 x"
  unfolding f32_def by (rule f32i.fl_neg)

lemma f32_idem [simp]: "f32 (f32 x) = f32 x"
  unfolding f32_def by (rule f32i.fl_idem)

lemma f32_dyadic: "\<bar>k\<bar> < 2 ^ 24 \<Longrightarrow> n \<le> 149 \<Longrightarrow> f32 (of_int k / 2 ^ n) = of_int k / 2 ^ n"
proof -
  assume k: "\<bar>k\<bar> < 2 ^ 24" and n: "n \<le> 149"
  have p: "pow2 (- int n) = 1 / 2 ^ n" by (cases "n = 0") (auto simp: pow2_def)
  have pos: "f32 (of_int j / 2 ^ n) = of_int j / 2 ^ n" if "0 < j" "j < 2 ^ 24" for j
    using f32i.fl_exact [of j "- int n"] that n p by (simp add: f32_def)
  consider "k = 0" | "0 < k" | "0 < - k" by linarith
  then show ?thesis
  proof cases
    case 3
    then have "f32 (of_int (- k) / 2 ^ n) = of_int (- k) / 2 ^ n" using pos [of "- k"] k by simp
    then show ?thesis using f32_neg [of "of_int k / 2 ^ n"] by simp
  qed (use pos k in auto)
qed

lemma f32_int: "\<bar>k\<bar> < 2 ^ 24 \<Longrightarrow> f32 (of_int k) = of_int k"
  using f32_dyadic [of k 0] by simp

lemma f32_bound: "\<bar>x\<bar> \<le> of_nat k \<Longrightarrow> k < 2 ^ 24 \<Longrightarrow> \<bar>f32 x\<bar> \<le> of_nat k"
  using f32_mono [of x "of_nat k"] f32_mono [of "- of_nat k" x] f32_int [of "int k"] f32_neg [of "of_nat k"]
  by (simp add: abs_le_iff)

section \<open>No panic, and samples in range\<close>

lemma i16_range: "- 32768 \<le> i16_from_le a b \<and> i16_from_le a b < 32768"
proof -
  define n where "n = le_nat [a, b]"
  have "n < 65536" using le_nat_less [of "[a, b]"] by (simp add: n_def)
  then show ?thesis unfolding i16_from_le_def n_def [symmetric] Let_def by (auto split: if_split)
qed

lemma wav_sample_value:
  assumes "off + 1 < length pcm"
  shows "wav_sample pcm off = Gives (of_int (i16_from_le (pcm ! off) (pcm ! (off + 1))) / 32768)"
proof -
  let ?s = "i16_from_le (pcm ! off) (pcm ! (off + 1))"
  have "\<bar>?s\<bar> < 2 ^ 24" using i16_range [of "pcm ! off" "pcm ! (off + 1)"] by (simp add: abs_less_iff)
  then have "f32 (of_int ?s) = of_int ?s" "f32 (of_int ?s / 2 ^ 15) = of_int ?s / 2 ^ 15"
    by (simp_all only: f32_int f32_dyadic)
  then show ?thesis using assms by (simp add: wav_sample_def byte_at_def)
qed

lemma safe_wav_sample: "off + 1 < length pcm \<Longrightarrow> safe (wav_sample pcm off) (\<lambda>s. \<bar>s\<bar> \<le> 1)"
proof -
  assume off: "off + 1 < length pcm"
  have "\<bar>of_int k / 32768 :: rat\<bar> \<le> 1" if "- 32768 \<le> k \<and> k < 32768" for k :: int
  proof -
    have "(of_int (- 32768) :: rat) \<le> of_int k" "(of_int k :: rat) \<le> of_int 32768"
      using that by (simp_all only: of_int_le_iff) auto
    then show ?thesis by (simp add: abs_le_iff)
  qed
  then show ?thesis using wav_sample_value [OF off] i16_range by simp
qed

lemma safe_wav_mix:
  "base + (c + n) * 2 \<le> length pcm \<Longrightarrow> \<bar>acc\<bar> \<le> of_nat c \<Longrightarrow> c + n < 2 ^ 24 \<Longrightarrow>
     safe (wav_mix pcm base c n acc) (\<lambda>a. \<bar>a\<bar> \<le> of_nat (c + n))"
proof (induction n arbitrary: c acc)
  case (Suc n)
  have "safe (wav_mix pcm base (c + 1) n (f32 (acc + s))) (\<lambda>a. \<bar>a\<bar> \<le> of_nat (c + Suc n))" if "\<bar>s\<bar> \<le> 1" for s
  proof -
    have "\<bar>f32 (acc + s)\<bar> \<le> of_nat (c + 1)"
      using that Suc.prems by (intro f32_bound) auto
    then show ?thesis using Suc.IH [of "c + 1"] Suc.prems by simp
  qed
  then show ?case using Suc.prems
    by (auto intro!: safe_bind [OF safe_wav_sample])
qed simp

definition in_range :: "rat list \<Rightarrow> bool" where
  "in_range ss \<longleftrightarrow> list_all (\<lambda>s. - 1 \<le> s \<and> s \<le> 1) ss"

lemma safe_wav_samples:
  "(frame + n) * 2 * ch \<le> length pcm \<Longrightarrow> 0 < ch \<Longrightarrow> ch < 2 ^ 24 \<Longrightarrow>
     safe (wav_samples pcm ch frame n) (\<lambda>ss. length ss = n \<and> in_range ss)"
proof (induction n arbitrary: frame)
  case (Suc n)
  have b: "frame * 2 * ch + (0 + ch) * 2 \<le> length pcm" using Suc.prems(1) by (simp add: algebra_simps)
  have m: "safe (wav_mix pcm (frame * 2 * ch) 0 ch 0) (\<lambda>a. \<bar>a\<bar> \<le> of_nat ch)"
    using safe_wav_mix [OF b, of 0] Suc.prems(3) by simp
  have r: "safe (wav_samples pcm ch (frame + 1) n) (\<lambda>ss. length ss = n \<and> in_range ss)"
    using Suc.IH [of "frame + 1"] Suc.prems by simp
  have "- 1 \<le> f32 (a / of_nat ch) \<and> f32 (a / of_nat ch) \<le> 1" if "\<bar>a\<bar> \<le> of_nat ch" for a
    using f32_bound [of "a / of_nat ch" 1] that Suc.prems(2) by (simp add: abs_le_iff field_simps)
  then have "safe (run_bind (wav_samples pcm ch (frame + 1) n) (\<lambda>ss. Gives (f32 (a / of_nat ch) # ss)))
      (\<lambda>ss. length ss = Suc n \<and> in_range ss)" if "\<bar>a\<bar> \<le> of_nat ch" for a
    using that by (intro safe_bind [OF r]) (simp add: in_range_def)
  then show ?case by (simp only: wav_samples.simps, intro safe_bind [OF m])
qed (simp add: in_range_def)

lemma safe_at: "safe (u16_at bytes pos what) (\<lambda>_. True)" "safe (u32_at bytes pos what) (\<lambda>_. True)"
  by (auto simp: u16_at_def u32_at_def intro!: safe_bind [OF safe_get_or])

definition wav_data_within :: "nat \<Rightarrow> wav_format \<Rightarrow> bool" where
  "wav_data_within k w \<longleftrightarrow> (case wf_data w of Some d \<Rightarrow> length d \<le> k | None \<Rightarrow> True)"

lemma safe_wav_chunk:
  "wav_data_within k w \<Longrightarrow> length body \<le> k \<Longrightarrow> safe (wav_chunk chunk_id body w) (wav_data_within k)"
  by (auto simp: wav_chunk_def wav_data_within_def intro!: safe_bind [OF safe_at(1)] safe_bind [OF safe_at(2)])

lemma safe_wav_chunks:
  "wav_data_within (length bytes) w \<Longrightarrow> safe (wav_chunks bytes pos w) (wav_data_within (length bytes))"
proof (induction bytes pos w rule: wav_chunks.induct)
  case (1 bytes pos w)
  show ?case
  proof (cases "pos + 8 > length bytes")
    case False
    show ?thesis
      unfolding wav_chunks.simps [of bytes pos w] using False "1.prems"
      by (auto intro!: safe_bind_eq [OF safe_slice] safe_bind_eq [OF safe_at(2)]
          safe_bind_eq [OF safe_wav_chunk [of "length bytes"]] "1.IH")
  qed (use "1.prems" in \<open>simp add: wav_chunks.simps\<close>)
qed

definition audio_ok :: "nat \<Rightarrow> wav_audio \<Rightarrow> bool" where
  "audio_ok k a \<longleftrightarrow> wa_samples a \<noteq> [] \<and> in_range (wa_samples a) \<and> wa_sample_rate a = 16000
     \<and> 2 * length (wa_samples a) \<le> k \<and> wa_duration_ms a = length (wa_samples a) * 1000 div 16000"

lemma safe_decode_pcm:
  assumes "wav_data_within k w"
  shows "safe (decode_pcm w) (audio_ok k)"
proof (cases "wf_data w")
  case (Some pcm)
  let ?ch = "wf_channels w" let ?frames = "length pcm div 2 div ?ch"
  have m: "safe (run_bind (wav_samples pcm ?ch 0 ?frames) (\<lambda>samples.
        Gives \<lparr>wa_samples = samples, wa_sample_rate = wf_sample_rate w, wa_channels = ?ch,
               wa_duration_ms = ?frames * 1000 div TARGET_SAMPLE_RATE\<rparr>)) (audio_ok k)"
    if c: "?ch = 1 \<or> ?ch = 2" "?frames \<noteq> 0" "wf_sample_rate w = TARGET_SAMPLE_RATE"
  proof -
    have f: "(0 + ?frames) * 2 * ?ch \<le> length pcm" "2 * ?frames \<le> length pcm" using c(1) by auto
    have "length pcm \<le> k" using assms Some by (simp add: wav_data_within_def)
    then have q: "audio_ok k \<lparr>wa_samples = ss, wa_sample_rate = wf_sample_rate w, wa_channels = ?ch,
        wa_duration_ms = ?frames * 1000 div TARGET_SAMPLE_RATE\<rparr>" if "length ss = ?frames \<and> in_range ss" for ss
      unfolding audio_ok_def using that c(2,3) f(2) by (auto simp only: TARGET_SAMPLE_RATE_def wav_audio.simps length_0_conv list.size)
    have "0 < ?ch" "?ch < 2 ^ 24" using c(1) by auto
    then show ?thesis using q by (intro safe_bind [OF safe_wav_samples [OF f(1)]]) simp_all
  qed
  show ?thesis
    unfolding decode_pcm_def Some option.case Let_def by (intro safe_if m safe_simps(1)) auto
qed (simp add: decode_pcm_def)

lemma safe_parse_wav: "safe (parse_wav bytes) (audio_ok (length bytes))"
  by (auto simp: parse_wav_def wav_data_within_def wav_start_def
      intro!: safe_bind [OF safe_slice] safe_bind [OF safe_wav_chunks] safe_decode_pcm)

text \<open>C12: the reader never panics, whatever the bytes, and what it accepts is a non-empty mono signal at 16 kHz with all
  samples between -1 and 1, at most one sample for two bytes of input, and the duration of these samples.\<close>

theorem wav_safe:
  "parse_wav bytes \<noteq> Crash
     \<and> (case parse_wav bytes of
          Gives a \<Rightarrow> wa_samples a \<noteq> [] \<and> list_all (\<lambda>s. - 1 \<le> s \<and> s \<le> 1) (wa_samples a) \<and> wa_sample_rate a = 16000
            \<and> 2 * length (wa_samples a) \<le> length bytes \<and> wa_duration_ms a = length (wa_samples a) * 1000 div 16000
        | _ \<Rightarrow> True)"
  using safe_parse_wav [of bytes] by (cases "parse_wav bytes") (auto simp: in_range_def audio_ok_def)

section \<open>Reading back a recording\<close>

text \<open>The canonical file of a mono recording: header, format chunk, data chunk.\<close>

definition i16_le :: "int \<Rightarrow> byte list" where
  "i16_le s = nat_le 2 (nat (s mod 65536))"

definition wav_fmt_body :: "byte list" where
  "wav_fmt_body = nat_le 2 1 @ nat_le 2 1 @ nat_le 4 16000 @ nat_le 4 32000 @ nat_le 2 2 @ nat_le 2 16"

definition wav_bytes :: "int list \<Rightarrow> byte list" where
  "wav_bytes ss =
     str_bytes ''RIFF'' @ nat_le 4 (36 + 2 * length ss) @ str_bytes ''WAVE''
       @ str_bytes ''fmt '' @ nat_le 4 16 @ wav_fmt_body
       @ str_bytes ''data'' @ nat_le 4 (2 * length ss) @ concat (map i16_le ss)"

lemma i16_roundtrip:
  assumes "- 32768 \<le> s" "s < 32768"
  shows "i16_from_le (i16_le s ! 0) (i16_le s ! 1) = s"
proof -
  define n where "n = nat (s mod 65536)"
  have two: "[xs ! 0, xs ! 1] = xs" if "length xs = 2" for xs :: "byte list"
    using that by (auto simp: numeral_2_eq_2 length_Suc_conv)
  have l: "[i16_le s ! 0, i16_le s ! 1] = nat_le 2 n"
    using two [of "i16_le s"] by (simp add: i16_le_def n_def del: nat_le.simps)
  have m: "int n = s mod 65536" by (simp add: n_def)
  have "le_nat (nat_le 2 n) = n mod 65536" by (simp add: le_nat_nat_le del: nat_le.simps)
  moreover have "n < 65536" by (simp add: n_def nat_less_iff)
  ultimately have le: "le_nat [i16_le s ! 0, i16_le s ! 1] = n" unfolding l by simp
  show ?thesis
  proof (cases "0 \<le> s")
    case True
    then have "int n = s" using m assms by simp
    then show ?thesis using assms unfolding i16_from_le_def le Let_def by simp
  next
    case False
    then have "int n = s + 65536" using m assms mod_add_self2 [of s 65536] mod_pos_pos_trivial [of "s + 65536" 65536] by linarith
    then show ?thesis using False assms unfolding i16_from_le_def le Let_def by simp
  qed
qed

lemma length_i16s [simp]: "length (concat (map i16_le ss)) = 2 * length ss"
  by (induction ss) (simp_all add: i16_le_def)

lemma wav_chunk_step:
  assumes "length cid = 4" "length body < 2 ^ 32" "bytes = pre @ cid @ nat_le 4 (length body) @ body @ post" "pos = length pre"
  shows "wav_chunks bytes pos w =
    run_bind (wav_chunk cid body w) (wav_chunks bytes (pos + 8 + length body + length body mod 2))"
  using assms
  unfolding wav_chunks.simps [of bytes pos w]
  by (simp add: slice_def u32_at_def get_or_def le_nat_nat_le)

lemma wav_samples_encoded:
  assumes "list_all (\<lambda>s. - 32768 \<le> s \<and> s < 32768) ss"
  shows "wav_samples (concat (map i16_le (ts @ ss))) 1 (length ts) (length ss) = Gives (map (\<lambda>s. of_int s / 32768) ss)"
  using assms
proof (induction ss arbitrary: ts)
  case (Cons s ss)
  let ?pcm = "concat (map i16_le (ts @ s # ss))"
  have l: "length (i16_le s) = 2" by (simp add: i16_le_def)
  have p: "?pcm = concat (map i16_le ts) @ i16_le s @ concat (map i16_le ss)" by simp
  have n: "?pcm ! (2 * length ts) = i16_le s ! 0" "?pcm ! (2 * length ts + 1) = i16_le s ! 1"
    unfolding p using l by (simp_all add: nth_append)
  have "wav_sample ?pcm (2 * length ts) = Gives (of_int s / 32768)"
    using wav_sample_value [of "2 * length ts" ?pcm] n i16_roundtrip [of s] Cons.prems l by simp
  moreover have "\<bar>s\<bar> < 2 ^ 24" using Cons.prems by (simp add: abs_less_iff)
  then have "f32 (of_int s / 2 ^ 15) = of_int s / 2 ^ 15" by (rule f32_dyadic) simp
  moreover have "wav_samples ?pcm 1 (Suc (length ts)) (length ss) = Gives (map (\<lambda>s. of_int s / 32768) ss)"
    using Cons.IH [of "ts @ [s]"] Cons.prems by simp
  ultimately show ?case by (simp add: mult.commute)
qed simp

lemma wav_fmt_chunk:
  "wav_chunk (str_bytes ''fmt '') wav_fmt_body wav_start =
     Gives \<lparr>wf_format_tag = 1, wf_channels = 1, wf_sample_rate = 16000, wf_bits_per_sample = 16, wf_data = None,
            wf_saw_fmt = True\<rparr>"
  by (simp add: wav_chunk_def wav_fmt_body_def u16_at_def u32_at_def get_or_def le_nat_nat_le wav_start_def)

lemma length_fmt_body [simp]: "length wav_fmt_body = 16"
  by (simp add: wav_fmt_body_def)

lemma length_ids [simp]:
  "length (str_bytes ''RIFF'') = 4" "length (str_bytes ''WAVE'') = 4" "length (str_bytes ''fmt '') = 4"
  "length (str_bytes ''data'') = 4"
  by (simp_all add: str_bytes_def)

lemma wav_roundtrip_lemma:
  assumes "ss \<noteq> []" and "list_all (\<lambda>s. - 32768 \<le> s \<and> s < 32768) ss" and "44 + 2 * length ss \<le> MAX_WAV_BYTES"
  shows "parse_wav (wav_bytes ss) =
    Gives \<lparr>wa_samples = map (\<lambda>s. of_int s / 32768) ss, wa_sample_rate = 16000, wa_channels = 1,
           wa_duration_ms = length ss * 1000 div 16000\<rparr>"
proof -
  let ?riff = "str_bytes ''RIFF'' @ nat_le 4 (36 + 2 * length ss) @ str_bytes ''WAVE''"
  let ?fmt = "str_bytes ''fmt '' @ nat_le 4 16 @ wav_fmt_body"
  let ?data = "concat (map i16_le ss)" let ?w = "\<lparr>wf_format_tag = 1, wf_channels = 1, wf_sample_rate = 16000,
    wf_bits_per_sample = 16, wf_data = None, wf_saw_fmt = True\<rparr>"
  have len: "length (wav_bytes ss) = 44 + 2 * length ss" by (simp add: wav_bytes_def)
  have "wav_chunks (wav_bytes ss) 12 wav_start = wav_chunks (wav_bytes ss) 36 ?w"
    by (subst wav_chunk_step [where cid = "str_bytes ''fmt ''" and body = wav_fmt_body and pre = ?riff
          and post = "str_bytes ''data'' @ nat_le 4 (2 * length ss) @ ?data"])
      (simp_all add: wav_bytes_def wav_fmt_chunk)
  also have "\<dots> = wav_chunks (wav_bytes ss) (44 + 2 * length ss) (?w\<lparr>wf_data := Some ?data\<rparr>)"
    using assms(3) by (subst wav_chunk_step [where cid = "str_bytes ''data''" and body = ?data and pre = "?riff @ ?fmt" and post = "[]"])
      (simp_all add: wav_bytes_def wav_chunk_def MAX_WAV_BYTES_def str_bytes_def)
  also have "\<dots> = Gives (?w\<lparr>wf_data := Some ?data\<rparr>)"
    by (subst wav_chunks.simps) (simp add: len)
  finally have c: "wav_chunks (wav_bytes ss) 12 wav_start = Gives (?w\<lparr>wf_data := Some ?data\<rparr>)" .
  have d: "?data \<noteq> []" using assms(1) length_i16s [of ss] by (metis length_0_conv mult_eq_0_iff zero_neq_numeral)
  have "slice (wav_bytes ss) 0 4 = (Gives (str_bytes ''RIFF'') :: byte list srun)"
      "slice (wav_bytes ss) 8 12 = (Gives (str_bytes ''WAVE'') :: byte list srun)"
    by (simp_all add: slice_def len) (simp_all add: wav_bytes_def)
  then have "parse_wav (wav_bytes ss) = decode_pcm (?w\<lparr>wf_data := Some ?data\<rparr>)"
    using c len assms(3) by (simp add: parse_wav_def)
  also have "\<dots> = Gives \<lparr>wa_samples = map (\<lambda>s. of_int s / 32768) ss, wa_sample_rate = 16000, wa_channels = 1,
           wa_duration_ms = length ss * 1000 div 16000\<rparr>"
    using wav_samples_encoded [OF assms(2), of "[]"] assms(1) d
    by (simp add: decode_pcm_def TARGET_SAMPLE_RATE_def)
  finally show ?thesis .
qed

text \<open>C39: a mono recording of up to 128 MiB less the header, written in the canonical layout, is read back exactly: every
  16-bit sample divided by 32768, without any rounding.\<close>

theorem wav_roundtrip:
  assumes "ss \<noteq> []" and "list_all (\<lambda>s. - 32768 \<le> s \<and> s < 32768) ss" and "44 + 2 * length ss \<le> MAX_WAV_BYTES"
  shows "parse_wav (wav_bytes ss) =
    Gives \<lparr>wa_samples = map (\<lambda>s. of_int s / 32768) ss, wa_sample_rate = 16000, wa_channels = 1,
           wa_duration_ms = length ss * 1000 div 16000\<rparr>"
  using assms by (rule wav_roundtrip_lemma)

theorem wav_roundtrip_witness:
  "parse_wav (wav_bytes [0, 16384, - 32768]) =
     Gives \<lparr>wa_samples = [0, 1 / 2, - 1], wa_sample_rate = 16000, wa_channels = 1, wa_duration_ms = 0\<rparr>"
  using wav_roundtrip [of "[0, 16384, - 32768]"] by (simp add: MAX_WAV_BYTES_def)

end
