(* ===== verification/Whisper.thy ===== *)
theory Whisper
  imports Wav Health Update Event
begin

text \<open>
  The speech recognition engine, crate \<open>whisper-stt\<close>: models, loading, the check of the duration, the collection of the
  segments of \<open>whisper.cpp\<close>, and the simulated backend. The library \<open>whisper.cpp\<close> is the parameter \<open>whisper_lib\<close>: what
  its C functions return; the time a call takes, the environment and the file system are arguments.
\<close>

section \<open>Texts of errors\<close>

text \<open>\<open>{:.1}\<close> of a number that is not negative\<close>

definition show_fixed1 :: "rat \<Rightarrow> string" where
  "show_fixed1 x = (let n = nat (round_even (10 * x)) in dec_digits (n div 10) @ ''.'' @ dec_digits (n mod 10))"

fun stt_text :: "stt_error \<Rightarrow> string" where
  "stt_text (SttModelNotFound path url) = ''model file not found: '' @ path @ '' (download from '' @ url @ '')''"
| "stt_text (SttInvalidWav msg) = ''invalid WAV audio: '' @ msg"
| "stt_text (SttModelIncompatible path reason) = ''model incompatible: '' @ path @ '' ('' @ reason @ '')''"
| "stt_text (SttAudioTooLong d m) = ''audio too long: '' @ show_fixed1 d @ ''s exceeds '' @ dec_digits m @ ''s limit''"
| "stt_text SttNotLoaded = ''model not loaded: call load_model() first''"
| "stt_text (SttWhisper msg) = ''whisper.cpp failure: '' @ msg"

section \<open>Models and configuration\<close>

datatype whisper_model = WTiny | WBase | WSmall | WMedium | WLarge

fun whisper_ram_mb :: "whisper_model \<Rightarrow> nat" where
  "whisper_ram_mb WTiny = 256"
| "whisper_ram_mb WBase = 512"
| "whisper_ram_mb WSmall = 1024"
| "whisper_ram_mb WMedium = 3072"
| "whisper_ram_mb WLarge = 5120"

fun whisper_model_url :: "whisper_model \<Rightarrow> string" where
  "whisper_model_url WTiny = ''https://huggingface.co/ggerganov/whisper.cpp/resolve/main/ggml-tiny.bin''"
| "whisper_model_url WBase = ''https://huggingface.co/ggerganov/whisper.cpp/resolve/main/ggml-base.bin''"
| "whisper_model_url WSmall = ''https://huggingface.co/ggerganov/whisper.cpp/resolve/main/ggml-small.bin''"
| "whisper_model_url WMedium = ''https://huggingface.co/ggerganov/whisper.cpp/resolve/main/ggml-medium.bin''"
| "whisper_model_url WLarge = ''https://huggingface.co/ggerganov/whisper.cpp/resolve/main/ggml-large-v3.bin''"

fun whisper_file_tag :: "whisper_model \<Rightarrow> string" where
  "whisper_file_tag WTiny = ''tiny''"
| "whisper_file_tag WBase = ''base''"
| "whisper_file_tag WSmall = ''small''"
| "whisper_file_tag WMedium = ''medium''"
| "whisper_file_tag WLarge = ''large-v3''"

record whisper_config =
  wc_model :: whisper_model
  wc_model_path :: "string option"
  wc_language :: "string option"
  wc_max_duration_sec :: nat

definition whisper_config_default :: whisper_config where
  "whisper_config_default = \<lparr>wc_model = WTiny, wc_model_path = None, wc_language = Some ''fr'', wc_max_duration_sec = 120\<rparr>"

definition recommend_model :: "nat \<Rightarrow> whisper_model" where
  "recommend_model available_ram_mb =
     (if available_ram_mb \<ge> 5120 then WLarge
      else if available_ram_mb \<ge> 3072 then WMedium
      else if available_ram_mb \<ge> 1024 then WSmall
      else if available_ram_mb \<ge> 512 then WBase
      else WTiny)"

text \<open>On Android the content of \<open>/proc/meminfo\<close>, if it can be read.\<close>

datatype ram_source = AndroidMeminfo "string option" | OtherPlatform

fun meminfo_available :: "string list \<Rightarrow> nat" where
  "meminfo_available [] = 2048"
| "meminfo_available (l # ls) =
     (if starts_with l ''MemAvailable:'' then
        (case ws_words (utf8_chars l) of
           _ # val # _ \<Rightarrow> (case parse_below (2 ^ 64) val of Some kb \<Rightarrow> kb div 1024 | None \<Rightarrow> meminfo_available ls)
         | _ \<Rightarrow> meminfo_available ls)
      else meminfo_available ls)"

fun get_available_ram_mb :: "ram_source \<Rightarrow> nat" where
  "get_available_ram_mb (AndroidMeminfo (Some content)) = meminfo_available (split_on (char_of (10 :: nat)) content)"
| "get_available_ram_mb (AndroidMeminfo None) = 2048"
| "get_available_ram_mb OtherPlatform = 4096"

section \<open>The library and its results\<close>

record audio_segment =
  as_text :: string
  as_start_ms :: nat
  as_end_ms :: nat

record transcription =
  wt_text :: string
  wt_confidence :: rat
  wt_segments :: "audio_segment list"
  wt_language :: string
  wt_processing_ms :: nat

record full_params =
  fp_n_threads :: nat
  fp_detect_language :: bool
  fp_language :: "string option"

text \<open>What the getters return after one call of \<open>whisper_full\<close>; \<open>None\<close> is the null pointer.\<close>

record whisper_run =
  wr_code :: int
  wr_n_segments :: int
  wr_segment_text :: "nat \<Rightarrow> byte list option"
  wr_t0 :: "nat \<Rightarrow> int"
  wr_t1 :: "nat \<Rightarrow> int"
  wr_n_tokens :: "nat \<Rightarrow> int"
  wr_token_p :: "nat \<Rightarrow> nat \<Rightarrow> rat"
  wr_lang_id :: int
  wr_lang_str :: "int \<Rightarrow> byte list option"

record whisper_lib =
  wl_init :: "string \<Rightarrow> nat option"
  wl_full :: "nat \<Rightarrow> full_params \<Rightarrow> rat list \<Rightarrow> whisper_run"
  wl_parallelism :: "nat option"

definition has_nul :: "string \<Rightarrow> bool" where
  "has_nul s \<longleftrightarrow> char_of (0 :: nat) \<in> set s"

definition real_load :: "whisper_lib \<Rightarrow> string \<Rightarrow> stt_error + nat" where
  "real_load lib model_path =
     (if has_nul model_path then Inl (SttWhisper ''model path contains a NUL byte'')
      else case wl_init lib model_path of
        None \<Rightarrow> Inl (SttModelIncompatible model_path ''whisper_init_from_file_with_params returned null (not a readable                          whisper GGML model)'')
      | Some ctx \<Rightarrow> Inr ctx)"

definition c_text :: "byte list option \<Rightarrow> string" where
  "c_text p = (case p of None \<Rightarrow> [] | Some b \<Rightarrow> bytes_str (utf8_lossy b))"

definition segment_of :: "whisper_run \<Rightarrow> nat \<Rightarrow> audio_segment" where
  "segment_of r i = \<lparr>as_text = trim_ws (c_text (wr_segment_text r i)), as_start_ms = nat (max (wr_t0 r i) 0) div 10,
     as_end_ms = nat (max (wr_t1 r i) 0) div 10\<rparr>"

text \<open>The probabilities of the tokens, in the order in which they are added up in \<open>f64\<close>.\<close>

definition token_probs :: "whisper_run \<Rightarrow> nat \<Rightarrow> rat list" where
  "token_probs r n = concat (map (\<lambda>i. map (wr_token_p r i) [0..<nat (max (wr_n_tokens r i) 0)]) [0..<n])"

definition confidence_of :: "rat list \<Rightarrow> rat" where
  "confidence_of ps =
     (if ps = [] then 0
      else f32 (max 0 (min 1 (f64 (foldl (\<lambda>s p. f64 (s + p)) 0 ps / f64 (of_nat (length ps)))))))"

definition detected_language :: "whisper_run \<Rightarrow> string" where
  "detected_language r =
     (if wr_lang_id r \<ge> 0 then (case wr_lang_str r (wr_lang_id r) of None \<Rightarrow> ''auto'' | Some b \<Rightarrow> bytes_str (utf8_lossy b))
      else ''auto'')"

definition real_transcribe :: "whisper_lib \<Rightarrow> nat \<Rightarrow> nat \<Rightarrow> rat list \<Rightarrow> string option \<Rightarrow> transcription srun" where
  "real_transcribe lib elapsed ctx samples language =
     (if samples = [] then Fails (SttInvalidWav ''no audio samples to transcribe'')
      else if (case language of Some l \<Rightarrow> has_nul l | None \<Rightarrow> False)
      then Fails (SttWhisper ''language tag contains a NUL byte'')
      else
        let params = \<lparr>fp_n_threads = max 1 (case wl_parallelism lib of Some n \<Rightarrow> n | None \<Rightarrow> 1),
              fp_detect_language = (language = None), fp_language = language\<rparr>;
            r = wl_full lib ctx params samples in
        if wr_code r \<noteq> 0 then Fails (SttWhisper (''whisper_full failed with code '' @ show_int (wr_code r)))
        else if wr_n_segments r < 0
        then Fails (SttWhisper (''whisper_full_n_segments returned '' @ show_int (wr_n_segments r)))
        else
          let n = nat (wr_n_segments r) in
          Gives \<lparr>wt_text = concat (map (\<lambda>i. c_text (wr_segment_text r i)) [0..<n]),
                 wt_confidence = confidence_of (token_probs r n), wt_segments = map (segment_of r) [0..<n],
                 wt_language = detected_language r, wt_processing_ms = elapsed\<rparr>)"

section \<open>The engine\<close>

text \<open>The cargo features: \<open>whisper-cpp\<close>, else \<open>mock\<close>, else none.\<close>

datatype stt_backend = RealBackend | MockBackend | NoBackend

record whisper_engine =
  we_config :: whisper_config
  we_loaded :: bool
  we_ctx :: "nat option"

definition whisper_new :: "ram_source \<Rightarrow> whisper_config \<Rightarrow> string + whisper_engine" where
  "whisper_new ram config =
     (let available_mb = get_available_ram_mb ram; needed = whisper_ram_mb (wc_model config) in
      if needed > available_mb
      then Inl (''Insufficient RAM: model requires '' @ dec_digits needed @ ''MB, only '' @ dec_digits available_mb
                @ ''MB available'')
      else Inr \<lparr>we_config = config, we_loaded = False, we_ctx = None\<rparr>)"

definition resolve_model_path :: "string option \<Rightarrow> whisper_config \<Rightarrow> string" where
  "resolve_model_path home config =
     (case wc_model_path config of
        Some p \<Rightarrow> p
      | None \<Rightarrow> (case home of Some h \<Rightarrow> h | None \<Rightarrow> ''.'') @ ''/.local/share/onde/models/ggml-''
          @ whisper_file_tag (wc_model config) @ ''.bin'')"

definition load_model_real ::
    "whisper_lib \<Rightarrow> (string \<Rightarrow> bool) \<Rightarrow> string option \<Rightarrow> whisper_engine \<Rightarrow> (string + unit) \<times> whisper_engine" where
  "load_model_real lib exists home eng =
     (let path = resolve_model_path home (we_config eng) in
      if \<not> exists path
      then (Inl (stt_text (SttModelNotFound path (whisper_model_url (wc_model (we_config eng))))), eng)
      else case real_load lib path of
        Inr ctx \<Rightarrow> (Inr (), eng\<lparr>we_ctx := Some ctx, we_loaded := True\<rparr>)
      | Inl e \<Rightarrow> (Inl (stt_text e), eng))"

definition load_model ::
    "stt_backend \<Rightarrow> whisper_lib \<Rightarrow> (string \<Rightarrow> bool) \<Rightarrow> string option \<Rightarrow> whisper_engine \<Rightarrow> (string + unit) \<times> whisper_engine" where
  "load_model backend lib exists home eng =
     (case backend of
        RealBackend \<Rightarrow> load_model_real lib exists home eng
      | MockBackend \<Rightarrow> (Inr (), eng\<lparr>we_loaded := True\<rparr>)
      | NoBackend \<Rightarrow>
          (Inl ''No STT backend compiled: enable the `mock` (default) or `whisper-cpp` feature.'', eng))"

definition MOCK_TEXT :: string where "MOCK_TEXT = ''Ceci est une transcription de test du moteur vocal ONDE.''"

definition transcribe_mock :: transcription where
  "transcribe_mock = \<lparr>wt_text = MOCK_TEXT, wt_confidence = f32 (92 / 100),
     wt_segments = [\<lparr>as_text = MOCK_TEXT, as_start_ms = 0, as_end_ms = 3000\<rparr>], wt_language = ''fr'',
     wt_processing_ms = 150\<rparr>"

definition transcribe_f32 :: "whisper_lib \<Rightarrow> nat \<Rightarrow> whisper_engine \<Rightarrow> rat list \<Rightarrow> transcription srun" where
  "transcribe_f32 lib elapsed eng samples =
     (case we_ctx eng of
        None \<Rightarrow> Fails SttNotLoaded
      | Some ctx \<Rightarrow> real_transcribe lib elapsed ctx samples (wc_language (we_config eng)))"

definition transcribe_real ::
    "whisper_lib \<Rightarrow> nat \<Rightarrow> whisper_engine \<Rightarrow> int list \<Rightarrow> nat \<Rightarrow> transcription srun" where
  "transcribe_real lib elapsed eng audio_data sample_rate =
     (if sample_rate \<noteq> TARGET_SAMPLE_RATE
      then Fails (SttInvalidWav (''unsupported sample rate '' @ dec_digits sample_rate @ '' Hz (''
             @ dec_digits TARGET_SAMPLE_RATE @ '' Hz required)''))
      else
        let duration_sec = f32 (f32 (of_nat (length audio_data)) / f32 (of_nat sample_rate));
            limit = wc_max_duration_sec (we_config eng) in
        if duration_sec > f32 (of_nat limit) then Fails (SttAudioTooLong duration_sec limit)
        else transcribe_f32 lib elapsed eng (map (\<lambda>s. f32 (f32 (of_int s) / 32768)) audio_data))"

definition whisper_transcribe ::
    "stt_backend \<Rightarrow> whisper_lib \<Rightarrow> nat \<Rightarrow> whisper_engine \<Rightarrow> int list \<Rightarrow> nat \<Rightarrow> (string, transcription) run" where
  "whisper_transcribe backend lib elapsed eng audio_data sample_rate =
     (if \<not> we_loaded eng then Fails ''Model not loaded. Call load_model() first.''
      else if backend = RealBackend then
        (case transcribe_real lib elapsed eng audio_data sample_rate of
           Gives t \<Rightarrow> Gives t | Fails e \<Rightarrow> Fails (stt_text e) | Crash \<Rightarrow> Crash)
      else Gives transcribe_mock)"

definition transcribe_wav ::
    "stt_backend \<Rightarrow> whisper_lib \<Rightarrow> nat \<Rightarrow> whisper_engine \<Rightarrow> byte list \<Rightarrow> transcription srun" where
  "transcribe_wav backend lib elapsed eng wav =
     run_bind (parse_wav wav) (\<lambda>audio.
       if backend = RealBackend then transcribe_f32 lib elapsed eng (wa_samples audio) else Gives transcribe_mock)"

section \<open>Results and limits\<close>

lemma confidence_range: "0 \<le> confidence_of ps \<and> confidence_of ps \<le> 1"
proof -
  have "0 \<le> f32 x \<and> f32 x \<le> 1" if "0 \<le> x" "x \<le> 1" for x
    using f32_mono [OF that(1)] f32_mono [OF that(2)] f32_int [of 1] by simp
  then show ?thesis by (auto simp: confidence_of_def)
qed

lemma real_transcribe_result:
  assumes "real_transcribe lib elapsed ctx samples language = Gives t"
  shows "0 \<le> wt_confidence t \<and> wt_confidence t \<le> 1 \<and> samples \<noteq> [] \<and> wt_processing_ms t = elapsed"
  using assms confidence_range by (auto simp: real_transcribe_def Let_def split: if_splits)

lemma f32_seconds:
  assumes "16000 * (limit + 1) \<le> n" and "limit \<le> 1000"
  shows "f32 (of_nat limit) < f32 (f32 (of_nat n) / f32 16000)"
proof -
  have i: "f32 (of_nat k) = of_nat k" if "k < 2 ^ 24" for k using f32_int [of "int k"] that by simp
  have "of_nat (16000 * (limit + 1)) = f32 (of_nat (16000 * (limit + 1)))" using i [of "16000 * (limit + 1)"] assms(2) by simp
  also have "\<dots> \<le> f32 (of_nat n)" using assms(1) by (intro f32_mono) (simp only: of_nat_le_iff)
  finally have "of_nat (limit + 1) \<le> f32 (of_nat n) / 16000" by (simp add: field_simps)
  then have "f32 (of_nat (limit + 1)) \<le> f32 (f32 (of_nat n) / 16000)" by (rule f32_mono)
  moreover have "f32 16000 = 16000" using i [of 16000] by simp
  ultimately show ?thesis using i [of limit] i [of "limit + 1"] assms(2) by simp
qed

lemma sample_f32: "list_all (\<lambda>s. - 32768 \<le> s \<and> s < 32768) ss \<Longrightarrow>
    map (\<lambda>s. f32 (f32 (of_int s) / 32768)) ss = map (\<lambda>s. of_int s / 32768) ss"
proof (induction ss)
  case (Cons s ss)
  then have "\<bar>s\<bar> < 2 ^ 24" by (simp add: abs_less_iff)
  then have "f32 (of_int s) = of_int s" "f32 (of_int s / 2 ^ 15) = of_int s / 2 ^ 15" by (simp_all only: f32_int f32_dyadic)
  then show ?case using Cons by simp
qed simp

text \<open>C40: the limit on the duration guards only raw samples: a recording longer than the limit is refused as samples and
  handed to the decoder in full when the same samples arrive as a WAV file.\<close>

theorem wav_skips_limit:
  assumes "we_loaded eng" and "we_ctx eng = Some ctx" and "wc_max_duration_sec (we_config eng) \<le> 1000"
    and "16000 * (wc_max_duration_sec (we_config eng) + 1) \<le> length ss"
    and "list_all (\<lambda>s. - 32768 \<le> s \<and> s < 32768) ss" and "44 + 2 * length ss \<le> MAX_WAV_BYTES"
  shows "(\<exists>d. whisper_transcribe RealBackend lib elapsed eng ss 16000 =
      Fails (stt_text (SttAudioTooLong d (wc_max_duration_sec (we_config eng)))))
    \<and> transcribe_wav RealBackend lib elapsed eng (wav_bytes ss) =
      real_transcribe lib elapsed ctx (map (\<lambda>s. of_int s / 32768) ss) (wc_language (we_config eng))"
proof -
  have "ss \<noteq> []" using assms(4) by auto
  then have "transcribe_wav RealBackend lib elapsed eng (wav_bytes ss) =
      real_transcribe lib elapsed ctx (map (\<lambda>s. of_int s / 32768) ss) (wc_language (we_config eng))"
    using wav_roundtrip_lemma [OF _ assms(5,6)] assms(2) by (simp add: transcribe_wav_def transcribe_f32_def)
  moreover have "transcribe_real lib elapsed eng ss 16000 =
      Fails (SttAudioTooLong (f32 (f32 (of_nat (length ss)) / f32 16000)) (wc_max_duration_sec (we_config eng)))"
    using f32_seconds [OF assms(4,3)] by (simp add: transcribe_real_def TARGET_SAMPLE_RATE_def Let_def)
  ultimately show ?thesis using assms(1) by (auto simp: whisper_transcribe_def)
qed

text \<open>Two minutes and a second of silence, with the default limit.\<close>

theorem wav_skips_limit_witness:
  "let eng = \<lparr>we_config = whisper_config_default, we_loaded = True, we_ctx = Some 0\<rparr>; ss = replicate 1936000 0;
       lib = \<lparr>wl_init = (\<lambda>_. Some 0), wl_full = (\<lambda>_ _ _. \<lparr>wr_code = 0, wr_n_segments = 0, wr_segment_text = (\<lambda>_. None),
         wr_t0 = (\<lambda>_. 0), wr_t1 = (\<lambda>_. 0), wr_n_tokens = (\<lambda>_. 0), wr_token_p = (\<lambda>_ _. 0), wr_lang_id = 0,
         wr_lang_str = (\<lambda>_. None)\<rparr>), wl_parallelism = None\<rparr>
   in (\<exists>d. whisper_transcribe RealBackend lib 5 eng ss 16000 = Fails (stt_text (SttAudioTooLong d 120)))
     \<and> transcribe_wav RealBackend lib 5 eng (wav_bytes ss) = real_transcribe lib 5 0 (map (\<lambda>s. of_int s / 32768) ss) (Some ''fr'')"
  unfolding Let_def
  using wav_skips_limit [of "\<lparr>we_config = whisper_config_default, we_loaded = True, we_ctx = Some 0\<rparr>" 0 "replicate 1936000 0"]
  by (simp add: whisper_config_default_def MAX_WAV_BYTES_def list_all_iff)

end
