(* ===== verification/Llama.thy ===== *)
theory Llama
  imports Run F64 Update
begin

text \<open>
  The language model binding, crate \<open>llama-bind\<close>: the choice of a quantised model, the guard of the context window, stop
  sequences, and the generation loop around \<open>llama.cpp\<close>. The library is the parameter \<open>llama_lib\<close>; what it has decoded so
  far is the state of the context, and its answers may depend on all of it. The time a call takes is an argument.
\<close>

section \<open>Models\<close>

datatype quantization = Q2K | Q3K | Q4K | Q5K | Q6K | Q8_0 | F16 | F32

fun ram_per_billion_params :: "quantization \<Rightarrow> nat" where
  "ram_per_billion_params Q2K = 450"
| "ram_per_billion_params Q3K = 550"
| "ram_per_billion_params Q4K = 650"
| "ram_per_billion_params Q5K = 800"
| "ram_per_billion_params Q6K = 950"
| "ram_per_billion_params Q8_0 = 1300"
| "ram_per_billion_params F16 = 2200"
| "ram_per_billion_params F32 = 4400"

fun quant_suffix :: "quantization \<Rightarrow> string" where
  "quant_suffix Q2K = ''q2_k.gguf''"
| "quant_suffix Q3K = ''q3_k_m.gguf''"
| "quant_suffix Q4K = ''q4_k_m.gguf''"
| "quant_suffix Q5K = ''q5_k_m.gguf''"
| "quant_suffix Q6K = ''q6_k.gguf''"
| "quant_suffix Q8_0 = ''q8_0.gguf''"
| "quant_suffix F16 = ''fp16.gguf''"
| "quant_suffix F32 = ''fp32.gguf''"

datatype model_arch = Qwen2_5 | Phi3 | TinyLlama | Gemma2 | Llama3_2 | SmolLM

record gguf_model =
  gm_model_id :: string
  gm_quant :: quantization
  gm_arch :: model_arch
  gm_params_b :: rat
  gm_ram_mb :: nat

definition qwen_0_5b :: "quantization \<Rightarrow> gguf_model" where
  "qwen_0_5b q = \<lparr>gm_model_id = ''Qwen/Qwen2.5-0.5B-Instruct-GGUF'', gm_quant = q, gm_arch = Qwen2_5, gm_params_b = 1 / 2,
     gm_ram_mb = ram_per_billion_params q * 500 div 1000\<rparr>"

definition qwen_1_5b :: "quantization \<Rightarrow> gguf_model" where
  "qwen_1_5b q = \<lparr>gm_model_id = ''Qwen/Qwen2.5-1.5B-Instruct-GGUF'', gm_quant = q, gm_arch = Qwen2_5, gm_params_b = 3 / 2,
     gm_ram_mb = ram_per_billion_params q * 1500 div 1000\<rparr>"

definition qwen_3b :: "quantization \<Rightarrow> gguf_model" where
  "qwen_3b q = \<lparr>gm_model_id = ''bartowski/Qwen2.5-3B-Instruct-GGUF'', gm_quant = q, gm_arch = Qwen2_5, gm_params_b = 3,
     gm_ram_mb = ram_per_billion_params q * 3000 div 1000\<rparr>"

definition qwen_7b :: "quantization \<Rightarrow> gguf_model" where
  "qwen_7b q = \<lparr>gm_model_id = ''bartowski/Qwen2.5-7B-Instruct-GGUF'', gm_quant = q, gm_arch = Qwen2_5, gm_params_b = 7,
     gm_ram_mb = ram_per_billion_params q * 7000 div 1000\<rparr>"

definition smol_360m :: "quantization \<Rightarrow> gguf_model" where
  "smol_360m q = \<lparr>gm_model_id = ''HuggingFaceTB/SmolLM-360M-Instruct-GGUF'', gm_quant = q, gm_arch = SmolLM,
     gm_params_b = f32 (36 / 100), gm_ram_mb = ram_per_billion_params q * 360 div 1000\<rparr>"

definition qwen_for_ram :: "nat \<Rightarrow> gguf_model" where
  "qwen_for_ram mb =
     (if mb \<ge> 5120 then qwen_7b Q4K
      else if mb \<ge> 2048 then qwen_3b Q4K
      else if mb \<ge> 1024 then qwen_1_5b Q4K
      else qwen_0_5b Q4K)"

definition download_url :: "gguf_model \<Rightarrow> string" where
  "download_url m = ''https://huggingface.co/'' @ gm_model_id m @ ''/resolve/main/''
     @ last (split_on CHR ''/'' (gm_model_id m)) @ ''.gguf''"

record generation_config =
  gc_max_tokens :: nat
  gc_temperature :: rat
  gc_top_k :: nat
  gc_top_p :: rat
  gc_repeat_penalty :: rat
  gc_stop_tokens :: "string list"

definition generation_config_default :: generation_config where
  "generation_config_default = \<lparr>gc_max_tokens = 256, gc_temperature = f32 (7 / 10), gc_top_k = 40, gc_top_p = f32 (9 / 10),
     gc_repeat_penalty = f32 (11 / 10), gc_stop_tokens = [''<|im_end|>'', ''<|endoftext|>'']\<rparr>"

section \<open>Guards\<close>

definition REPEAT_PENALTY_WINDOW :: nat where "REPEAT_PENALTY_WINDOW = 64"

definition penalty_window :: "int list \<Rightarrow> nat \<Rightarrow> int list" where
  "penalty_window tokens window = drop (length tokens - window) tokens"

datatype llama_error = LlText string | LlInvalidUtf8

definition check_context_fit :: "nat \<Rightarrow> nat \<Rightarrow> nat \<Rightarrow> (llama_error, unit) run" where
  "check_context_fit n_prompt max_tokens n_ctx =
     (let err = LlText (''context overflow: prompt ('' @ dec_digits n_prompt @ '' tokens) + max_tokens (''
            @ dec_digits max_tokens @ '') exceeds n_ctx ('' @ dec_digits n_ctx @ '') '' @ map char_of [0xE2, 0x80, 0x94 :: nat]
            @ '' reduce the prompt or max_tokens'') in
      if n_prompt + max_tokens \<ge> 2 ^ 64 then Fails err
      else if n_prompt + max_tokens > n_ctx then Fails err
      else Gives ())"

definition decode_token_pieces :: "byte list \<Rightarrow> (llama_error, string) run" where
  "decode_token_pieces bytes = (if utf8_valid bytes then Gives (bytes_str bytes) else Fails LlInvalidUtf8)"

text \<open>\<open>windows(n)\<close> of a slice, for a positive \<open>n\<close>\<close>

definition windows_of :: "nat \<Rightarrow> byte list \<Rightarrow> byte list list" where
  "windows_of n bytes = map (\<lambda>i. take n (drop i bytes)) [0..<length bytes + 1 - n]"

definition contains_stop_sequence :: "byte list \<Rightarrow> string list \<Rightarrow> bool" where
  "contains_stop_sequence bytes stop_tokens =
     list_ex (\<lambda>s. list_ex (\<lambda>w. w = str_bytes s) (windows_of (length s) bytes))
       (filter (\<lambda>s. s \<noteq> [] \<and> length s \<le> length bytes) stop_tokens)"

section \<open>The library\<close>

text \<open>A batch is a list of tokens with their positions and the flag for logits.\<close>

type_synonym llama_batch = "(int \<times> int \<times> bool) list"

record llama_lib =
  ll_load_model :: "string \<Rightarrow> nat option"
  ll_new_context :: "nat \<Rightarrow> nat option"
  ll_n_ctx :: nat
  ll_tokenize :: "string \<Rightarrow> nat \<Rightarrow> int \<times> int list"
  ll_decode :: "llama_batch list \<Rightarrow> llama_batch \<Rightarrow> int"
  ll_sample :: "llama_batch list \<Rightarrow> int \<Rightarrow> int list option \<Rightarrow> generation_config \<Rightarrow> int"
  ll_eos :: int
  ll_piece :: "int \<Rightarrow> int \<times> byte list"

record llama_context =
  lc_model :: gguf_model
  lc_config :: generation_config
  lc_loaded :: bool
  lc_ctx :: "nat option"
  lc_decoded :: "llama_batch list"

record generation_result =
  gr_text :: string
  gr_n_tokens :: nat
  gr_gen_time_ms :: nat
  gr_tokens_per_sec :: rat
  gr_prompt_tokens :: nat
  gr_peak_mem_mb :: nat

definition llama_new :: "gguf_model \<Rightarrow> generation_config \<Rightarrow> llama_context" where
  "llama_new model config = \<lparr>lc_model = model, lc_config = config, lc_loaded = False, lc_ctx = None, lc_decoded = []\<rparr>"

text \<open>\<open>None\<close> for the library is the build without the feature \<open>llama-cpp\<close>.\<close>

definition llama_load :: "llama_lib option \<Rightarrow> string \<Rightarrow> llama_context \<Rightarrow> (string + unit) \<times> llama_context" where
  "llama_load lib_o model_path c =
     (case lib_o of
        None \<Rightarrow> (Inr (), c\<lparr>lc_loaded := True\<rparr>)
      | Some lib \<Rightarrow>
          if char_of (0 :: nat) \<in> set model_path then (Inl ''Invalid model path (embedded NUL byte)'', c)
          else case ll_load_model lib model_path of
            None \<Rightarrow> (Inl (''Failed to load GGUF model from: '' @ model_path), c)
          | Some m \<Rightarrow>
              (case ll_new_context lib m of
                 None \<Rightarrow> (Inl (''Failed to create llama context for: '' @ model_path), c)
               | Some x \<Rightarrow> (Inr (), c\<lparr>lc_ctx := Some x, lc_decoded := [], lc_loaded := True\<rparr>)))"

section \<open>Generation\<close>

definition prompt_batch :: "int list \<Rightarrow> llama_batch" where
  "prompt_batch toks = map (\<lambda>i. (toks ! i, int i, i + 1 = length toks)) [0..<length toks]"

text \<open>The bytes, the number of generated tokens and what the library has decoded, from the state of the loop.\<close>

fun sampling_loop ::
    "llama_lib \<Rightarrow> generation_config \<Rightarrow> int \<Rightarrow> nat \<Rightarrow> llama_batch list \<Rightarrow> int list \<Rightarrow> byte list \<Rightarrow> nat
      \<Rightarrow> (llama_error, byte list \<times> nat) run \<times> llama_batch list" where
  "sampling_loop lib cfg n_prompt 0 decoded recent text_bytes n = (Gives (text_bytes, n), decoded)"
| "sampling_loop lib cfg n_prompt (Suc k) decoded recent text_bytes n =
     (let logits_idx = (if n = 0 then n_prompt - 1 else 0);
          window = (if gc_repeat_penalty cfg \<noteq> 1 then Some (penalty_window recent REPEAT_PENALTY_WINDOW) else None);
          token = ll_sample lib decoded logits_idx window cfg in
      if token = ll_eos lib then (Gives (text_bytes, n), decoded)
      else case ll_piece lib token of (n_piece, buf) \<Rightarrow>
        if n_piece < 0
        then (Fails (LlText ''Failed to detokenize a generated token (invalid UTF-8)''), decoded)
        else case slice buf 0 (nat n_piece) of
          Crash \<Rightarrow> (Crash, decoded)
        | Fails e \<Rightarrow> (Fails e, decoded)
        | Gives piece \<Rightarrow>
            (let text_bytes' = text_bytes @ piece in
             if contains_stop_sequence text_bytes' (gc_stop_tokens cfg) then (Gives (text_bytes', n), decoded)
             else
               let batch = [(token, n_prompt + int (n + 1) - 1, True)]; rc = ll_decode lib decoded batch in
               if rc \<noteq> 0
               then (Fails (LlText (''llama_decode failed (token '' @ dec_digits (n + 1) @ '') with code '' @ show_int rc)),
                     decoded @ [batch])
               else sampling_loop lib cfg n_prompt k (decoded @ [batch]) (recent @ [token]) text_bytes' (n + 1)))"

definition real_generate ::
    "llama_lib \<Rightarrow> nat \<Rightarrow> string \<Rightarrow> llama_context \<Rightarrow> (llama_error, generation_result) run \<times> llama_context" where
  "real_generate lib gen_time_ms prompt c =
     (if char_of (0 :: nat) \<in> set prompt then (Fails (LlText ''Prompt contains an embedded NUL byte''), c)
      else
        let n_ctx = ll_n_ctx lib in
        case ll_tokenize lib prompt n_ctx of (n_prompt, buf) \<Rightarrow>
          if n_prompt < 0 then (Fails (LlText ''Prompt too long for the context window''), c)
          else case check_context_fit (nat n_prompt) (gc_max_tokens (lc_config c)) n_ctx of
            Crash \<Rightarrow> (Crash, c)
          | Fails e \<Rightarrow> (Fails e, c)
          | Gives _ \<Rightarrow>
              if nat n_prompt > length buf then (Crash, c)
              else
                let toks = take (nat n_prompt) buf; batch = prompt_batch toks; rc = ll_decode lib (lc_decoded c) batch;
                    c1 = c\<lparr>lc_decoded := lc_decoded c @ [batch]\<rparr> in
                if rc \<noteq> 0 then (Fails (LlText (''llama_decode failed (prompt) with code '' @ show_int rc)), c1)
                else case sampling_loop lib (lc_config c) n_prompt (gc_max_tokens (lc_config c)) (lc_decoded c1) toks [] 0 of
                  (Crash, d) \<Rightarrow> (Crash, c\<lparr>lc_decoded := d\<rparr>)
                | (Fails e, d) \<Rightarrow> (Fails e, c\<lparr>lc_decoded := d\<rparr>)
                | (Gives (text_bytes, n), d) \<Rightarrow>
                    (run_bind (decode_token_pieces text_bytes) (\<lambda>text.
                       Gives \<lparr>gr_text = text, gr_n_tokens = n, gr_gen_time_ms = gen_time_ms,
                         gr_tokens_per_sec = (if gen_time_ms > 0
                           then f32 (f32 (f32 (of_nat n) * 1000) / f32 (of_nat gen_time_ms)) else f32 (of_nat n)),
                         gr_prompt_tokens = nat n_prompt, gr_peak_mem_mb = gm_ram_mb (lc_model c)\<rparr>),
                     c\<lparr>lc_decoded := d\<rparr>))"

definition mock_responses :: "string list" where
  "mock_responses =
    [''La RCP (Reanimation Cardio-Pulmonaire) consiste a appliquer des compressions thoraciques altern''
       @ map char_of [195, 169 :: nat]
       @ ''es avec des insufflations. Pour un adulte : 30 compressions pour 2 insufflations, a une fr''
       @ map char_of [195, 169 :: nat]
       @ ''quence de 100-120 compressions par minute. Appeler les secours (15 ou 112) imm''
       @ map char_of [195, 169 :: nat]
       @ ''diatement.'',
     ''En cas d'h''
       @ map char_of [195, 169 :: nat]
       @ ''morragie : 1) Allonger la victime 2) Appuyer fortement sur la plaie avec un tissu propre 3) Faire un pansement compressif 4) Alerter les secours (15, 112). Ne jamais retirer le premier pansement compressif.'',
     ''Le triangle de Pythagore : Dans un triangle rectangle, a''
       @ map char_of [194, 178 :: nat]
       @ '' + b''
       @ map char_of [194, 178 :: nat]
       @ '' = c''
       @ map char_of [194, 178 :: nat]
       @ ''. Le c''
       @ map char_of [195, 180 :: nat]
       @ ''t''
       @ map char_of [195, 169 :: nat]
       @ '' c est l'hypot''
       @ map char_of [195, 169 :: nat]
       @ ''nuse (le plus long c''
       @ map char_of [195, 180 :: nat]
       @ ''t''
       @ map char_of [195, 169 :: nat]
       @ '', oppos''
       @ map char_of [195, 169 :: nat]
       @ '' ''
       @ map char_of [195, 160 :: nat]
       @ '' l'angle droit). Exemple pratique : si a=3 et b=4, alors c=5.'']"

definition mock_generate :: "string \<Rightarrow> llama_context \<Rightarrow> generation_result" where
  "mock_generate prompt c =
     (let text = mock_responses ! (length prompt mod length mock_responses) in
      \<lparr>gr_text = text, gr_n_tokens = length text div 4, gr_gen_time_ms = 200, gr_tokens_per_sec = 45,
       gr_prompt_tokens = length prompt mod 2 ^ 32 div 4, gr_peak_mem_mb = gm_ram_mb (lc_model c)\<rparr>)"

definition llama_generate ::
    "llama_lib option \<Rightarrow> nat \<Rightarrow> string \<Rightarrow> llama_context \<Rightarrow> (llama_error, generation_result) run \<times> llama_context" where
  "llama_generate lib_o gen_time_ms prompt c =
     (if \<not> lc_loaded c then (Fails (LlText ''Model not loaded.''), c)
      else case lib_o of
        Some lib \<Rightarrow> real_generate lib gen_time_ms prompt c
      | None \<Rightarrow> (Gives (mock_generate prompt c), c))"

section \<open>Properties\<close>

text \<open>The byte windows find a stop sequence exactly where it is a substring.\<close>

lemma window_iff: "n \<noteq> 0 \<Longrightarrow> w \<in> set (windows_of n bytes) \<longleftrightarrow> length w = n \<and> sublist w bytes"
proof
  assume "n \<noteq> 0" "w \<in> set (windows_of n bytes)"
  then obtain i where "i < length bytes + 1 - n" and w: "w = take n (drop i bytes)" by (auto simp: windows_of_def)
  then have i: "i + n \<le> length bytes" "w = take n (drop i bytes)" by simp_all
  then have "bytes = take i bytes @ w @ drop (i + n) bytes"
    by (metis append_take_drop_id drop_drop add.commute)
  then have "sublist w bytes" unfolding sublist_def by blast
  then show "length w = n \<and> sublist w bytes" using i by simp
next
  assume n: "n \<noteq> 0" and w: "length w = n \<and> sublist w bytes"
  then obtain ps ss where "bytes = ps @ w @ ss" by (auto simp: sublist_def)
  then have "length ps < length bytes + 1 - n" "w = take n (drop (length ps) bytes)" using w n by auto
  then show "w \<in> set (windows_of n bytes)" unfolding windows_of_def by (auto intro!: image_eqI [where x = "length ps"])
qed

lemma stop_sequence_iff:
  "contains_stop_sequence bytes stops \<longleftrightarrow> (\<exists>s\<in>set stops. s \<noteq> [] \<and> sublist (str_bytes s) bytes)"
proof -
  have "list_ex (\<lambda>w. w = str_bytes s) (windows_of (length s) bytes) \<longleftrightarrow> sublist (str_bytes s) bytes" if "s \<noteq> []" for s
    using that window_iff [of "length s" "str_bytes s" bytes] by (auto simp: list_ex_iff str_bytes_def)
  moreover have "sublist (str_bytes s) bytes \<Longrightarrow> length s \<le> length bytes" for s
    using sublist_length_le [of "str_bytes s" bytes] by (simp add: str_bytes_def)
  ultimately show ?thesis by (auto simp: contains_stop_sequence_def list_ex_iff)
qed

lemma qwen_fits: "325 \<le> mb \<Longrightarrow> gm_ram_mb (qwen_for_ram mb) \<le> mb"
  by (simp add: qwen_for_ram_def qwen_0_5b_def qwen_1_5b_def qwen_3b_def qwen_7b_def)

definition positions_within :: "int \<Rightarrow> int \<Rightarrow> llama_batch list \<Rightarrow> bool" where
  "positions_within lo hi bs \<longleftrightarrow> list_all (list_all (\<lambda>(t, p, f). lo \<le> p \<and> p < hi)) bs"

lemma positions_within_simps [simp]:
  "positions_within lo hi []" "positions_within lo hi (b # bs) \<longleftrightarrow> list_all (\<lambda>(t, p, f). lo \<le> p \<and> p < hi) b \<and> positions_within lo hi bs"
  by (simp_all add: positions_within_def)

lemma positions_within_mono: "positions_within lo hi bs \<Longrightarrow> lo' \<le> lo \<Longrightarrow> hi \<le> hi' \<Longrightarrow> positions_within lo' hi' bs"
  unfolding positions_within_def by (fastforce elim!: list.pred_mono_strong)

definition honest_pieces :: "llama_lib \<Rightarrow> bool" where
  "honest_pieces lib \<longleftrightarrow> (\<forall>t. fst (ll_piece lib t) \<le> int (length (snd (ll_piece lib t))))"

definition honest_tokens :: "llama_lib \<Rightarrow> bool" where
  "honest_tokens lib \<longleftrightarrow>
     (\<forall>p. fst (ll_tokenize lib p (ll_n_ctx lib)) \<le> int (length (snd (ll_tokenize lib p (ll_n_ctx lib)))))"

lemma sampling_loop_spec:
  assumes "honest_pieces lib"
  shows "\<exists>new. snd (sampling_loop lib cfg np k dec rec bytes n) = dec @ new \<and> positions_within (np + int n) (np + int (n + k)) new
    \<and> safe (fst (sampling_loop lib cfg np k dec rec bytes n)) (\<lambda>(t, m). m \<le> n + k)"
proof (induction k arbitrary: dec rec bytes n)
  case (Suc k)
  define token where "token = ll_sample lib dec (if n = 0 then np - 1 else 0)
    (if gc_repeat_penalty cfg \<noteq> 1 then Some (penalty_window rec REPEAT_PENALTY_WINDOW) else None) cfg"
  obtain n_piece buf where pb: "ll_piece lib token = (n_piece, buf)" by fastforce
  have "n_piece \<le> int (length buf)" using assms pb by (auto simp: honest_pieces_def dest: spec [of _ token])
  then have s: "slice buf 0 (nat n_piece) = (Gives (take (nat n_piece) buf) :: (llama_error, byte list) run)"
    by (simp add: slice_def)
  let ?b = "[(token, np + int (n + 1) - 1, True)]" let ?t = "bytes @ take (nat n_piece) buf"
  obtain new where new: "snd (sampling_loop lib cfg np k (dec @ [?b]) (rec @ [token]) ?t (n + 1)) = (dec @ [?b]) @ new"
    "positions_within (np + int (n + 1)) (np + int (n + 1 + k)) new"
    "safe (fst (sampling_loop lib cfg np k (dec @ [?b]) (rec @ [token]) ?t (n + 1))) (\<lambda>(t, m). m \<le> n + 1 + k)"
    using Suc.IH [of "dec @ [?b]" "rec @ [token]" ?t "n + 1"] by blast
  have p: "positions_within (np + int n) (np + int (n + Suc k)) (?b # new)"
    using positions_within_mono [OF new(2), of "np + int n" "np + int (n + Suc k)"] by simp
  have step: "sampling_loop lib cfg np (Suc k) dec rec bytes n =
     (if token = ll_eos lib then (Gives (bytes, n), dec)
      else if n_piece < 0 then (Fails (LlText ''Failed to detokenize a generated token (invalid UTF-8)''), dec)
      else if contains_stop_sequence ?t (gc_stop_tokens cfg) then (Gives (?t, n), dec)
      else if ll_decode lib dec ?b \<noteq> 0
        then (Fails (LlText (''llama_decode failed (token '' @ dec_digits (n + 1) @ '') with code '' @ show_int (ll_decode lib dec ?b))),
              dec @ [?b])
      else sampling_loop lib cfg np k (dec @ [?b]) (rec @ [token]) ?t (n + 1))"
    by (simp add: Let_def pb s flip: token_def)
  consider "token = ll_eos lib \<or> n_piece < 0 \<or> contains_stop_sequence ?t (gc_stop_tokens cfg)"
    | "token \<noteq> ll_eos lib" "\<not> n_piece < 0" "\<not> contains_stop_sequence ?t (gc_stop_tokens cfg)" "ll_decode lib dec ?b \<noteq> 0"
    | "token \<noteq> ll_eos lib" "\<not> n_piece < 0" "\<not> contains_stop_sequence ?t (gc_stop_tokens cfg)" "ll_decode lib dec ?b = 0"
    by blast
  then show ?case
  proof cases
    case 1
    then show ?thesis unfolding step by (intro exI [of _ "[]"]) auto
  next
    case 2
    then show ?thesis unfolding step by (intro exI [of _ "[?b]"]) simp
  next
    case 3
    then have "sampling_loop lib cfg np (Suc k) dec rec bytes n =
        sampling_loop lib cfg np k (dec @ [?b]) (rec @ [token]) ?t (n + 1)" unfolding step by simp
    then show ?thesis using new p by (intro exI [of _ "?b # new"]) (simp add: add.commute)
  qed
qed simp

lemma check_context_fit_Gives: "check_context_fit a b c = Gives u \<Longrightarrow> a + b \<le> c"
  by (auto simp: check_context_fit_def Let_def split: if_splits)

lemma check_context_fit_no_crash: "check_context_fit a b c \<noteq> Crash"
  by (simp add: check_context_fit_def Let_def)

lemma prompt_batch_positions [simp]: "map (\<lambda>(t, p, f). p) (prompt_batch toks) = map int [0..<length toks]"
  by (simp add: prompt_batch_def)

lemma prompt_batch_within: "length toks \<le> n \<Longrightarrow> list_all (\<lambda>(t, p, f). 0 \<le> p \<and> p < int n) (prompt_batch toks)"
  by (auto simp: prompt_batch_def list_all_iff)

definition generate_ok :: "llama_lib \<Rightarrow> llama_context \<Rightarrow> (llama_error, generation_result) run \<times> llama_context \<Rightarrow> bool" where
  "generate_ok lib c rc \<longleftrightarrow>
     (\<exists>new. lc_decoded (snd rc) = lc_decoded c @ new \<and> positions_within 0 (int (ll_n_ctx lib)) new
        \<and> (new = [] \<or> map (\<lambda>(t, p, f). p) (hd new) = map int [0..<length (hd new)]))
     \<and> safe (fst rc) (\<lambda>g. gr_n_tokens g \<le> gc_max_tokens (lc_config c))"

lemma generate_ok_same [simp]: "generate_ok lib c (Fails e, c)"
  by (auto simp: generate_ok_def)

lemma real_generate_ok:
  assumes "honest_pieces lib" "honest_tokens lib"
  shows "generate_ok lib c (real_generate lib ms prompt c)"
proof -
  obtain np buf where t: "ll_tokenize lib prompt (ll_n_ctx lib) = (np, buf)" by fastforce
  have np: "np \<le> int (length buf)" using assms(2) t by (auto simp: honest_tokens_def dest: spec [of _ prompt])
  let ?k = "gc_max_tokens (lc_config c)" let ?toks = "take (nat np) buf" let ?b = "prompt_batch ?toks"
  show ?thesis
  proof (cases "char_of (0 :: nat) \<in> set prompt \<or> np < 0 \<or> check_context_fit (nat np) ?k (ll_n_ctx lib) \<noteq> Gives ()")
    case True
    then show ?thesis using check_context_fit_no_crash [of "nat np" ?k "ll_n_ctx lib"]
      by (cases "check_context_fit (nat np) ?k (ll_n_ctx lib)") (auto simp: real_generate_def t Let_def)
  next
    case False
    then have fit: "nat np + ?k \<le> ll_n_ctx lib" and f: "char_of (0 :: nat) \<notin> set prompt" "\<not> np < 0"
      "check_context_fit (nat np) ?k (ll_n_ctx lib) = Gives ()"
      using check_context_fit_Gives [of "nat np" ?k "ll_n_ctx lib" "()"] by auto
    have nl: "\<not> length buf < nat np" using np by (simp add: not_less nat_le_iff)
    have lt: "length ?toks = nat np" using np f(2) by simp
    have within: "list_all (\<lambda>(t, p, f). 0 \<le> p \<and> p < int (ll_n_ctx lib)) ?b"
      using fit lt by (intro prompt_batch_within) simp
    obtain new where new: "snd (sampling_loop lib (lc_config c) np ?k (lc_decoded c @ [?b]) ?toks [] 0) = (lc_decoded c @ [?b]) @ new"
      "positions_within (np + int 0) (np + int (0 + ?k)) new"
      "safe (fst (sampling_loop lib (lc_config c) np ?k (lc_decoded c @ [?b]) ?toks [] 0)) (\<lambda>(t, m). m \<le> 0 + ?k)"
      using sampling_loop_spec [OF assms(1), of "lc_config c" np ?k "lc_decoded c @ [?b]" ?toks "[]" 0] by blast
    have p: "positions_within 0 (int (ll_n_ctx lib)) (?b # new)"
      using positions_within_mono [OF new(2), of 0 "int (ll_n_ctx lib)"] within fit f(2) by simp
    obtain r d where rd: "sampling_loop lib (lc_config c) np ?k (lc_decoded c @ [?b]) ?toks [] 0 = (r, d)" by fastforce
    have real: "real_generate lib ms prompt c =
      (if ll_decode lib (lc_decoded c) ?b \<noteq> 0
       then (Fails (LlText (''llama_decode failed (prompt) with code '' @ show_int (ll_decode lib (lc_decoded c) ?b))),
             c\<lparr>lc_decoded := lc_decoded c @ [?b]\<rparr>)
       else case (r, d) of (Crash, d) \<Rightarrow> (Crash, c\<lparr>lc_decoded := d\<rparr>)
         | (Fails e, d) \<Rightarrow> (Fails e, c\<lparr>lc_decoded := d\<rparr>)
         | (Gives (text_bytes, n), d) \<Rightarrow>
             (run_bind (decode_token_pieces text_bytes) (\<lambda>text.
                Gives \<lparr>gr_text = text, gr_n_tokens = n, gr_gen_time_ms = ms,
                  gr_tokens_per_sec = (if ms > 0 then f32 (f32 (f32 (of_nat n) * 1000) / f32 (of_nat ms)) else f32 (of_nat n)),
                  gr_prompt_tokens = nat np, gr_peak_mem_mb = gm_ram_mb (lc_model c)\<rparr>), c\<lparr>lc_decoded := d\<rparr>))"
      using f nl by (simp add: real_generate_def t Let_def rd)
    have dec: "d = lc_decoded c @ (?b # new)" and s: "safe r (\<lambda>(t, m). m \<le> ?k)" using new rd by simp_all
    have b0: "map (\<lambda>(t, p, f). p) (hd (?b # new)) = map int [0..<length (hd (?b # new))]"
      by (simp add: prompt_batch_def)
    have ok: "generate_ok lib c (x, c\<lparr>lc_decoded := d\<rparr>)" if "safe x (\<lambda>g. gr_n_tokens g \<le> ?k)" for x
      unfolding generate_ok_def using that p b0 dec by (auto intro!: exI [of _ "?b # new"] simp del: list.map)
    show ?thesis
    proof (cases "ll_decode lib (lc_decoded c) ?b = 0")
      case False
      then show ?thesis unfolding real generate_ok_def using within
        by (auto intro!: exI [of _ "[?b]"] simp: prompt_batch_def)
    next
      case True
      then show ?thesis unfolding real using s
        by (cases r) (auto intro!: ok safe_bind_eq [where Q = "\<lambda>_. True"] simp: decode_token_pieces_def)
    qed
  qed
qed

text \<open>C10: if the library reports as many tokens and bytes as it writes, generation never panics, every position it decodes
  lies in the context window, and at most \<open>max_tokens\<close> tokens are counted. A context keeps all it decoded in earlier calls
  while every call starts again at position 0.\<close>

theorem llama_fits_window:
  assumes "honest_pieces lib" "honest_tokens lib"
  shows "fst (llama_generate (Some lib) ms prompt c) \<noteq> Crash
    \<and> (\<exists>new. lc_decoded (snd (llama_generate (Some lib) ms prompt c)) = lc_decoded c @ new
         \<and> positions_within 0 (int (ll_n_ctx lib)) new
         \<and> (new = [] \<or> map (\<lambda>(t, p, f). p) (hd new) = map int [0..<length (hd new)]))
    \<and> (case fst (llama_generate (Some lib) ms prompt c) of Gives g \<Rightarrow> gr_n_tokens g \<le> gc_max_tokens (lc_config c) | _ \<Rightarrow> True)"
proof -
  have "generate_ok lib c (llama_generate (Some lib) ms prompt c)"
    using real_generate_ok [OF assms] by (simp add: llama_generate_def)
  then show ?thesis by (auto simp: generate_ok_def safe_def split: run.split)
qed

text \<open>A library that answers A until the limit.\<close>

definition example_lib :: llama_lib where
  "example_lib = \<lparr>ll_load_model = (\<lambda>_. Some 1), ll_new_context = (\<lambda>_. Some 1), ll_n_ctx = 512,
     ll_tokenize = (\<lambda>_ n. (2, replicate n 7)), ll_decode = (\<lambda>_ _. 0), ll_sample = (\<lambda>_ _ _ _. 5), ll_eos = 0,
     ll_piece = (\<lambda>_. (1, [65, 0]))\<rparr>"

theorem llama_fits_window_witness:
  "let c = \<lparr>lc_model = qwen_0_5b Q4K, lc_config = generation_config_default, lc_loaded = True, lc_ctx = Some 1, lc_decoded = []\<rparr>
   in fst (llama_generate (Some example_lib) 9 ''hi'' c) \<noteq> Crash
     \<and> (\<exists>new. lc_decoded (snd (llama_generate (Some example_lib) 9 ''hi'' c)) = [] @ new \<and> positions_within 0 512 new)"
  using llama_fits_window [of example_lib 9 "''hi''"
      "\<lparr>lc_model = qwen_0_5b Q4K, lc_config = generation_config_default, lc_loaded = True, lc_ctx = Some 1, lc_decoded = []\<rparr>"]
  unfolding Let_def by (fastforce simp: honest_pieces_def honest_tokens_def example_lib_def)

end
